(* ===== verification/Base.thy ===== *)
theory Base
  imports Main "HOL-Library.Word"
begin

unbundle bit_operations_syntax

text \<open>
  The prelude of the development: the machine types of the C++ program, buffers with an
  explicit capacity, and the program monad every operation is written in.

  An operation of the program is a function from a state to either a \<^emph>\<open>halt\<close> (the program
  executed undefined behaviour, left the process, or a loop model ran out of fuel) or a result
  together with the next state. The named collection \<open>prog\<close> holds the equations that run
  such a program symbolically, \<open>wp\<close> the rules that propagate a total-correctness triple,
  \<open>wlp\<close> the equations of the weakest liberal precondition.
\<close>

named_theorems prog
named_theorems wp
named_theorems wlp

subsection \<open>Machine types\<close>

type_synonym byte = "8 word"
type_synonym bytes = "8 word list"
type_synonym u8 = "8 word"
type_synonym u16 = "16 word"
type_synonym u32 = "32 word"
type_synonym u64 = "64 word"
type_synonym ptr = nat
type_synonym fd = nat

text \<open>
  The reasons an execution can stop. All but \<open>ProcessExit\<close> and \<open>OutOfFuel\<close> are undefined
  behaviour of the C++ code; \<open>OutOfFuel\<close> is never the result of the real program, and every
  fuelled loop has a lemma that says how much fuel is enough.
\<close>

datatype halt =
    UseAfterFree
  | NullDeref
  | OutOfBounds
  | UninitRead
  | DoubleFree
  | DivByZero
  | ProcessExit
  | OutOfFuel

subsection \<open>Programs\<close>

type_synonym ('w, 'a) prog = "'w \<Rightarrow> halt + 'a \<times> 'w"

definition ret :: "'a \<Rightarrow> ('w, 'a) prog" where
  "ret x w = Inr (x, w)"

definition stop :: "halt \<Rightarrow> ('w, 'a) prog" where
  "stop h w = Inl h"

definition seq :: "('w, 'a) prog \<Rightarrow> ('a \<Rightarrow> ('w, 'b) prog) \<Rightarrow> ('w, 'b) prog" where
  "seq m f w = (case m w of Inl h \<Rightarrow> Inl h | Inr r \<Rightarrow> f (fst r) (snd r))"

definition andthen :: "('w, 'a) prog \<Rightarrow> ('w, 'b) prog \<Rightarrow> ('w, 'b) prog" where
  "andthen m k = seq m (\<lambda>_. k)"

definition gets :: "('w \<Rightarrow> 'a) \<Rightarrow> ('w, 'a) prog" where
  "gets f w = Inr (f w, w)"

definition modify :: "('w \<Rightarrow> 'w) \<Rightarrow> ('w, unit) prog" where
  "modify f w = Inr ((), f w)"

definition whenM :: "bool \<Rightarrow> ('w, unit) prog \<Rightarrow> ('w, unit) prog" where
  "whenM b m = (if b then m else ret ())"

text \<open>The next answer of a script, or the default once it is used up.\<close>

definition next_or :: "'a \<Rightarrow> 'a list \<Rightarrow> 'a" where
  "next_or d xs = (case xs of [] \<Rightarrow> d | x # _ \<Rightarrow> x)"

text \<open>Read through a value that may be a null pointer or an unset cell.\<close>

definition some_or :: "halt \<Rightarrow> 'a option \<Rightarrow> ('w, 'a) prog" where
  "some_or h v = (case v of None \<Rightarrow> stop h | Some x \<Rightarrow> ret x)"

fun for_list :: "'b list \<Rightarrow> ('b \<Rightarrow> ('w, unit) prog) \<Rightarrow> ('w, unit) prog" where
  "for_list [] f = ret ()"
| "for_list (x # xs) f = seq (f x) (\<lambda>_. for_list xs f)"

fun map_m :: "('b \<Rightarrow> ('w, 'a) prog) \<Rightarrow> 'b list \<Rightarrow> ('w, 'a list) prog" where
  "map_m f [] = ret []"
| "map_m f (x # xs) = seq (f x) (\<lambda>y. seq (map_m f xs) (\<lambda>ys. ret (y # ys)))"

text \<open>The first element that passes a test which itself runs a program.\<close>

fun find_m :: "('b \<Rightarrow> ('w, bool) prog) \<Rightarrow> 'b list \<Rightarrow> ('w, 'b option) prog" where
  "find_m t [] = ret None"
| "find_m t (x # xs) = seq (t x) (\<lambda>b. if b then ret (Some x) else find_m t xs)"

lemma ret_run [simp, prog]: "ret x w = Inr (x, w)"
  by (simp add: ret_def)

lemma stop_run [simp, prog]: "stop h w = Inl h"
  by (simp add: stop_def)

lemma gets_run [simp, prog]: "gets f w = Inr (f w, w)"
  by (simp add: gets_def)

lemma modify_run [simp, prog]: "modify f w = Inr ((), f w)"
  by (simp add: modify_def)

lemma seq_Inr [prog]: "m w = Inr (x, w') \<Longrightarrow> seq m f w = f x w'"
  by (simp add: seq_def)

lemma seq_Inr_bool [prog]:
  "m w = Inr (False, w') \<Longrightarrow> seq m f w = f False w'"
  "m w = Inr (True, w') \<Longrightarrow> seq m f w = f True w'"
  by (simp_all add: seq_def)

lemmas seq_run = seq_Inr seq_Inr_bool

lemma seq_Inl [prog]: "m w = Inl h \<Longrightarrow> seq m f w = Inl h"
  by (simp add: seq_def)

lemma seq_ret [simp]: "seq (ret x) f = f x"
  by (simp add: seq_def fun_eq_iff)

lemma seq_gets [simp]: "seq (gets g) f w = f (g w) w"
  by (simp add: seq_def)

lemma seq_modify [simp]: "seq (modify g) f w = f () (g w)"
  by (simp add: seq_def)

lemma seq_stop [simp]: "seq (stop h) f = stop h"
  by (simp add: seq_def fun_eq_iff)

lemma seq_assoc: "seq (seq m f) g = seq m (\<lambda>x. seq (f x) g)"
  by (auto simp: seq_def fun_eq_iff split: sum.splits)

lemma andthen_run [prog]: "andthen m k w = seq m (\<lambda>_. k) w"
  by (simp add: andthen_def)

lemma whenM_run [simp, prog]: "whenM b m w = (if b then m w else Inr ((), w))"
  by (simp add: whenM_def)

lemma some_or_run [simp, prog]:
  "some_or h None w = Inl h" "some_or h (Some x) w = Inr (x, w)"
  by (simp_all add: some_or_def)

lemma seq_eq_Inr:
  "seq m f w = Inr r \<longleftrightarrow> (\<exists>x w'. m w = Inr (x, w') \<and> f x w' = Inr r)"
  by (auto simp: seq_def split: sum.splits)

lemma seq_if [simp]: "seq (if b then m else n) f w = (if b then seq m f w else seq n f w)"
  by simp

text \<open>
  A triple: from a state satisfying \<open>P\<close> the program returns (it may leave the process, but
  executes no undefined behaviour and does not run out of fuel) and the result satisfies \<open>Q\<close>.
\<close>

definition triple :: "('w \<Rightarrow> bool) \<Rightarrow> ('w, 'a) prog \<Rightarrow> ('a \<Rightarrow> 'w \<Rightarrow> bool) \<Rightarrow> bool" where
  "triple P m Q \<longleftrightarrow>
     (\<forall>w. P w \<longrightarrow> (case m w of Inl h \<Rightarrow> h = ProcessExit | Inr r \<Rightarrow> Q (fst r) (snd r)))"

lemma triple_seq [wp]:
  assumes "triple P m R" "\<And>x. triple (R x) (f x) Q"
  shows "triple P (seq m f) Q"
  using assms by (fastforce simp: triple_def seq_def split: sum.splits)

lemma triple_ret [wp]: "triple (Q x) (ret x) Q"
  by (simp add: triple_def)

lemma triple_gets [wp]: "triple (\<lambda>w. Q (f w) w) (gets f) Q"
  by (simp add: triple_def)

lemma triple_modify [wp]: "triple (\<lambda>w. Q () (f w)) (modify f) Q"
  by (simp add: triple_def)

lemma triple_exit [wp]: "triple P (stop ProcessExit) Q"
  by (simp add: triple_def)

lemma triple_pre: "triple P m Q \<Longrightarrow> (\<And>w. P' w \<Longrightarrow> P w) \<Longrightarrow> triple P' m Q"
  by (simp add: triple_def)

lemma triple_post: "triple P m Q \<Longrightarrow> (\<And>x w. Q x w \<Longrightarrow> Q' x w) \<Longrightarrow> triple P m Q'"
  by (fastforce simp: triple_def split: sum.splits)

lemma triple_run: "triple P m Q \<Longrightarrow> P w \<Longrightarrow> m w = Inr (x, w') \<Longrightarrow> Q x w'"
  by (fastforce simp: triple_def)

lemma triple_no_ub: "triple P m Q \<Longrightarrow> P w \<Longrightarrow> m w = Inl h \<Longrightarrow> h = ProcessExit"
  by (fastforce simp: triple_def)

lemma triple_for_list:
  assumes "\<And>x. x \<in> set xs \<Longrightarrow> triple P (f x) (\<lambda>_. P)"
  shows "triple P (for_list xs f) (\<lambda>_. P)"
  using assms
proof (induction xs)
  case Nil
  show ?case by (simp add: triple_def)
next
  case (Cons x xs)
  have "triple P (seq (f x) (\<lambda>_. for_list xs f)) (\<lambda>_. P)"
    by (rule triple_seq [where R = "\<lambda>_. P"]) (use Cons in auto)
  then show ?case by simp
qed

lemma map_m_all2:
  assumes "\<And>x w. \<exists>y w'. f x w = Inr (y, w') \<and> Q x y"
  shows "\<exists>ys w'. map_m f xs w = Inr (ys, w') \<and> list_all2 Q xs ys"
proof (induction xs arbitrary: w)
  case Nil
  show ?case by simp
next
  case (Cons x xs)
  obtain y w1 where y: "f x w = Inr (y, w1)" "Q x y" using assms by blast
  obtain ys w2 where "map_m f xs w1 = Inr (ys, w2)" "list_all2 Q xs ys" using Cons.IH by blast
  with y show ?case by (simp add: seq_Inr)
qed

text \<open>
  What holds of every returning run. \<open>wlp m Q s\<close> unfolds along the program; the collection \<open>wlp\<close> holds the
  equations, so that simplification leaves one goal for each path.
\<close>

definition wlp :: "('w, 'a) prog \<Rightarrow> ('a \<Rightarrow> 'w \<Rightarrow> bool) \<Rightarrow> 'w \<Rightarrow> bool" where
  "wlp m Q w \<longleftrightarrow> (case m w of Inl h \<Rightarrow> True | Inr r \<Rightarrow> Q (fst r) (snd r))"

lemma wlp_ret [wlp]: "wlp (ret x) Q w = Q x w"
  by (simp add: wlp_def)

lemma wlp_stop [wlp]: "wlp (stop h) Q w"
  by (simp add: wlp_def)

lemma wlp_seq [wlp]: "wlp (seq m f) Q w = wlp m (\<lambda>x. wlp (f x) Q) w"
  by (simp add: wlp_def seq_def split: sum.splits)

lemma wlp_gets [wlp]: "wlp (gets f) Q w = Q (f w) w"
  by (simp add: wlp_def)

lemma wlp_modify [wlp]: "wlp (modify f) Q w = Q () (f w)"
  by (simp add: wlp_def)

lemma wlp_whenM [wlp]: "wlp (whenM b m) Q w = (if b then wlp m Q w else Q () w)"
  by (simp add: wlp_def)

lemma wlp_if [wlp]: "wlp (if b then m else n) Q w = (if b then wlp m Q w else wlp n Q w)"
  by simp

lemma wlp_mono: "wlp m Q w \<Longrightarrow> (\<And>x w'. Q x w' \<Longrightarrow> R x w') \<Longrightarrow> wlp m R w"
  by (cases "m w") (auto simp: wlp_def)

lemma wlp_run: "wlp m Q w \<Longrightarrow> m w = Inr (x, w') \<Longrightarrow> Q x w'"
  by (simp add: wlp_def)

text \<open>Sequencing with an intermediate invariant.\<close>

lemma wlp_then: "wlp m R s \<Longrightarrow> (\<And>x s'. R x s' \<Longrightarrow> wlp (f x) Q s') \<Longrightarrow> wlp (seq m f) Q s"
  unfolding wlp_seq by (rule wlp_mono)

lemma wlp_for_list:
  assumes "\<And>x w. x \<in> set xs \<Longrightarrow> I w \<Longrightarrow> wlp (f x) (\<lambda>_. I) w" "I w"
  shows "wlp (for_list xs f) (\<lambda>_. I) w"
  using assms
proof (induction xs arbitrary: w)
  case Nil
  then show ?case by (simp add: wlp_def)
next
  case (Cons x xs)
  have "wlp (f x) (\<lambda>_. I) w" using Cons.prems by simp
  then have "wlp (f x) (\<lambda>_. wlp (for_list xs f) (\<lambda>_. I)) w"
    by (rule wlp_mono) (use Cons in auto)
  then show ?case by (simp add: wlp_seq)
qed

subsection \<open>Buffers\<close>

text \<open>
  A heap buffer is the list of its bytes that were written so far, from its start; the
  capacity is kept by its owner. Reading past what was written is an uninitialised read,
  writing past the capacity is out of bounds.
\<close>

definition buf_read :: "nat \<Rightarrow> nat \<Rightarrow> bytes \<Rightarrow> ('w, bytes) prog" where
  "buf_read off n buf =
     (if off + n \<le> length buf then ret (take n (drop off buf)) else stop UninitRead)"

definition buf_put :: "nat \<Rightarrow> bytes \<Rightarrow> bytes \<Rightarrow> bytes" where
  "buf_put off xs buf = take off buf @ xs @ drop (off + length xs) buf"

definition buf_write :: "nat \<Rightarrow> nat \<Rightarrow> bytes \<Rightarrow> bytes \<Rightarrow> ('w, bytes) prog" where
  "buf_write cap off xs buf =
     (if off + length xs \<le> cap then ret (buf_put off xs buf) else stop OutOfBounds)"

lemma length_buf_put:
  "off \<le> length buf \<Longrightarrow> length (buf_put off xs buf) = max (length buf) (off + length xs)"
  by (auto simp: buf_put_def)

lemma take_buf_put [simp]:
  "off \<le> length buf \<Longrightarrow> take (off + length xs) (buf_put off xs buf) = take off buf @ xs"
  by (auto simp: buf_put_def min_def)

lemma take_buf_put_prefix [simp]:
  "off \<le> length buf \<Longrightarrow> n \<le> off \<Longrightarrow> take n (buf_put off xs buf) = take n buf"
  by (auto simp: buf_put_def min_def)

lemma buf_put_zero: "buf_put 0 xs buf = xs @ drop (length xs) buf"
  by (simp add: buf_put_def)

lemma buf_read_run [prog]:
  "off + n \<le> length buf \<Longrightarrow> buf_read off n buf w = Inr (take n (drop off buf), w)"
  by (simp add: buf_read_def)

lemma buf_write_run [prog]:
  "off + length xs \<le> cap \<Longrightarrow> buf_write cap off xs buf w = Inr (buf_put off xs buf, w)"
  by (simp add: buf_write_def)

subsection \<open>Programs that never run out of fuel\<close>

definition fueled :: "('w, 'a) prog \<Rightarrow> bool" where
  "fueled m \<longleftrightarrow> (\<forall>w. m w \<noteq> Inl OutOfFuel)"

lemma fueledD: "fueled m \<Longrightarrow> m w = Inl OutOfFuel \<Longrightarrow> False"
  by (simp add: fueled_def)

lemma seq_fuel:
  "m w \<noteq> Inl OutOfFuel \<Longrightarrow> (\<And>x w'. m w = Inr (x, w') \<Longrightarrow> f x w' \<noteq> Inl OutOfFuel) \<Longrightarrow> seq m f w \<noteq> Inl OutOfFuel"
  by (auto simp: seq_def split: sum.splits)

lemma fueled_seq: "fueled m \<Longrightarrow> (\<And>x. fueled (f x)) \<Longrightarrow> fueled (seq m f)"
  unfolding fueled_def by (metis seq_fuel)

lemma fueled_basic:
  "fueled (ret x)" "h \<noteq> OutOfFuel \<Longrightarrow> fueled (stop h)" "fueled (gets g)" "fueled (modify u)"
  "h \<noteq> OutOfFuel \<Longrightarrow> fueled (some_or h v)" "fueled (buf_read off n b)" "fueled (buf_write cap off bs b)"
  by (auto simp: fueled_def some_or_def buf_read_def buf_write_def split: option.splits)

lemma fueled_if: "fueled m \<Longrightarrow> fueled n \<Longrightarrow> fueled (if b then m else n)"
  by simp

lemma fueled_option: "fueled m \<Longrightarrow> (\<And>x. fueled (f x)) \<Longrightarrow> fueled (case v of None \<Rightarrow> m | Some x \<Rightarrow> f x)"
  by (simp split: option.splits)

lemma fueled_list: "fueled m \<Longrightarrow> (\<And>x xs. fueled (f x xs)) \<Longrightarrow> fueled (case v of [] \<Rightarrow> m | x # xs \<Rightarrow> f x xs)"
  by (simp split: list.splits)

lemma fueled_for_list: "(\<And>x. fueled (f x)) \<Longrightarrow> fueled (for_list xs f)"
  by (induction xs) (auto intro: fueled_seq fueled_basic)

subsection \<open>Frames\<close>

text \<open>
  \<open>keeps R m\<close>: every returning run of \<open>m\<close> relates the state before and after by \<open>R\<close>. The
  locale is the contract of a frame condition; its rules walk over a program.
\<close>

definition keeps :: "('w \<Rightarrow> 'w \<Rightarrow> bool) \<Rightarrow> ('w, 'a) prog \<Rightarrow> bool" where
  "keeps R m \<longleftrightarrow> (\<forall>w x w'. m w = Inr (x, w') \<longrightarrow> R w w')"

lemma keepsD: "keeps R m \<Longrightarrow> m w = Inr (x, w') \<Longrightarrow> R w w'"
  by (simp add: keeps_def)

locale frame_rel =
  fixes R :: "'w \<Rightarrow> 'w \<Rightarrow> bool"
  assumes frame_refl: "R w w"
    and frame_trans: "R u v \<Longrightarrow> R v w \<Longrightarrow> R u w"
begin

lemma keeps_ret: "keeps R (ret x)"
  by (simp add: keeps_def frame_refl)

lemma keeps_stop: "keeps R (stop h)"
  by (simp add: keeps_def)

lemma keeps_gets: "keeps R (gets f)"
  by (simp add: keeps_def frame_refl)

lemma keeps_some_or: "keeps R (some_or h v)"
  by (simp add: keeps_def some_or_def frame_refl split: option.splits)

lemma keeps_seq: "keeps R m \<Longrightarrow> (\<And>x. keeps R (f x)) \<Longrightarrow> keeps R (seq m f)"
  unfolding keeps_def by (auto simp: seq_eq_Inr, blast intro: frame_trans)

lemma keeps_if: "keeps R m \<Longrightarrow> keeps R n \<Longrightarrow> keeps R (if b then m else n)"
  by simp

lemma keeps_when: "keeps R m \<Longrightarrow> keeps R (whenM b m)"
  by (simp add: whenM_def keeps_ret)

lemma keeps_option: "keeps R m \<Longrightarrow> (\<And>x. keeps R (f x)) \<Longrightarrow> keeps R (case v of None \<Rightarrow> m | Some x \<Rightarrow> f x)"
  by (simp split: option.splits)

lemma keeps_list:
  "keeps R m \<Longrightarrow> (\<And>x xs. keeps R (f x xs)) \<Longrightarrow> keeps R (case v of [] \<Rightarrow> m | x # xs \<Rightarrow> f x xs)"
  by (simp split: list.splits)

lemma keeps_for_list: "(\<And>x. keeps R (f x)) \<Longrightarrow> keeps R (for_list xs f)"
  by (induction xs) (auto intro: keeps_ret keeps_seq)

lemma keeps_map_m: "(\<And>x. keeps R (f x)) \<Longrightarrow> keeps R (map_m f xs)"
  by (induction xs) (auto intro!: keeps_ret keeps_seq)

lemma keeps_find_m: "(\<And>x. keeps R (t x)) \<Longrightarrow> keeps R (find_m t xs)"
  by (induction xs) (auto intro!: keeps_ret keeps_seq)

lemma keeps_buf_read: "keeps R (buf_read off n buf)"
  by (simp add: keeps_def buf_read_def frame_refl)

lemma keeps_buf_write: "keeps R (buf_write cap off bs buf)"
  by (simp add: keeps_def buf_write_def frame_refl)

lemmas keeps_rules = keeps_ret keeps_stop keeps_gets keeps_some_or keeps_seq keeps_if keeps_when
  keeps_option keeps_list keeps_for_list keeps_map_m keeps_find_m keeps_buf_read keeps_buf_write

end

subsection \<open>Lists and words\<close>

lemma unat_of_nat_small: "n < 2 ^ LENGTH('a::len) \<Longrightarrow> unat (of_nat n :: 'a word) = n"
  by (simp add: unat_of_nat take_bit_nat_eq_self)

lemma unat_add_small:
  "unat (a :: 'a::len word) + unat b < 2 ^ LENGTH('a) \<Longrightarrow> unat (a + b) = unat a + unat b"
  by (simp add: unat_word_ariths)

lemma unat_sub_small: "b \<le> (a :: 'a::len word) \<Longrightarrow> unat (a - b) = unat a - unat b"
  by (rule unat_sub)

lemma sint_small:
  assumes "unat (x :: 32 word) < 2 ^ 31"
  shows "sint x = int (unat x)"
proof -
  have u: "uint x = int (unat x)" by (rule uint_nat)
  have "int (unat x) < int (2 ^ 31)" using assms by (simp only: of_nat_less_iff)
  then have lt: "uint x < 2 ^ 31" unfolding u by (simp only: of_nat_power of_nat_numeral)
  have "0 \<le> uint x" unfolding u by (rule of_nat_0_le_iff)
  then have "- (2 ^ 31) \<le> uint x" by (rule order_trans [rotated]) simp
  then have "signed_take_bit 31 (uint x) = uint x"
    using lt by (rule signed_take_bit_int_eq_self)
  then have "sint x = uint x"
    by (simp add: sint_uint)
  also have "\<dots> = int (unat x)" by (rule u)
  finally show ?thesis .
qed

end
