(* ===== verification/Collections.thy ===== *)
theory Collections
  imports Base "HOL-Library.Multiset"
begin

text \<open>
  The pointer collections of utils.cpp (\<open>struct collection\<close>, \<open>collection_*\<close>) and the loops of
  the \<open>FOREACH\<close> macro of utils.h. A collection is the list of its slots, \<open>None\<close> for a null
  pointer; its length is the field \<open>capacity\<close>, and a freed collection (null list, capacity 0)
  is the empty list. \<open>malloc\<close> and \<open>realloc\<close> succeed.
  The locale \<open>bag_store\<close> is the interface the other components rely on: a multiset of
  elements. It is interpreted on the collection functions at the end.
\<close>

type_synonym 'a collection = "'a option list"

definition CAPACITY_STEP :: nat where
  "CAPACITY_STEP = 8"

definition collection_init :: "'a collection" where
  "collection_init = replicate CAPACITY_STEP None"

definition collection_free :: "'a collection \<Rightarrow> 'a collection" where
  "collection_free col = []"

text \<open>The first free slot is taken; a full collection grows by one step.\<close>

fun collection_add :: "'a collection \<Rightarrow> 'a \<Rightarrow> 'a collection" where
  "collection_add [] e = Some e # replicate (CAPACITY_STEP - 1) None"
| "collection_add (None # col) e = Some e # col"
| "collection_add (Some x # col) e = Some x # collection_add col e"

text \<open>Only the first slot that holds the element is cleared; a missing element is only logged.\<close>

fun collection_remove :: "'a collection \<Rightarrow> 'a \<Rightarrow> 'a collection" where
  "collection_remove [] e = []"
| "collection_remove (s # col) e = (if s = Some e then None # col else s # collection_remove col e)"

fun collection_count :: "'a collection \<Rightarrow> nat" where
  "collection_count [] = 0"
| "collection_count (s # col) = (if s \<noteq> None then Suc (collection_count col) else collection_count col)"

definition collection_copy :: "'a collection \<Rightarrow> 'a collection" where
  "collection_copy src = src"

text \<open>The elements in the order in which \<open>FOREACH\<close> visits them.\<close>

fun elems :: "'a collection \<Rightarrow> 'a list" where
  "elems [] = []"
| "elems (None # col) = elems col"
| "elems (Some x # col) = x # elems col"

subsection \<open>Loops over a collection\<close>

text \<open>
  A \<open>FOREACH\<close> that looks for an element and breaks: every visited pointer is dereferenced in
  the heap \<open>h\<close>, so a dangling pointer before the match is a use after free.
\<close>

fun find_slot :: "(ptr \<Rightarrow> 'r option) \<Rightarrow> ('r \<Rightarrow> bool) \<Rightarrow> ptr list \<Rightarrow> halt + ptr option" where
  "find_slot h P [] = Inr None"
| "find_slot h P (p # ps) =
     (case h p of
        None \<Rightarrow> Inl UseAfterFree
      | Some r \<Rightarrow> if P r then Inr (Some p) else find_slot h P ps)"

definition find_in :: "('w \<Rightarrow> ptr \<Rightarrow> 'r option) \<Rightarrow> ('r \<Rightarrow> bool) \<Rightarrow> ptr collection \<Rightarrow> ('w, ptr option) prog" where
  "find_in heap P col w =
     (case find_slot (heap w) P (elems col) of Inl e \<Rightarrow> Inl e | Inr r \<Rightarrow> Inr (r, w))"

text \<open>
  A \<open>FOREACH\<close> whose body changes the state. Slot and capacity are read again in every
  iteration, since a body may clear slots of the collection it runs over; no body of the
  program adds to it, so the capacity at entry bounds the iterations.
\<close>

fun foreach_from :: "('w, 'a collection) prog \<Rightarrow> ('a \<Rightarrow> ('w, unit) prog) \<Rightarrow> nat \<Rightarrow> nat \<Rightarrow> ('w, unit) prog" where
  "foreach_from col body i 0 = ret ()"
| "foreach_from col body i (Suc n) =
     seq col (\<lambda>c.
       if i < length c
       then seq (case c ! i of None \<Rightarrow> ret () | Some x \<Rightarrow> body x)
              (\<lambda>_. foreach_from col body (Suc i) n)
       else ret ())"

definition foreach :: "('w, 'a collection) prog \<Rightarrow> ('a \<Rightarrow> ('w, unit) prog) \<Rightarrow> ('w, unit) prog" where
  "foreach col body = seq col (\<lambda>c. foreach_from col body 0 (length c))"

subsection \<open>Elements\<close>

lemma elems_replicate_None [simp]: "elems (replicate n None) = []"
  by (induction n) auto

lemma elems_init [simp]: "elems collection_init = []"
  by (simp add: collection_init_def)

lemma set_elems: "x \<in> set (elems col) \<longleftrightarrow> Some x \<in> set col"
  by (induction col rule: elems.induct) auto

lemma mset_elems_add [simp]: "mset (elems (collection_add col e)) = add_mset e (mset (elems col))"
  by (induction col e rule: collection_add.induct) auto

lemma mset_elems_remove [simp]: "mset (elems (collection_remove col e)) = mset (elems col) - {#e#}"
proof (induction col e rule: collection_remove.induct)
  case (2 s col e)
  then show ?case
    by (cases s) (auto simp: elems.simps)
qed simp

lemma collection_count_elems [simp]: "collection_count col = length (elems col)"
  by (induction col rule: elems.induct) auto

lemma length_add:
  "length (collection_add col e) =
     (if None \<in> set col then length col else length col + CAPACITY_STEP)"
  by (induction col e rule: collection_add.induct) (auto simp: CAPACITY_STEP_def)

lemma length_remove [simp]: "length (collection_remove col e) = length col"
  by (induction col e rule: collection_remove.induct) auto

text \<open>Adding and removing leave every other slot where it is.\<close>

lemma add_keeps_slot: "i < length col \<Longrightarrow> col ! i = Some x \<Longrightarrow> collection_add col e ! i = Some x"
proof (induction col e arbitrary: i rule: collection_add.induct)
  case (3 y col e)
  then show ?case by (cases i) auto
qed (auto simp: nth_Cons split: nat.splits)

lemma remove_keeps_slot:
  "i < length col \<Longrightarrow> col ! i = Some x \<Longrightarrow> x \<noteq> e \<Longrightarrow> collection_remove col e ! i = Some x"
  by (induction col e arbitrary: i rule: collection_remove.induct) (auto simp: nth_Cons split: nat.splits)

lemma remove_clears_slot:
  "i < length col \<Longrightarrow> col ! i = None \<Longrightarrow> collection_remove col e ! i = None"
  by (induction col e arbitrary: i rule: collection_remove.induct) (auto simp: nth_Cons split: nat.splits)

subsection \<open>Loops whose body clears slots\<close>

text \<open>
  A loop whose body leaves the collection alone or removes the element it was given visits every
  element that was there at the start, in order: removing the current element skips no other.
\<close>

lemma elems_append [simp]: "elems (xs @ ys) = elems xs @ elems ys"
  by (induction xs rule: elems.induct) auto

lemma remove_at: "x \<notin> set (elems pre) \<Longrightarrow> collection_remove (pre @ Some x # post) x = pre @ None # post"
  by (induction pre rule: elems.induct) auto

lemma foreach_from_run:
  assumes "\<forall>x w w'. body x w = Inr ((), w') \<longrightarrow> L w' = L w \<or> L w' = collection_remove (L w) x"
    and "length (L w) = i + n" "distinct (elems (L w))"
  shows "foreach_from (gets L) body i n w = for_list (elems (drop i (L w))) body w"
  using assms(2,3)
proof (induction n arbitrary: i w)
  case 0
  then show ?case by simp
next
  case (Suc n)
  let ?pre = "take i (L w)" and ?post = "drop (Suc i) (L w)"
  have split: "L w = ?pre @ L w ! i # ?post" "drop i (L w) = L w ! i # ?post"
    using Suc.prems(1) by (simp_all add: id_take_nth_drop Cons_nth_drop_Suc)
  have i: "i < length (L w)" using Suc.prems(1) by simp
  show ?case
  proof (cases "L w ! i")
    case None
    then show ?thesis
      using Suc.IH [of w "Suc i"] Suc.prems i split(2) by (simp add: seq_Inr)
  next
    case (Some x)
    have next_ok: "foreach_from (gets L) body (Suc i) n w' = for_list (elems ?post) body w'" if b: "body x w = Inr ((), w')" for w'
    proof -
      have "x \<notin> set (elems ?pre)" using Suc.prems(2) Some by (subst (asm) split(1)) auto
      then have rem: "collection_remove (L w) x = ?pre @ None # ?post"
        using Some split(1) remove_at by metis
      have sub: "distinct (elems (?pre @ None # ?post))" using Suc.prems(2) Some by (subst (asm) split(1)) auto
      have "L w' = L w \<or> L w' = ?pre @ None # ?post" using assms(1) b rem by metis
      then have "length (L w') = Suc i + n" "distinct (elems (L w'))" "drop (Suc i) (L w') = ?post"
        using Suc.prems sub i by (auto simp: drop_Suc_Cons)
      then show ?thesis using Suc.IH by metis
    qed
    have "foreach_from (gets L) body i (Suc n) w = seq (body x) (\<lambda>_. foreach_from (gets L) body (Suc i) n) w"
      using Some i by simp
    also have "\<dots> = seq (body x) (\<lambda>_. for_list (elems ?post) body) w"
      unfolding seq_def using next_ok by (auto split: sum.split)
    also have "\<dots> = for_list (elems (drop i (L w))) body w"
      using Some split(2) by simp
    finally show ?thesis .
  qed
qed

lemma foreach_run:
  assumes "\<forall>x w w'. body x w = Inr ((), w') \<longrightarrow> L w' = L w \<or> L w' = collection_remove (L w) x"
    and "distinct (elems (L w))"
  shows "foreach (gets L) body w = for_list (elems (L w)) body w"
  using foreach_from_run [OF assms(1), of w 0 "length (L w)"] assms(2) by (simp add: foreach_def)

subsection \<open>A loop that leaves its list alone\<close>

lemma foreach_from_steps:
  assumes "\<And>P v. Inv P v \<Longrightarrow> col v = Inr (c, v)"
    and "\<And>P x v. x \<in> set (elems c) \<Longrightarrow> Inv P v \<Longrightarrow>
       body x v = Inl ProcessExit \<or> (\<exists>v'. body x v = Inr ((), v') \<and> Inv (insert x P) v')"
    and "Inv P w" "i + n = length c"
  shows "foreach_from col body i n w = Inl ProcessExit \<or>
    (\<exists>w'. foreach_from col body i n w = Inr ((), w') \<and> Inv (P \<union> set (elems (drop i c))) w')"
  using assms(3,4)
proof (induction n arbitrary: i P w)
  case 0
  then show ?case by simp
next
  case (Suc n)
  have i: "i < length c" "drop i c = c ! i # drop (Suc i) c" using Suc.prems(2) by (simp_all add: Cons_nth_drop_Suc)
  note col = assms(1) [OF Suc.prems(1)]
  show ?case
  proof (cases "c ! i")
    case None
    then show ?thesis using Suc.IH [OF Suc.prems(1), of "Suc i"] Suc.prems(2) i col by (simp add: seq_Inr)
  next
    case (Some x)
    then have "x \<in> set (elems c)" using i(1) by (auto simp: set_elems dest: nth_mem)
    from assms(2) [OF this Suc.prems(1)] show ?thesis
    proof (elim disjE exE conjE)
      assume "body x w = Inl ProcessExit"
      then show ?thesis using col i(1) Some by (simp add: seq_Inr seq_Inl)
    next
      fix w1 assume w1: "body x w = Inr ((), w1)" "Inv (insert x P) w1"
      then have "foreach_from col body i (Suc n) w = foreach_from col body (Suc i) n w1"
        using col i(1) Some by (simp add: seq_Inr)
      with Suc.IH [OF w1(2), of "Suc i"] Suc.prems(2) show ?thesis unfolding i(2) Some by simp
    qed
  qed
qed

lemma foreach_steps:
  assumes "\<And>P v. Inv P v \<Longrightarrow> col v = Inr (c, v)"
    and "\<And>P x v. x \<in> set (elems c) \<Longrightarrow> Inv P v \<Longrightarrow>
       body x v = Inl ProcessExit \<or> (\<exists>v'. body x v = Inr ((), v') \<and> Inv (insert x P) v')"
    and "Inv {} w"
  shows "foreach col body w = Inl ProcessExit \<or> (\<exists>w'. foreach col body w = Inr ((), w') \<and> Inv (set (elems c)) w')"
  using foreach_from_steps [of Inv col c body "{}" w 0 "length c", OF assms(1,2,3)] assms(1) [OF assms(3)]
  by (simp add: foreach_def seq_Inr)

subsection \<open>The interface: a bag of elements\<close>

locale bag_store =
  fixes empty :: "'c"
    and add :: "'c \<Rightarrow> 'a \<Rightarrow> 'c"
    and remove :: "'c \<Rightarrow> 'a \<Rightarrow> 'c"
    and contents :: "'c \<Rightarrow> 'a list"
    and count :: "'c \<Rightarrow> nat"
  assumes contents_empty: "contents empty = []"
    and contents_add: "mset (contents (add c x)) = add_mset x (mset (contents c))"
    and contents_remove: "mset (contents (remove c x)) = mset (contents c) - {#x#}"
    and count_contents: "count c = length (contents c)"
begin

lemma set_add: "set (contents (add c x)) = insert x (set (contents c))"
  using contents_add [of c x] by (metis set_mset_mset set_mset_add_mset_insert)

lemma distinct_add: "distinct (contents c) \<Longrightarrow> x \<notin> set (contents c) \<Longrightarrow> distinct (contents (add c x))"
  using contents_add [of c x] by (metis distinct.simps(2) mset.simps(2) mset_eq_imp_distinct_iff)

lemma distinct_remove: "distinct (contents c) \<Longrightarrow> distinct (contents (remove c x))"
  by (metis contents_remove mset_remove1 mset_eq_imp_distinct_iff distinct_remove1)

lemma set_remove: "distinct (contents c) \<Longrightarrow> set (contents (remove c x)) = set (contents c) - {x}"
  by (metis contents_remove mset_remove1 mset_eq_setD set_remove1_eq)

lemma set_remove_subset: "set (contents (remove c x)) \<subseteq> set (contents c)"
  by (metis contents_remove mset_remove1 mset_eq_setD set_remove1_subset)

lemma remove_add: "mset (contents (remove (add c x) x)) = mset (contents c)"
  by (simp add: contents_remove contents_add)

lemma count_add: "count (add c x) = Suc (count c)"
  by (metis count_contents contents_add size_mset size_add_mset)

lemma count_remove: "x \<in> set (contents c) \<Longrightarrow> Suc (count (remove c x)) = count c"
  by (metis count_contents contents_remove size_mset size_Suc_Diff1 set_mset_mset)

lemma remove_absent: "x \<notin> set (contents c) \<Longrightarrow> mset (contents (remove c x)) = mset (contents c)"
  by (metis contents_remove diff_single_trivial set_mset_mset)

text \<open>A whole run of operations is the same run on multisets.\<close>

lemma run_refines:
  "mset (contents (fold (\<lambda>op c. case op of Inl x \<Rightarrow> add c x | Inr x \<Rightarrow> remove c x) ops c)) =
   fold (\<lambda>op m. case op of Inl x \<Rightarrow> add_mset x m | Inr x \<Rightarrow> m - {#x#}) ops (mset (contents c))"
  by (induction ops arbitrary: c) (auto simp: contents_add contents_remove split: sum.splits)

end

interpretation collection: bag_store
  "collection_init :: 'a collection" collection_add collection_remove elems collection_count
  by unfold_locales auto

lemmas set_elems_add [simp] = collection.set_add
lemmas distinct_elems_add [intro] = collection.distinct_add
lemmas distinct_elems_remove [intro] = collection.distinct_remove
lemmas set_elems_remove = collection.set_remove

subsection \<open>Searching\<close>

lemma find_slot_Some:
  "find_slot h P ps = Inr (Some p) \<Longrightarrow> p \<in> set ps \<and> (\<exists>r. h p = Some r \<and> P r)"
  by (induction ps) (auto split: option.splits if_splits)

lemma find_slot_None:
  "find_slot h P ps = Inr None \<longleftrightarrow> (\<forall>p \<in> set ps. \<exists>r. h p = Some r \<and> \<not> P r)"
  by (induction ps) (auto split: option.splits if_splits)

lemma find_slot_alive:
  "(\<And>p. p \<in> set ps \<Longrightarrow> h p \<noteq> None) \<Longrightarrow> \<exists>r. find_slot h P ps = Inr r"
  by (induction ps) (auto split: option.splits)

lemma find_slot_unique:
  assumes "\<And>p. p \<in> set ps \<Longrightarrow> h p \<noteq> None"
    and "p \<in> set ps" "h p = Some r" "P r"
    and "\<And>q s. q \<in> set ps \<Longrightarrow> h q = Some s \<Longrightarrow> P s \<Longrightarrow> q = p"
  shows "find_slot h P ps = Inr (Some p)"
  using assms
proof (induction ps)
  case Nil
  then show ?case by simp
next
  case (Cons q qs)
  obtain s where s: "h q = Some s" using Cons.prems(1) [of q] by auto
  show ?case
  proof (cases "P s")
    case True
    then have "q = p" using Cons.prems(5) [of q s] s by simp
    with s True show ?thesis by simp
  next
    case False
    then have "p \<in> set qs" using Cons.prems(2,3,4) s by auto
    then have "find_slot h P qs = Inr (Some p)"
      using Cons.prems by (intro Cons.IH) auto
    with s False show ?thesis by simp
  qed
qed

text \<open>C23: A collection is a bag: any run of additions and removals, starting from the empty
  collection, holds as many copies of each element as the same run on multisets, and
  \<open>collection_count\<close> is its size. Removing an element that is absent changes nothing; of several
  copies one is removed.\<close>

theorem collection_is_bag:
  "mset (elems (fold (\<lambda>op c. case op of Inl x \<Rightarrow> collection_add c x | Inr x \<Rightarrow> collection_remove c x) ops collection_init)) =
     fold (\<lambda>op m. case op of Inl x \<Rightarrow> add_mset x m | Inr x \<Rightarrow> m - {#x#}) ops {#} \<and>
   collection_count (fold (\<lambda>op c. case op of Inl x \<Rightarrow> collection_add c x | Inr x \<Rightarrow> collection_remove c x) ops collection_init) =
     size (fold (\<lambda>op m. case op of Inl x \<Rightarrow> add_mset x m | Inr x \<Rightarrow> m - {#x#}) ops {#})"
  using collection.run_refines [of ops collection_init]
  by (simp only: collection.contents_empty mset.simps collection.count_contents flip: size_mset)

end
