(* ===== verification/Wire.thy ===== *)
theory Wire
  imports Base "HOL-Library.Monad_Syntax"
begin

text \<open>
  The wire formats: the byte layout of the structs that device.cpp and client.cpp overlay on
  their buffers. \<open>htons\<close>/\<open>htonl\<close> fields are big endian (\<open>be16\<close>, \<open>be32\<close>), the fields of
  usbmuxd-proto.h are in the order of the host, which is little endian on the supported
  platform (\<open>le16\<close>, \<open>le32\<close>). The locale \<open>codec\<close> is the contract of a fixed-size format;
  every integer and every struct is an interpretation of it.
\<close>

subsection \<open>Fixed-size codecs\<close>

locale codec =
  fixes enc :: "'a \<Rightarrow> bytes"
    and dec :: "bytes \<Rightarrow> 'a option"
    and sz :: nat
  assumes enc_length: "length (enc x) = sz"
    and dec_enc: "dec (enc x) = Some x"
    and dec_complete: "dec b = Some x \<Longrightarrow> enc x = b"
begin

lemma dec_length: "dec b = Some x \<Longrightarrow> length b = sz"
  using dec_complete enc_length by metis

lemma enc_inject: "enc x = enc y \<longleftrightarrow> x = y"
  by (metis dec_enc option.inject)

lemma dec_prefix: "dec (take sz (enc x @ rest)) = Some x"
  by (simp add: enc_length dec_enc)

lemma rest_after: "drop sz (enc x @ rest) = rest"
  by (simp add: enc_length)

lemma enc_prefix_free: "enc x @ r = enc y @ s \<longleftrightarrow> x = y \<and> r = s"
  by (metis enc_inject enc_length append_eq_append_conv)

lemma read_back [prog]: "buf_read 0 sz (enc x @ rest) w = Inr (enc x, w)"
  by (simp add: buf_read_def enc_length)

end

subsection \<open>Integers\<close>

definition be16 :: "u16 \<Rightarrow> bytes" where
  "be16 x = [ucast (drop_bit 8 x), ucast x]"

fun un_be16 :: "bytes \<Rightarrow> u16 option" where
  "un_be16 [a, b] = Some (push_bit 8 (ucast a) OR ucast b)"
| "un_be16 _ = None"

definition be32 :: "u32 \<Rightarrow> bytes" where
  "be32 x = [ucast (drop_bit 24 x), ucast (drop_bit 16 x), ucast (drop_bit 8 x), ucast x]"

fun un_be32 :: "bytes \<Rightarrow> u32 option" where
  "un_be32 [a, b, c, d] =
     Some (push_bit 24 (ucast a) OR push_bit 16 (ucast b) OR push_bit 8 (ucast c) OR ucast d)"
| "un_be32 _ = None"

definition le16 :: "u16 \<Rightarrow> bytes" where
  "le16 x = rev (be16 x)"

definition un_le16 :: "bytes \<Rightarrow> u16 option" where
  "un_le16 bs = un_be16 (rev bs)"

definition le32 :: "u32 \<Rightarrow> bytes" where
  "le32 x = rev (be32 x)"

definition un_le32 :: "bytes \<Rightarrow> u32 option" where
  "un_le32 bs = un_be32 (rev bs)"

lemma be16_bits: "push_bit 8 (ucast (ucast (drop_bit 8 x) :: byte)) OR ucast (ucast x :: byte) = (x :: u16)"
  by (rule bit_word_eqI) (auto simp: bit_simps)

lemma be32_bits:
  "push_bit 24 (ucast (ucast (drop_bit 24 x) :: byte)) OR push_bit 16 (ucast (ucast (drop_bit 16 x) :: byte)) OR
   push_bit 8 (ucast (ucast (drop_bit 8 x) :: byte)) OR ucast (ucast x :: byte) = (x :: u32)"
  (is "?l = x")
proof (rule bit_word_eqI)
  fix n assume "n < LENGTH(32)"
  then consider "n < 8" | "8 \<le> n" "n < 16" | "16 \<le> n" "n < 24" | "24 \<le> n" "n < 32"
    by fastforce
  then show "bit ?l n \<longleftrightarrow> bit x n"
    by cases (auto simp: bit_simps)
qed

lemma byte_bit_high: "8 \<le> n \<Longrightarrow> bit (b :: byte) n = False"
  using bit_imp_le_length [of b n] by auto

lemma be16_bytes:
  "ucast (drop_bit 8 (push_bit 8 (ucast a) OR ucast b :: u16)) = (a :: byte)"
  "ucast (push_bit 8 (ucast a) OR ucast b :: u16) = (b :: byte)"
  by (auto intro!: bit_word_eqI simp: bit_simps byte_bit_high)

lemma be32_bytes:
  fixes a b c d :: byte
  defines "w \<equiv> push_bit 24 (ucast a) OR push_bit 16 (ucast b) OR push_bit 8 (ucast c) OR ucast d :: u32"
  shows "ucast (drop_bit 24 w) = a" "ucast (drop_bit 16 w) = b" "ucast (drop_bit 8 w) = c" "ucast w = d"
  unfolding w_def by (auto intro!: bit_word_eqI simp: bit_simps byte_bit_high)

lemma un_be16_Some: "un_be16 bs = Some x \<Longrightarrow> be16 x = bs"
proof (cases bs rule: un_be16.cases)
  case (1 a b)
  assume "un_be16 bs = Some x"
  then have "x = push_bit 8 (ucast a) OR ucast b"
    using 1 by simp
  then show ?thesis
    using 1 by (simp only: be16_def be16_bytes)
qed auto

lemma un_be32_Some: "un_be32 bs = Some x \<Longrightarrow> be32 x = bs"
proof (cases bs rule: un_be32.cases)
  case (1 a b c d)
  assume "un_be32 bs = Some x"
  then have "x = push_bit 24 (ucast a) OR push_bit 16 (ucast b) OR push_bit 8 (ucast c) OR ucast d"
    using 1 by simp
  then show ?thesis
    using 1 by (simp only: be32_def be32_bytes)
qed auto

interpretation be16: codec be16 un_be16 2
  by unfold_locales (simp_all add: be16_def be16_bits un_be16_Some [unfolded be16_def])

interpretation be32: codec be32 un_be32 4
  by unfold_locales (simp_all add: be32_def be32_bits un_be32_Some [unfolded be32_def])

interpretation le16: codec le16 un_le16 2
  by unfold_locales (auto simp: le16_def un_le16_def be16.enc_length be16.dec_enc dest: be16.dec_complete)

interpretation le32: codec le32 un_le32 4
  by unfold_locales (auto simp: le32_def un_le32_def be32.enc_length be32.dec_enc dest: be32.dec_complete)

lemmas int_lengths [simp] = be16.enc_length be32.enc_length le16.enc_length le32.enc_length
lemmas int_decs [simp] = be16.dec_enc be32.dec_enc le16.dec_enc le32.dec_enc

text \<open>Reading a field of a buffer: \<open>None\<close> when the field is not inside it.\<close>

definition field :: "(bytes \<Rightarrow> 'a option) \<Rightarrow> nat \<Rightarrow> nat \<Rightarrow> bytes \<Rightarrow> 'a option" where
  "field d n off bs = d (take n (drop off bs))"

definition be32_at :: "nat \<Rightarrow> bytes \<Rightarrow> u32 option" where
  "be32_at off bs = field un_be32 4 off bs"

definition be16_at :: "nat \<Rightarrow> bytes \<Rightarrow> u16 option" where
  "be16_at off bs = field un_be16 2 off bs"

definition le32_at :: "nat \<Rightarrow> bytes \<Rightarrow> u32 option" where
  "le32_at off bs = field un_le32 4 off bs"

definition le16_at :: "nat \<Rightarrow> bytes \<Rightarrow> u16 option" where
  "le16_at off bs = field un_le16 2 off bs"

lemma un_be32_length: "length bs = 4 \<Longrightarrow> un_be32 bs \<noteq> None"
  by (cases bs rule: un_be32.cases) auto

lemma un_be16_length: "length bs = 2 \<Longrightarrow> un_be16 bs \<noteq> None"
  by (cases bs rule: un_be16.cases) auto

lemma be32_at_defined: "off + 4 \<le> length bs \<longleftrightarrow> be32_at off bs \<noteq> None"
proof
  show "off + 4 \<le> length bs \<Longrightarrow> be32_at off bs \<noteq> None"
    unfolding be32_at_def field_def by (rule un_be32_length) simp
  assume "be32_at off bs \<noteq> None"
  then obtain x where "un_be32 (take 4 (drop off bs)) = Some x"
    by (auto simp: be32_at_def field_def)
  then have "length (take 4 (drop off bs)) = 4" by (rule be32.dec_length)
  then show "off + 4 \<le> length bs" by (simp add: min_def split: if_splits)
qed

lemma be16_at_defined: "off + 2 \<le> length bs \<Longrightarrow> be16_at off bs \<noteq> None"
  unfolding be16_at_def field_def by (rule un_be16_length) simp

lemma le32_at_defined: "off + 4 \<le> length bs \<Longrightarrow> le32_at off bs \<noteq> None"
  unfolding le32_at_def field_def un_le32_def by (rule un_be32_length) simp

subsection \<open>Structs\<close>

text \<open>\<open>struct mux_header\<close> of device.cpp: 16 bytes, of which protocol version 1 uses the first 8.\<close>

record mux_header =
  mh_protocol :: u32
  mh_length :: u32
  mh_magic :: u32
  mh_tx_seq :: u16
  mh_rx_seq :: u16

definition mux_header_bytes :: "mux_header \<Rightarrow> bytes" where
  "mux_header_bytes h =
     be32 (mh_protocol h) @ be32 (mh_length h) @ be32 (mh_magic h) @
     be16 (mh_tx_seq h) @ be16 (mh_rx_seq h)"

definition read_mux_header :: "bytes \<Rightarrow> mux_header option" where
  "read_mux_header bs = do {
     p \<leftarrow> un_be32 (take 4 bs);
     l \<leftarrow> un_be32 (take 4 (drop 4 bs));
     m \<leftarrow> un_be32 (take 4 (drop 8 bs));
     t \<leftarrow> un_be16 (take 2 (drop 12 bs));
     r \<leftarrow> un_be16 (drop 14 bs);
     Some \<lparr>mh_protocol = p, mh_length = l, mh_magic = m, mh_tx_seq = t, mh_rx_seq = r\<rparr>
   }"

text \<open>\<open>struct version_header\<close> of device.cpp.\<close>

record version_header =
  vh_major :: u32
  vh_minor :: u32
  vh_padding :: u32

definition version_header_bytes :: "version_header \<Rightarrow> bytes" where
  "version_header_bytes h = be32 (vh_major h) @ be32 (vh_minor h) @ be32 (vh_padding h)"

definition read_version_header :: "bytes \<Rightarrow> version_header option" where
  "read_version_header bs = do {
     ma \<leftarrow> un_be32 (take 4 bs);
     mi \<leftarrow> un_be32 (take 4 (drop 4 bs));
     pa \<leftarrow> un_be32 (drop 8 bs);
     Some \<lparr>vh_major = ma, vh_minor = mi, vh_padding = pa\<rparr>
   }"

text \<open>
  \<open>struct tcphdr\<close> of cygwin/netinet/tcp.h; the two 4-bit fields \<open>th_x2\<close> (low) and \<open>th_off\<close>
  (high) share the byte \<open>th_offx2\<close>.
\<close>

record tcphdr =
  th_sport :: u16
  th_dport :: u16
  th_seq :: u32
  th_ack :: u32
  th_offx2 :: u8
  th_flags :: u8
  th_win :: u16
  th_sum :: u16
  th_urp :: u16

definition tcphdr_bytes :: "tcphdr \<Rightarrow> bytes" where
  "tcphdr_bytes h =
     be16 (th_sport h) @ be16 (th_dport h) @ be32 (th_seq h) @ be32 (th_ack h) @
     [th_offx2 h] @ [th_flags h] @ be16 (th_win h) @ be16 (th_sum h) @ be16 (th_urp h)"

fun un_byte :: "bytes \<Rightarrow> byte option" where
  "un_byte [b] = Some b"
| "un_byte _ = None"

definition read_tcphdr :: "bytes \<Rightarrow> tcphdr option" where
  "read_tcphdr bs = do {
     sp \<leftarrow> un_be16 (take 2 bs);
     dp \<leftarrow> un_be16 (take 2 (drop 2 bs));
     sq \<leftarrow> un_be32 (take 4 (drop 4 bs));
     ak \<leftarrow> un_be32 (take 4 (drop 8 bs));
     ox \<leftarrow> un_byte (take 1 (drop 12 bs));
     fl \<leftarrow> un_byte (take 1 (drop 13 bs));
     wn \<leftarrow> un_be16 (take 2 (drop 14 bs));
     sm \<leftarrow> un_be16 (take 2 (drop 16 bs));
     up \<leftarrow> un_be16 (drop 18 bs);
     Some \<lparr>th_sport = sp, th_dport = dp, th_seq = sq, th_ack = ak, th_offx2 = ox,
           th_flags = fl, th_win = wn, th_sum = sm, th_urp = up\<rparr>
   }"

definition TH_FIN :: u8 where "TH_FIN = 0x01"
definition TH_SYN :: u8 where "TH_SYN = 0x02"
definition TH_RST :: u8 where "TH_RST = 0x04"
definition TH_ACK :: u8 where "TH_ACK = 0x10"

lemmas TH_defs = TH_FIN_def TH_SYN_def TH_RST_def TH_ACK_def

text \<open>\<open>struct usbmuxd_header\<close> of usbmuxd-proto.h, in host order.\<close>

record usbmuxd_header =
  uh_length :: u32
  uh_version :: u32
  uh_message :: u32
  uh_tag :: u32

definition usbmuxd_header_bytes :: "usbmuxd_header \<Rightarrow> bytes" where
  "usbmuxd_header_bytes h =
     le32 (uh_length h) @ le32 (uh_version h) @ le32 (uh_message h) @ le32 (uh_tag h)"

definition read_usbmuxd_header :: "bytes \<Rightarrow> usbmuxd_header option" where
  "read_usbmuxd_header bs = do {
     l \<leftarrow> un_le32 (take 4 bs);
     v \<leftarrow> un_le32 (take 4 (drop 4 bs));
     m \<leftarrow> un_le32 (take 4 (drop 8 bs));
     t \<leftarrow> un_le32 (drop 12 bs);
     Some \<lparr>uh_length = l, uh_version = v, uh_message = m, uh_tag = t\<rparr>
   }"

text \<open>\<open>struct usbmuxd_device_record\<close>: the body of a binary \<open>MESSAGE_DEVICE_ADD\<close>.\<close>

definition device_record_bytes :: "u32 \<Rightarrow> u16 \<Rightarrow> bytes \<Rightarrow> u32 \<Rightarrow> bytes" where
  "device_record_bytes device_id product_id serial_number location =
     le32 device_id @ le16 product_id @ serial_number @ le16 0 @ le32 location"

lemma take_drop_step: "m = k + a \<Longrightarrow> take a (drop k bs) @ drop m bs = drop k bs"
  by (metis append_take_drop_id drop_drop add.commute)

lemma un_byte_Some: "un_byte bs = Some x \<Longrightarrow> [x] = bs"
  by (cases bs rule: un_byte.cases) auto

lemma un_byte_step: "un_byte (take (Suc 0) (drop k bs)) = Some x \<Longrightarrow> x # drop (Suc k) bs = drop k bs"
  using un_byte_Some [of "take (Suc 0) (drop k bs)" x] append_take_drop_id [of 1 "drop k bs"]
  by (metis One_nat_def append_Cons append_Nil drop_drop plus_1_eq_Suc)

lemmas field_complete = be16.dec_complete be32.dec_complete le16.dec_complete le32.dec_complete un_byte_step

interpretation mux_header: codec mux_header_bytes read_mux_header 16
  by unfold_locales
    (auto simp: mux_header_bytes_def read_mux_header_def take_drop_step Option.bind_eq_Some_conv
      dest!: field_complete)

interpretation version_header: codec version_header_bytes read_version_header 12
  by unfold_locales
    (auto simp: version_header_bytes_def read_version_header_def take_drop_step Option.bind_eq_Some_conv
      dest!: field_complete)

interpretation tcphdr: codec tcphdr_bytes read_tcphdr 20
  by unfold_locales
    (auto simp: tcphdr_bytes_def read_tcphdr_def take_drop_step Option.bind_eq_Some_conv
      dest!: field_complete)

interpretation usbmuxd_header: codec usbmuxd_header_bytes read_usbmuxd_header 16
  by unfold_locales
    (auto simp: usbmuxd_header_bytes_def read_usbmuxd_header_def take_drop_step Option.bind_eq_Some_conv
      dest!: field_complete)

lemmas struct_lengths [simp] =
  mux_header.enc_length version_header.enc_length tcphdr.enc_length usbmuxd_header.enc_length
lemmas struct_decs [simp] =
  mux_header.dec_enc version_header.dec_enc tcphdr.dec_enc usbmuxd_header.dec_enc

text \<open>C25: The four packed headers of the two protocols are read back exactly: a block of bytes is
  the header \<open>h\<close> if and only if it is what the daemon writes for \<open>h\<close>.\<close>

theorem header_codecs:
  "(read_mux_header bs = Some mh \<longleftrightarrow> bs = mux_header_bytes mh) \<and>
   (read_version_header bs = Some vh \<longleftrightarrow> bs = version_header_bytes vh) \<and>
   (read_tcphdr bs = Some th \<longleftrightarrow> bs = tcphdr_bytes th) \<and>
   (read_usbmuxd_header bs = Some uh \<longleftrightarrow> bs = usbmuxd_header_bytes uh)"
  using mux_header.dec_complete [of bs mh] version_header.dec_complete [of bs vh] tcphdr.dec_complete [of bs th]
    usbmuxd_header.dec_complete [of bs uh] by auto

end
