(* ===== verification/Strings.thy ===== *)
theory Strings
  imports Base "HOL-Library.Char_ord"
begin

text \<open>
  The pure helpers: the hexadecimal and code page conversions of StringUtil.cpp, the UTF-16 to UTF-8 conversion of
  conf.cpp, \<open>string_concat\<close> and \<open>stpcpy\<close> of utils.cpp, and the clock arithmetic of gettimeofday.cpp with
  \<open>mstime64\<close> of utils.cpp. A C string is a list of characters without its terminating null.
\<close>

subsection \<open>Hexadecimal strings\<close>

text \<open>\<open>HexDigitValue\<close>: \<open>None\<close> is the value -1.\<close>

definition HexDigitValue :: "char \<Rightarrow> u8 option" where
  "HexDigitValue c =
     (let n = of_char c :: nat in
      if 48 \<le> n \<and> n \<le> 57 then Some (of_nat (n - 48))
      else if 97 \<le> n \<and> n \<le> 102 then Some (of_nat (10 + n - 97))
      else if 65 \<le> n \<and> n \<le> 70 then Some (of_nat (10 + n - 65))
      else None)"

text \<open>
  The loop of \<open>HexStringToBufferA\<close>: whether all digits were valid, and the bytes written up to
  the first invalid one.
\<close>

fun hex_pairs :: "string \<Rightarrow> bool \<times> bytes" where
  "hex_pairs (a # b # cs) =
     (case (HexDigitValue a, HexDigitValue b) of
        (Some h, Some l) \<Rightarrow> (case hex_pairs cs of (ok, bs) \<Rightarrow> (ok, (push_bit 4 h OR l) # bs))
      | _ \<Rightarrow> (False, []))"
| "hex_pairs _ = (True, [])"

definition HexStringToBufferA :: "string \<Rightarrow> nat \<Rightarrow> bool \<times> bytes" where
  "HexStringToBufferA strHex cbBufferSize =
     (if length strHex mod 2 \<noteq> 0 then (False, [])
      else if cbBufferSize < length strHex div 2 then (False, [])
      else hex_pairs strHex)"

definition acHexChars :: string where
  "acHexChars = ''0123456789ABCDEF''"

definition hex_of_byte :: "byte \<Rightarrow> string" where
  "hex_of_byte b = [acHexChars ! unat (drop_bit 4 b), acHexChars ! unat (b AND 0x0F)]"

text \<open>The buffer needs room for the terminating null.\<close>

definition BufferToHexStringA :: "bytes \<Rightarrow> nat \<Rightarrow> string option" where
  "BufferToHexStringA buf ccHexStringSize =
     (if ccHexStringSize < length buf * 2 + 1 then None else Some (concat (map hex_of_byte buf)))"

definition BufferToHexString :: "bytes \<Rightarrow> string option" where
  "BufferToHexString buf = BufferToHexStringA buf (length buf * 2 + 1)"

lemma hex_digit_all: "\<forall>n \<in> set [0..<16]. HexDigitValue (acHexChars ! n) = Some (of_nat n)"
  by code_simp

lemma hex_digit_table: "n < 16 \<Longrightarrow> HexDigitValue (acHexChars ! n) = Some (of_nat n)"
  using hex_digit_all by simp

lemma nibble_high: "unat (drop_bit 4 (b :: byte)) < 16"
proof -
  have "unat b < 256"
    using unsigned_less [of b, where ?'a = nat] by simp
  then have "unat b div 16 < 16" by simp
  then show ?thesis
    by (simp add: drop_bit_eq_div unat_div)
qed

lemma low_mask: "(0x0F :: byte) = mask 4"
  by (simp add: mask_eq_exp_minus_1)

lemma nibble_low: "unat (b AND 0x0F :: byte) < 16"
  by (simp add: low_mask take_bit_eq_mod unat_mod flip: take_bit_eq_mask)

lemma nibbles_join: "push_bit 4 (drop_bit 4 b) OR (b AND 0x0F) = (b :: byte)"
  unfolding low_mask take_bit_eq_mask [symmetric]
  by (rule bit_word_eqI) (auto simp: bit_simps)

lemma hex_pairs_byte:
  "hex_pairs (hex_of_byte b @ cs) = (case hex_pairs cs of (ok, bs) \<Rightarrow> (ok, b # bs))"
  by (simp add: hex_of_byte_def hex_digit_table nibble_high nibble_low nibbles_join split: prod.split)

lemma hex_pairs_bytes: "hex_pairs (concat (map hex_of_byte bs)) = (True, bs)"
  by (induction bs) (simp_all add: hex_pairs_byte)

lemma hex_string_length: "length (concat (map hex_of_byte bs)) = 2 * length bs"
  by (induction bs) (auto simp: hex_of_byte_def)

subsection \<open>UTF-16 to UTF-8\<close>

text \<open>
  One code unit of \<open>config_utf16_to_utf8\<close>. Units are converted one by one, so the two halves of
  a surrogate pair give two sequences of three bytes.
\<close>

definition utf8_of_unit :: "u16 \<Rightarrow> bytes" where
  "utf8_of_unit wc =
     (if wc \<ge> 0x800 then
        [ucast (0xE0 + (drop_bit 12 wc AND 0xF)), ucast (0x80 + (drop_bit 6 wc AND 0x3F)),
         ucast (0x80 + (wc AND 0x3F))]
      else if wc \<ge> 0x80 then
        [ucast (0xC0 + (drop_bit 6 wc AND 0x1F)), ucast (0x80 + (wc AND 0x3F))]
      else [ucast (wc AND 0x7F)])"

fun config_utf16_loop :: "u16 list \<Rightarrow> bytes \<Rightarrow> bytes" where
  "config_utf16_loop [] outbuf = outbuf"
| "config_utf16_loop (wc # us) outbuf = config_utf16_loop us (outbuf @ utf8_of_unit wc)"

text \<open>The result with its terminating null, and the counts of units read and bytes written.\<close>

definition config_utf16_to_utf8 :: "u16 list option \<Rightarrow> (bytes \<times> nat \<times> nat) option" where
  "config_utf16_to_utf8 unistr =
     (case unistr of
        None \<Rightarrow> None
      | Some us \<Rightarrow>
          if us = [] then None
          else let out = config_utf16_loop us [] in Some (out @ [0], length us, length out))"

text \<open>A reference decoder of sequences of up to three bytes, in arithmetic.\<close>

fun utf8_decode :: "bytes \<Rightarrow> u16 list option" where
  "utf8_decode [] = Some []"
| "utf8_decode (a # bs) =
     (if unat a < 128 then map_option (\<lambda>us. of_nat (unat a) # us) (utf8_decode bs)
      else case bs of
        [] \<Rightarrow> None
      | b # bs' \<Rightarrow>
          if unat a < 224
          then map_option (\<lambda>us. of_nat ((unat a - 192) * 64 + (unat b - 128)) # us) (utf8_decode bs')
          else (case bs' of
              [] \<Rightarrow> None
            | c # bs'' \<Rightarrow> map_option
                (\<lambda>us. of_nat ((unat a - 224) * 4096 + (unat b - 128) * 64 + (unat c - 128)) # us)
                (utf8_decode bs'')))"

text \<open>A byte made of a marker and some bits of a code unit.\<close>

lemma unit_byte:
  fixes u k :: u16
  assumes "unat k + 2 ^ m \<le> 256" "x = mask m"
  shows "unat (ucast (k + (drop_bit s u AND x)) :: byte) = unat k + unat u div 2 ^ s mod 2 ^ m"
proof -
  have x: "unat (drop_bit s u AND x) = unat u div 2 ^ s mod 2 ^ m"
    unfolding assms(2) take_bit_eq_mask [symmetric]
    using unsigned_less [of u, where ?'a = nat]
    by (simp only: unsigned_take_bit_eq unsigned_drop_bit_eq) (simp add: take_bit_eq_mod drop_bit_eq_div)
  have "unat u div 2 ^ s mod 2 ^ m < 2 ^ m" by simp
  then have lt: "unat k + unat (drop_bit s u AND x) < 256"
    using assms(1) x by linarith
  have "unat (k + (drop_bit s u AND x)) = unat k + unat (drop_bit s u AND x)"
    by (rule unat_add_small) (use lt in simp)
  then show ?thesis
    using lt x by (simp add: unsigned_ucast_eq take_bit_nat_eq_self)
qed

lemma utf8_decode_unit: "utf8_decode (utf8_of_unit u @ bs) = map_option (\<lambda>us. u # us) (utf8_decode bs)"
proof -
  have same: "of_nat (unat u) = u" by simp
  have bound: "unat u < 65536"
    using unsigned_less [of u, where ?'a = nat] by simp
  have masks: "(0xF :: u16) = mask 4" "(0x3F :: u16) = mask 6" "(0x1F :: u16) = mask 5" "(0x7F :: u16) = mask 7"
    by (simp_all add: mask_eq_exp_minus_1)
  note byte = unit_byte [where s = 12 and u = u, OF _ masks(1)] unit_byte [where s = 6 and u = u, OF _ masks(2)]
    unit_byte [where s = 0 and u = u, OF _ masks(2)] unit_byte [where s = 6 and u = u, OF _ masks(3)]
    unit_byte [where s = 0 and k = 0 and u = u, OF _ masks(4)]
  consider "unat u < 128" | "128 \<le> unat u" "unat u < 2048" | "2048 \<le> unat u" by linarith
  then show ?thesis
  proof cases
    case 1
    then show ?thesis
      using byte(5) same by (simp add: utf8_of_unit_def word_le_nat_alt)
  next
    case 2
    then have "unat u div 64 < 32" by simp
    moreover have "unat u div 64 * 64 + unat u mod 64 = unat u" by simp
    ultimately show ?thesis
      using 2 byte(3,4) [of 128] byte(4) [of 192] same
      by (simp add: utf8_of_unit_def word_le_nat_alt) (intro impI, erule notE, arith)
  next
    case 3
    have "unat u div 4096 mod 16 = unat u div 4096" using bound by simp
    moreover have "unat u div 4096 = unat u div 64 div 64" by (simp flip: div_mult2_eq)
    then have "unat u = unat u div 4096 * 4096 + unat u div 64 mod 64 * 64 + unat u mod 64"
      using div_mult_mod_eq [of "unat u" 64] div_mult_mod_eq [of "unat u div 64" 64] by linarith
    ultimately show ?thesis
      using 3 byte(1) [of 224] byte(2,3) [of 128] same by (simp add: utf8_of_unit_def word_le_nat_alt)
  qed
qed

lemma utf8_decode_units: "utf8_decode (concat (map utf8_of_unit us)) = Some us"
  by (induction us) (simp_all add: utf8_decode_unit)

lemma utf16_loop_append: "config_utf16_loop us out = out @ concat (map utf8_of_unit us)"
  by (induction us arbitrary: out) simp_all

lemma utf8_unit_length: "length (utf8_of_unit u) \<le> 3"
  by (simp add: utf8_of_unit_def)

lemma utf8_units_length: "length (concat (map utf8_of_unit us)) \<le> 3 * length us"
proof (induction us)
  case (Cons u us)
  then show ?case
    using utf8_unit_length [of u] by simp
qed simp

subsection \<open>Decimal numbers\<close>

definition is_digit :: "char \<Rightarrow> bool" where
  "is_digit c \<longleftrightarrow> 48 \<le> (of_char c :: nat) \<and> (of_char c :: nat) \<le> 57"

fun digits_value :: "nat \<Rightarrow> string \<Rightarrow> nat" where
  "digits_value acc [] = acc"
| "digits_value acc (c # cs) = digits_value (10 * acc + (of_char c - 48)) cs"

text \<open>\<open>strtol\<close> to the base 10: white space, a sign and digits, clamped to the 32-bit \<open>long\<close>.\<close>

definition is_space :: "char \<Rightarrow> bool" where
  "is_space c \<longleftrightarrow> c = CHR 0x20 \<or> (9 \<le> (of_char c :: nat) \<and> (of_char c :: nat) \<le> 13)"

definition strtol10 :: "string \<Rightarrow> int" where
  "strtol10 s =
     (let t = dropWhile is_space s;
          neg = (take 1 t = ''-'');
          u = (if take 1 t = ''-'' \<or> take 1 t = ''+'' then drop 1 t else t);
          n = int (digits_value 0 (takeWhile is_digit u))
      in if neg then max (- (2 ^ 31)) (- n) else min (2 ^ 31 - 1) n)"

subsection \<open>Concatenation\<close>

text \<open>\<open>string_concat\<close>: a null first argument gives null, the first null of the others ends the list.\<close>

fun concat_args :: "string \<Rightarrow> string option list \<Rightarrow> string" where
  "concat_args dest (Some s # ss) = concat_args (dest @ s) ss"
| "concat_args dest _ = dest"

definition string_concat :: "string option \<Rightarrow> string option list \<Rightarrow> string option" where
  "string_concat str args = map_option (\<lambda>s. concat_args s args) str"

subsection \<open>The clock\<close>

definition DELTA_EPOCH_IN_MICROSECS :: u64 where
  "DELTA_EPOCH_IN_MICROSECS = 11644473600000000"

text \<open>\<open>gettimeofday\<close>: seconds and microseconds, each cut down to a 32-bit \<open>long\<close>.\<close>

definition gettimeofday :: "u32 \<Rightarrow> u32 \<Rightarrow> u32 \<times> u32" where
  "gettimeofday high low =
     (let tmpres = (push_bit 32 (ucast high) OR ucast low) div 10 - DELTA_EPOCH_IN_MICROSECS :: u64
      in (ucast (tmpres div 1000000), ucast (tmpres mod 1000000)))"

definition mstime64_of :: "u32 \<times> u32 \<Rightarrow> u64" where
  "mstime64_of tv = of_int (sint (fst tv) * 1000 + sint (snd tv) div 1000)"

lemma gettimeofday_micros:
  fixes high low :: u32
  defines "us \<equiv> (push_bit 32 (ucast high) OR ucast low) div 10 - DELTA_EPOCH_IN_MICROSECS :: u64"
  assumes "unat us < 2 ^ 31 * 1000000"
  shows "sint (fst (gettimeofday high low)) = int (unat us div 1000000)"
    and "sint (snd (gettimeofday high low)) = int (unat us mod 1000000)"
proof -
  have s: "unat us div 1000000 < 2 ^ 31" using assms(2) by simp
  have u: "unat us mod 1000000 < 2 ^ 31"
    by (rule less_le_trans [OF mod_less_divisor]) simp_all
  have tv: "gettimeofday high low = (ucast (us div 1000000), ucast (us mod 1000000))"
    by (simp add: gettimeofday_def us_def Let_def)
  have cut: "unat (ucast x :: u32) = unat x" if "unat (x :: u64) < 2 ^ 31" for x
    using that by (simp add: unsigned_ucast_eq take_bit_nat_eq_self)
  have "unat (us div 1000000) = unat us div 1000000" "unat (us mod 1000000) = unat us mod 1000000"
    by (simp_all add: unat_div unat_mod)
  with s u tv cut show "sint (fst (gettimeofday high low)) = int (unat us div 1000000)"
    and "sint (snd (gettimeofday high low)) = int (unat us mod 1000000)"
    by (simp_all add: sint_small)
qed

subsection \<open>Properties\<close>

text \<open>
  converting bytes to a hexadecimal string and back gives the bytes, for every buffer and
  every output buffer that is large enough for each direction.
\<close>

theorem hex_round_trip:
  assumes "length bs \<le> n"
  shows "map_option (\<lambda>s. HexStringToBufferA s n) (BufferToHexString bs) = Some (True, bs)"
  using assms
  by (simp add: BufferToHexString_def BufferToHexStringA_def HexStringToBufferA_def hex_string_length
      hex_pairs_bytes)

theorem hex_round_trip_witness:
  "map_option (\<lambda>s. HexStringToBufferA s 2) (BufferToHexString [0xCA, 0x5F]) = Some (True, [0xCA, 0x5F])"
  by (rule hex_round_trip) simp

text \<open>
  The UTF-8 text made from UTF-16 code units decodes to the same units, and with its
  terminating null it fits the buffer of 3 * (len + 1) bytes that was allocated for it.
\<close>

theorem utf16_to_utf8_round_trip:
  assumes "us \<noteq> []"
  shows "\<exists>out. config_utf16_to_utf8 (Some us) = Some (out @ [0], length us, length out) \<and>
           utf8_decode out = Some us \<and> length (out @ [0]) \<le> 3 * (length us + 1)"
  using assms utf8_units_length [of us]
  by (auto simp: config_utf16_to_utf8_def Let_def utf16_loop_append utf8_decode_units)

theorem utf16_to_utf8_round_trip_witness:
  "\<exists>out. config_utf16_to_utf8 (Some [0x41, 0xE9, 0x20AC]) =
       Some (out @ [0], length [0x41, 0xE9, 0x20AC :: u16], length out) \<and>
     utf8_decode out = Some [0x41, 0xE9, 0x20AC] \<and>
     length (out @ [0]) \<le> 3 * (length [0x41, 0xE9, 0x20AC :: u16] + 1)"
  by (rule utf16_to_utf8_round_trip) simp

text \<open>
  Until the seconds no longer fit the 32-bit \<open>long\<close> they are stored in (the year 2038),
  \<open>mstime64\<close> is the number of milliseconds since the epoch, without losing any.
\<close>

theorem mstime64_exact:
  assumes "unat ((push_bit 32 (ucast high) OR ucast low) div 10 - DELTA_EPOCH_IN_MICROSECS :: u64) < 2 ^ 31 * 1000000"
  shows "unat (mstime64_of (gettimeofday high low)) =
         unat ((push_bit 32 (ucast high) OR ucast low) div 10 - DELTA_EPOCH_IN_MICROSECS :: u64) div 1000"
proof -
  define us where "us = unat ((push_bit 32 (ucast high) OR ucast low) div 10 - DELTA_EPOCH_IN_MICROSECS :: u64)"
  have "int (us div 1000000) * 1000 + int (us mod 1000000) div 1000 = int (us div 1000)"
  proof -
    have split: "us = us mod 1000000 + (us div 1000000 * 1000) * 1000"
      using mod_div_mult_eq [of us 1000000] by simp
    have "us div 1000 = (us mod 1000000 + (us div 1000000 * 1000) * 1000) div 1000"
      by (rule arg_cong [OF split])
    also have "\<dots> = us div 1000000 * 1000 + us mod 1000000 div 1000"
      by (rule div_mult_self1) simp
    finally have "us div 1000 = us div 1000000 * 1000 + us mod 1000000 div 1000" .
    then have "int (us div 1000) = int (us div 1000000) * 1000 + int (us mod 1000000 div 1000)"
      by linarith
    then show ?thesis
      by (simp only: zdiv_int of_nat_numeral)
  qed
  then have "mstime64_of (gettimeofday high low) = of_nat (us div 1000)"
    using gettimeofday_micros [OF assms] by (simp add: mstime64_of_def us_def)
  moreover have "us div 1000 < 2 ^ 64"
    using assms by (simp add: us_def)
  ultimately show ?thesis
    by (simp add: us_def unat_of_nat_small)
qed

theorem mstime64_exact_witness:
  "unat (mstime64_of (gettimeofday 0x01D00000 0)) =
   unat ((push_bit 32 (ucast (0x01D00000 :: u32)) OR ucast (0 :: u32)) div 10 - DELTA_EPOCH_IN_MICROSECS :: u64) div 1000"
  by (rule mstime64_exact) (simp add: DELTA_EPOCH_IN_MICROSECS_def)

subsection \<open>Code pages\<close>

text \<open>
  The conversions of StringUtil.cpp over the system's \<open>WideCharToMultiByte\<close> and \<open>MultiByteToWideChar\<close>, which are
  arguments: for a code page, the converted text of a buffer. The buffer that is converted holds the terminating
  null too, and \<open>ReleaseBuffer\<close> cuts the result at its first null; an empty result stands for a failed call.
\<close>

definition CP_ACP :: nat where "CP_ACP = 0"
definition CP_UTF8 :: nat where "CP_UTF8 = 65001"

definition ReleaseBuffer :: "'a::zero list \<Rightarrow> 'a list" where
  "ReleaseBuffer buf = takeWhile (\<lambda>c. c \<noteq> 0) buf"

definition CStringWToMultiByte :: "(nat \<Rightarrow> u16 list \<Rightarrow> bytes) \<Rightarrow> u16 list \<Rightarrow> nat \<Rightarrow> bytes" where
  "CStringWToMultiByte wide_to_multi s cp =
     (let r = wide_to_multi cp (s @ [0]) in if length r > 0 then ReleaseBuffer r else [])"

definition CStringMultiByteToW :: "(nat \<Rightarrow> bytes \<Rightarrow> u16 list) \<Rightarrow> bytes \<Rightarrow> nat \<Rightarrow> u16 list" where
  "CStringMultiByteToW multi_to_wide s cp =
     (let r = multi_to_wide cp (s @ [0]) in if length r > 0 then ReleaseBuffer r else [])"

definition CStringWToUTF8 :: "(nat \<Rightarrow> u16 list \<Rightarrow> bytes) \<Rightarrow> u16 list \<Rightarrow> bytes" where
  "CStringWToUTF8 wide_to_multi s = CStringWToMultiByte wide_to_multi s CP_UTF8"

definition CStringUTF8ToW :: "(nat \<Rightarrow> bytes \<Rightarrow> u16 list) \<Rightarrow> bytes \<Rightarrow> u16 list" where
  "CStringUTF8ToW multi_to_wide s = CStringMultiByteToW multi_to_wide s CP_UTF8"

definition CStringWToA :: "(nat \<Rightarrow> u16 list \<Rightarrow> bytes) \<Rightarrow> u16 list \<Rightarrow> bytes" where
  "CStringWToA wide_to_multi s = CStringWToMultiByte wide_to_multi s CP_ACP"

definition CStringAToW :: "(nat \<Rightarrow> bytes \<Rightarrow> u16 list) \<Rightarrow> bytes \<Rightarrow> u16 list" where
  "CStringAToW multi_to_wide s = CStringMultiByteToW multi_to_wide s CP_ACP"

definition CStringUTF8ToA ::
  "(nat \<Rightarrow> bytes \<Rightarrow> u16 list) \<Rightarrow> (nat \<Rightarrow> u16 list \<Rightarrow> bytes) \<Rightarrow> bytes \<Rightarrow> bytes" where
  "CStringUTF8ToA multi_to_wide wide_to_multi s = CStringWToA wide_to_multi (CStringUTF8ToW multi_to_wide s)"

definition GUIDToCStringW :: "('g \<Rightarrow> u16 list) \<Rightarrow> 'g \<Rightarrow> u16 list" where
  "GUIDToCStringW StringFromGUID2 guid = ReleaseBuffer (StringFromGUID2 guid)"

lemma ReleaseBuffer_text: "0 \<notin> set r \<Longrightarrow> ReleaseBuffer (r @ 0 # rest) = r"
  by (induction r) (auto simp: ReleaseBuffer_def)

text \<open>
  Text without nulls survives a conversion to a code page and back when the system converts it without loss and
  converts the null to a null.
\<close>

theorem code_page_round_trip:
  assumes "wide_to_multi cp (s @ [0]) = m @ [0]" "multi_to_wide cp (m @ [0]) = s @ [0]" "0 \<notin> set s" "0 \<notin> set m"
  shows "CStringMultiByteToW multi_to_wide (CStringWToMultiByte wide_to_multi s cp) cp = s"
  using assms ReleaseBuffer_text [of m "[]"] ReleaseBuffer_text [of s "[]"]
  by (simp add: CStringMultiByteToW_def CStringWToMultiByte_def)

text \<open>
  \<open>stpcpy\<close> into a buffer: the buffer afterwards and the place of the terminating null in it; \<open>None\<close> when the
  buffer is too small for the text.
\<close>

definition stpcpy :: "string \<Rightarrow> string \<Rightarrow> (string \<times> nat) option" where
  "stpcpy s1 s2 =
     (if length s1 \<le> length s2 then None else Some (s2 @ CHR 0x00 # drop (Suc (length s2)) s1, length s2))"

lemma stpcpy_result: "stpcpy s1 s2 = Some (s, i) \<Longrightarrow> take i s = s2 \<and> s ! i = CHR 0x00 \<and> length s = length s1"
  by (auto simp: stpcpy_def split: if_splits)

end
