(* ===== verification/Conf.thy ===== *)
theory Conf
  imports Strings "HOL-Library.AList"
begin

text \<open>
  The configuration store of conf.cpp and the file helpers of utils.cpp: the configuration
  directory, the system BUID and the pairing records. The file system is a map from paths to
  contents and a set of directories; libplist is a pair of printers and parsers that the state
  holds as functions. What is written can fail: \<open>fopen\<close> for writing fails in a directory that
  does not exist, or when the script says so.
\<close>

subsection \<open>Property lists\<close>

datatype plist =
    PString string
  | PUint u64
  | PBool bool
  | PData bytes
  | PArray "plist list"
  | PDict "(string \<times> plist) list"

text \<open>\<open>plist_dict_get_item\<close> and the accessors, which leave their target unset on another type.\<close>

fun dict_get :: "plist \<Rightarrow> string \<Rightarrow> plist option" where
  "dict_get (PDict kvs) k = map_of kvs k"
| "dict_get _ k = None"

fun dict_set :: "plist \<Rightarrow> string \<Rightarrow> plist \<Rightarrow> plist" where
  "dict_set (PDict kvs) k v = PDict (AList.update k v kvs)"
| "dict_set p k v = p"

fun dict_remove :: "plist \<Rightarrow> string \<Rightarrow> plist" where
  "dict_remove (PDict kvs) k = PDict (AList.delete k kvs)"
| "dict_remove p k = p"

fun string_val :: "plist option \<Rightarrow> string option" where
  "string_val (Some (PString s)) = Some s"
| "string_val _ = None"

fun uint_val :: "plist option \<Rightarrow> u64" where
  "uint_val (Some (PUint n)) = n"
| "uint_val _ = 0"

fun data_val :: "plist option \<Rightarrow> bytes option" where
  "data_val (Some (PData b)) = Some b"
| "data_val _ = None"

fun bool_val :: "plist option \<Rightarrow> bool" where
  "bool_val (Some (PBool b)) = b"
| "bool_val _ = False"

fun is_dict :: "plist \<Rightarrow> bool" where
  "is_dict (PDict kvs) = True"
| "is_dict _ = False"

lemma dict_get_set [simp]: "is_dict p \<Longrightarrow> dict_get (dict_set p k v) k = Some v"
  by (cases p) (auto simp: update_Some_unfold)

lemma dict_get_set_other [simp]: "k' \<noteq> k \<Longrightarrow> dict_get (dict_set p k v) k' = dict_get p k'"
  by (cases p) (auto simp: update_conv')

lemma dict_get_remove_other [simp]: "k' \<noteq> k \<Longrightarrow> dict_get (dict_remove p k) k' = dict_get p k'"
  by (cases p) (auto simp: delete_conv')

lemma is_dict_set [simp]: "is_dict (dict_set p k v) = is_dict p"
  by (cases p) auto

lemma is_dict_remove [simp]: "is_dict (dict_remove p k) = is_dict p"
  by (cases p) auto

subsection \<open>The store\<close>

record conf_state =
  files :: "string \<Rightarrow> bytes option"
  dirs :: "string \<Rightarrow> bool"
  conf_dir :: "string option"
  base_config_dir :: "string option"
  rands :: "nat list"
  write_fails :: "bool list"
  remove_errs :: "nat option list"
  xml_of :: "plist \<Rightarrow> bytes option"
  of_xml :: "bytes \<Rightarrow> plist option"
  of_bin :: "bytes \<Rightarrow> plist option"

type_synonym 'a conf = "(conf_state, 'a) prog"

definition ENOENT :: nat where "ENOENT = 2"
definition EINVAL :: nat where "EINVAL = 22"
definition EIO :: nat where "EIO = 5"

definition DIR_SEP :: char where "DIR_SEP = CHR 0x5C"
definition CONFIG_DIR :: string where "CONFIG_DIR = ''MCE-100'' @ [DIR_SEP] @ ''Sessions''"
definition CONFIG_EXT :: string where "CONFIG_EXT = ''.plist''"
definition CONFIG_FILE :: string where "CONFIG_FILE = ''SystemConfiguration'' @ CONFIG_EXT"
definition LOCAL_CONFIG_FILE :: string where
  "LOCAL_CONFIG_FILE = ''etc'' @ [DIR_SEP] @ ''LockdownConfiguration'' @ CONFIG_EXT"
definition CONFIG_SYSTEM_BUID_KEY :: string where "CONFIG_SYSTEM_BUID_KEY = ''SystemBUID''"
definition CONFIG_HOST_ID_KEY :: string where "CONFIG_HOST_ID_KEY = ''HostID''"

subsection \<open>Files\<close>

text \<open>
  \<open>dirname\<close>, that is \<open>PathRemoveFileSpec\<close>: the path up to its last separator, which the root
  of a drive keeps.
\<close>

definition parent_of :: "string \<Rightarrow> string" where
  "parent_of path =
     (if path = [] then ''.''
      else let p = rev (drop 1 (dropWhile (\<lambda>c. c \<noteq> DIR_SEP) (rev path)))
           in if length p = 2 \<and> p ! 1 = CHR '':'' then p @ [DIR_SEP] else p)"

definition dir_exists :: "string \<Rightarrow> conf_state \<Rightarrow> bool" where
  "dir_exists d s \<longleftrightarrow> d = [] \<or> d = ''.'' \<or> dirs s d"

definition buffer_read_from_filename :: "string \<Rightarrow> bytes option conf" where
  "buffer_read_from_filename name = gets (\<lambda>s.
     case files s name of Some b \<Rightarrow> if b = [] then None else Some b | None \<Rightarrow> None)"

text \<open>Whether the file could be opened is not reported to the caller.\<close>

definition buffer_write_to_filename :: "string \<Rightarrow> bytes \<Rightarrow> unit conf" where
  "buffer_write_to_filename name b = seq (gets write_fails) (\<lambda>script.
     let fails = (script \<noteq> [] \<and> hd script) in
     modify (\<lambda>s. if fails \<or> \<not> dir_exists (parent_of name) s then s\<lparr>write_fails := tl script\<rparr>
                 else s\<lparr>write_fails := tl script, files := (files s)(name := Some b)\<rparr>))"

definition plist_write_to_filename :: "plist option \<Rightarrow> string option \<Rightarrow> int conf" where
  "plist_write_to_filename p name =
     (case (p, name) of
        (Some p, Some name) \<Rightarrow> seq (gets (\<lambda>s. xml_of s p)) (\<lambda>xml.
          case xml of
            None \<Rightarrow> stop UninitRead
          | Some b \<Rightarrow> seq (buffer_write_to_filename name b) (\<lambda>_. ret 1))
      | _ \<Rightarrow> ret 0)"

definition bplist_magic :: bytes where
  "bplist_magic = map of_char ''bplist00''"

text \<open>\<open>None\<close> is the result 0; a file that cannot be parsed gives the null plist \<open>Some None\<close>.\<close>

definition plist_read_from_filename :: "string option \<Rightarrow> plist option option conf" where
  "plist_read_from_filename name =
     (case name of
        None \<Rightarrow> ret None
      | Some name \<Rightarrow> seq (buffer_read_from_filename name) (\<lambda>r.
          case r of
            None \<Rightarrow> ret None
          | Some b \<Rightarrow> gets (\<lambda>s. Some (
              if length b > 8 \<and> take 8 b = bplist_magic then of_bin s b else of_xml s b))))"

text \<open>\<open>remove\<close>: 0, or the value of \<open>errno\<close>.\<close>

definition remove_file :: "string \<Rightarrow> nat conf" where
  "remove_file name = seq (gets remove_errs) (\<lambda>script.
     seq (modify (\<lambda>s. s\<lparr>remove_errs := tl script\<rparr>)) (\<lambda>_.
     case script of
       Some e # _ \<Rightarrow> ret e
     | _ \<Rightarrow> seq (gets (\<lambda>s. files s name)) (\<lambda>f.
         if f = None then ret ENOENT
         else seq (modify (\<lambda>s. s\<lparr>files := (files s)(name := None)\<rparr>)) (\<lambda>_. ret 0))))"

subsection \<open>The configuration directory\<close>

definition config_has_local_config :: "bool conf" where
  "config_has_local_config = gets (\<lambda>s. case files s LOCAL_CONFIG_FILE of Some b \<Rightarrow> b \<noteq> [] | None \<Rightarrow> False)"

text \<open>Separators at the end are cut off, but never the first character.\<close>

fun strip_seps :: "string \<Rightarrow> string" where
  "strip_seps path =
     (if length path > 1 \<and> last path = DIR_SEP then strip_seps (butlast path) else path)"

declare strip_seps.simps [simp del]

definition config_get_config_dir :: "string option conf" where
  "config_get_config_dir = seq (gets conf_dir) (\<lambda>cached.
     if cached \<noteq> None then ret cached
     else seq (gets base_config_dir) (\<lambda>base.
       case base of
         None \<Rightarrow> ret None
       | Some base \<Rightarrow>
           let path = map_option strip_seps (string_concat (Some base) [Some [DIR_SEP], Some CONFIG_DIR, None])
           in seq (modify (\<lambda>s. s\<lparr>conf_dir := path\<rparr>)) (\<lambda>_. ret path)))"

text \<open>\<open>__mkdir\<close>: 0, \<open>EEXIST\<close>, or another error when the parent is missing.\<close>

datatype mkdir_result = MkdirOk | MkdirExists | MkdirFails

definition mk_dir :: "string \<Rightarrow> mkdir_result conf" where
  "mk_dir d = seq (gets (\<lambda>s. (dir_exists d s, dir_exists (parent_of d) s))) (\<lambda>(there, parent).
     if there then ret MkdirExists
     else if parent then seq (modify (\<lambda>s. s\<lparr>dirs := (dirs s)(d := True)\<rparr>)) (\<lambda>_. ret MkdirOk)
     else ret MkdirFails)"

text \<open>
  The recursion creates the parent but does not come back to the directory itself. A path
  without a parent of its own (the root of a missing drive) recurs for ever.
\<close>

fun mkdir_with_parents :: "nat \<Rightarrow> string \<Rightarrow> int conf" where
  "mkdir_with_parents 0 d = stop OutOfFuel"
| "mkdir_with_parents (Suc n) d = seq (mk_dir d) (\<lambda>r.
     if r = MkdirOk \<or> r = MkdirExists then ret 0 else mkdir_with_parents n (parent_of d))"

definition config_create_config_dir :: "unit conf" where
  "config_create_config_dir = seq config_get_config_dir (\<lambda>path.
     case path of
       None \<Rightarrow> ret ()
     | Some path \<Rightarrow> seq (gets (dir_exists path)) (\<lambda>there.
         if there then ret () else seq (mkdir_with_parents (Suc (length path)) path) (\<lambda>_. ret ())))"

definition config_path :: "string \<Rightarrow> string option conf" where
  "config_path name = seq config_get_config_dir (\<lambda>dir.
     ret (string_concat dir [Some [DIR_SEP], Some name, None]))"

definition record_path :: "string \<Rightarrow> string option conf" where
  "record_path udid = seq config_get_config_dir (\<lambda>dir.
     ret (string_concat dir [Some [DIR_SEP], Some udid, Some CONFIG_EXT, None]))"

subsection \<open>The BUID\<close>

definition get_rand :: "nat \<Rightarrow> nat \<Rightarrow> nat conf" where
  "get_rand mn mx = seq (gets rands) (\<lambda>rs.
     seq (modify (\<lambda>s. s\<lparr>rands := tl rs\<rparr>)) (\<lambda>_.
     ret ((if rs = [] then 0 else hd rs) mod (mx - mn) + mn)))"

definition uuid_chars :: string where "uuid_chars = ''ABCDEF0123456789''"

definition uuid_dash :: "nat \<Rightarrow> bool" where
  "uuid_dash i \<longleftrightarrow> i = 8 \<or> i = 13 \<or> i = 18 \<or> i = 23"

definition config_generate_uuid :: "string conf" where
  "config_generate_uuid = map_m (\<lambda>i.
     if uuid_dash i then ret (CHR ''-'') else seq (get_rand 0 16) (\<lambda>r. ret (uuid_chars ! r))) [0..<36]"

definition internal_set_value :: "string option \<Rightarrow> string \<Rightarrow> plist \<Rightarrow> int conf" where
  "internal_set_value config_file key value =
     (case config_file of
        None \<Rightarrow> ret 0
      | Some name \<Rightarrow> seq (plist_read_from_filename config_file) (\<lambda>r.
          seq (case r of
                 Some (Some config) \<Rightarrow>
                   seq (remove_file name) (\<lambda>_. ret (dict_set (dict_remove config key) key value))
               | _ \<Rightarrow> ret (dict_set (PDict []) key value)) (\<lambda>config.
          seq (plist_write_to_filename (Some config) config_file) (\<lambda>_. ret 1))))"

definition config_set_value :: "string \<Rightarrow> plist \<Rightarrow> int conf" where
  "config_set_value key value = seq config_has_local_config (\<lambda>local.
     if local then internal_set_value (Some LOCAL_CONFIG_FILE) key value
     else seq config_create_config_dir (\<lambda>_.
       seq (config_path CONFIG_FILE) (\<lambda>file. internal_set_value file key value)))"

definition internal_get_value :: "string option \<Rightarrow> string \<Rightarrow> plist option conf" where
  "internal_get_value config_file key = seq (plist_read_from_filename config_file) (\<lambda>r.
     ret (case r of Some (Some config) \<Rightarrow> dict_get config key | _ \<Rightarrow> None))"

definition config_get_value :: "string \<Rightarrow> plist option conf" where
  "config_get_value key = seq config_has_local_config (\<lambda>local.
     if local then internal_get_value (Some LOCAL_CONFIG_FILE) key
     else seq (config_path CONFIG_FILE) (\<lambda>file. internal_get_value file key))"

definition config_get_system_buid :: "string conf" where
  "config_get_system_buid = seq (config_get_value CONFIG_SYSTEM_BUID_KEY) (\<lambda>value.
     case string_val value of
       Some s \<Rightarrow> ret s
     | None \<Rightarrow> seq config_generate_uuid (\<lambda>buid.
         seq (config_set_value CONFIG_SYSTEM_BUID_KEY (PString buid)) (\<lambda>_. ret buid)))"

subsection \<open>Pairing records\<close>

definition config_has_device_record :: "string option \<Rightarrow> bool conf" where
  "config_has_device_record udid =
     (case udid of
        None \<Rightarrow> ret False
      | Some udid \<Rightarrow> seq config_create_config_dir (\<lambda>_.
          seq (record_path udid) (\<lambda>file.
          seq (some_or NullDeref file) (\<lambda>file. gets (\<lambda>s. files s file \<noteq> None)))))"

text \<open>0, or a negated \<open>errno\<close>.\<close>

definition config_set_device_record :: "string option \<Rightarrow> bytes option \<Rightarrow> int conf" where
  "config_set_device_record udid record_data =
     (case (udid, record_data) of
        (Some udid, Some data) \<Rightarrow>
          if length data < 8 then ret (- int EINVAL)
          else seq (gets (\<lambda>s. if take 8 data = bplist_magic then of_bin s data else of_xml s data)) (\<lambda>p.
            case p of
              None \<Rightarrow> ret (- int EINVAL)
            | Some p \<Rightarrow>
                if \<not> is_dict p then ret (- int EINVAL)
                else seq config_create_config_dir (\<lambda>_.
                  seq (record_path udid) (\<lambda>file.
                  seq (some_or NullDeref file) (\<lambda>name.
                  seq (remove_file name) (\<lambda>_.
                  seq (plist_write_to_filename (Some p) file) (\<lambda>r.
                  ret (if r = 0 then - int ENOENT else 0)))))))
      | _ \<Rightarrow> ret (- int EINVAL))"

definition config_get_device_record :: "string \<Rightarrow> (int \<times> bytes option) conf" where
  "config_get_device_record udid = seq config_create_config_dir (\<lambda>_.
     seq (record_path udid) (\<lambda>file.
     seq (some_or NullDeref file) (\<lambda>name.
     seq (buffer_read_from_filename name) (\<lambda>r.
     ret (if r = None then - int ENOENT else 0, r)))))"

definition config_remove_device_record :: "string \<Rightarrow> int conf" where
  "config_remove_device_record udid = seq (record_path udid) (\<lambda>file.
     seq (some_or NullDeref file) (\<lambda>name.
     seq (remove_file name) (\<lambda>e. ret (- int e))))"

definition config_device_record_get_value :: "string \<Rightarrow> string \<Rightarrow> plist option conf" where
  "config_device_record_get_value udid key = seq (record_path udid) (\<lambda>file. internal_get_value file key)"

definition config_device_record_get_host_id :: "string \<Rightarrow> string option conf" where
  "config_device_record_get_host_id udid =
     seq (config_device_record_get_value udid CONFIG_HOST_ID_KEY) (\<lambda>value.
     case string_val value of
       Some s \<Rightarrow> ret (Some s)
     | None \<Rightarrow> seq (config_get_value CONFIG_HOST_ID_KEY) (\<lambda>value. ret (string_val value)))"

subsection \<open>Running the store\<close>

lemma config_dir_cached [prog]: "conf_dir s = Some d \<Longrightarrow> config_get_config_dir s = Inr (Some d, s)"
  by (simp add: config_get_config_dir_def)

lemma create_dir_there [prog]:
  "conf_dir s = Some d \<Longrightarrow> dir_exists d s \<Longrightarrow> config_create_config_dir s = Inr ((), s)"
  by (simp add: config_create_config_dir_def seq_Inr config_dir_cached)

definition record_name :: "string \<Rightarrow> string \<Rightarrow> string" where
  "record_name d udid = d @ [DIR_SEP] @ udid @ CONFIG_EXT"

lemma record_path_run [prog]:
  "conf_dir s = Some d \<Longrightarrow> record_path udid s = Inr (Some (record_name d udid), s)"
  by (simp add: record_path_def seq_Inr config_dir_cached string_concat_def record_name_def)

lemma config_path_run [prog]:
  "conf_dir s = Some d \<Longrightarrow> config_path name s = Inr (Some (d @ [DIR_SEP] @ name), s)"
  by (simp add: config_path_def seq_Inr config_dir_cached string_concat_def)

text \<open>A path that is not just a drive, and a name without separators.\<close>

lemma parent_of_name:
  assumes "DIR_SEP \<notin> set name" "\<not> (length d = 2 \<and> d ! 1 = CHR '':'')"
  shows "parent_of (d @ [DIR_SEP] @ name) = d"
proof -
  have "dropWhile (\<lambda>c. c \<noteq> DIR_SEP) (rev name @ DIR_SEP # rev d) = DIR_SEP # rev d"
    using assms(1) by (subst dropWhile_append2) auto
  then show ?thesis
    using assms(2) by (simp add: parent_of_def)
qed

lemma no_sep_ext: "DIR_SEP \<notin> set CONFIG_EXT" "DIR_SEP \<notin> set CONFIG_FILE"
  by (simp_all add: DIR_SEP_def CONFIG_EXT_def CONFIG_FILE_def)

lemma remove_file_run:
  obtains e s' where "remove_file name s = Inr (e, s')" "dirs s' = dirs s" "conf_dir s' = conf_dir s"
    "write_fails s' = write_fails s" "xml_of s' = xml_of s" "of_xml s' = of_xml s" "of_bin s' = of_bin s"
    "\<And>n. n \<noteq> name \<Longrightarrow> files s' n = files s n"
    "files s' name = files s name \<or> files s' name = None"
proof -
  have "\<exists>e s'. remove_file name s = Inr (e, s') \<and> dirs s' = dirs s \<and> conf_dir s' = conf_dir s \<and>
    write_fails s' = write_fails s \<and> xml_of s' = xml_of s \<and> of_xml s' = of_xml s \<and> of_bin s' = of_bin s \<and>
    (\<forall>n. n \<noteq> name \<longrightarrow> files s' n = files s n) \<and> (files s' name = files s name \<or> files s' name = None)"
    by (cases "remove_errs s"; cases "hd (remove_errs s)"; cases "files s name") (auto simp: remove_file_def)
  then show ?thesis using that by blast
qed

lemma write_file_run [prog]:
  "write_fails s = [] \<Longrightarrow> dir_exists (parent_of name) s \<Longrightarrow>
     buffer_write_to_filename name b s = Inr ((), s\<lparr>files := (files s)(name := Some b)\<rparr>)"
  by (simp add: buffer_write_to_filename_def)

lemma write_plist_run [prog]:
  "xml_of s p = Some x \<Longrightarrow> write_fails s = [] \<Longrightarrow> dir_exists (parent_of name) s \<Longrightarrow>
     plist_write_to_filename (Some p) (Some name) s = Inr (1, s\<lparr>files := (files s)(name := Some x)\<rparr>)"
  by (simp add: plist_write_to_filename_def seq_Inr write_file_run)

lemma write_plist_no_dir [prog]:
  "xml_of s p = Some x \<Longrightarrow> \<not> dir_exists (parent_of name) s \<Longrightarrow>
     plist_write_to_filename (Some p) (Some name) s = Inr (1, s\<lparr>write_fails := tl (write_fails s)\<rparr>)"
  by (simp add: plist_write_to_filename_def seq_Inr buffer_write_to_filename_def)

definition parse_record :: "conf_state \<Rightarrow> bytes \<Rightarrow> plist option" where
  "parse_record s data = (if take 8 data = bplist_magic then of_bin s data else of_xml s data)"

text \<open>Saving a record, up to the directory: what is left is the removal and the write.\<close>

lemma set_record_run:
  assumes "8 \<le> length data" "parse_record s data = Some p" "is_dict p"
    and "config_create_config_dir s = Inr ((), s1)" "conf_dir s1 = Some d"
    and "remove_file (record_name d udid) s1 = Inr (e, s2)"
    and "plist_write_to_filename (Some p) (Some (record_name d udid)) s2 = Inr (1, s3)"
  shows "config_set_device_record (Some udid) (Some data) s = Inr (0, s3)"
  using assms
  by (simp add: config_set_device_record_def parse_record_def seq_Inr record_path_run)

lemma get_record_run:
  assumes "conf_dir s = Some d" "dir_exists d s" "files s (record_name d udid) = Some x" "x \<noteq> []"
  shows "config_get_device_record udid s = Inr ((0, Some x), s)"
  using assms
  by (simp add: config_get_device_record_def seq_Inr create_dir_there record_path_run
      buffer_read_from_filename_def)

lemma get_value_run:
  assumes "\<And>b. files s LOCAL_CONFIG_FILE = Some b \<Longrightarrow> b = []" "conf_dir s = Some d"
  shows "config_get_value key s =
    Inr (case files s (d @ [DIR_SEP] @ CONFIG_FILE) of
           None \<Rightarrow> None
         | Some b \<Rightarrow> if b = [] then None
                     else Option.bind (if length b > 8 \<and> take 8 b = bplist_magic then of_bin s b else of_xml s b)
                            (\<lambda>c. dict_get c key), s)"
proof -
  have "config_has_local_config s = Inr (False, s)"
    using assms(1) by (auto simp: config_has_local_config_def split: option.splits)
  then show ?thesis
    using assms(2)
    by (auto simp: config_get_value_def seq_run config_path_run internal_get_value_def
        plist_read_from_filename_def buffer_read_from_filename_def split: option.splits)
qed

subsection \<open>Properties\<close>

text \<open>
  C26: a pairing record that was saved is read back as the property list that was parsed from
  it, when the configuration directory exists and the file can be written; an old record that
  cannot be removed does not matter.
\<close>

theorem pair_record_saved:
  assumes "conf_dir s = Some d" "dir_exists d s" "\<not> (length d = 2 \<and> d ! 1 = CHR '':'')"
    and "DIR_SEP \<notin> set udid" "write_fails s = []"
    and "8 \<le> length data" "parse_record s data = Some p" "is_dict p" "xml_of s p = Some x" "x \<noteq> []"
  shows "\<exists>s'. config_set_device_record (Some udid) (Some data) s = Inr (0, s') \<and>
              config_get_device_record udid s' = Inr ((0, Some x), s')"
proof -
  let ?f = "record_name d udid"
  have parent: "parent_of ?f = d"
    using parent_of_name [of "udid @ CONFIG_EXT" d] assms(3,4) no_sep_ext by (simp add: record_name_def)
  obtain e s2 where s2: "remove_file ?f s = Inr (e, s2)" "dirs s2 = dirs s" "conf_dir s2 = conf_dir s"
    "write_fails s2 = write_fails s" "xml_of s2 = xml_of s"
    by (rule remove_file_run)
  have d2: "dir_exists d s2" using assms(2) s2(2) by (simp add: dir_exists_def)
  let ?s3 = "s2\<lparr>files := (files s2)(?f := Some x)\<rparr>"
  have "plist_write_to_filename (Some p) (Some ?f) s2 = Inr (1, ?s3)"
    using assms s2 d2 parent by (intro write_plist_run) simp_all
  then have "config_set_device_record (Some udid) (Some data) s = Inr (0, ?s3)"
    using assms s2 by (intro set_record_run [OF _ _ _ create_dir_there]) simp_all
  moreover have "config_get_device_record udid ?s3 = Inr ((0, Some x), ?s3)"
    using assms s2 d2 by (intro get_record_run [where d = d]) (simp_all add: dir_exists_def)
  ultimately show ?thesis by blast
qed

definition sample_store :: conf_state where
  "sample_store = \<lparr>files = Map.empty, dirs = (\<lambda>d. d = ''C''), conf_dir = Some ''C'', base_config_dir = None,
     rands = [], write_fails = [], remove_errs = [], xml_of = (\<lambda>p. Some [60]),
     of_xml = (\<lambda>b. Some (PDict [(''HostID'', PString ''A'')])), of_bin = (\<lambda>b. None)\<rparr>"

theorem pair_record_saved_witness:
  "\<exists>s'. config_set_device_record (Some ''u'') (Some [0, 0, 0, 0, 0, 0, 0, 0]) sample_store = Inr (0, s') \<and>
        config_get_device_record ''u'' s' = Inr ((0, Some [60]), s')"
  by (rule pair_record_saved [where d = "''C''" and p = "PDict [(''HostID'', PString ''A'')]"])
    (simp_all add: sample_store_def dir_exists_def parse_record_def bplist_magic_def DIR_SEP_def)

text \<open>
  When the configuration directory and its parent are both missing, only the parent is
  created: saving a pairing record reports success and stores nothing.
\<close>

theorem pair_record_lost:
  assumes "conf_dir s = Some d" "\<not> dir_exists d s" "\<not> dir_exists (parent_of d) s"
    and "dir_exists (parent_of (parent_of d)) s" "2 \<le> length d"
    and "parent_of (record_name d udid) = d" "d \<noteq> parent_of d"
    and "8 \<le> length data" "parse_record s data = Some p" "is_dict p" "xml_of s p = Some x"
    and "files s (record_name d udid) = None"
  shows "\<exists>s'. config_set_device_record (Some udid) (Some data) s = Inr (0, s') \<and>
              files s' (record_name d udid) = None"
proof -
  let ?f = "record_name d udid"
  let ?s1 = "s\<lparr>dirs := (dirs s)(parent_of d := True)\<rparr>"
  obtain n where n: "length d = Suc n" using assms(5) by (cases "length d") auto
  have "mkdir_with_parents (Suc (length d)) d s = Inr (0, ?s1)"
    using assms(2-4) n by (simp add: seq_Inr mk_dir_def)
  then have mk: "config_create_config_dir s = Inr ((), ?s1)"
    using assms(1,2) by (simp add: config_create_config_dir_def seq_Inr config_dir_cached del: mkdir_with_parents.simps)
  obtain e s2 where s2: "remove_file ?f ?s1 = Inr (e, s2)" "dirs s2 = dirs ?s1" "xml_of s2 = xml_of ?s1"
    "files s2 ?f = files ?s1 ?f \<or> files s2 ?f = None"
    by (rule remove_file_run)
  have "\<not> dir_exists (parent_of ?f) s2"
    using assms(2,6,7) s2(2) by (simp add: dir_exists_def)
  then have "plist_write_to_filename (Some p) (Some ?f) s2 = Inr (1, s2\<lparr>write_fails := tl (write_fails s2)\<rparr>)"
    using assms(11) s2(3) by (intro write_plist_no_dir) simp_all
  then have "config_set_device_record (Some udid) (Some data) s = Inr (0, s2\<lparr>write_fails := tl (write_fails s2)\<rparr>)"
    using assms mk s2 by (intro set_record_run [OF _ _ _ mk]) simp_all
  then show ?thesis
    using assms(12) s2(4) by auto
qed

theorem pair_record_lost_witness:
  "\<exists>s'. config_set_device_record (Some ''u'') (Some [0, 0, 0, 0, 0, 0, 0, 0])
          (sample_store\<lparr>conf_dir := Some (''C'' @ [DIR_SEP] @ ''M'' @ [DIR_SEP] @ ''S'')\<rparr>) = Inr (0, s') \<and>
        files s' (record_name (''C'' @ [DIR_SEP] @ ''M'' @ [DIR_SEP] @ ''S'') ''u'') = None"
  by (rule pair_record_lost [where p = "PDict [(''HostID'', PString ''A'')]" and x = "[60]"])
    (simp_all add: sample_store_def dir_exists_def parse_record_def bplist_magic_def DIR_SEP_def
      parent_of_def record_name_def CONFIG_EXT_def)

text \<open>
  A generated BUID has the shape of a UUID, whatever \<open>rand\<close> returns: 36 characters, dashes
  at the four fixed places and upper case hexadecimal digits everywhere else.
\<close>

theorem uuid_shape:
  "\<exists>u s'. config_generate_uuid s = Inr (u, s') \<and> length u = 36 \<and>
     (\<forall>i < 36. if uuid_dash i then u ! i = CHR ''-'' else u ! i \<in> set uuid_chars)"
proof -
  have rnd: "\<exists>r s'. get_rand 0 16 s = Inr (r, s') \<and> r < 16" for s
    by (simp add: get_rand_def)
  let ?Q = "\<lambda>i c. if uuid_dash i then c = CHR ''-'' else c \<in> set uuid_chars"
  let ?f = "\<lambda>i. if uuid_dash i then ret (CHR ''-'') else seq (get_rand 0 16) (\<lambda>r. ret (uuid_chars ! r))"
  have step: "\<exists>c s'. ?f i s = Inr (c, s') \<and> ?Q i c"
    for i and s :: conf_state
  proof (cases "uuid_dash i")
    case False
    obtain r s' where "get_rand 0 16 s = Inr (r, s')" "r < 16" using rnd by blast
    moreover have "length uuid_chars = 16" by (simp add: uuid_chars_def)
    ultimately show ?thesis using False by (simp add: seq_Inr)
  qed simp
  then obtain u s' where u: "config_generate_uuid s = Inr (u, s')" "list_all2 ?Q [0..<36] u"
    using map_m_all2 [of ?f ?Q "[0..<36]" s] step unfolding config_generate_uuid_def by blast
  have len: "length u = 36" using list_all2_lengthD [OF u(2)] by simp
  moreover have "?Q i (u ! i)" if "i < 36" for i
    using list_all2_nthD [OF u(2), of i] that by simp
  ultimately show ?thesis using u(1) by blast
qed

theorem uuid_shape_witness:
  "\<exists>u s'. config_generate_uuid (sample_store\<lparr>rands := [3, 99]\<rparr>) = Inr (u, s') \<and> length u = 36 \<and>
     u ! 8 = CHR ''-'' \<and> u ! 0 \<in> set uuid_chars"
proof -
  obtain u s' where u: "config_generate_uuid (sample_store\<lparr>rands := [3, 99]\<rparr>) = Inr (u, s')" "length u = 36"
    "\<forall>i < 36. if uuid_dash i then u ! i = CHR ''-'' else u ! i \<in> set uuid_chars"
    using uuid_shape by blast
  have "u ! 8 = CHR ''-''" "u ! 0 \<in> set uuid_chars"
    using u(3) [rule_format, of 8] u(3) [rule_format, of 0] by (simp_all add: uuid_dash_def)
  with u show ?thesis by blast
qed

end
