(* ===== verification/World.thy ===== *)
theory World
  imports Collections Wire Conf
begin

text \<open>
  The state of the daemon. Every heap object of the C++ program (mux devices, connections,
  clients, usb devices, transmit buffers) is a cell of a heap indexed by its address; freeing
  clears the cell, so that a later access through a stale pointer is the halt
  \<open>UseAfterFree\<close> and a second free \<open>DoubleFree\<close>. The global lists, counters and queues are
  fields. What the operating system, the port plugin and the libraries answer is read from
  scripts kept in the state (lists of results, consumed in call order), and what the daemon
  does to them is appended to logs; a theorem about all states is a theorem about all scripts.
\<close>

subsection \<open>Enumerations\<close>

datatype mux_dev_state = MUXDEV_INIT | MUXDEV_ACTIVE | MUXDEV_DEAD

datatype mux_conn_state =
  CONN_CONNECTING | CONN_CONNECTED | CONN_REFUSED | CONN_DYING | CONN_DEAD

datatype client_state =
  CLIENT_COMMAND | CLIENT_LISTEN | CLIENT_CONNECTING1 | CLIENT_CONNECTING2 | CLIENT_CONNECTED | CLIENT_DEAD

datatype device_monitor_state = DEVICE_MONITOR_ONCE | DEVICE_MONITOR_ALWAYS | DEVICE_MONITOR_DISABLE

datatype usb_device_state =
  USB_DEVICE_STATE_ALIVE | USB_DEVICE_STATE_DEAD | USB_DEVICE_STATE_WAITING_FOR_DEVICE

datatype pending_type =
  PENDING_DEVICE_COMMAND_ADD | PENDING_DEVICE_COMMAND_REMOVE | PENDING_DEVICE_COMMAND_SET_MONITOR

datatype pending_source =
  PENDING_DEVICE_COMMAND_SOURCE_MANUAL | PENDING_DEVICE_COMMAND_SOURCE_MONITOR

subsection \<open>Objects\<close>

text \<open>\<open>struct mux_connection\<close>. \<open>events\<close> is the poll mask, \<open>flags\<close> holds \<open>CONN_ACK_PENDING\<close>.\<close>

record mux_connection =
  conn_dev :: ptr
  conn_client :: "ptr option"
  conn_state :: mux_conn_state
  conn_sport :: u16
  conn_dport :: u16
  conn_tx_seq :: u32
  conn_tx_ack :: u32
  conn_tx_acked :: u32
  conn_tx_win :: u32
  conn_rx_seq :: u32
  conn_rx_ack :: u32
  conn_rx_win :: u32
  conn_max_payload :: u32
  conn_sendable :: u32
  conn_flags :: u32
  conn_ib_buf :: bytes
  conn_ib_size :: u32
  conn_ib_capacity :: u32
  conn_ob_buf :: bytes
  conn_ob_capacity :: u32
  conn_events :: u16
  conn_last_ack_time :: u64

text \<open>
  \<open>struct mux_device\<close>. \<open>connections = None\<close> is the uninitialised collection of a device whose
  version packet has not arrived; \<open>tx_seq\<close> and \<open>rx_seq\<close> start as whatever \<open>malloc\<close> returned.
\<close>

record mux_device =
  dev_usbdev :: ptr
  dev_id :: u32
  dev_state :: mux_dev_state
  dev_visible :: bool
  dev_connections :: "ptr collection option"
  dev_next_sport :: u16
  dev_pktbuf :: bytes
  dev_pktlen :: u32
  dev_preflight_cb_data :: "ptr option"
  dev_version :: u32
  dev_rx_seq :: u16
  dev_tx_seq :: u16
  dev_rx_data_events_socket :: "fd option"
  dev_is_preflight_worker_running :: bool

text \<open>\<open>struct mux_client\<close>; a buffer is \<open>None\<close> once it was freed and set to \<open>NULL\<close>.\<close>

record mux_client =
  cl_fd :: fd
  cl_ob_buf :: "bytes option"
  cl_ob_size :: u32
  cl_ob_capacity :: u32
  cl_ib_buf :: "bytes option"
  cl_ib_size :: u32
  cl_ib_capacity :: u32
  cl_events :: u16
  cl_devents :: u16
  cl_connect_tag :: u32
  cl_connect_device :: u32
  cl_state :: client_state
  cl_proto_version :: u32

text \<open>\<open>COMHANDLE\<close> of the plugin interface, the instance information and \<open>struct usb_device\<close>.\<close>

record com_port =
  port_id :: u32
  port_wVID :: u16
  port_wPID :: u16
  port_bTurbo :: bool

record usb_info =
  ui_serial :: string
  ui_ep_in :: u8
  ui_ep_out :: u8
  ui_tx_max_packet_size :: u16

record tx_elem =
  te_buffer :: "ptr option"
  te_overlapped :: "ptr option"

record usb_device =
  ud_id :: u32
  ud_location :: u32
  ud_port :: com_port
  ud_monitor :: device_monitor_state
  ud_state :: usb_device_state
  ud_info :: usb_info
  ud_rx_buffer :: bytes
  ud_rx_data_size :: u32
  ud_rx_socket :: "fd option"
  ud_rx_thread :: bool
  ud_rx_stop_event :: "bool option"
  ud_tx_stop :: "bool option"
  ud_tx_thread :: bool
  ud_tx_q :: "tx_elem list"
  ud_tx_pool :: "tx_elem list"
  ud_ready_event :: "ptr option"

text \<open>
  \<open>struct device_info\<close> of device.h. Its serial is not a copy: it points into the usb device it
  was taken from.
\<close>

record device_info =
  di_id :: u32
  di_serial :: "ptr option"
  di_location :: u32
  di_pid :: u16

record pending_command =
  pc_type :: pending_type
  pc_source :: pending_source
  pc_location :: u32
  pc_event :: "ptr option"
  pc_monitor :: device_monitor_state

text \<open>Outcomes of an outgoing and of an incoming transfer of the port plugin.\<close>

datatype xfer_status = XferOk | XferPending | XferFailed

datatype rx_status = RxDone bytes | RxPending | RxFailed

subsection \<open>The state\<close>

text \<open>The operating system, the port plugin and the libraries: their answers and what was done to them.\<close>

record sysenv =
  junk16 :: "u16 \<times> u16"
  now :: u64
  ticks :: "u64 list"
  oks :: "bool list"
  sends :: "int list"
  recvs :: "bytes option list"
  accepts :: "fd option list"
  xfers :: "xfer_status list"
  reads :: "rx_status list"
  com_opens :: "com_port option list"
  com_device_descs :: "(u8 \<times> u8) option list"
  com_serials :: "string option list"
  com_configs :: "(u32 \<times> bytes option) list"
  include_hidden :: bool
  sock_out :: "(fd \<times> bytes) list"
  closed_socks :: "fd list"
  usb_out :: "(ptr \<times> bytes) list"
  events_set :: "(ptr \<times> ptr list \<times> ptr list) list"
  preflights :: "device_info list"

text \<open>The daemon: its heap, its global variables and its environment.\<close>

record world =
  dev_heap :: "ptr \<Rightarrow> mux_device option"
  conn_heap :: "ptr \<Rightarrow> mux_connection option"
  client_heap :: "ptr \<Rightarrow> mux_client option"
  usb_heap :: "ptr \<Rightarrow> usb_device option"
  buf_heap :: "ptr \<Rightarrow> bytes option"
  next_ptr :: ptr
  device_list :: "ptr collection"
  client_list :: "ptr collection"
  g_device_list :: "ptr collection"
  next_device_id :: u32
  g_next_usb_device_id :: u32
  g_pending_devices :: "pending_command list"
  notification_cookie :: bool
  preflight_gone :: "ptr list"
  conf :: conf_state
  sys :: sysenv

type_synonym 'a act = "(world, 'a) prog"

subsection \<open>Heap access\<close>

definition get_dev :: "ptr \<Rightarrow> mux_device act" where
  "get_dev d = seq (gets dev_heap) (\<lambda>h. some_or UseAfterFree (h d))"

definition set_dev :: "ptr \<Rightarrow> mux_device \<Rightarrow> unit act" where
  "set_dev d v = modify (\<lambda>w. w\<lparr>dev_heap := (dev_heap w)(d := Some v)\<rparr>)"

definition upd_dev :: "ptr \<Rightarrow> (mux_device \<Rightarrow> mux_device) \<Rightarrow> unit act" where
  "upd_dev d f = seq (get_dev d) (\<lambda>v. set_dev d (f v))"

definition free_dev :: "ptr \<Rightarrow> unit act" where
  "free_dev d = seq (gets dev_heap) (\<lambda>h.
     if h d = None then stop DoubleFree
     else modify (\<lambda>w. w\<lparr>dev_heap := (dev_heap w)(d := None)\<rparr>))"

definition get_conn :: "ptr \<Rightarrow> mux_connection act" where
  "get_conn c = seq (gets conn_heap) (\<lambda>h. some_or UseAfterFree (h c))"

definition set_conn :: "ptr \<Rightarrow> mux_connection \<Rightarrow> unit act" where
  "set_conn c v = modify (\<lambda>w. w\<lparr>conn_heap := (conn_heap w)(c := Some v)\<rparr>)"

definition upd_conn :: "ptr \<Rightarrow> (mux_connection \<Rightarrow> mux_connection) \<Rightarrow> unit act" where
  "upd_conn c f = seq (get_conn c) (\<lambda>v. set_conn c (f v))"

definition free_conn :: "ptr \<Rightarrow> unit act" where
  "free_conn c = seq (gets conn_heap) (\<lambda>h.
     if h c = None then stop DoubleFree
     else modify (\<lambda>w. w\<lparr>conn_heap := (conn_heap w)(c := None)\<rparr>))"

definition get_client :: "ptr \<Rightarrow> mux_client act" where
  "get_client k = seq (gets client_heap) (\<lambda>h. some_or UseAfterFree (h k))"

definition set_client :: "ptr \<Rightarrow> mux_client \<Rightarrow> unit act" where
  "set_client k v = modify (\<lambda>w. w\<lparr>client_heap := (client_heap w)(k := Some v)\<rparr>)"

definition upd_client :: "ptr \<Rightarrow> (mux_client \<Rightarrow> mux_client) \<Rightarrow> unit act" where
  "upd_client k f = seq (get_client k) (\<lambda>v. set_client k (f v))"

definition free_client :: "ptr \<Rightarrow> unit act" where
  "free_client k = seq (gets client_heap) (\<lambda>h.
     if h k = None then stop DoubleFree
     else modify (\<lambda>w. w\<lparr>client_heap := (client_heap w)(k := None)\<rparr>))"

definition get_usb :: "ptr \<Rightarrow> usb_device act" where
  "get_usb u = seq (gets usb_heap) (\<lambda>h. some_or UseAfterFree (h u))"

definition set_usb :: "ptr \<Rightarrow> usb_device \<Rightarrow> unit act" where
  "set_usb u v = modify (\<lambda>w. w\<lparr>usb_heap := (usb_heap w)(u := Some v)\<rparr>)"

definition upd_usb :: "ptr \<Rightarrow> (usb_device \<Rightarrow> usb_device) \<Rightarrow> unit act" where
  "upd_usb u f = seq (get_usb u) (\<lambda>v. set_usb u (f v))"

definition free_usb :: "ptr \<Rightarrow> unit act" where
  "free_usb u = seq (gets usb_heap) (\<lambda>h.
     if h u = None then stop DoubleFree
     else modify (\<lambda>w. w\<lparr>usb_heap := (usb_heap w)(u := None)\<rparr>))"

text \<open>Transmit buffers: \<open>malloc\<close> with its contents, and \<open>free\<close>.\<close>

definition new_ptr :: "ptr act" where
  "new_ptr w = Inr (next_ptr w, w\<lparr>next_ptr := Suc (next_ptr w)\<rparr>)"

definition alloc_buf :: "bytes \<Rightarrow> ptr act" where
  "alloc_buf bs = seq new_ptr (\<lambda>p.
     seq (modify (\<lambda>w. w\<lparr>buf_heap := (buf_heap w)(p := Some bs)\<rparr>)) (\<lambda>_. ret p))"

definition get_buf :: "ptr \<Rightarrow> bytes act" where
  "get_buf p = seq (gets buf_heap) (\<lambda>h. some_or UseAfterFree (h p))"

definition free_buf :: "ptr \<Rightarrow> unit act" where
  "free_buf p = seq (gets buf_heap) (\<lambda>h.
     if h p = None then stop DoubleFree
     else modify (\<lambda>w. w\<lparr>buf_heap := (buf_heap w)(p := None)\<rparr>))"

text \<open>An operation of the configuration store.\<close>

definition in_conf :: "'a conf \<Rightarrow> 'a act" where
  "in_conf m w = (case m (conf w) of Inl h \<Rightarrow> Inl h | Inr (x, s) \<Rightarrow> Inr (x, w\<lparr>conf := s\<rparr>))"

subsection \<open>The environment\<close>

text \<open>The outcome of an API call that only succeeds or fails; an exhausted script succeeds.\<close>

definition api_ok :: "bool act" where
  "api_ok w = (case oks (sys w) of
       [] \<Rightarrow> Inr (True, w)
     | b # bs \<Rightarrow> Inr (b, w\<lparr>sys := (sys w)\<lparr>oks := bs\<rparr>\<rparr>))"

text \<open>
  \<open>mstime64\<close>: the clock. An exhausted script repeats the last reading.
\<close>

definition mstime64 :: "u64 act" where
  "mstime64 w = (case ticks (sys w) of
       [] \<Rightarrow> Inr (now (sys w), w)
     | t # ts \<Rightarrow> Inr (t, w\<lparr>sys := (sys w)\<lparr>now := t, ticks := ts\<rparr>\<rparr>))"

text \<open>
  \<open>send\<close> returns an error or the number of bytes it took, at most as many as it was given;
  \<open>recv\<close> returns an error or at most \<open>n\<close> bytes, none of them when the peer has closed.
\<close>

definition sys_send :: "fd \<Rightarrow> bytes \<Rightarrow> int act" where
  "sys_send s bs w =
     (case sends (sys w) of
        [] \<Rightarrow> Inr (int (length bs), w\<lparr>sys := (sys w)\<lparr>sock_out := sock_out (sys w) @ [(s, bs)]\<rparr>\<rparr>)
      | r # rs \<Rightarrow>
          if r < 0 then Inr (-1, w\<lparr>sys := (sys w)\<lparr>sends := rs\<rparr>\<rparr>)
          else let n = min (nat r) (length bs)
               in Inr (int n, w\<lparr>sys := (sys w)\<lparr>sends := rs,
                                  sock_out := sock_out (sys w) @ [(s, take n bs)]\<rparr>\<rparr>))"

definition sys_recv :: "fd \<Rightarrow> nat \<Rightarrow> bytes option act" where
  "sys_recv s n w =
     (case recvs (sys w) of
        [] \<Rightarrow> Inr (None, w)
      | r # rs \<Rightarrow> Inr (map_option (take n) r, w\<lparr>sys := (sys w)\<lparr>recvs := rs\<rparr>\<rparr>))"

definition closesocket :: "fd \<Rightarrow> unit act" where
  "closesocket s = modify (\<lambda>w. w\<lparr>sys := (sys w)\<lparr>closed_socks := closed_socks (sys w) @ [s]\<rparr>\<rparr>)"

definition sys_accept :: "fd option act" where
  "sys_accept w = (case accepts (sys w) of
       [] \<Rightarrow> Inr (None, w)
     | r # rs \<Rightarrow> Inr (r, w\<lparr>sys := (sys w)\<lparr>accepts := rs\<rparr>\<rparr>))"

text \<open>
  An event is logged with the usb devices and the mux devices that are listed when it is signalled: a thread that waited
  for it finds these.
\<close>

definition set_event :: "ptr \<Rightarrow> unit act" where
  "set_event e = modify (\<lambda>w. w\<lparr>sys := (sys w)\<lparr>events_set := events_set (sys w) @
     [(e, elems (g_device_list w), elems (device_list w))]\<rparr>\<rparr>)"

text \<open>Poll masks of the Windows headers.\<close>

definition POLLIN :: u16 where "POLLIN = 0x300"
definition POLLOUT :: u16 where "POLLOUT = 0x10"

definition has_bits :: "u16 \<Rightarrow> u16 \<Rightarrow> bool" where
  "has_bits m x \<longleftrightarrow> x AND m \<noteq> 0"

subsection \<open>Running heap accesses\<close>

lemma get_dev_run [prog]:
  "dev_heap w d = Some v \<Longrightarrow> get_dev d w = Inr (v, w)"
  "dev_heap w d = None \<Longrightarrow> get_dev d w = Inl UseAfterFree"
  by (simp_all add: get_dev_def)

lemma get_conn_run [prog]:
  "conn_heap w c = Some v \<Longrightarrow> get_conn c w = Inr (v, w)"
  "conn_heap w c = None \<Longrightarrow> get_conn c w = Inl UseAfterFree"
  by (simp_all add: get_conn_def)

lemma get_client_run [prog]:
  "client_heap w k = Some v \<Longrightarrow> get_client k w = Inr (v, w)"
  "client_heap w k = None \<Longrightarrow> get_client k w = Inl UseAfterFree"
  by (simp_all add: get_client_def)

lemma get_usb_run [prog]:
  "usb_heap w u = Some v \<Longrightarrow> get_usb u w = Inr (v, w)"
  "usb_heap w u = None \<Longrightarrow> get_usb u w = Inl UseAfterFree"
  by (simp_all add: get_usb_def)

lemma upd_dev_run [prog]:
  "dev_heap w d = Some v \<Longrightarrow> upd_dev d f w = Inr ((), w\<lparr>dev_heap := (dev_heap w)(d := Some (f v))\<rparr>)"
  by (simp add: upd_dev_def set_dev_def seq_Inr get_dev_run)

lemma upd_conn_run [prog]:
  "conn_heap w c = Some v \<Longrightarrow> upd_conn c f w = Inr ((), w\<lparr>conn_heap := (conn_heap w)(c := Some (f v))\<rparr>)"
  by (simp add: upd_conn_def set_conn_def seq_Inr get_conn_run)

lemma upd_client_run [prog]:
  "client_heap w k = Some v \<Longrightarrow>
     upd_client k f w = Inr ((), w\<lparr>client_heap := (client_heap w)(k := Some (f v))\<rparr>)"
  by (simp add: upd_client_def set_client_def seq_Inr get_client_run)

lemma upd_usb_run [prog]:
  "usb_heap w u = Some v \<Longrightarrow> upd_usb u f w = Inr ((), w\<lparr>usb_heap := (usb_heap w)(u := Some (f v))\<rparr>)"
  by (simp add: upd_usb_def set_usb_def seq_Inr get_usb_run)

lemma free_conn_run [prog]:
  "conn_heap w c = Some v \<Longrightarrow> free_conn c w = Inr ((), w\<lparr>conn_heap := (conn_heap w)(c := None)\<rparr>)"
  "conn_heap w c = None \<Longrightarrow> free_conn c w = Inl DoubleFree"
  by (simp_all add: free_conn_def)

lemma free_client_run [prog]:
  "client_heap w k = Some v \<Longrightarrow> free_client k w = Inr ((), w\<lparr>client_heap := (client_heap w)(k := None)\<rparr>)"
  "client_heap w k = None \<Longrightarrow> free_client k w = Inl DoubleFree"
  by (simp_all add: free_client_def)

lemma free_dev_run [prog]:
  "dev_heap w d = Some v \<Longrightarrow> free_dev d w = Inr ((), w\<lparr>dev_heap := (dev_heap w)(d := None)\<rparr>)"
  "dev_heap w d = None \<Longrightarrow> free_dev d w = Inl DoubleFree"
  by (simp_all add: free_dev_def)

lemma free_buf_run [prog]:
  "buf_heap w p = Some v \<Longrightarrow> free_buf p w = Inr ((), w\<lparr>buf_heap := (buf_heap w)(p := None)\<rparr>)"
  "buf_heap w p = None \<Longrightarrow> free_buf p w = Inl DoubleFree"
  by (simp_all add: free_buf_def)

lemma closesocket_run [prog]:
  "closesocket s w = Inr ((), w\<lparr>sys := (sys w)\<lparr>closed_socks := closed_socks (sys w) @ [s]\<rparr>\<rparr>)"
  by (simp add: closesocket_def)

lemma set_event_run [prog]:
  "set_event e w = Inr ((), w\<lparr>sys := (sys w)\<lparr>events_set := events_set (sys w) @
     [(e, elems (g_device_list w), elems (device_list w))]\<rparr>\<rparr>)"
  by (simp add: set_event_def)

subsection \<open>A concrete state\<close>

text \<open>
  A daemon without devices and clients whose environment always succeeds: the state in which
  the witnesses of the development place their objects.
\<close>

definition idle_env :: sysenv where
  "idle_env = \<lparr>junk16 = (0, 0), now = 0, ticks = [], oks = [], sends = [], recvs = [], accepts = [], xfers = [],
     reads = [], com_opens = [], com_device_descs = [], com_serials = [], com_configs = [],
     include_hidden = False, sock_out = [], closed_socks = [], usb_out = [], events_set = [], preflights = []\<rparr>"

definition idle_world :: world where
  "idle_world = \<lparr>dev_heap = Map.empty, conn_heap = Map.empty, client_heap = Map.empty, usb_heap = Map.empty,
     buf_heap = Map.empty, next_ptr = 100, device_list = [], client_list = [], g_device_list = [],
     next_device_id = 1, g_next_usb_device_id = 0, g_pending_devices = [], notification_cookie = True,
     preflight_gone = [], conf = sample_store, sys = idle_env\<rparr>"

definition idle_client :: "client_state \<Rightarrow> mux_client" where
  "idle_client st = \<lparr>cl_fd = 7, cl_ob_buf = Some [], cl_ob_size = 0, cl_ob_capacity = 0x10000, cl_ib_buf = Some [],
     cl_ib_size = 0, cl_ib_capacity = 0x10000, cl_events = POLLIN, cl_devents = 0, cl_connect_tag = 0,
     cl_connect_device = 1, cl_state = st, cl_proto_version = 0\<rparr>"

definition idle_device :: "mux_dev_state \<Rightarrow> ptr list \<Rightarrow> mux_device" where
  "idle_device st cs = \<lparr>dev_usbdev = 30, dev_id = 1, dev_state = st, dev_visible = True,
     dev_connections = Some (map Some cs @ [None]), dev_next_sport = 1, dev_pktbuf = [], dev_pktlen = 0,
     dev_preflight_cb_data = None, dev_version = 2, dev_rx_seq = 0, dev_tx_seq = 0,
     dev_rx_data_events_socket = Some 9, dev_is_preflight_worker_running = False\<rparr>"

definition idle_conn :: "mux_conn_state \<Rightarrow> bytes \<Rightarrow> mux_connection" where
  "idle_conn st ib = \<lparr>conn_dev = 10, conn_client = Some 20, conn_state = st, conn_sport = 1, conn_dport = 62078,
     conn_tx_seq = 1, conn_tx_ack = 1, conn_tx_acked = 1, conn_tx_win = 0x40000 - of_nat (length ib), conn_rx_seq = 0, conn_rx_ack = 1,
     conn_rx_win = 0x20000, conn_max_payload = 32728, conn_sendable = 0, conn_flags = 0, conn_ib_buf = ib,
     conn_ib_size = of_nat (length ib), conn_ib_capacity = 0x40000, conn_ob_buf = [], conn_ob_capacity = 0x10000,
     conn_events = 0, conn_last_ack_time = 0\<rparr>"

definition idle_usb :: usb_device where
  "idle_usb = \<lparr>ud_id = 5, ud_location = 6,
     ud_port = \<lparr>port_id = 7, port_wVID = 0x5ac, port_wPID = 0x12a8, port_bTurbo = False\<rparr>,
     ud_monitor = DEVICE_MONITOR_ONCE, ud_state = USB_DEVICE_STATE_ALIVE,
     ud_info = \<lparr>ui_serial = ''s'', ui_ep_in = 0x81, ui_ep_out = 2, ui_tx_max_packet_size = 512\<rparr>,
     ud_rx_buffer = [], ud_rx_data_size = 0, ud_rx_socket = Some 9, ud_rx_thread = True,
     ud_rx_stop_event = Some False, ud_tx_stop = Some False, ud_tx_thread = True, ud_tx_q = [], ud_tx_pool = [],
     ud_ready_event = None\<rparr>"

text \<open>One device with one connection of one client.\<close>

definition link_world :: "mux_device \<Rightarrow> mux_connection \<Rightarrow> mux_client \<Rightarrow> world" where
  "link_world d c k = idle_world\<lparr>dev_heap := [10 \<mapsto> d], conn_heap := [40 \<mapsto> c], client_heap := [20 \<mapsto> k],
     usb_heap := [30 \<mapsto> idle_usb], device_list := [Some 10], client_list := [Some 20],
     g_device_list := [Some 30]\<rparr>"

lemmas idle_defs = idle_env_def idle_world_def idle_client_def idle_device_def idle_conn_def idle_usb_def
  link_world_def

end
