(* ===== verification/Usb_Io.thy ===== *)
theory Usb_Io
  imports World
begin

text \<open>
  The transfer layer of usb-mce.cpp: outgoing transfers (\<open>usb_send\<close> with its queue and pool of
  transmit elements, the write thread), incoming transfers (\<open>usb_start_read\<close>,
  \<open>usb_get_read_result\<close>) and the accessors of \<open>struct usb_device\<close>. The lock-free queues
  \<open>tx.q\<close> and \<open>tx.pool\<close> are lists used first in, first out. The lemmas follow the ownership of
  a transmit buffer: \<open>usb_send\<close> always takes it.
\<close>

definition USB_MRU :: nat where "USB_MRU = 16384"
definition USB_MTU :: nat where "USB_MTU = 3 * 16384"
definition DEVICE_RX_BUFFER_SIZE :: nat where "DEVICE_RX_BUFFER_SIZE = 0x8008"
definition VID_APPLE :: u16 where "VID_APPLE = 0x5ac"
definition PID_RANGE_LOW :: u16 where "PID_RANGE_LOW = 0x1290"
definition PID_RANGE_MAX :: u16 where "PID_RANGE_MAX = 0x12af"
definition COM_MCEUSB :: u32 where "COM_MCEUSB = 7"

subsection \<open>Accessors\<close>

text \<open>\<open>IS_VALID_DEVICE\<close>: the port of the device is open.\<close>

definition is_valid_device :: "usb_device \<Rightarrow> bool" where
  "is_valid_device d \<longleftrightarrow> port_id (ud_port d) = COM_MCEUSB"

definition usb_get_location :: "ptr \<Rightarrow> u32 act" where
  "usb_get_location u = seq (get_usb u) (\<lambda>d. ret (ud_location d))"

definition usb_get_pid :: "ptr \<Rightarrow> u16 act" where
  "usb_get_pid u = seq (get_usb u) (\<lambda>d. ret (port_wPID (ud_port d)))"

text \<open>The serial is handed out as a pointer into the device.\<close>

definition usb_get_serial :: "ptr \<Rightarrow> ptr option act" where
  "usb_get_serial u = seq (get_usb u) (\<lambda>d. ret (Some u))"

definition usb_is_device_monitored :: "ptr \<Rightarrow> bool act" where
  "usb_is_device_monitored u = seq (get_usb u) (\<lambda>d.
     ret (if \<not> is_valid_device d then False else ud_monitor d \<noteq> DEVICE_MONITOR_DISABLE))"

definition usb_has_devices :: "bool act" where
  "usb_has_devices = gets (\<lambda>w. collection_count (g_device_list w) > 0)"

definition usb_set_device_ready :: "ptr \<Rightarrow> unit act" where
  "usb_set_device_ready u = seq (get_usb u) (\<lambda>d.
     if is_valid_device d
     then (case ud_ready_event d of None \<Rightarrow> ret () | Some e \<Rightarrow> set_event e)
     else ret ())"

definition usb_get_device_by_id :: "u32 \<Rightarrow> ptr option act" where
  "usb_get_device_by_id i = seq (gets g_device_list) (\<lambda>col.
     find_in usb_heap (\<lambda>d. is_valid_device d \<and> ud_id d = i) col)"

text \<open>The string a \<open>device_info\<close> points to, read when it is used.\<close>

definition read_serial :: "ptr option \<Rightarrow> string act" where
  "read_serial s = seq (some_or NullDeref s) (\<lambda>u. seq (get_usb u) (\<lambda>d. ret (ui_serial (ud_info d))))"

subsection \<open>Outgoing transfers\<close>

text \<open>\<open>com_plugin_transfer\<close> on the write endpoint; an accepted transfer is logged.\<close>

definition com_transfer_out :: "ptr \<Rightarrow> bytes \<Rightarrow> xfer_status act" where
  "com_transfer_out u bs w =
     (let st = (case xfers (sys w) of [] \<Rightarrow> XferOk | s # _ \<Rightarrow> s);
          log = (if st = XferFailed then usb_out (sys w) else usb_out (sys w) @ [(u, bs)])
      in Inr (st, w\<lparr>sys := (sys w)\<lparr>xfers := tl (xfers (sys w)), usb_out := log\<rparr>\<rparr>))"

definition GetTXQElement :: "ptr \<Rightarrow> ptr option \<Rightarrow> tx_elem act" where
  "GetTXQElement u buff = seq (get_usb u) (\<lambda>d.
     case ud_tx_pool d of
       e # es \<Rightarrow> seq (set_usb u (d\<lparr>ud_tx_pool := es\<rparr>)) (\<lambda>_. ret (e\<lparr>te_buffer := buff\<rparr>))
     | [] \<Rightarrow> seq new_ptr (\<lambda>p. ret \<lparr>te_buffer = buff, te_overlapped = Some p\<rparr>))"

definition ReUseTXQElement :: "ptr \<Rightarrow> tx_elem \<Rightarrow> unit act" where
  "ReUseTXQElement u e =
     seq (case te_buffer e of None \<Rightarrow> ret () | Some p \<Rightarrow> free_buf p) (\<lambda>_.
     upd_usb u (\<lambda>d. d\<lparr>ud_tx_pool := ud_tx_pool d @ [e\<lparr>te_buffer := None\<rparr>]\<rparr>))"

text \<open>What \<open>usb_send\<close> does with a transfer that did not complete at once.\<close>

definition finish_pending :: "ptr \<Rightarrow> tx_elem \<Rightarrow> int act" where
  "finish_pending u e = seq (get_usb u) (\<lambda>d.
     if ud_tx_thread d
     then seq (set_usb u (d\<lparr>ud_tx_q := ud_tx_q d @ [e]\<rparr>)) (\<lambda>_. ret 0)
     else seq api_ok (\<lambda>ok. seq (ReUseTXQElement u e) (\<lambda>_. ret (if ok then 0 else -1))))"

text \<open>
  A failed transfer ends the process; a transfer whose length is a multiple of the packet size
  is followed by an empty one, whose failure is the only error the caller sees.
\<close>

definition usb_send :: "ptr \<Rightarrow> ptr \<Rightarrow> nat \<Rightarrow> int act" where
  "usb_send u buf len =
     seq (GetTXQElement u (Some buf)) (\<lambda>e.
     seq (get_buf buf) (\<lambda>bs.
     seq (com_transfer_out u (take len bs)) (\<lambda>st.
     seq (case st of
            XferOk \<Rightarrow> seq (ReUseTXQElement u e) (\<lambda>_. ret 0)
          | XferPending \<Rightarrow> finish_pending u e
          | XferFailed \<Rightarrow> ret (-1)) (\<lambda>iRet.
     if iRet \<noteq> 0 then stop ProcessExit
     else seq (get_usb u) (\<lambda>d.
       let mps = unat (ui_tx_max_packet_size (ud_info d)) in
       if mps = 0 then stop DivByZero
       else if len mod mps = 0 then
         seq (GetTXQElement u None) (\<lambda>ze.
         seq (com_transfer_out u []) (\<lambda>st.
         if st = XferOk then seq (ReUseTXQElement u ze) (\<lambda>_. ret 0) else finish_pending u ze))
       else ret 0)))))"

text \<open>
  One iteration of \<open>usb_write_thread_proc\<close> with a queued element: \<open>False\<close> when the stop event
  ends the thread, after which the queue is emptied (\<open>write_thread_cleanup\<close>).
\<close>

definition usb_write_thread_iter :: "ptr \<Rightarrow> bool act" where
  "usb_write_thread_iter u = seq (get_usb u) (\<lambda>d.
     case ud_tx_q d of
       [] \<Rightarrow> ret True
     | e # es \<Rightarrow>
         if ud_tx_stop d = Some True
         then seq (set_usb u (d\<lparr>ud_tx_q := es, ud_tx_stop := Some False\<rparr>)) (\<lambda>_. ret False)
         else seq (set_usb u (d\<lparr>ud_tx_q := es\<rparr>)) (\<lambda>_.
              if te_overlapped e \<noteq> None
              then seq api_ok (\<lambda>_. seq (ReUseTXQElement u e) (\<lambda>_. ret True))
              else ret True))"

definition write_thread_cleanup :: "ptr \<Rightarrow> unit act" where
  "write_thread_cleanup u = seq (get_usb u) (\<lambda>d.
     seq (set_usb u (d\<lparr>ud_tx_q := []\<rparr>)) (\<lambda>_.
     for_list (ud_tx_q d) (\<lambda>e. case te_buffer e of None \<Rightarrow> ret () | Some p \<Rightarrow> free_buf p)))"

subsection \<open>Incoming transfers\<close>

definition com_transfer_in :: "rx_status act" where
  "com_transfer_in w = (case reads (sys w) of
       [] \<Rightarrow> Inr (RxPending, w)
     | r # rs \<Rightarrow> Inr (r, w\<lparr>sys := (sys w)\<lparr>reads := rs\<rparr>\<rparr>))"

definition rx_store :: "bytes \<Rightarrow> usb_device \<Rightarrow> usb_device" where
  "rx_store bs d = (let data = take DEVICE_RX_BUFFER_SIZE bs in
     d\<lparr>ud_rx_buffer := buf_put 0 data (ud_rx_buffer d), ud_rx_data_size := of_nat (length data)\<rparr>)"

text \<open>\<open>usb_start_read\<close>: \<open>True\<close> stands for the event handle it returns, \<open>False\<close> for the error.\<close>

definition usb_start_read :: "ptr \<Rightarrow> bool act" where
  "usb_start_read u =
     seq (upd_usb u (\<lambda>d. d\<lparr>ud_rx_data_size := 0\<rparr>)) (\<lambda>_.
     seq com_transfer_in (\<lambda>r. case r of
         RxDone bs \<Rightarrow> seq (upd_usb u (rx_store bs)) (\<lambda>_. ret True)
       | RxPending \<Rightarrow> ret True
       | RxFailed \<Rightarrow> ret False))"

text \<open>The received bytes, or \<open>None\<close> when the transfer failed or is not complete.\<close>

definition usb_get_read_result :: "ptr \<Rightarrow> (bytes \<times> u32) option act" where
  "usb_get_read_result u = seq (get_usb u) (\<lambda>d.
     seq (if ud_rx_data_size d = 0
          then seq com_transfer_in (\<lambda>r. case r of
                 RxDone bs \<Rightarrow> seq (upd_usb u (rx_store bs)) (\<lambda>_. ret True)
               | _ \<Rightarrow> ret False)
          else ret True) (\<lambda>ok.
     if ok then seq (get_usb u) (\<lambda>d'. ret (Some (ud_rx_buffer d', ud_rx_data_size d')))
     else ret None))"

subsection \<open>What the transfer layer changes\<close>

text \<open>Transfers touch only the usb devices, the transmit buffers, fresh addresses and the environment.\<close>

definition tx_only :: "world \<Rightarrow> world \<Rightarrow> bool" where
  "tx_only w w' \<longleftrightarrow>
     dev_heap w' = dev_heap w \<and> conn_heap w' = conn_heap w \<and> client_heap w' = client_heap w \<and>
     device_list w' = device_list w \<and> client_list w' = client_list w \<and>
     g_device_list w' = g_device_list w \<and> next_device_id w' = next_device_id w \<and>
     g_next_usb_device_id w' = g_next_usb_device_id w \<and>
     g_pending_devices w' = g_pending_devices w \<and> notification_cookie w' = notification_cookie w \<and>
     preflight_gone w' = preflight_gone w \<and> next_ptr w \<le> next_ptr w'"

lemma tx_only_fields:
  assumes "tx_only w w'"
  shows "dev_heap w' = dev_heap w" "conn_heap w' = conn_heap w" "client_heap w' = client_heap w"
    "device_list w' = device_list w" "client_list w' = client_list w" "g_device_list w' = g_device_list w"
  using assms by (auto simp: tx_only_def)

interpretation tx: frame_rel tx_only
  by unfold_locales (auto simp: tx_only_def)

lemma tx_prims:
  "keeps tx_only (get_usb u)" "keeps tx_only (set_usb u d)" "keeps tx_only new_ptr"
  "keeps tx_only (get_buf p)" "keeps tx_only (free_buf p)" "keeps tx_only api_ok"
  "keeps tx_only (com_transfer_out u bs)" "keeps tx_only com_transfer_in" "keeps tx_only (set_event e)"
  "keeps tx_only mstime64" "keeps tx_only (closesocket s)" "keeps tx_only (sys_send s bs)"
  "keeps tx_only (sys_recv s n)"
  by (auto simp: keeps_def get_usb_def set_usb_def new_ptr_def get_buf_def free_buf_def api_ok_def
      com_transfer_out_def com_transfer_in_def set_event_def some_or_def mstime64_def closesocket_def
      sys_send_def sys_recv_def Let_def tx_only_def
      split: option.splits list.splits if_splits)

lemma tx_upd_usb: "keeps tx_only (upd_usb u f)"
  unfolding upd_usb_def by (intro tx.keeps_rules tx_prims)

lemma tx_alloc_buf: "keeps tx_only (alloc_buf bs)"
  unfolding alloc_buf_def
  by (intro tx.keeps_rules tx_prims) (simp add: keeps_def tx_only_def)

lemma tx_GetTXQElement: "keeps tx_only (GetTXQElement u b)"
  unfolding GetTXQElement_def by (intro tx.keeps_rules tx_prims)

lemma tx_ReUseTXQElement: "keeps tx_only (ReUseTXQElement u e)"
  unfolding ReUseTXQElement_def by (intro tx.keeps_rules tx_prims tx_upd_usb)

lemma tx_finish_pending: "keeps tx_only (finish_pending u e)"
  unfolding finish_pending_def by (intro tx.keeps_rules tx_prims tx_ReUseTXQElement)

lemma usb_send_tx_only: "keeps tx_only (usb_send u p n)"
  unfolding usb_send_def Let_def
  by (auto intro!: tx.keeps_rules tx_prims tx_GetTXQElement tx_ReUseTXQElement tx_finish_pending
      split: xfer_status.splits)

lemma usb_get_read_result_tx_only: "keeps tx_only (usb_get_read_result u)"
  unfolding usb_get_read_result_def
  by (auto intro!: tx.keeps_rules tx_prims tx_upd_usb split: rx_status.splits)

lemma usb_start_read_tx_only: "keeps tx_only (usb_start_read u)"
  unfolding usb_start_read_def
  by (auto intro!: tx.keeps_rules tx_prims tx_upd_usb split: rx_status.splits)

subsection \<open>The ownership of a transmit buffer\<close>

text \<open>The buffers after the element \<open>e\<close> was given back, and the parts of \<open>usb_send\<close>.\<close>

definition bufs_without :: "tx_elem \<Rightarrow> (ptr \<Rightarrow> bytes option) \<Rightarrow> ptr \<Rightarrow> bytes option" where
  "bufs_without e h = (case te_buffer e of None \<Rightarrow> h | Some p \<Rightarrow> h(p := None))"

lemma get_elem_run:
  assumes "usb_heap w u = Some d"
  shows "\<exists>e w' q. GetTXQElement u b w = Inr (e, w') \<and> te_buffer e = b \<and> buf_heap w' = buf_heap w \<and>
     sys w' = sys w \<and> usb_heap w' u = Some (d\<lparr>ud_tx_pool := q\<rparr>)"
proof (cases "ud_tx_pool d")
  case Nil
  with assms show ?thesis
    by (intro exI [of _ "\<lparr>te_buffer = b, te_overlapped = Some (next_ptr w)\<rparr>"] exI [of _ "w\<lparr>next_ptr := Suc (next_ptr w)\<rparr>"]
          exI [of _ "[]"]) (cases d, simp add: GetTXQElement_def seq_Inr get_usb_run new_ptr_def)
next
  case (Cons e es)
  with assms show ?thesis
    by (intro exI [of _ "e\<lparr>te_buffer := b\<rparr>"] exI [of _ "w\<lparr>usb_heap := (usb_heap w)(u := Some (d\<lparr>ud_tx_pool := es\<rparr>))\<rparr>"]
          exI [of _ es]) (simp add: GetTXQElement_def seq_Inr get_usb_run set_usb_def)
qed

lemma reuse_elem_run:
  assumes "usb_heap w u = Some d" "\<forall>p. te_buffer e = Some p \<longrightarrow> buf_heap w p \<noteq> None"
  shows "\<exists>w' q. ReUseTXQElement u e w = Inr ((), w') \<and> buf_heap w' = bufs_without e (buf_heap w) \<and>
     sys w' = sys w \<and> usb_heap w' u = Some (d\<lparr>ud_tx_pool := q\<rparr>)"
proof (cases "te_buffer e")
  case None
  let ?q = "ud_tx_pool d @ [e\<lparr>te_buffer := None\<rparr>]"
  show ?thesis
    by (intro exI [of _ "w\<lparr>usb_heap := (usb_heap w)(u := Some (d\<lparr>ud_tx_pool := ?q\<rparr>))\<rparr>"] exI [of _ ?q])
      (simp add: None assms ReUseTXQElement_def upd_usb_run bufs_without_def)
next
  case (Some p)
  with assms obtain bs where bs: "buf_heap w p = Some bs" by blast
  let ?q = "ud_tx_pool d @ [e\<lparr>te_buffer := None\<rparr>]"
  from bs show ?thesis
    by (intro exI [of _ "w\<lparr>buf_heap := (buf_heap w)(p := None), usb_heap := (usb_heap w)(u := Some (d\<lparr>ud_tx_pool := ?q\<rparr>))\<rparr>"]
          exI [of _ ?q])
      (simp add: Some assms ReUseTXQElement_def seq_Inr free_buf_run upd_usb_run bufs_without_def fun_upd_def)
qed

lemma finish_pending_run:
  assumes "usb_heap w u = Some d" "\<forall>p. te_buffer e = Some p \<longrightarrow> buf_heap w p \<noteq> None"
  shows "\<exists>r w' q. finish_pending u e w = Inr (r, w') \<and> (r = 0 \<or> r = -1) \<and> usb_out (sys w') = usb_out (sys w) \<and>
     (if ud_tx_thread d
      then r = 0 \<and> buf_heap w' = buf_heap w \<and> usb_heap w' u = Some (d\<lparr>ud_tx_q := ud_tx_q d @ [e]\<rparr>)
      else buf_heap w' = bufs_without e (buf_heap w) \<and> usb_heap w' u = Some (d\<lparr>ud_tx_pool := q\<rparr>))"
proof (cases "ud_tx_thread d")
  case True
  with assms show ?thesis by (simp add: finish_pending_def seq_Inr get_usb_run set_usb_def)
next
  case False
  obtain ok w1 where ok: "api_ok w = Inr (ok, w1)" "usb_heap w1 = usb_heap w" "buf_heap w1 = buf_heap w"
    "usb_out (sys w1) = usb_out (sys w)"
    by (cases "oks (sys w)") (auto simp: api_ok_def)
  obtain w' q where "ReUseTXQElement u e w1 = Inr ((), w')" "buf_heap w' = bufs_without e (buf_heap w1)"
    "sys w' = sys w1" "usb_heap w' u = Some (d\<lparr>ud_tx_pool := q\<rparr>)"
    using reuse_elem_run [of w1 u d e] assms ok by auto
  with False assms ok show ?thesis
    by (intro exI [of _ "if ok then 0 else - 1"] exI [of _ w'] exI [of _ q])
      (cases ok, simp_all add: finish_pending_def seq_run get_usb_run)
qed

lemma com_transfer_out_run:
  "\<exists>st w'. com_transfer_out u bs w = Inr (st, w') \<and> buf_heap w' = buf_heap w \<and> usb_heap w' = usb_heap w \<and>
     usb_out (sys w') = (if st = XferFailed then usb_out (sys w) else usb_out (sys w) @ [(u, bs)])"
  by (simp add: com_transfer_out_def Let_def)

text \<open>The first transfer when it did not fail, and the empty one.\<close>

lemma first_transfer_run:
  assumes "usb_heap w u = Some d" "\<forall>p. te_buffer e = Some p \<longrightarrow> buf_heap w p \<noteq> None" "st \<noteq> XferFailed"
  shows "\<exists>r w' d'. (case st of XferOk \<Rightarrow> seq (ReUseTXQElement u e) (\<lambda>_. ret 0)
        | XferPending \<Rightarrow> finish_pending u e | XferFailed \<Rightarrow> ret (-1)) w = Inr (r, w') \<and>
     usb_out (sys w') = usb_out (sys w) \<and> usb_heap w' u = Some d' \<and>
     ud_info d' = ud_info d \<and> ud_tx_thread d' = ud_tx_thread d \<and>
     (buf_heap w' = bufs_without e (buf_heap w) \<and> ud_tx_q d' = ud_tx_q d \<or>
      ud_tx_thread d \<and> buf_heap w' = buf_heap w \<and> ud_tx_q d' = ud_tx_q d @ [e])"
proof (cases st)
  case XferOk
  obtain w' q where "ReUseTXQElement u e w = Inr ((), w')" "buf_heap w' = bufs_without e (buf_heap w)"
    "sys w' = sys w" "usb_heap w' u = Some (d\<lparr>ud_tx_pool := q\<rparr>)"
    using reuse_elem_run [OF assms(1,2)] by blast
  then show ?thesis
    using XferOk by (intro exI [of _ 0] exI [of _ w'] exI [of _ "d\<lparr>ud_tx_pool := q\<rparr>"]) (simp add: seq_Inr)
next
  case XferPending
  from finish_pending_run [OF assms(1,2)] obtain r w' q where f: "finish_pending u e w = Inr (r, w')"
    "usb_out (sys w') = usb_out (sys w)" "if ud_tx_thread d
      then r = 0 \<and> buf_heap w' = buf_heap w \<and> usb_heap w' u = Some (d\<lparr>ud_tx_q := ud_tx_q d @ [e]\<rparr>)
      else buf_heap w' = bufs_without e (buf_heap w) \<and> usb_heap w' u = Some (d\<lparr>ud_tx_pool := q\<rparr>)"
    by (elim exE conjE)
  then show ?thesis
    using XferPending
    by (intro exI [of _ r] exI [of _ w'] exI [of _ "the (usb_heap w' u)"]) (simp split: if_splits)
qed (use assms in simp)

lemma empty_transfer_run:
  assumes "usb_heap w u = Some d"
  shows "\<exists>r w' d' zlp. seq (GetTXQElement u None) (\<lambda>ze. seq (com_transfer_out u []) (\<lambda>st.
         if st = XferOk then seq (ReUseTXQElement u ze) (\<lambda>_. ret 0) else finish_pending u ze)) w = Inr (r, w') \<and>
     usb_out (sys w') = usb_out (sys w) @ zlp \<and> (zlp = [] \<or> zlp = [(u, [])]) \<and>
     usb_heap w' u = Some d' \<and> buf_heap w' = buf_heap w \<and> (r = 0 \<or> r = -1 \<and> \<not> ud_tx_thread d) \<and>
     (\<exists>ze. ud_tx_q d' = ud_tx_q d @ ze \<and> (\<forall>z \<in> set ze. te_buffer z = None))"
proof -
  obtain e w1 q where e: "GetTXQElement u None w = Inr (e, w1)" "te_buffer e = None" "buf_heap w1 = buf_heap w"
    "sys w1 = sys w" "usb_heap w1 u = Some (d\<lparr>ud_tx_pool := q\<rparr>)"
    using get_elem_run [OF assms, of None] by blast
  obtain st w2 where x: "com_transfer_out u [] w1 = Inr (st, w2)" "buf_heap w2 = buf_heap w1"
    "usb_heap w2 = usb_heap w1"
    "usb_out (sys w2) = (if st = XferFailed then usb_out (sys w1) else usb_out (sys w1) @ [(u, [])])"
    using com_transfer_out_run [of u "[]" w1] by blast
  let ?d = "d\<lparr>ud_tx_pool := q\<rparr>"
  let ?z = "if st = XferFailed then [] else [(u, [])]"
  have d: "usb_heap w2 u = Some ?d" "\<forall>p. te_buffer e = Some p \<longrightarrow> buf_heap w2 p \<noteq> None"
    using e x by simp_all
  have keep: "bufs_without e h = h" for h using e(2) by (simp add: bufs_without_def)
  have head: "seq (GetTXQElement u None) (\<lambda>ze. seq (com_transfer_out u []) (\<lambda>st.
         if st = XferOk then seq (ReUseTXQElement u ze) (\<lambda>_. ret 0) else finish_pending u ze)) w =
       (if st = XferOk then seq (ReUseTXQElement u e) (\<lambda>_. ret 0) else finish_pending u e) w2"
    using e(1) x(1) by (simp add: seq_Inr)
  show ?thesis
  proof (cases "st = XferOk")
    case True
    obtain w' q' where "ReUseTXQElement u e w2 = Inr ((), w')" "buf_heap w' = bufs_without e (buf_heap w2)"
      "sys w' = sys w2" "usb_heap w' u = Some (?d\<lparr>ud_tx_pool := q'\<rparr>)"
      using reuse_elem_run [OF d] by blast
    then show ?thesis
      unfolding head using True e x
      by (intro exI [of _ 0] exI [of _ w'] exI [of _ "?d\<lparr>ud_tx_pool := q'\<rparr>"] exI [of _ ?z])
        (simp add: seq_Inr keep exI [of _ "[]"])
  next
    case False
    from finish_pending_run [OF d] obtain r w' q' where f: "finish_pending u e w2 = Inr (r, w')" "r = 0 \<or> r = -1"
      "usb_out (sys w') = usb_out (sys w2)" "if ud_tx_thread ?d
      then r = 0 \<and> buf_heap w' = buf_heap w2 \<and> usb_heap w' u = Some (?d\<lparr>ud_tx_q := ud_tx_q ?d @ [e]\<rparr>)
      else buf_heap w' = bufs_without e (buf_heap w2) \<and> usb_heap w' u = Some (?d\<lparr>ud_tx_pool := q'\<rparr>)"
      by (elim exE conjE)
    show ?thesis
      unfolding head using False f e x
      by (intro exI [of _ r] exI [of _ w'] exI [of _ "the (usb_heap w' u)"] exI [of _ ?z])
        (auto simp: keep split: if_splits intro: exI [of _ "[]"])
  qed
qed

lemma usb_send_run:
  assumes "usb_heap w u = Some d" "buf_heap w p = Some bs" "ui_tx_max_packet_size (ud_info d) \<noteq> 0"
    and "\<forall>e \<in> set (ud_tx_q d). te_buffer e \<noteq> Some p"
  shows "case usb_send u p n w of
       Inl h \<Rightarrow> h = ProcessExit
     | Inr (r, w') \<Rightarrow> \<exists>d' zlp. usb_heap w' u = Some d' \<and>
         usb_out (sys w') = usb_out (sys w) @ (u, take n bs) # zlp \<and>
         (r = 0 \<or> r = -1 \<and> \<not> ud_tx_thread d \<and> n mod unat (ui_tx_max_packet_size (ud_info d)) = 0) \<and>
         (zlp = [] \<or> zlp = [(u, [])] \<and> n mod unat (ui_tx_max_packet_size (ud_info d)) = 0) \<and>
         (if buf_heap w' p = None
          then (\<forall>e \<in> set (ud_tx_q d'). te_buffer e \<noteq> Some p)
          else r = 0 \<and> (\<exists>e ze. ud_tx_q d' = ud_tx_q d @ e # ze \<and> te_buffer e = Some p \<and>
                 (\<forall>z \<in> set ze. te_buffer z = None)))"
proof -
  obtain e w1 q1 where e: "GetTXQElement u (Some p) w = Inr (e, w1)" "te_buffer e = Some p"
    "buf_heap w1 = buf_heap w" "sys w1 = sys w" "usb_heap w1 u = Some (d\<lparr>ud_tx_pool := q1\<rparr>)"
    using get_elem_run [OF assms(1), of "Some p"] by blast
  obtain st w2 where x: "com_transfer_out u (take n bs) w1 = Inr (st, w2)" "buf_heap w2 = buf_heap w1"
    "usb_heap w2 = usb_heap w1"
    "usb_out (sys w2) = (if st = XferFailed then usb_out (sys w1) else usb_out (sys w1) @ [(u, take n bs)])"
    using com_transfer_out_run [of u "take n bs" w1] by blast
  have buf: "get_buf p w1 = Inr (bs, w1)" using assms(2) e by (simp add: get_buf_def)
  let ?rest = "\<lambda>iRet. if iRet \<noteq> 0 then stop ProcessExit else seq (get_usb u) (\<lambda>d.
       let mps = unat (ui_tx_max_packet_size (ud_info d)) in
       if mps = 0 then stop DivByZero
       else if n mod mps = 0 then
         seq (GetTXQElement u None) (\<lambda>ze. seq (com_transfer_out u []) (\<lambda>st.
         if st = XferOk then seq (ReUseTXQElement u ze) (\<lambda>_. ret 0) else finish_pending u ze))
       else ret 0)"
  have run: "usb_send u p n w = seq (case st of XferOk \<Rightarrow> seq (ReUseTXQElement u e) (\<lambda>_. ret 0)
      | XferPending \<Rightarrow> finish_pending u e | XferFailed \<Rightarrow> ret (-1)) ?rest w2"
    using e(1) buf x(1) by (simp add: usb_send_def seq_Inr)
  show ?thesis
  proof (cases "st = XferFailed")
    case True
    then show ?thesis by (simp add: run)
  next
    case False
    obtain r w3 d3 where f: "(case st of XferOk \<Rightarrow> seq (ReUseTXQElement u e) (\<lambda>_. ret 0)
        | XferPending \<Rightarrow> finish_pending u e | XferFailed \<Rightarrow> ret (-1)) w2 = Inr (r, w3)"
      "usb_out (sys w3) = usb_out (sys w2)" "usb_heap w3 u = Some d3" "ud_info d3 = ud_info d"
      "ud_tx_thread d3 = ud_tx_thread d"
      "buf_heap w3 = bufs_without e (buf_heap w2) \<and> ud_tx_q d3 = ud_tx_q d \<or>
       ud_tx_thread d3 \<and> buf_heap w3 = buf_heap w2 \<and> ud_tx_q d3 = ud_tx_q d @ [e]"
      using first_transfer_run [of w2 u "d\<lparr>ud_tx_pool := q1\<rparr>" e st] False e x assms(2) by auto
    have out: "usb_out (sys w3) = usb_out (sys w) @ [(u, take n bs)]" using f(2) x(4) e(4) False by simp
    have own: "buf_heap w3 p = None \<and> ud_tx_q d3 = ud_tx_q d \<or>
       ud_tx_thread d3 \<and> buf_heap w3 p \<noteq> None \<and> ud_tx_q d3 = ud_tx_q d @ [e]"
      using f(6) e(2,3) x(2) assms(2) by (auto simp: bufs_without_def)
    let ?zero = "n mod unat (ui_tx_max_packet_size (ud_info d)) = 0"
    have mps: "unat (ui_tx_max_packet_size (ud_info d)) \<noteq> 0" using assms(3) by (simp add: unat_eq_zero)
    consider "r \<noteq> 0" | "r = 0" "\<not> ?zero" | "r = 0" ?zero by blast
    then show ?thesis
    proof cases
      case 1
      then show ?thesis using f(1) by (simp add: run seq_Inr)
    next
      case 2
      then have "usb_send u p n w = Inr (0, w3)"
        using f(1,3,4) mps by (simp add: run seq_Inr get_usb_run)
      then show ?thesis
        using f(3) out own e(2) assms(4) by (auto intro: exI [of _ "[]"])
    next
      case 3
      obtain r' w4 d4 zlp ze where z: "seq (GetTXQElement u None) (\<lambda>ze. seq (com_transfer_out u []) (\<lambda>st.
         if st = XferOk then seq (ReUseTXQElement u ze) (\<lambda>_. ret 0) else finish_pending u ze)) w3 = Inr (r', w4)"
        "usb_out (sys w4) = usb_out (sys w3) @ zlp" "zlp = [] \<or> zlp = [(u, [])]" "usb_heap w4 u = Some d4"
        "buf_heap w4 = buf_heap w3" "r' = 0 \<or> r' = -1 \<and> \<not> ud_tx_thread d3"
        "ud_tx_q d4 = ud_tx_q d3 @ ze" "\<forall>z \<in> set ze. te_buffer z = None"
        using empty_transfer_run [OF f(3)] by blast
      have "usb_send u p n w = Inr (r', w4)"
        using f(1,3,4) mps 3 z(1) by (simp add: run seq_Inr get_usb_run)
      then show ?thesis
        using z(2-8) own out 3 e(2) assms(4) f(5) by auto
    qed
  qed
qed

text \<open>
  C16: \<open>usb_send\<close> takes the buffer it is given. Whatever the transfers do, the call either ends the
  process or returns; then the buffer was freed, or exactly one new element of the transmit queue owns
  it. The result is 0, or -1 when the empty transfer failed on a device without a write
  thread, and then the buffer was freed. The transfer of the bytes is logged first, followed by at most the empty
  one for a length that is a multiple of the packet size.
\<close>

theorem usb_send_takes_buffer:
  assumes "usb_heap w u = Some d" "buf_heap w p = Some bs" "ui_tx_max_packet_size (ud_info d) \<noteq> 0"
    and "\<forall>e \<in> set (ud_tx_q d). te_buffer e \<noteq> Some p"
  shows "case usb_send u p n w of
       Inl h \<Rightarrow> h = ProcessExit
     | Inr (r, w') \<Rightarrow> \<exists>d' zlp. usb_heap w' u = Some d' \<and>
         usb_out (sys w') = usb_out (sys w) @ (u, take n bs) # zlp \<and>
         (r = 0 \<or> r = -1 \<and> \<not> ud_tx_thread d \<and> n mod unat (ui_tx_max_packet_size (ud_info d)) = 0) \<and>
         (zlp = [] \<or> zlp = [(u, [])] \<and> n mod unat (ui_tx_max_packet_size (ud_info d)) = 0) \<and>
         (if buf_heap w' p = None
          then (\<forall>e \<in> set (ud_tx_q d'). te_buffer e \<noteq> Some p)
          else r = 0 \<and> (\<exists>e ze. ud_tx_q d' = ud_tx_q d @ e # ze \<and> te_buffer e = Some p \<and>
                 (\<forall>z \<in> set ze. te_buffer z = None)))"
  by (rule usb_send_run [OF assms])

theorem usb_send_takes_buffer_witness:
  "case usb_send 30 50 3 (idle_world\<lparr>usb_heap := [30 \<mapsto> idle_usb], buf_heap := [50 \<mapsto> [1, 2, 3]]\<rparr>) of
     Inl h \<Rightarrow> h = ProcessExit
   | Inr (r, w') \<Rightarrow> hd (usb_out (sys w')) = (30, [1, 2, 3])"
proof -
  let ?w = "idle_world\<lparr>usb_heap := [30 \<mapsto> idle_usb], buf_heap := [50 \<mapsto> [1, 2, 3]]\<rparr>"
  have h: "usb_heap ?w 30 = Some idle_usb" "buf_heap ?w 50 = Some [1, 2, 3]"
    "ui_tx_max_packet_size (ud_info idle_usb) \<noteq> 0" "\<forall>e \<in> set (ud_tx_q idle_usb). te_buffer e \<noteq> Some 50"
    by (simp_all add: idle_defs)
  have "usb_out (sys ?w) = []" by (simp add: idle_defs)
  with usb_send_takes_buffer [OF h, of 3] show ?thesis
    by (fastforce split: sum.splits)
qed

end
