(* ===== verification/Device_List.thy ===== *)
theory Device_List
  imports Usb_Io
begin

text \<open>
  The bookkeeping half of device.cpp: lookups in \<open>device_list\<close> and in the connections of a
  device, the allocation of device ids and source ports, the flags other modules set on a
  device, the device list handed to clients and the timeout computation. The two allocation
  loops carry fuel; the lemmas show that one more than the number of entries is enough.
\<close>

subsection \<open>Lookups\<close>

definition get_mux_device_for_id :: "u32 \<Rightarrow> ptr option act" where
  "get_mux_device_for_id device_id = seq (gets device_list) (\<lambda>col.
     find_in dev_heap (\<lambda>d. dev_id d = device_id) col)"

text \<open>The connections of a device; reading them before the version packet is an uninitialised read.\<close>

definition get_connections :: "ptr \<Rightarrow> ptr collection act" where
  "get_connections dev = seq (get_dev dev) (\<lambda>d. some_or UninitRead (dev_connections d))"

definition get_mux_connection :: "u32 \<Rightarrow> ptr \<Rightarrow> ptr option act" where
  "get_mux_connection device_id client = seq (get_mux_device_for_id device_id) (\<lambda>r.
     case r of
       None \<Rightarrow> ret None
     | Some dev \<Rightarrow> seq (get_connections dev) (\<lambda>col.
         find_in conn_heap (\<lambda>c. conn_client c = Some client) col))"

definition find_dev_by_usb :: "ptr \<Rightarrow> ptr option act" where
  "find_dev_by_usb usbdev = seq (gets device_list) (\<lambda>col.
     find_in dev_heap (\<lambda>d. dev_usbdev d = usbdev) col)"

definition device_exists :: "u32 \<Rightarrow> bool act" where
  "device_exists device_id = seq (get_mux_device_for_id device_id) (\<lambda>r. ret (r \<noteq> None))"

subsection \<open>Allocation of ids and ports\<close>

fun get_next_device_id_loop :: "nat \<Rightarrow> u32 act" where
  "get_next_device_id_loop 0 = stop OutOfFuel"
| "get_next_device_id_loop (Suc n) = seq (gets next_device_id) (\<lambda>i.
     seq (get_mux_device_for_id i) (\<lambda>r.
     seq (modify (\<lambda>w. w\<lparr>next_device_id := i + 1\<rparr>)) (\<lambda>_.
     if r = None then ret i else get_next_device_id_loop n)))"

definition get_next_device_id :: "u32 act" where
  "get_next_device_id = seq (gets device_list) (\<lambda>col.
     get_next_device_id_loop (Suc (length (elems col))))"

fun find_sport_loop :: "nat \<Rightarrow> ptr \<Rightarrow> u16 act" where
  "find_sport_loop 0 dev = stop OutOfFuel"
| "find_sport_loop (Suc n) dev = seq (get_dev dev) (\<lambda>d.
     seq (get_connections dev) (\<lambda>col.
     seq (find_in conn_heap (\<lambda>c. dev_next_sport d = conn_sport c) col) (\<lambda>r.
     seq (set_dev dev (d\<lparr>dev_next_sport := dev_next_sport d + 1\<rparr>)) (\<lambda>_.
     if r = None then ret (dev_next_sport d) else find_sport_loop n dev))))"

text \<open>The caller reads the result 0 as \<^emph>\<open>no port\<close>.\<close>

definition find_sport :: "ptr \<Rightarrow> u16 act" where
  "find_sport dev = seq (get_connections dev) (\<lambda>col.
     if collection_count col \<ge> 65535 then ret 0
     else find_sport_loop (Suc (length (elems col))) dev)"

subsection \<open>Flags set by other modules\<close>

text \<open>Each of these updates the first device with the id and ignores an unknown id.\<close>

definition with_device :: "u32 \<Rightarrow> (ptr \<Rightarrow> unit act) \<Rightarrow> unit act" where
  "with_device device_id f = seq (get_mux_device_for_id device_id) (\<lambda>r.
     case r of None \<Rightarrow> ret () | Some dev \<Rightarrow> f dev)"

definition device_set_visible :: "u32 \<Rightarrow> unit act" where
  "device_set_visible device_id = with_device device_id (\<lambda>dev.
     seq (upd_dev dev (\<lambda>d. d\<lparr>dev_visible := True\<rparr>)) (\<lambda>_.
     seq (get_dev dev) (\<lambda>d. usb_set_device_ready (dev_usbdev d))))"

definition device_set_preflight_cb_data :: "u32 \<Rightarrow> ptr option \<Rightarrow> unit act" where
  "device_set_preflight_cb_data device_id data = with_device device_id (\<lambda>dev.
     upd_dev dev (\<lambda>d. d\<lparr>dev_preflight_cb_data := data\<rparr>))"

definition device_preflight_finished :: "u32 \<Rightarrow> unit act" where
  "device_preflight_finished device_id = with_device device_id (\<lambda>dev.
     upd_dev dev (\<lambda>d. d\<lparr>dev_is_preflight_worker_running := False\<rparr>))"

text \<open>Devices are compared by the location of their usb devices.\<close>

definition device_is_initializing :: "ptr \<Rightarrow> bool act" where
  "device_is_initializing usb_dev = seq (gets device_list) (\<lambda>col.
     seq (find_m (\<lambda>cur. seq (usb_get_location usb_dev) (\<lambda>l.
            seq (get_dev cur) (\<lambda>d. seq (usb_get_location (dev_usbdev d)) (\<lambda>l'. ret (l = l'))))) (elems col))
       (\<lambda>r. case r of
          None \<Rightarrow> ret False
        | Some m \<Rightarrow> seq (get_dev m) (\<lambda>d.
            ret (dev_state d = MUXDEV_INIT \<or> dev_is_preflight_worker_running d))))"

text \<open>\<open>preflight_device_remove_cb\<close>: the waiting preflight worker is told that its device is gone.\<close>

definition preflight_device_remove_cb :: "ptr \<Rightarrow> unit act" where
  "preflight_device_remove_cb data = modify (\<lambda>w. w\<lparr>preflight_gone := preflight_gone w @ [data]\<rparr>)"

subsection \<open>The device list\<close>

definition device_info_of :: "u32 \<Rightarrow> ptr \<Rightarrow> device_info act" where
  "device_info_of i usbdev =
     seq (usb_get_serial usbdev) (\<lambda>s.
     seq (usb_get_location usbdev) (\<lambda>l.
     seq (usb_get_pid usbdev) (\<lambda>p.
     ret \<lparr>di_id = i, di_serial = s, di_location = l, di_pid = p\<rparr>)))"

definition is_listed :: "bool \<Rightarrow> mux_device \<Rightarrow> bool" where
  "is_listed hidden d \<longleftrightarrow> dev_state d = MUXDEV_ACTIVE \<and> (hidden \<or> dev_visible d)"

definition device_get_count :: "bool \<Rightarrow> nat act" where
  "device_get_count hidden = seq (gets device_list) (\<lambda>col.
     seq (map_m get_dev (elems (collection_copy col))) (\<lambda>ds. ret (length (filter (is_listed hidden) ds))))"

definition device_get_list :: "bool \<Rightarrow> device_info list act" where
  "device_get_list hidden = seq (gets device_list) (\<lambda>col.
     seq (map_m get_dev (elems col)) (\<lambda>ds.
     map_m (\<lambda>d. device_info_of (dev_id d) (dev_usbdev d)) (filter (is_listed hidden) ds)))"

text \<open>\<open>logDeviceListStatus\<close> only logs, but follows the usb pointer of every device to do so.\<close>

definition logDeviceListStatus :: "unit act" where
  "logDeviceListStatus = seq (gets device_list) (\<lambda>col.
     for_list (elems col) (\<lambda>p. seq (get_dev p) (\<lambda>d. seq (get_usb (dev_usbdev d)) (\<lambda>_. ret ()))))"

subsection \<open>Timeouts\<close>

definition ACK_TIMEOUT :: u64 where "ACK_TIMEOUT = 30"
definition CONN_ACK_PENDING :: u32 where "CONN_ACK_PENDING = 1"

definition ack_pending :: "mux_connection \<Rightarrow> bool" where
  "ack_pending c \<longleftrightarrow> conn_state c = CONN_CONNECTED \<and> conn_flags c AND CONN_ACK_PENDING \<noteq> 0"

fun oldest_ack :: "u64 \<Rightarrow> mux_connection list \<Rightarrow> u64" where
  "oldest_ack oldest [] = oldest"
| "oldest_ack oldest (c # cs) =
     oldest_ack (if ack_pending c \<and> conn_last_ack_time c < oldest then conn_last_ack_time c else oldest) cs"

fun oldest_ack_devs :: "u64 \<Rightarrow> ptr list \<Rightarrow> u64 act" where
  "oldest_ack_devs oldest [] = ret oldest"
| "oldest_ack_devs oldest (p # ps) = seq (get_dev p) (\<lambda>d.
     if dev_state d = MUXDEV_ACTIVE
     then seq (get_connections p) (\<lambda>col.
          seq (map_m get_conn (elems col)) (\<lambda>cs. oldest_ack_devs (oldest_ack oldest cs) ps))
     else oldest_ack_devs oldest ps)"

definition device_get_timeout :: "int act" where
  "device_get_timeout = seq (gets device_list) (\<lambda>col.
     seq (oldest_ack_devs (- 1) (elems col)) (\<lambda>oldest.
     seq mstime64 (\<lambda>ct.
     if oldest = - 1 then ret 100000
     else if ct - oldest > ACK_TIMEOUT then ret 0
     else ret (uint (ACK_TIMEOUT - (ct - oldest))))))"

text \<open>The sockets the main loop waits on for device data.\<close>

definition device_add_fds :: "fd list act" where
  "device_add_fds = seq (gets device_list) (\<lambda>col.
     seq (map_m get_dev (elems col)) (\<lambda>ds.
     ret (map (the \<circ> dev_rx_data_events_socket) (filter (\<lambda>d. dev_rx_data_events_socket d \<noteq> None) ds))))"

subsection \<open>Running the lookups\<close>

lemma find_in_run:
  "find_in heap P col w = (case find_slot (heap w) P (elems col) of Inl e \<Rightarrow> Inl e | Inr r \<Rightarrow> Inr (r, w))"
  by (simp add: find_in_def)

lemma get_mux_device_for_id_run:
  "get_mux_device_for_id i w =
     (case find_slot (dev_heap w) (\<lambda>d. dev_id d = i) (elems (device_list w)) of Inl e \<Rightarrow> Inl e | Inr r \<Rightarrow> Inr (r, w))"
  by (simp add: get_mux_device_for_id_def find_in_run)

lemma get_connections_run [prog]:
  "dev_heap w d = Some v \<Longrightarrow> dev_connections v = Some col \<Longrightarrow> get_connections d w = Inr (col, w)"
  by (simp add: get_connections_def seq_Inr get_dev_run)

text \<open>Every pointer of the device list is alive.\<close>

definition devs_alive :: "world \<Rightarrow> bool" where
  "devs_alive w \<longleftrightarrow> (\<forall>p \<in> set (elems (device_list w)). dev_heap w p \<noteq> None)"

definition used_ids :: "world \<Rightarrow> u32 set" where
  "used_ids w = {dev_id d | d p. p \<in> set (elems (device_list w)) \<and> dev_heap w p = Some d}"

lemma used_ids_card: "finite (used_ids w) \<and> card (used_ids w) \<le> length (elems (device_list w))"
proof -
  have eq: "used_ids w \<subseteq> (\<lambda>p. dev_id (the (dev_heap w p))) ` set (elems (device_list w))"
    by (force simp: used_ids_def)
  have "card (used_ids w) \<le> card (set (elems (device_list w)))"
    using surj_card_le [OF _ eq] by simp
  then show ?thesis
    using finite_subset [OF eq] card_length [of "elems (device_list w)"] by simp
qed

lemma lookup_id:
  assumes "devs_alive w"
  shows "\<exists>r. get_mux_device_for_id i w = Inr (r, w) \<and> (r = None \<longleftrightarrow> i \<notin> used_ids w)"
proof -
  obtain r where r: "find_slot (dev_heap w) (\<lambda>d. dev_id d = i) (elems (device_list w)) = Inr r"
    using find_slot_alive [of "elems (device_list w)" "dev_heap w"] assms by (auto simp: devs_alive_def)
  have "r = None \<longleftrightarrow> i \<notin> used_ids w"
  proof (cases r)
    case None
    then show ?thesis
      using r find_slot_None [of "dev_heap w" "\<lambda>d. dev_id d = i" "elems (device_list w)"]
      by (fastforce simp: used_ids_def)
  next
    case (Some p)
    then show ?thesis
      using find_slot_Some [OF r [unfolded Some]] by (auto simp: used_ids_def)
  qed
  with r show ?thesis by (simp add: get_mux_device_for_id_run)
qed

subsection \<open>The allocation loops return\<close>

text \<open>
  Among one more consecutive words than a finite set has elements, one is outside the set:
  the measure of both allocation loops.
\<close>

lemma fresh_word:
  fixes U :: "'a::len word set"
  assumes "finite U" "card U \<le> m" "m < 2 ^ LENGTH('a)"
  shows "\<exists>k \<le> m. s + of_nat k \<notin> U"
proof (rule ccontr)
  assume "\<not> ?thesis"
  then have sub: "(\<lambda>k. s + of_nat k) ` {..m} \<subseteq> U" by auto
  have "inj_on (\<lambda>k. s + of_nat k :: 'a word) {..m}"
    using assms(3) by (auto intro!: inj_onI simp: word_of_nat_eq_iff take_bit_nat_eq_self)
  then have "card ((\<lambda>k. s + of_nat k :: 'a word) ` {..m}) = Suc m"
    by (simp add: card_image)
  then have "Suc m \<le> card U"
    using card_mono [OF assms(1) sub] by simp
  with assms(2) show False by simp
qed

lemma get_next_device_id_loop_run:
  assumes "devs_alive w" "k < n" "next_device_id w + of_nat k \<notin> used_ids w"
  shows "\<exists>j \<le> k. next_device_id w + of_nat j \<notin> used_ids w \<and>
           get_next_device_id_loop n w =
             Inr (next_device_id w + of_nat j, w\<lparr>next_device_id := next_device_id w + of_nat j + 1\<rparr>)"
  using assms
proof (induction n arbitrary: k w)
  case 0
  then show ?case by simp
next
  case (Suc n)
  let ?i = "next_device_id w"
  let ?w = "w\<lparr>next_device_id := ?i + 1\<rparr>"
  obtain r where r: "get_mux_device_for_id ?i w = Inr (r, w)" "r = None \<longleftrightarrow> ?i \<notin> used_ids w"
    using lookup_id [OF Suc.prems(1)] by blast
  show ?case
  proof (cases "?i \<in> used_ids w")
    case False
    then show ?thesis
      using r by (intro exI [of _ 0]) (simp add: seq_Inr)
  next
    case True
    then obtain k' where k: "k = Suc k'"
      using Suc.prems(3) by (cases k) auto
    have same: "used_ids ?w = used_ids w" "devs_alive ?w"
      using Suc.prems(1) by (auto simp: used_ids_def devs_alive_def)
    obtain j where j: "j \<le> k'" "?i + 1 + of_nat j \<notin> used_ids w"
      "get_next_device_id_loop n ?w = Inr (?i + 1 + of_nat j, ?w\<lparr>next_device_id := ?i + 1 + of_nat j + 1\<rparr>)"
      using Suc.IH [of ?w k'] Suc.prems same by (auto simp: k algebra_simps)
    show ?thesis
      using r True j by (intro exI [of _ "Suc j"]) (auto simp add: seq_Inr k algebra_simps)
  qed
qed

text \<open>The counter ends one past an id no listed device has.\<close>

lemma get_next_device_id_fresh:
  assumes "devs_alive w" "length (elems (device_list w)) < 2 ^ 32"
  obtains i where "get_next_device_id w = Inr (i, w\<lparr>next_device_id := i + 1\<rparr>)" "i \<notin> used_ids w"
proof -
  obtain k where "k \<le> length (elems (device_list w))" "next_device_id w + of_nat k \<notin> used_ids w"
    using fresh_word [of "used_ids w" "length (elems (device_list w))"] used_ids_card [of w] assms by auto
  then show ?thesis
    using get_next_device_id_loop_run [OF assms(1), of k "Suc (length (elems (device_list w)))"] that
    by (auto simp: get_next_device_id_def)
qed

text \<open>The connections of a device, all alive, and the ports they use.\<close>

definition conns_alive :: "world \<Rightarrow> ptr collection \<Rightarrow> bool" where
  "conns_alive w col \<longleftrightarrow> (\<forall>p \<in> set (elems col). conn_heap w p \<noteq> None)"

definition used_ports :: "world \<Rightarrow> ptr collection \<Rightarrow> u16 set" where
  "used_ports w col = {conn_sport c | c p. p \<in> set (elems col) \<and> conn_heap w p = Some c}"

lemma used_ports_card: "finite (used_ports w col) \<and> card (used_ports w col) \<le> length (elems col)"
proof -
  have eq: "used_ports w col \<subseteq> (\<lambda>p. conn_sport (the (conn_heap w p))) ` set (elems col)"
    by (force simp: used_ports_def)
  have "card (used_ports w col) \<le> card (set (elems col))"
    using surj_card_le [OF _ eq] by simp
  then show ?thesis
    using finite_subset [OF eq] card_length [of "elems col"] by simp
qed

lemma lookup_port:
  assumes "conns_alive w col"
  shows "\<exists>r. find_in conn_heap (\<lambda>c. p = conn_sport c) col w = Inr (r, w) \<and> (r = None \<longleftrightarrow> p \<notin> used_ports w col)"
proof -
  obtain r where r: "find_slot (conn_heap w) (\<lambda>c. p = conn_sport c) (elems col) = Inr r"
    using find_slot_alive [of "elems col" "conn_heap w"] assms by (auto simp: conns_alive_def)
  have "r = None \<longleftrightarrow> p \<notin> used_ports w col"
  proof (cases r)
    case None
    then show ?thesis
      using r find_slot_None [of "conn_heap w" "\<lambda>c. p = conn_sport c" "elems col"]
      by (fastforce simp: used_ports_def)
  next
    case (Some q)
    then show ?thesis
      using find_slot_Some [OF r [unfolded Some]] by (auto simp: used_ports_def)
  qed
  with r show ?thesis by (simp add: find_in_run)
qed

lemma find_sport_loop_run:
  assumes "dev_heap w dev = Some d" "dev_connections d = Some col" "conns_alive w col"
    and "k < n" "dev_next_sport d + of_nat k \<notin> used_ports w col"
  shows "\<exists>j \<le> k. dev_next_sport d + of_nat j \<notin> used_ports w col \<and>
           find_sport_loop n dev w =
             Inr (dev_next_sport d + of_nat j,
                  w\<lparr>dev_heap := (dev_heap w)(dev := Some (d\<lparr>dev_next_sport := dev_next_sport d + of_nat j + 1\<rparr>))\<rparr>)"
  using assms
proof (induction n arbitrary: k w d)
  case 0
  then show ?case by simp
next
  case (Suc n)
  let ?p = "dev_next_sport d"
  let ?d = "d\<lparr>dev_next_sport := ?p + 1\<rparr>"
  let ?w = "w\<lparr>dev_heap := (dev_heap w)(dev := Some ?d)\<rparr>"
  obtain r where r: "find_in conn_heap (\<lambda>c. ?p = conn_sport c) col w = Inr (r, w)"
    "r = None \<longleftrightarrow> ?p \<notin> used_ports w col"
    using lookup_port [OF Suc.prems(3)] by blast
  note run = get_dev_run(1) [OF Suc.prems(1)] get_connections_run [OF Suc.prems(1,2)] r(1)
  show ?case
  proof (cases "?p \<in> used_ports w col")
    case False
    then show ?thesis
      using r by (intro exI [of _ 0]) (simp add: seq_Inr run set_dev_def fun_upd_def)
  next
    case True
    then obtain k' where k: "k = Suc k'"
      using Suc.prems(5) by (cases k) auto
    have same: "used_ports ?w col = used_ports w col" "conns_alive ?w col"
      using Suc.prems(3) by (auto simp: used_ports_def conns_alive_def)
    obtain j where j: "j \<le> k'" "?p + 1 + of_nat j \<notin> used_ports w col"
      "find_sport_loop n dev ?w = Inr (?p + 1 + of_nat j,
         ?w\<lparr>dev_heap := (dev_heap ?w)(dev := Some (?d\<lparr>dev_next_sport := ?p + 1 + of_nat j + 1\<rparr>))\<rparr>)"
      using Suc.IH [of ?w ?d k'] Suc.prems same by (auto simp: k algebra_simps fun_upd_def cong: if_cong)
    show ?thesis
      using r True j by (intro exI [of _ "Suc j"]) (auto simp add: fun_upd_def seq_Inr run set_dev_def k algebra_simps cong: if_cong)
  qed
qed

text \<open>Below the limit of 65535 connections the port returned is one no connection uses.\<close>

lemma find_sport_fresh:
  assumes "dev_heap w dev = Some d" "dev_connections d = Some col" "conns_alive w col"
    and "length (elems col) < 65535"
  obtains p where "find_sport dev w =
      Inr (p, w\<lparr>dev_heap := (dev_heap w)(dev := Some (d\<lparr>dev_next_sport := p + 1\<rparr>))\<rparr>)"
    and "p \<notin> used_ports w col"
proof -
  obtain k where "k \<le> length (elems col)" "dev_next_sport d + of_nat k \<notin> used_ports w col"
    using fresh_word [of "used_ports w col" "length (elems col)"] used_ports_card [of w col] assms(4) by auto
  then show ?thesis
    using find_sport_loop_run [OF assms(1-3), of k "Suc (length (elems col))"] assms that
    by (auto simp: find_sport_def seq_Inr get_connections_run)
qed

lemma find_sport_exhausted:
  "dev_heap w dev = Some d \<Longrightarrow> dev_connections d = Some col \<Longrightarrow> 65535 \<le> length (elems col) \<Longrightarrow>
     find_sport dev w = Inr (0, w)"
  by (simp add: find_sport_def seq_Inr get_connections_run)

subsection \<open>What the list functions promise\<close>

text \<open>\<open>get_next_device_id\<close> returns: its loop ends after at most one round more than there are
  devices, with an id that no device in the list has, and the counter is left one past it.\<close>

theorem next_device_id_unused:
  assumes "devs_alive w" "length (elems (device_list w)) < 2 ^ 32"
  shows "\<exists>i. get_next_device_id w = Inr (i, w\<lparr>next_device_id := i + 1\<rparr>) \<and> i \<notin> used_ids w"
  using get_next_device_id_fresh [OF assms] by metis

theorem next_device_id_unused_witness:
  "\<exists>i. get_next_device_id (link_world (idle_device MUXDEV_ACTIVE [40]) (idle_conn CONN_CONNECTED []) (idle_client CLIENT_CONNECTED)) =
     Inr (i, (link_world (idle_device MUXDEV_ACTIVE [40]) (idle_conn CONN_CONNECTED []) (idle_client CLIENT_CONNECTED))\<lparr>next_device_id := i + 1\<rparr>) \<and>
     i \<noteq> 1"
proof -
  let ?w = "link_world (idle_device MUXDEV_ACTIVE [40]) (idle_conn CONN_CONNECTED []) (idle_client CLIENT_CONNECTED)"
  have "devs_alive ?w" "length (elems (device_list ?w)) < 2 ^ 32" "1 \<in> used_ids ?w"
    by (auto simp: devs_alive_def used_ids_def idle_defs)
  from next_device_id_unused [OF this(1,2)] this(3) show ?thesis by metis
qed

text \<open>With fewer than 65535 connections \<open>find_sport\<close> returns a source port that no connection of
  the device uses, so two connections of a device never share a port; its loop ends.\<close>

theorem source_port_unused:
  assumes "dev_heap w dev = Some d" "dev_connections d = Some col" "conns_alive w col"
    and "length (elems col) < 65535"
  shows "\<exists>p. find_sport dev w = Inr (p, w\<lparr>dev_heap := (dev_heap w)(dev := Some (d\<lparr>dev_next_sport := p + 1\<rparr>))\<rparr>) \<and>
     p \<notin> used_ports w col"
  using find_sport_fresh [OF assms] by metis

theorem source_port_unused_witness:
  "\<exists>p w'. find_sport 10 (link_world (idle_device MUXDEV_ACTIVE [40]) (idle_conn CONN_CONNECTED []) (idle_client CLIENT_CONNECTED)) =
     Inr (p, w') \<and> p \<noteq> 1"
proof -
  let ?w = "link_world (idle_device MUXDEV_ACTIVE [40]) (idle_conn CONN_CONNECTED []) (idle_client CLIENT_CONNECTED)"
  have h: "dev_heap ?w 10 = Some (idle_device MUXDEV_ACTIVE [40])"
    "dev_connections (idle_device MUXDEV_ACTIVE [40]) = Some [Some 40, None]"
    "conns_alive ?w [Some 40, None]" "length (elems [Some (40::nat), None]) < 65535"
    by (auto simp: conns_alive_def idle_defs)
  have "1 \<in> used_ports ?w [Some 40, None]" by (auto simp: used_ports_def idle_defs)
  with source_port_unused [OF h] show ?thesis by blast
qed

text \<open>Reading a list of live cells.\<close>

lemma get_devs_run: "\<forall>p \<in> set ps. dev_heap w p \<noteq> None \<Longrightarrow> map_m get_dev ps w = Inr (map (the \<circ> dev_heap w) ps, w)"
  by (induction ps) (auto simp: seq_Inr get_dev_run)

lemma get_conns_run: "\<forall>p \<in> set ps. conn_heap w p \<noteq> None \<Longrightarrow> map_m get_conn ps w = Inr (map (the \<circ> conn_heap w) ps, w)"
  by (induction ps) (auto simp: seq_Inr get_conn_run)

lemma device_info_run:
  "usb_heap w u = Some v \<Longrightarrow> device_info_of i u w =
     Inr (\<lparr>di_id = i, di_serial = Some u, di_location = ud_location v, di_pid = port_wPID (ud_port v)\<rparr>, w)"
  by (simp add: device_info_of_def usb_get_serial_def usb_get_location_def usb_get_pid_def seq_Inr get_usb_run)

definition info_of :: "world \<Rightarrow> mux_device \<Rightarrow> device_info" where
  "info_of w d = \<lparr>di_id = dev_id d, di_serial = Some (dev_usbdev d),
     di_location = ud_location (the (usb_heap w (dev_usbdev d))),
     di_pid = port_wPID (ud_port (the (usb_heap w (dev_usbdev d))))\<rparr>"

definition listed_devices :: "bool \<Rightarrow> world \<Rightarrow> mux_device list" where
  "listed_devices hidden w = filter (is_listed hidden) (map (the \<circ> dev_heap w) (elems (device_list w)))"

text \<open>Every device of the list and the usb device it belongs to are alive.\<close>

definition links_alive :: "world \<Rightarrow> bool" where
  "links_alive w \<longleftrightarrow> (\<forall>p \<in> set (elems (device_list w)). \<exists>d. dev_heap w p = Some d \<and> usb_heap w (dev_usbdev d) \<noteq> None)"

text \<open>\<open>device_get_list\<close> returns one entry per active device that is visible (or any active device
  when hidden ones are asked for), in list order, with the id, location and product id of that device,
  and \<open>device_get_count\<close> is the length of that list.\<close>

theorem device_list_and_count:
  assumes "links_alive w"
  shows "device_get_list hidden w = Inr (map (info_of w) (listed_devices hidden w), w) \<and>
     device_get_count hidden w = Inr (length (listed_devices hidden w), w)"
proof -
  have devs: "map_m get_dev (elems (device_list w)) w = Inr (map (the \<circ> dev_heap w) (elems (device_list w)), w)"
    using assms by (intro get_devs_run) (auto simp: links_alive_def)
  have info: "map_m (\<lambda>d. device_info_of (dev_id d) (dev_usbdev d)) ds w = Inr (map (info_of w) ds, w)"
    if "\<forall>d \<in> set ds. usb_heap w (dev_usbdev d) \<noteq> None" for ds
    using that by (induction ds) (auto simp: seq_Inr device_info_run info_of_def)
  have "\<forall>d \<in> set (listed_devices hidden w). usb_heap w (dev_usbdev d) \<noteq> None"
    using assms by (auto simp: listed_devices_def links_alive_def)
  from info [OF this] devs show ?thesis
    by (simp add: device_get_list_def device_get_count_def collection_copy_def listed_devices_def seq_Inr)
qed

theorem device_list_and_count_witness:
  "device_get_list False (link_world (idle_device MUXDEV_ACTIVE [40]) (idle_conn CONN_CONNECTED []) (idle_client CLIENT_CONNECTED)) =
     Inr ([\<lparr>di_id = 1, di_serial = Some 30, di_location = 6, di_pid = 0x12a8\<rparr>],
       link_world (idle_device MUXDEV_ACTIVE [40]) (idle_conn CONN_CONNECTED []) (idle_client CLIENT_CONNECTED)) \<and>
   device_get_count False (link_world (idle_device MUXDEV_ACTIVE [40]) (idle_conn CONN_CONNECTED []) (idle_client CLIENT_CONNECTED)) =
     Inr (1, link_world (idle_device MUXDEV_ACTIVE [40]) (idle_conn CONN_CONNECTED []) (idle_client CLIENT_CONNECTED))"
proof -
  let ?w = "link_world (idle_device MUXDEV_ACTIVE [40]) (idle_conn CONN_CONNECTED []) (idle_client CLIENT_CONNECTED)"
  have "links_alive ?w" by (simp add: links_alive_def idle_defs)
  moreover have "listed_devices False ?w = [idle_device MUXDEV_ACTIVE [40]]"
    by (simp add: listed_devices_def is_listed_def idle_defs)
  moreover have "info_of ?w (idle_device MUXDEV_ACTIVE [40]) = \<lparr>di_id = 1, di_serial = Some 30, di_location = 6, di_pid = 0x12a8\<rparr>"
    by (simp add: info_of_def idle_defs)
  ultimately show ?thesis using device_list_and_count [of ?w False] by simp
qed

text \<open>The acknowledgement times of the connections of active devices that wait for one.\<close>

definition acks_of :: "world \<Rightarrow> ptr \<Rightarrow> u64 list" where
  "acks_of w p = (let d = the (dev_heap w p) in
     if dev_state d = MUXDEV_ACTIVE
     then map conn_last_ack_time (filter ack_pending (map (the \<circ> conn_heap w) (elems (the (dev_connections d)))))
     else [])"

definition pending_acks :: "world \<Rightarrow> u64 list" where
  "pending_acks w = concat (map (acks_of w) (elems (device_list w)))"

definition lists_alive :: "world \<Rightarrow> bool" where
  "lists_alive w \<longleftrightarrow> (\<forall>p \<in> set (elems (device_list w)). \<exists>d. dev_heap w p = Some d \<and>
     (dev_state d = MUXDEV_ACTIVE \<longrightarrow> (\<exists>col. dev_connections d = Some col \<and> conns_alive w col)))"

lemma oldest_ack_fold: "oldest_ack t cs = fold min (map conn_last_ack_time (filter ack_pending cs)) t"
proof (induction cs arbitrary: t)
  case (Cons c cs)
  have "(if conn_last_ack_time c < t then conn_last_ack_time c else t) = min (conn_last_ack_time c) t"
    using min.absorb1 [of "conn_last_ack_time c" t] min.absorb2 [of t "conn_last_ack_time c"] by auto
  with Cons show ?case by simp
qed simp

lemma oldest_ack_devs_run:
  assumes "\<And>p. p \<in> set ps \<Longrightarrow> \<exists>d. dev_heap w p = Some d \<and>
     (dev_state d = MUXDEV_ACTIVE \<longrightarrow> (\<exists>col. dev_connections d = Some col \<and> conns_alive w col))"
  shows "oldest_ack_devs t ps w = Inr (fold min (concat (map (acks_of w) ps)) t, w)"
  using assms
proof (induction ps arbitrary: t)
  case (Cons p ps)
  then obtain d where d: "dev_heap w p = Some d" "dev_state d = MUXDEV_ACTIVE \<longrightarrow> (\<exists>col. dev_connections d = Some col \<and> conns_alive w col)"
    by (meson list.set_intros(1))
  have IH: "oldest_ack_devs x ps w = Inr (fold min (concat (map (acks_of w) ps)) x, w)" for x
    using Cons by auto
  show ?case
  proof (cases "dev_state d = MUXDEV_ACTIVE")
    case True
    then obtain col where col: "dev_connections d = Some col" "conns_alive w col" using d(2) by blast
    then have "map_m get_conn (elems col) w = Inr (map (the \<circ> conn_heap w) (elems col), w)"
      by (intro get_conns_run) (auto simp: conns_alive_def)
    moreover have "acks_of w p = map conn_last_ack_time (filter ack_pending (map (the \<circ> conn_heap w) (elems col)))"
      using True d(1) col by (simp add: acks_of_def)
    ultimately show ?thesis
      using True d(1) col IH by (simp add: seq_Inr get_dev_run get_connections_run oldest_ack_fold)
  next
    case False
    then have "acks_of w p = []" using d(1) by (simp add: acks_of_def)
    with False d(1) IH show ?thesis by (simp add: seq_Inr get_dev_run)
  qed
qed simp

lemma fold_min_Min: "fold min xs (t :: 'a::linorder) = Min (insert t (set xs))"
  using Min.set_eq_fold [of t xs] by (simp add: fold_commute)

lemma device_get_timeout_run:
  assumes "lists_alive w" "mstime64 w = Inr (ct, w')"
  shows "device_get_timeout w =
     (let oldest = Min (insert (- 1) (set (pending_acks w))) in
      Inr (if oldest = - 1 then 100000 else if ct - oldest > 30 then 0 else uint (30 - (ct - oldest)), w'))"
proof -
  have "oldest_ack_devs (- 1) (elems (device_list w)) w = Inr (fold min (pending_acks w) (- 1), w)"
    unfolding pending_acks_def by (rule oldest_ack_devs_run) (use assms(1) in \<open>auto simp: lists_alive_def\<close>)
  with assms(2) show ?thesis
    by (simp add: device_get_timeout_def seq_Inr fold_min_Min ACK_TIMEOUT_def Let_def)
qed

text \<open>\<open>device_get_timeout\<close> returns for every state whose lists are intact. Without a pending
  acknowledgement it is the constant 100000; otherwise it is the time that the oldest pending one has
  left of the 30 milliseconds, and 0 when that time is over.\<close>

theorem timeout_of_oldest_ack:
  assumes "lists_alive w" "mstime64 w = Inr (ct, w')"
  shows "device_get_timeout w =
     (let oldest = Min (insert (- 1) (set (pending_acks w))) in
      Inr (if oldest = - 1 then 100000 else if ct - oldest > 30 then 0 else uint (30 - (ct - oldest)), w'))"
  by (rule device_get_timeout_run [OF assms])

theorem timeout_of_oldest_ack_witness:
  "device_get_timeout ((link_world (idle_device MUXDEV_ACTIVE [40]) ((idle_conn CONN_CONNECTED [])\<lparr>conn_flags := 1, conn_last_ack_time := 100\<rparr>)
      (idle_client CLIENT_CONNECTED))\<lparr>sys := idle_env\<lparr>now := 110\<rparr>\<rparr>) =
     Inr (20, (link_world (idle_device MUXDEV_ACTIVE [40]) ((idle_conn CONN_CONNECTED [])\<lparr>conn_flags := 1, conn_last_ack_time := 100\<rparr>)
      (idle_client CLIENT_CONNECTED))\<lparr>sys := idle_env\<lparr>now := 110\<rparr>\<rparr>)"
proof -
  let ?w = "(link_world (idle_device MUXDEV_ACTIVE [40]) ((idle_conn CONN_CONNECTED [])\<lparr>conn_flags := 1, conn_last_ack_time := 100\<rparr>)
      (idle_client CLIENT_CONNECTED))\<lparr>sys := idle_env\<lparr>now := 110\<rparr>\<rparr>"
  have l: "lists_alive ?w" "mstime64 ?w = Inr (110, ?w)"
    by (simp_all add: lists_alive_def conns_alive_def mstime64_def idle_defs)
  have p: "pending_acks ?w = [100]"
    by (simp add: pending_acks_def acks_of_def ack_pending_def CONN_ACK_PENDING_def idle_defs)
  have "Min {- 1, 100 :: u64} = 100" by simp
  with timeout_of_oldest_ack [OF l] p show ?thesis by (simp add: Let_def)
qed

end
