(* ===== verification/Client_Out.thy ===== *)
theory Client_Out
  imports Device_List
begin

text \<open>
  The half of client.cpp that the device side calls: reading and writing a connected client's
  socket, the replies and notifications that are appended to a client's output buffer, and the
  functions of client.h that tell listening clients about devices. The lemmas show that a
  packet is appended behind the bytes already queued, inside a buffer that grows as needed.
\<close>

definition CMD_BUF_SIZE :: nat where "CMD_BUF_SIZE = 0x10000"
definition REPLY_BUF_SIZE :: nat where "REPLY_BUF_SIZE = 0x10000"

text \<open>\<open>enum usbmuxd_result\<close> and \<open>enum usbmuxd_msgtype\<close> of usbmuxd-proto.h.\<close>

definition RESULT_OK :: u32 where "RESULT_OK = 0"
definition RESULT_BADCOMMAND :: u32 where "RESULT_BADCOMMAND = 1"
definition RESULT_BADDEV :: u32 where "RESULT_BADDEV = 2"
definition RESULT_CONNREFUSED :: u32 where "RESULT_CONNREFUSED = 3"
definition RESULT_BADVERSION :: u32 where "RESULT_BADVERSION = 6"

definition MESSAGE_RESULT :: u32 where "MESSAGE_RESULT = 1"
definition MESSAGE_CONNECT :: u32 where "MESSAGE_CONNECT = 2"
definition MESSAGE_LISTEN :: u32 where "MESSAGE_LISTEN = 3"
definition MESSAGE_DEVICE_ADD :: u32 where "MESSAGE_DEVICE_ADD = 4"
definition MESSAGE_DEVICE_REMOVE :: u32 where "MESSAGE_DEVICE_REMOVE = 5"
definition MESSAGE_PLIST :: u32 where "MESSAGE_PLIST = 8"

lemmas msg_defs = RESULT_OK_def RESULT_BADCOMMAND_def RESULT_BADDEV_def RESULT_CONNREFUSED_def
  RESULT_BADVERSION_def MESSAGE_RESULT_def MESSAGE_CONNECT_def MESSAGE_LISTEN_def
  MESSAGE_DEVICE_ADD_def MESSAGE_DEVICE_REMOVE_def MESSAGE_PLIST_def

subsection \<open>The client socket\<close>

text \<open>\<open>None\<close> is the error -1; the empty list the orderly end of the stream.\<close>

definition client_read :: "ptr \<Rightarrow> nat \<Rightarrow> bytes option act" where
  "client_read k n = seq (get_client k) (\<lambda>c.
     if cl_state c \<noteq> CLIENT_CONNECTED then ret None else sys_recv (cl_fd c) n)"

definition client_write :: "ptr \<Rightarrow> bytes \<Rightarrow> int act" where
  "client_write k bs = seq (get_client k) (\<lambda>c.
     if cl_state c \<noteq> CLIENT_CONNECTED then ret (-1) else sys_send (cl_fd c) bs)"

definition client_set_events :: "ptr \<Rightarrow> u16 \<Rightarrow> int act" where
  "client_set_events k events = seq (get_client k) (\<lambda>c.
     if cl_state c \<noteq> CLIENT_CONNECTED \<and> cl_state c \<noteq> CLIENT_CONNECTING2 then ret (-1)
     else seq (set_client k (c\<lparr>cl_devents := events,
            cl_events := (if cl_state c = CLIENT_CONNECTED then events else cl_events c)\<rparr>)) (\<lambda>_. ret 0))"

definition client_add_fds :: "((fd list \<times> fd list) \<times> nat) act" where
  "client_add_fds = seq (gets client_list) (\<lambda>col.
     seq (map_m get_client (elems col)) (\<lambda>cs.
     ret ((map cl_fd (filter (\<lambda>c. has_bits POLLIN (cl_events c)) cs),
           map cl_fd (filter (\<lambda>c. has_bits POLLOUT (cl_events c)) cs)), length cs)))"

subsection \<open>Replies\<close>

definition grown_capacity :: "u32 \<Rightarrow> u32 \<Rightarrow> u32" where
  "grown_capacity cap len = ((cap + len + 4096) div 4096) * 4096"

definition send_pkt :: "ptr \<Rightarrow> u32 \<Rightarrow> u32 \<Rightarrow> bytes \<Rightarrow> int act" where
  "send_pkt k tag msg payload = seq (get_client k) (\<lambda>c.
     let hlen = of_nat (16 + length payload) :: u32;
         hdr = usbmuxd_header_bytes \<lparr>uh_length = hlen, uh_version = cl_proto_version c,
                 uh_message = msg, uh_tag = tag\<rparr>;
         available = cl_ob_capacity c - cl_ob_size c in
     seq (if available < hlen then
            let new_size = grown_capacity (cl_ob_capacity c) hlen in
            seq api_ok (\<lambda>ok.
              if \<not> ok then ret False
              else seq (set_client k (c\<lparr>cl_ob_buf := Some (take (unat new_size) (case cl_ob_buf c of None \<Rightarrow> [] | Some b \<Rightarrow> b)),
                                        cl_ob_capacity := new_size\<rparr>)) (\<lambda>_. ret True))
          else ret True) (\<lambda>ok.
     if \<not> ok then ret (-1)
     else seq (get_client k) (\<lambda>c.
       seq (some_or NullDeref (cl_ob_buf c)) (\<lambda>b.
       seq (buf_write (unat (cl_ob_capacity c)) (unat (cl_ob_size c)) (hdr @ payload) b) (\<lambda>b.
       seq (set_client k (c\<lparr>cl_ob_buf := Some b, cl_ob_size := cl_ob_size c + hlen,
                            cl_events := cl_events c OR POLLOUT\<rparr>)) (\<lambda>_.
       ret (sint hlen)))))))"

definition send_plist_pkt :: "ptr \<Rightarrow> u32 \<Rightarrow> plist \<Rightarrow> int act" where
  "send_plist_pkt k tag p = seq (gets (\<lambda>w. xml_of (conf w) p)) (\<lambda>xml.
     case xml of None \<Rightarrow> ret (-1) | Some bs \<Rightarrow> send_pkt k tag MESSAGE_PLIST bs)"

definition result_plist :: "u32 \<Rightarrow> plist" where
  "result_plist result =
     PDict [(''MessageType'', PString ''Result''), (''Number'', PUint (ucast result))]"

definition send_result :: "ptr \<Rightarrow> u32 \<Rightarrow> u32 \<Rightarrow> int act" where
  "send_result k tag result = seq (get_client k) (\<lambda>c.
     if cl_proto_version c = 1 then send_plist_pkt k tag (result_plist result)
     else send_pkt k tag MESSAGE_RESULT (le32 result))"

text \<open>
  The answer to a connect request. After a positive answer the client only waits for the
  answer to be sent and its input buffer is released.
\<close>

definition client_notify_connect :: "ptr \<Rightarrow> u32 \<Rightarrow> int act" where
  "client_notify_connect k result = seq (get_client k) (\<lambda>c.
     if cl_state c = CLIENT_DEAD then ret (-1)
     else if cl_state c \<noteq> CLIENT_CONNECTING1 then ret (-1)
     else seq (send_result k (cl_connect_tag c) result) (\<lambda>r.
       if r < 0 then ret (-1)
       else if result = RESULT_OK
       then seq (upd_client k (\<lambda>c. c\<lparr>cl_state := CLIENT_CONNECTING2, cl_events := POLLOUT,
                  cl_ib_buf := None\<rparr>)) (\<lambda>_. ret 0)
       else seq (upd_client k (\<lambda>c. c\<lparr>cl_state := CLIENT_COMMAND\<rparr>)) (\<lambda>_. ret 0)))"

subsection \<open>Notifications\<close>

definition create_device_attached_plist :: "device_info \<Rightarrow> string \<Rightarrow> plist" where
  "create_device_attached_plist dev serial =
     PDict [(''MessageType'', PString ''Attached''),
            (''DeviceID'', PUint (ucast (di_id dev))),
            (''Properties'', PDict [
               (''ConnectionSpeed'', PUint 480000000),
               (''ConnectionType'', PString ''USB''),
               (''DeviceID'', PUint (ucast (di_id dev))),
               (''LocationID'', PUint (ucast (di_location dev))),
               (''ProductID'', PUint (ucast (di_pid dev))),
               (''SerialNumber'', PString serial)])]"

definition create_device_pairing_event_plist :: "device_info \<Rightarrow> string \<Rightarrow> string \<Rightarrow> plist" where
  "create_device_pairing_event_plist dev serial event =
     PDict [(''MessageType'', PString event),
            (''DeviceID'', PUint (ucast (di_id dev))),
            (''Properties'', PDict [
               (''DeviceID'', PUint (ucast (di_id dev))),
               (''LocationID'', PUint (ucast (di_location dev))),
               (''ProductID'', PUint (ucast (di_pid dev))),
               (''SerialNumber'', PString serial)])]"

text \<open>\<open>strncpy\<close> into the 256 bytes of the record, the last of which is then cleared.\<close>

definition serial_field :: "string \<Rightarrow> bytes" where
  "serial_field s = take 255 (map of_char s @ replicate 255 0) @ [0]"

definition notify_device_add :: "ptr \<Rightarrow> device_info \<Rightarrow> int act" where
  "notify_device_add k dev = seq (get_client k) (\<lambda>c.
     seq (read_serial (di_serial dev)) (\<lambda>s.
     if cl_proto_version c = 1 then send_plist_pkt k 0 (create_device_attached_plist dev s)
     else send_pkt k 0 MESSAGE_DEVICE_ADD
            (device_record_bytes (di_id dev) (di_pid dev) (serial_field s) (di_location dev))))"

definition detached_plist :: "u32 \<Rightarrow> plist" where
  "detached_plist device_id =
     PDict [(''MessageType'', PString ''Detached''), (''DeviceID'', PUint (ucast device_id))]"

definition notify_device_remove :: "ptr \<Rightarrow> u32 \<Rightarrow> int act" where
  "notify_device_remove k device_id = seq (get_client k) (\<lambda>c.
     if cl_proto_version c = 1 then send_plist_pkt k 0 (detached_plist device_id)
     else send_pkt k 0 MESSAGE_DEVICE_REMOVE (le32 device_id))"

text \<open>The loops over all clients that pick those in the state \<open>CLIENT_LISTEN\<close>.\<close>

definition for_clients :: "(mux_client \<Rightarrow> bool) \<Rightarrow> (ptr \<Rightarrow> int act) \<Rightarrow> unit act" where
  "for_clients P f = foreach (gets client_list) (\<lambda>k. seq (get_client k) (\<lambda>c.
     if P c then seq (f k) (\<lambda>_. ret ()) else ret ()))"

definition client_device_add :: "device_info \<Rightarrow> unit act" where
  "client_device_add dev = seq (device_set_visible (di_id dev)) (\<lambda>_.
     for_clients (\<lambda>c. cl_state c = CLIENT_LISTEN) (\<lambda>k. notify_device_add k dev))"

definition client_device_remove :: "u32 \<Rightarrow> unit act" where
  "client_device_remove device_id =
     for_clients (\<lambda>c. cl_state c = CLIENT_LISTEN) (\<lambda>k. notify_device_remove k device_id)"

definition client_device_pairing_event :: "device_info \<Rightarrow> string \<Rightarrow> bool \<Rightarrow> unit act" where
  "client_device_pairing_event dev event validate =
     seq (if validate then device_exists (di_id dev) else ret True) (\<lambda>ok.
     if ok
     then for_clients (\<lambda>c. cl_state c = CLIENT_LISTEN \<and> cl_proto_version c = 1) (\<lambda>k.
            seq (if di_serial dev = None then ret [] else read_serial (di_serial dev)) (\<lambda>s.
            send_plist_pkt k 0 (create_device_pairing_event_plist dev s event)))
     else ret ())"

definition client_device_removed_during_add :: "device_info \<Rightarrow> unit act" where
  "client_device_removed_during_add dev = client_device_pairing_event dev ''RemovedDuringAdd'' False"

definition client_device_trust_pending :: "device_info \<Rightarrow> unit act" where
  "client_device_trust_pending dev = client_device_pairing_event dev ''TrustPending'' True"

definition client_device_password_protected :: "device_info \<Rightarrow> unit act" where
  "client_device_password_protected dev = client_device_pairing_event dev ''PasswordProtected'' True"

definition client_device_user_denied_pairing :: "device_info \<Rightarrow> unit act" where
  "client_device_user_denied_pairing dev = client_device_pairing_event dev ''UserDeniedPairing'' True"

definition client_device_error_already_exits :: "device_info \<Rightarrow> unit act" where
  "client_device_error_already_exits dev = client_device_pairing_event dev ''ErrorDeviceAlreadyExists'' False"

subsection \<open>What replies change\<close>

text \<open>Only the client heap, of which no cell is freed, and the outcomes of API calls still to come.\<close>

definition only_clients :: "world \<Rightarrow> world \<Rightarrow> bool" where
  "only_clients w w' \<longleftrightarrow>
     (\<exists>h bs. w' = w\<lparr>client_heap := h, sys := (sys w)\<lparr>oks := bs\<rparr>\<rparr> \<and> dom (client_heap w) \<subseteq> dom h \<and>
        set bs \<subseteq> set (oks (sys w)))"

interpretation cl_frame: frame_rel only_clients
proof
  fix w :: world
  show "only_clients w w"
    unfolding only_clients_def by (intro exI [of _ "client_heap w"] exI [of _ "oks (sys w)"]) simp
next
  fix u v w
  assume "only_clients u v" "only_clients v w"
  then obtain h bs where "w = u\<lparr>client_heap := h, sys := (sys u)\<lparr>oks := bs\<rparr>\<rparr>" "dom (client_heap u) \<subseteq> dom h"
    "set bs \<subseteq> set (oks (sys u))"
    by (auto simp: only_clients_def)
  then show "only_clients u w"
    unfolding only_clients_def by blast
qed

lemma only_clients_fields:
  assumes "only_clients w w'"
  shows "dev_heap w' = dev_heap w" "conn_heap w' = conn_heap w" "usb_heap w' = usb_heap w"
    "buf_heap w' = buf_heap w" "device_list w' = device_list w" "client_list w' = client_list w"
    "next_ptr w' = next_ptr w" "g_device_list w' = g_device_list w" "sock_out (sys w') = sock_out (sys w)"
    "usb_out (sys w') = usb_out (sys w)"
    "client_heap w k \<noteq> None \<Longrightarrow> client_heap w' k \<noteq> None"
  using assms unfolding only_clients_def by (elim exE conjE; auto)+

lemma only_clients_oks: "only_clients w w' \<Longrightarrow> set (oks (sys w')) \<subseteq> set (oks (sys w)) \<and> conf w' = conf w"
  unfolding only_clients_def by auto

lemma only_clients_sys: "set bs \<subseteq> set (oks (sys w)) \<Longrightarrow> only_clients w (w\<lparr>sys := (sys w)\<lparr>oks := bs\<rparr>\<rparr>)"
  unfolding only_clients_def by (intro exI [of _ "client_heap w"] exI [of _ bs]) simp

lemma only_clients_set:
  "only_clients w (w\<lparr>client_heap := (client_heap w)(k := Some c)\<rparr>)"
  unfolding only_clients_def by (intro exI [of _ "(client_heap w)(k := Some c)"] exI [of _ "oks (sys w)"]) auto

lemma only_clients_api: "api_ok w = Inr (b, w') \<Longrightarrow> only_clients w w' \<and> client_heap w' = client_heap w"
  by (auto simp: api_ok_def cl_frame.frame_refl intro!: only_clients_sys split: list.splits)

subsection \<open>The output buffer\<close>

text \<open>The bytes queued for a client, and a buffer that holds them within its capacity.\<close>

definition queued :: "mux_client \<Rightarrow> bytes" where
  "queued c = take (unat (cl_ob_size c)) (case cl_ob_buf c of None \<Rightarrow> [] | Some b \<Rightarrow> b)"

definition ob_wf :: "mux_client \<Rightarrow> bool" where
  "ob_wf c \<longleftrightarrow> (\<exists>b. cl_ob_buf c = Some b \<and> unat (cl_ob_size c) \<le> length b \<and> length b \<le> unat (cl_ob_capacity c))"

definition packet :: "mux_client \<Rightarrow> u32 \<Rightarrow> u32 \<Rightarrow> bytes \<Rightarrow> bytes" where
  "packet c tag msg payload =
     usbmuxd_header_bytes \<lparr>uh_length = of_nat (16 + length payload), uh_version = cl_proto_version c,
        uh_message = msg, uh_tag = tag\<rparr> @ payload"

lemma length_packet [simp]: "length (packet c tag msg payload) = 16 + length payload"
  by (simp add: packet_def)

lemma grown_capacity_unat:
  assumes "unat cap + unat len + 4096 < 2 ^ 32"
  shows "unat (grown_capacity cap len) = (unat cap + unat len + 4096) div 4096 * 4096"
proof -
  have s: "unat (cap + len + 4096) = unat cap + unat len + 4096"
    using assms by (simp add: unat_word_ariths)
  have "(unat cap + unat len + 4096) div 4096 * 4096 < 2 ^ 32"
    using assms div_times_less_eq_dividend [of "unat cap + unat len + 4096" 4096] by linarith
  then show ?thesis
    using s by (simp add: grown_capacity_def unat_word_ariths unat_div)
qed

lemma grown_capacity_enough:
  assumes "unat cap + unat len + 4096 < 2 ^ 32"
  shows "unat cap + unat len < unat (grown_capacity cap len)"
  using grown_capacity_unat [OF assms]
    div_mult_mod_eq [of "unat cap + unat len + 4096" 4096]
    mod_less_divisor [of 4096 "unat cap + unat len + 4096"] by linarith

text \<open>Enough room below 2 GiB that no length computation of \<open>send_pkt\<close> wraps.\<close>

definition ob_room :: "mux_client \<Rightarrow> bytes \<Rightarrow> bool" where
  "ob_room c payload \<longleftrightarrow> unat (cl_ob_capacity c) + length payload + 8192 < 2 ^ 31"

definition pkt_queued :: "mux_client \<Rightarrow> bytes \<Rightarrow> mux_client \<Rightarrow> bool" where
  "pkt_queued c pkt c' \<longleftrightarrow>
     ob_wf c' \<and> queued c' = queued c @ pkt \<and>
     unat (cl_ob_size c') = unat (cl_ob_size c) + length pkt \<and>
     unat (cl_ob_capacity c) \<le> unat (cl_ob_capacity c') \<and>
     c' = c\<lparr>cl_ob_buf := cl_ob_buf c', cl_ob_size := cl_ob_size c', cl_ob_capacity := cl_ob_capacity c',
            cl_events := cl_events c OR POLLOUT\<rparr>"

text \<open>The second half of \<open>send_pkt\<close>: the copy behind the bytes that are queued.\<close>

lemma send_pkt_copy:
  assumes "cl_ob_buf c = Some b" "unat (cl_ob_size c) \<le> length b" "length b \<le> unat (cl_ob_capacity c)"
    and "unat (cl_ob_size c) + length pkt \<le> unat (cl_ob_capacity c)" "length pkt < 2 ^ 32"
  shows "buf_write (unat (cl_ob_capacity c)) (unat (cl_ob_size c)) pkt b w =
      Inr (buf_put (unat (cl_ob_size c)) pkt b, w)"
    and "pkt_queued c pkt (c\<lparr>cl_ob_buf := Some (buf_put (unat (cl_ob_size c)) pkt b),
           cl_ob_size := cl_ob_size c + of_nat (length pkt), cl_events := cl_events c OR POLLOUT\<rparr>)"
proof -
  show "buf_write (unat (cl_ob_capacity c)) (unat (cl_ob_size c)) pkt b w =
      Inr (buf_put (unat (cl_ob_size c)) pkt b, w)"
    using assms by (simp add: buf_write_run)
  have n: "unat (of_nat (length pkt) :: u32) = length pkt"
    using assms(5) by (simp add: unat_of_nat_small)
  have "unat (cl_ob_size c) + length pkt < 2 ^ 32"
    using assms(4) unsigned_less [where ?'a = nat, of "cl_ob_capacity c"] by simp
  then have s: "unat (cl_ob_size c + of_nat (length pkt)) = unat (cl_ob_size c) + length pkt"
    using n by (simp add: unat_word_ariths)
  show "pkt_queued c pkt (c\<lparr>cl_ob_buf := Some (buf_put (unat (cl_ob_size c)) pkt b),
           cl_ob_size := cl_ob_size c + of_nat (length pkt), cl_events := cl_events c OR POLLOUT\<rparr>)"
    using assms by (simp add: pkt_queued_def ob_wf_def queued_def s length_buf_put)
qed

text \<open>A packet that fits the capacity is queued without growing the buffer.\<close>

lemma send_pkt_fits:
  assumes "client_heap w k = Some c" "ob_wf c" "unat (cl_ob_size c) + (16 + length payload) \<le> unat (cl_ob_capacity c)"
    and "16 + length payload < 2 ^ 31"
  shows "\<exists>c'. send_pkt k tag msg payload w = Inr (16 + int (length payload), w\<lparr>client_heap := (client_heap w)(k := Some c')\<rparr>) \<and>
     pkt_queued c (packet c tag msg payload) c'"
proof -
  obtain b where b: "cl_ob_buf c = Some b" "unat (cl_ob_size c) \<le> length b" "length b \<le> unat (cl_ob_capacity c)"
    using assms(2) by (auto simp: ob_wf_def)
  let ?hlen = "of_nat (16 + length payload) :: u32"
  let ?pkt = "packet c tag msg payload"
  have hlen: "unat ?hlen = 16 + length payload"
    using assms(4) by (subst unat_of_nat_small) auto
  have sint_hlen: "sint ?hlen = 16 + int (length payload)"
    using assms(4) hlen by (simp add: sint_small)
  have avail: "unat (cl_ob_capacity c - cl_ob_size c) = unat (cl_ob_capacity c) - unat (cl_ob_size c)"
    using b by (intro unat_sub_small) (simp add: word_le_nat_alt)
  have roomy: "\<not> cl_ob_capacity c - cl_ob_size c < ?hlen"
    using avail hlen assms(3) by (simp add: word_less_nat_alt)
  have fits: "unat (cl_ob_size c) + length ?pkt \<le> unat (cl_ob_capacity c)" using assms(3) by simp
  note cp = send_pkt_copy [OF b fits]
  let ?c' = "c\<lparr>cl_ob_buf := Some (buf_put (unat (cl_ob_size c)) ?pkt b),
       cl_ob_size := cl_ob_size c + ?hlen, cl_events := cl_events c OR POLLOUT\<rparr>"
  have "send_pkt k tag msg payload w = Inr (16 + int (length payload), w\<lparr>client_heap := (client_heap w)(k := Some ?c')\<rparr>)"
    using roomy assms(1,4) b sint_hlen
    by (simp add: send_pkt_def Let_def seq_Inr get_client_run set_client_def
        cp(1) [unfolded packet_def, simplified] packet_def)
  moreover have "pkt_queued c ?pkt ?c'"
    using cp(2) assms(4) by (simp add: packet_def)
  ultimately show ?thesis by blast
qed

text \<open>
  Room for a message, or a buffer that grows: without either the message is not queued.
\<close>

definition ob_fits :: "mux_client \<Rightarrow> bytes \<Rightarrow> bool" where
  "ob_fits c payload \<longleftrightarrow> unat (cl_ob_size c) + (16 + length payload) \<le> unat (cl_ob_capacity c)"

definition can_queue :: "world \<Rightarrow> mux_client \<Rightarrow> bytes \<Rightarrow> bool" where
  "can_queue w c payload \<longleftrightarrow> ob_fits c payload \<or> oks (sys w) = [] \<or> hd (oks (sys w))"

lemma send_pkt_cases:
  assumes "client_heap w k = Some c" "ob_wf c" "ob_room c payload"
  shows "(\<exists>w'. send_pkt k tag msg payload w = Inr (-1, w') \<and> only_clients w w' \<and> client_heap w' = client_heap w \<and>
       \<not> can_queue w c payload) \<or>
    (\<exists>c' w'. send_pkt k tag msg payload w = Inr (16 + int (length payload), w') \<and> only_clients w w' \<and>
       client_heap w' = (client_heap w)(k := Some c') \<and> can_queue w c payload \<and> pkt_queued c (packet c tag msg payload) c')"
proof -
  obtain b where b: "cl_ob_buf c = Some b" "unat (cl_ob_size c) \<le> length b" "length b \<le> unat (cl_ob_capacity c)"
    using assms(2) by (auto simp: ob_wf_def)
  let ?hlen = "of_nat (16 + length payload) :: u32"
  let ?pkt = "packet c tag msg payload"
  let ?cap = "grown_capacity (cl_ob_capacity c) ?hlen"
  let ?g = "c\<lparr>cl_ob_buf := Some b, cl_ob_capacity := ?cap\<rparr>"
  have small: "16 + length payload < 2 ^ 31"
    using assms(3) by (simp add: ob_room_def)
  have hlen: "unat ?hlen = 16 + length payload"
    using small by (subst unat_of_nat_small) auto
  have sint_hlen: "sint ?hlen = 16 + int (length payload)"
    using small hlen by (simp add: sint_small)
  have "unat (cl_ob_capacity c) + unat ?hlen + 4096 < 2 ^ 32"
    using assms(3) hlen by (simp add: ob_room_def)
  then have grown: "unat (cl_ob_capacity c) + (16 + length payload) < unat ?cap"
    using grown_capacity_enough hlen by metis
  have avail: "unat (cl_ob_capacity c - cl_ob_size c) = unat (cl_ob_capacity c) - unat (cl_ob_size c)"
    using b by (intro unat_sub_small) (simp add: word_le_nat_alt)
  have sz: "cl_ob_size c + of_nat (length ?pkt) = cl_ob_size c + ?hlen"
    by simp
  show ?thesis
  proof (cases "cl_ob_capacity c - cl_ob_size c < ?hlen")
    case False
    then have fits: "unat (cl_ob_size c) + (16 + length payload) \<le> unat (cl_ob_capacity c)"
      using avail hlen b by (simp add: word_less_nat_alt)
    obtain c' where c': "send_pkt k tag msg payload w = Inr (16 + int (length payload), w\<lparr>client_heap := (client_heap w)(k := Some c')\<rparr>)"
      "pkt_queued c ?pkt c'"
      using send_pkt_fits [OF assms(1,2) fits small] by blast
    then show ?thesis
      using only_clients_set [of w k c'] fits
      by (intro disjI2 exI [of _ c']) (auto simp: can_queue_def ob_fits_def)
  next
    case True
    then have full: "\<not> ob_fits c payload"
      using avail hlen b by (simp add: ob_fits_def word_less_nat_alt)
    obtain ok w1 where api: "api_ok w = Inr (ok, w1)"
      by (cases "oks (sys w)") (auto simp: api_ok_def)
    note w1 = only_clients_api [OF api]
    show ?thesis
    proof (cases ok)
      case False
      then have "\<not> can_queue w c payload"
        using api full by (auto simp: api_ok_def can_queue_def split: list.splits)
      with False show ?thesis
        using True assms(1) b api w1
        by (intro disjI1) (auto simp: send_pkt_def Let_def seq_Inr get_client_run)
    next
      case ok: True
      let ?w = "w1\<lparr>client_heap := (client_heap w1)(k := Some ?g)\<rparr>"
      have cut: "take (unat ?cap) b = b"
        using grown b(3) by simp
      have gb: "cl_ob_buf ?g = Some b" "unat (cl_ob_size ?g) \<le> length b" "length b \<le> unat (cl_ob_capacity ?g)"
          "unat (cl_ob_size ?g) + length ?pkt \<le> unat (cl_ob_capacity ?g)"
        using grown b by simp_all
      note cp = send_pkt_copy [OF gb]
      let ?c' = "?g\<lparr>cl_ob_buf := Some (buf_put (unat (cl_ob_size c)) ?pkt b),
           cl_ob_size := cl_ob_size c + ?hlen, cl_events := cl_events c OR POLLOUT\<rparr>"
      let ?w' = "w1\<lparr>client_heap := (client_heap w1)(k := Some ?c')\<rparr>"
      have run: "send_pkt k tag msg payload w = Inr (16 + int (length payload), ?w')"
        using True ok assms(1) b api w1 small cut sint_hlen
        by (simp add: send_pkt_def Let_def seq_Inr get_client_run set_client_def
            cp(1) [unfolded packet_def, simplified] packet_def)
      have "only_clients w ?w'"
        using w1 assms(1) by (intro cl_frame.frame_trans [OF _ only_clients_set]) auto
      moreover have "pkt_queued ?g ?pkt ?c'"
        using cp(2) small by (simp add: packet_def)
      then have "pkt_queued c ?pkt ?c'"
        using grown by (auto simp: pkt_queued_def queued_def b)
      moreover have "can_queue w c payload"
        using api ok by (auto simp: api_ok_def can_queue_def split: list.splits)
      ultimately show ?thesis
        using run w1 by (intro disjI2) auto
    qed
  qed
qed

lemma send_pkt_run:
  assumes "client_heap w k = Some c" "ob_wf c" "ob_room c payload"
  shows "(\<exists>w'. send_pkt k tag msg payload w = Inr (-1, w') \<and> only_clients w w' \<and> client_heap w' = client_heap w \<and>
       False \<in> set (oks (sys w))) \<or>
    (\<exists>c' w'. send_pkt k tag msg payload w = Inr (16 + int (length payload), w') \<and> only_clients w w' \<and>
       client_heap w' = (client_heap w)(k := Some c') \<and> pkt_queued c (packet c tag msg payload) c')"
proof -
  have "False \<in> set (oks (sys w))" if "\<not> can_queue w c payload"
    using that hd_in_set [of "oks (sys w)"] by (auto simp: can_queue_def)
  then show ?thesis using send_pkt_cases [OF assms, of tag msg] by blast
qed

lemma cl_prims:
  "keeps only_clients (get_client k)" "keeps only_clients (set_client k c)" "keeps only_clients api_ok"
  "keeps only_clients (get_usb u)" "keeps only_clients (get_dev d)"
  by (auto simp: keeps_def get_client_def set_client_def get_usb_def get_dev_def seq_eq_Inr some_or_def
      cl_frame.frame_refl only_clients_set only_clients_api split: option.splits)

lemma cl_upd_client: "keeps only_clients (upd_client k f)"
  unfolding upd_client_def by (intro cl_frame.keeps_rules cl_prims)

lemma cl_send_pkt: "keeps only_clients (send_pkt k tag msg payload)"
  unfolding send_pkt_def Let_def by (intro cl_frame.keeps_rules cl_prims)

lemma cl_send_plist_pkt: "keeps only_clients (send_plist_pkt k tag p)"
  unfolding send_plist_pkt_def by (intro cl_frame.keeps_rules cl_send_pkt)

lemma cl_send_result: "keeps only_clients (send_result k tag r)"
  unfolding send_result_def by (intro cl_frame.keeps_rules cl_prims cl_send_pkt cl_send_plist_pkt)

lemma cl_client_notify_connect: "keeps only_clients (client_notify_connect k r)"
  unfolding client_notify_connect_def
  by (intro cl_frame.keeps_rules cl_prims cl_upd_client cl_send_result)

lemma cl_notify_device_add: "keeps only_clients (notify_device_add k dev)"
  unfolding notify_device_add_def read_serial_def
  by (intro cl_frame.keeps_rules cl_prims cl_send_pkt cl_send_plist_pkt)

lemma cl_notify_device_remove: "keeps only_clients (notify_device_remove k i)"
  unfolding notify_device_remove_def by (intro cl_frame.keeps_rules cl_prims cl_send_pkt cl_send_plist_pkt)

end
