(* ===== verification/Mux_Conn.thy ===== *)
theory Mux_Conn
  imports Client_Out
begin

text \<open>
  The connection half of device.cpp: outgoing mux packets, the TCP-like protocol of a
  connection (\<open>send_tcp\<close>, \<open>update_connection\<close>, \<open>connection_device_input\<close>,
  \<open>device_client_process\<close>, \<open>device_start_connect\<close>), and the mutual recursion between
  \<open>connection_teardown\<close> and \<open>client_close\<close> of client.cpp. The recursion carries fuel; the
  depth it really needs is bounded by \<open>TEARDOWN_FUEL\<close> (theory \<open>Teardown\<close>).
\<close>

definition DEV_MRU :: nat where "DEV_MRU = 65536"
definition CONN_INBUF_SIZE :: nat where "CONN_INBUF_SIZE = 262144"
definition CONN_OUTBUF_SIZE :: nat where "CONN_OUTBUF_SIZE = 65536"
definition MAX_MUX_PACKET_SIZE :: nat where "MAX_MUX_PACKET_SIZE = 0x7FFC"

subsection \<open>Outgoing packets\<close>

datatype mux_protocol = MUX_PROTO_VERSION | MUX_PROTO_CONTROL | MUX_PROTO_SETUP | MUX_PROTO_TCP

fun proto_num :: "mux_protocol \<Rightarrow> u32" where
  "proto_num MUX_PROTO_VERSION = 0"
| "proto_num MUX_PROTO_CONTROL = 1"
| "proto_num MUX_PROTO_SETUP = 2"
| "proto_num MUX_PROTO_TCP = 6"

text \<open>The size of the protocol's own header; \<open>None\<close> for the protocols that are not sent.\<close>

fun proto_hdrlen :: "mux_protocol \<Rightarrow> nat option" where
  "proto_hdrlen MUX_PROTO_VERSION = Some 12"
| "proto_hdrlen MUX_PROTO_SETUP = Some 0"
| "proto_hdrlen MUX_PROTO_TCP = Some 20"
| "proto_hdrlen MUX_PROTO_CONTROL = None"

definition mux_header_size :: "mux_device \<Rightarrow> nat" where
  "mux_header_size d = (if dev_version d < 2 then 8 else 16)"

text \<open>
  The mux header in front of a packet of \<open>len\<close> bytes, and the device after its sequence
  numbers were used. Before protocol version 2 only the first two fields are present.
\<close>

definition reset_seq :: "mux_protocol \<Rightarrow> mux_device \<Rightarrow> mux_device" where
  "reset_seq proto d =
     (if proto = MUX_PROTO_SETUP then d\<lparr>dev_tx_seq := 0, dev_rx_seq := 0xFFFF\<rparr> else d)"

definition packet_header :: "mux_protocol \<Rightarrow> nat \<Rightarrow> mux_device \<Rightarrow> bytes \<times> mux_device" where
  "packet_header proto len d =
     (if dev_version d < 2 then (be32 (proto_num proto) @ be32 (of_nat len), d)
      else let d = reset_seq proto d in
        (mux_header_bytes \<lparr>mh_protocol = proto_num proto, mh_length = of_nat len,
           mh_magic = 0xfeedface, mh_tx_seq = dev_tx_seq d, mh_rx_seq = dev_rx_seq d\<rparr>,
         d\<lparr>dev_tx_seq := dev_tx_seq d + 1\<rparr>))"

definition send_packet :: "ptr \<Rightarrow> mux_protocol \<Rightarrow> bytes \<Rightarrow> bytes \<Rightarrow> int act" where
  "send_packet dev proto header data = seq (get_dev dev) (\<lambda>d.
     case proto_hdrlen proto of
       None \<Rightarrow> ret (-1)
     | Some hdrlen \<Rightarrow>
         let len = mux_header_size d + hdrlen + length data in
         if len > USB_MTU then ret (-1)
         else case packet_header proto len d of (mhdr, d') \<Rightarrow>
           seq (set_dev dev d') (\<lambda>_.
           seq (buf_read 0 hdrlen header) (\<lambda>hdr.
           seq (alloc_buf (mhdr @ hdr @ data)) (\<lambda>buffer.
           seq (usb_send (dev_usbdev d) buffer len) (\<lambda>res.
           if res < 0 then seq (free_buf buffer) (\<lambda>_. ret res)
           else ret (int len))))))"

text \<open>\<open>th_off = 5\<close> words of 4 bytes, in the high half of its byte.\<close>

definition tcp_header :: "u16 \<Rightarrow> u16 \<Rightarrow> u32 \<Rightarrow> u32 \<Rightarrow> u8 \<Rightarrow> u16 \<Rightarrow> tcphdr" where
  "tcp_header sport dport sq ack flags win =
     \<lparr>th_sport = sport, th_dport = dport, th_seq = sq, th_ack = ack, th_offx2 = 0x50,
      th_flags = flags, th_win = win, th_sum = 0, th_urp = 0\<rparr>"

definition send_anon_rst :: "ptr \<Rightarrow> u16 \<Rightarrow> u16 \<Rightarrow> u32 \<Rightarrow> int act" where
  "send_anon_rst dev sport dport ack =
     send_packet dev MUX_PROTO_TCP (tcphdr_bytes (tcp_header sport dport 0 ack TH_RST 0)) []"

definition conn_header :: "mux_connection \<Rightarrow> u8 \<Rightarrow> tcphdr" where
  "conn_header c flags =
     tcp_header (conn_sport c) (conn_dport c) (conn_tx_seq c) (conn_tx_ack c) flags
       (ucast (drop_bit 8 (conn_tx_win c)))"

definition send_tcp :: "ptr \<Rightarrow> u8 \<Rightarrow> bytes \<Rightarrow> int act" where
  "send_tcp conn flags data = seq (get_conn conn) (\<lambda>c.
     seq (send_packet (conn_dev c) MUX_PROTO_TCP (tcphdr_bytes (conn_header c flags)) data) (\<lambda>res.
     if res \<ge> 0
     then seq mstime64 (\<lambda>t.
          seq (upd_conn conn (\<lambda>c. c\<lparr>conn_tx_acked := conn_tx_ack c, conn_last_ack_time := t,
                 conn_flags := conn_flags c AND NOT CONN_ACK_PENDING\<rparr>)) (\<lambda>_. ret res))
     else ret res))"

subsection \<open>Closing connections and clients\<close>

text \<open>The bytes left of an input buffer after \<open>n\<close> of them were written to the client.\<close>

definition ib_consume :: "nat \<Rightarrow> mux_connection \<Rightarrow> mux_connection" where
  "ib_consume n c =
     (if n = unat (conn_ib_size c) then c\<lparr>conn_ib_size := 0\<rparr>
      else let rest = take (unat (conn_ib_size c) - n) (drop n (conn_ib_buf c)) in
        c\<lparr>conn_ib_size := conn_ib_size c - of_nat n, conn_ib_buf := buf_put 0 rest (conn_ib_buf c)\<rparr>)"

text \<open>The loop that writes what is buffered to a client that is about to be closed.\<close>

fun teardown_flush :: "nat \<Rightarrow> ptr \<Rightarrow> ptr \<Rightarrow> unit act" where
  "teardown_flush 0 conn k = stop OutOfFuel"
| "teardown_flush (Suc n) conn k = seq (get_conn conn) (\<lambda>c.
     seq (buf_read 0 (unat (conn_ib_size c)) (conn_ib_buf c)) (\<lambda>bs.
     seq (client_write k bs) (\<lambda>size.
     if size \<le> 0 then ret ()
     else seq (set_conn conn (ib_consume (nat size) c)) (\<lambda>_.
          if nat size = unat (conn_ib_size c) then ret () else teardown_flush n conn k))))"

definition remove_connection :: "ptr \<Rightarrow> ptr \<Rightarrow> unit act" where
  "remove_connection dev conn = seq (get_connections dev) (\<lambda>col.
     upd_dev dev (\<lambda>d. d\<lparr>dev_connections := Some (collection_remove col conn)\<rparr>))"

text \<open>The end of \<open>connection_teardown\<close>: the buffers are part of the connection's cell.\<close>

definition teardown_release :: "ptr \<Rightarrow> unit act" where
  "teardown_release conn = seq (get_conn conn) (\<lambda>c.
     seq (remove_connection (conn_dev c) conn) (\<lambda>_. free_conn conn))"

definition teardown_rst :: "ptr \<Rightarrow> unit act" where
  "teardown_rst conn = seq (get_conn conn) (\<lambda>c.
     seq (get_dev (conn_dev c)) (\<lambda>d.
     if dev_state d \<noteq> MUXDEV_DEAD \<and> conn_state c \<noteq> CONN_DYING \<and> conn_state c \<noteq> CONN_REFUSED
     then seq (send_tcp conn TH_RST []) (\<lambda>_. ret ()) else ret ()))"

definition client_release :: "ptr \<Rightarrow> unit act" where
  "client_release k = seq (get_client k) (\<lambda>c.
     seq (closesocket (cl_fd c)) (\<lambda>_.
     seq (modify (\<lambda>w. w\<lparr>client_list := collection_remove (client_list w) k\<rparr>)) (\<lambda>_.
     free_client k)))"

fun connection_teardown :: "nat \<Rightarrow> ptr \<Rightarrow> unit act"
  and client_close :: "nat \<Rightarrow> ptr \<Rightarrow> unit act"
  and device_abort_connect :: "nat \<Rightarrow> u32 \<Rightarrow> ptr \<Rightarrow> unit act" where
  "connection_teardown 0 conn = stop OutOfFuel"
| "connection_teardown (Suc n) conn = seq (get_conn conn) (\<lambda>c.
     if conn_state c = CONN_DEAD then ret ()
     else seq (teardown_rst conn) (\<lambda>_.
       seq (case conn_client c of
              None \<Rightarrow> ret ()
            | Some k \<Rightarrow>
                if conn_state c = CONN_REFUSED \<or> conn_state c = CONN_CONNECTING
                then seq (client_notify_connect k RESULT_CONNREFUSED) (\<lambda>_. ret ())
                else seq (upd_conn conn (\<lambda>c. c\<lparr>conn_state := CONN_DEAD\<rparr>)) (\<lambda>_.
                     seq (if has_bits POLLOUT (conn_events c) \<and> conn_ib_size c > 0
                          then teardown_flush (Suc (unat (conn_ib_size c))) conn k
                          else ret ()) (\<lambda>_.
                     client_close n k)))
         (\<lambda>_. teardown_release conn)))"
| "client_close 0 k = stop OutOfFuel"
| "client_close (Suc n) k = seq (get_client k) (\<lambda>c.
     seq (if cl_state c = CLIENT_CONNECTING1 \<or> cl_state c = CLIENT_CONNECTING2
          then seq (set_client k (c\<lparr>cl_state := CLIENT_DEAD\<rparr>)) (\<lambda>_.
               device_abort_connect n (cl_connect_device c) k)
          else ret ())
       (\<lambda>_. client_release k))"
| "device_abort_connect 0 device_id k = stop OutOfFuel"
| "device_abort_connect (Suc n) device_id k = seq (get_mux_connection device_id k) (\<lambda>r.
     case r of None \<Rightarrow> ret () | Some conn \<Rightarrow> connection_teardown n conn)"

definition TEARDOWN_FUEL :: nat where "TEARDOWN_FUEL = 8"

abbreviation teardown :: "ptr \<Rightarrow> unit act" where
  "teardown conn \<equiv> connection_teardown TEARDOWN_FUEL conn"

abbreviation close_client :: "ptr \<Rightarrow> unit act" where
  "close_client k \<equiv> client_close TEARDOWN_FUEL k"

subsection \<open>An open connection\<close>

text \<open>The pure part of \<open>update_connection\<close>: what may be sent, the poll mask, the pending acknowledgement.\<close>

definition sendable_of :: "mux_connection \<Rightarrow> u32" where
  "sendable_of c =
     (let sent = conn_tx_seq c - conn_rx_ack c;
          s = (if conn_rx_win c > sent then conn_rx_win c - sent else 0);
          s = (if s > conn_ob_capacity c then conn_ob_capacity c else s)
      in if s > conn_max_payload c then conn_max_payload c else s)"

definition set_mask :: "u16 \<Rightarrow> bool \<Rightarrow> u16 \<Rightarrow> u16" where
  "set_mask m b x = (if b then x OR m else x AND NOT m)"

definition refresh :: "mux_connection \<Rightarrow> mux_connection" where
  "refresh c = c\<lparr>
     conn_sendable := sendable_of c,
     conn_events := set_mask POLLOUT (conn_ib_size c \<noteq> 0)
                      (set_mask POLLIN (sendable_of c > 0) (conn_events c)),
     conn_flags := (if conn_tx_acked c \<noteq> conn_tx_ack c then conn_flags c OR CONN_ACK_PENDING
                    else conn_flags c AND NOT CONN_ACK_PENDING)\<rparr>"

definition update_connection :: "ptr \<Rightarrow> unit act" where
  "update_connection conn = seq (get_conn conn) (\<lambda>c.
     seq (set_conn conn (refresh c)) (\<lambda>_.
     seq (some_or NullDeref (conn_client c)) (\<lambda>k.
     seq (client_set_events k (conn_events (refresh c))) (\<lambda>_. ret ()))))"

definition send_tcp_ack :: "ptr \<Rightarrow> int act" where
  "send_tcp_ack conn = seq (send_tcp conn TH_ACK []) (\<lambda>r.
     if r < 0 then seq (teardown conn) (\<lambda>_. ret (-1))
     else seq (update_connection conn) (\<lambda>_. ret 0))"

definition connection_device_input :: "ptr \<Rightarrow> bytes \<Rightarrow> u32 \<Rightarrow> unit act" where
  "connection_device_input conn payload payload_length = seq (get_conn conn) (\<lambda>c.
     if conn_ib_size c + payload_length > conn_ib_capacity c then teardown conn
     else seq (buf_read 0 (unat payload_length) payload) (\<lambda>bs.
          seq (buf_write (unat (conn_ib_capacity c)) (unat (conn_ib_size c)) bs (conn_ib_buf c)) (\<lambda>buf.
          seq (set_conn conn (c\<lparr>conn_ib_buf := buf, conn_ib_size := conn_ib_size c + payload_length,
                 conn_tx_win := conn_tx_win c - payload_length,
                 conn_tx_ack := conn_tx_ack c + payload_length\<rparr>)) (\<lambda>_.
          update_connection conn))))"

text \<open>
  \<open>device_client_process\<close> in two steps: data for the client (\<open>False\<close> when the connection was
  torn down), then data from the client.
\<close>

definition process_to_client :: "ptr \<Rightarrow> bool act" where
  "process_to_client conn = seq (get_conn conn) (\<lambda>c.
     seq (some_or NullDeref (conn_client c)) (\<lambda>k.
     seq (buf_read 0 (unat (conn_ib_size c)) (conn_ib_buf c)) (\<lambda>bs.
     seq (client_write k bs) (\<lambda>size.
     if size \<le> 0 then seq (teardown conn) (\<lambda>_. ret False)
     else seq (set_conn conn ((ib_consume (nat size) c)\<lparr>conn_tx_win := conn_tx_win c + of_int size\<rparr>)) (\<lambda>_.
       if unat (conn_tx_win c) < MAX_MUX_PACKET_SIZE
       then seq (send_tcp_ack conn) (\<lambda>_. ret True)
       else ret True)))))"

definition process_from_client :: "ptr \<Rightarrow> bool act" where
  "process_from_client conn = seq (get_conn conn) (\<lambda>c.
     seq (some_or NullDeref (conn_client c)) (\<lambda>k.
     seq (client_read k (unat (conn_sendable c))) (\<lambda>r.
     case r of
       None \<Rightarrow> seq (teardown conn) (\<lambda>_. ret False)
     | Some [] \<Rightarrow> seq (teardown conn) (\<lambda>_. ret False)
     | Some bs \<Rightarrow>
         seq (buf_write (unat (conn_ob_capacity c)) 0 bs (conn_ob_buf c)) (\<lambda>buf.
         seq (set_conn conn (c\<lparr>conn_ob_buf := buf\<rparr>)) (\<lambda>_.
         seq (send_tcp conn TH_ACK bs) (\<lambda>res.
         if res < 0 then seq (teardown conn) (\<lambda>_. ret False)
         else seq (upd_conn conn (\<lambda>c. c\<lparr>conn_tx_seq := conn_tx_seq c + of_nat (length bs)\<rparr>))
                (\<lambda>_. ret True)))))))"

definition device_client_process :: "u32 \<Rightarrow> ptr \<Rightarrow> u16 \<Rightarrow> unit act" where
  "device_client_process device_id client events = seq (get_mux_connection device_id client) (\<lambda>r.
     case r of
       None \<Rightarrow> ret ()
     | Some conn \<Rightarrow> seq (get_conn conn) (\<lambda>c.
         seq (if has_bits POLLOUT events \<and> conn_ib_size c > 0 then process_to_client conn else ret True) (\<lambda>ok.
         if \<not> ok then ret ()
         else seq (get_conn conn) (\<lambda>c.
              seq (if has_bits POLLIN events \<and> conn_sendable c > 0 then process_from_client conn else ret True) (\<lambda>ok.
              if \<not> ok then ret () else update_connection conn)))))"

text \<open>The connection made for a client: all fields zeroed, then set.\<close>

definition new_connection :: "ptr \<Rightarrow> ptr \<Rightarrow> u16 \<Rightarrow> u16 \<Rightarrow> mux_connection" where
  "new_connection dev client sport dport =
     \<lparr>conn_dev = dev, conn_client = Some client, conn_state = CONN_CONNECTING,
      conn_sport = sport, conn_dport = dport,
      conn_tx_seq = 0, conn_tx_ack = 0, conn_tx_acked = 0, conn_tx_win = of_nat CONN_INBUF_SIZE,
      conn_rx_seq = 0, conn_rx_ack = 0, conn_rx_win = 0,
      conn_max_payload = of_nat (MAX_MUX_PACKET_SIZE - 16 - 20), conn_sendable = 0, conn_flags = 0,
      conn_ib_buf = [], conn_ib_size = 0, conn_ib_capacity = of_nat CONN_INBUF_SIZE,
      conn_ob_buf = [], conn_ob_capacity = of_nat CONN_OUTBUF_SIZE,
      conn_events = 0, conn_last_ack_time = 0\<rparr>"

text \<open>0, or the negated \<open>usbmuxd_result\<close> the caller reports.\<close>

definition device_start_connect :: "u32 \<Rightarrow> u16 \<Rightarrow> ptr \<Rightarrow> int act" where
  "device_start_connect device_id dport client = seq (get_mux_device_for_id device_id) (\<lambda>r.
     case r of
       None \<Rightarrow> ret (- uint RESULT_BADDEV)
     | Some dev \<Rightarrow> seq (find_sport dev) (\<lambda>sport.
         if sport = 0 then ret (- uint RESULT_BADDEV)
         else seq new_ptr (\<lambda>conn.
           seq (set_conn conn (new_connection dev client sport dport)) (\<lambda>_.
           seq (send_tcp conn TH_SYN []) (\<lambda>res.
           if res < 0 then seq (free_conn conn) (\<lambda>_. ret (- uint RESULT_CONNREFUSED))
           else seq (get_connections dev) (\<lambda>col.
             seq (upd_dev dev (\<lambda>d. d\<lparr>dev_connections := Some (collection_add col conn)\<rparr>))
               (\<lambda>_. ret 0)))))))"

subsection \<open>What is sent\<close>

lemma packet_header_length [simp]: "length (fst (packet_header proto n v)) = mux_header_size v"
  by (simp add: packet_header_def mux_header_size_def Let_def)

lemma mux_header_prefix [simp]:
  "be32_at 0 (mux_header_bytes h) = Some (mh_protocol h)" "be32_at 4 (mux_header_bytes h) = Some (mh_length h)"
  by (simp_all add: mux_header_bytes_def be32_at_def field_def)

text \<open>
  The header in front of an outgoing packet. From protocol version 2 on it is the full mux header
  with the packet's protocol and total length, the magic number and the sequence numbers of the device,
  which are reset by a \<open>SETUP\<close> packet; the transmit number counts up by one per packet and wraps after
  65535. Before, only the first eight bytes are present and the numbers are left alone.
\<close>

theorem packet_header_contents:
  "case packet_header proto len v of (h, v') \<Rightarrow>
     be32_at 0 h = Some (proto_num proto) \<and> be32_at 4 h = Some (of_nat len) \<and>
     (if dev_version v < 2 then length h = 8 \<and> v' = v
      else read_mux_header h = Some \<lparr>mh_protocol = proto_num proto, mh_length = of_nat len, mh_magic = 0xfeedface,
             mh_tx_seq = (if proto = MUX_PROTO_SETUP then 0 else dev_tx_seq v),
             mh_rx_seq = (if proto = MUX_PROTO_SETUP then 0xFFFF else dev_rx_seq v)\<rparr> \<and>
           dev_tx_seq v' = (if proto = MUX_PROTO_SETUP then 0 else dev_tx_seq v) + 1 \<and>
           dev_rx_seq v' = (if proto = MUX_PROTO_SETUP then 0xFFFF else dev_rx_seq v))"
proof (cases "dev_version v < 2")
  case True
  then show ?thesis by (simp add: packet_header_def be32_at_def field_def)
next
  case False
  then show ?thesis by (simp add: packet_header_def reset_seq_def Let_def mux_header_prefix)
qed

text \<open>What \<open>send_packet\<close> needs of its surroundings.\<close>

definition can_send :: "world \<Rightarrow> ptr \<Rightarrow> mux_device \<Rightarrow> usb_device \<Rightarrow> bool" where
  "can_send w dev v d \<longleftrightarrow> dev_heap w dev = Some v \<and> usb_heap w (dev_usbdev v) = Some d \<and>
     ui_tx_max_packet_size (ud_info d) \<noteq> 0 \<and> (\<forall>e \<in> set (ud_tx_q d). te_buffer e \<noteq> Some (next_ptr w))"

text \<open>The bytes of the packet.\<close>

definition packet_bytes :: "mux_protocol \<Rightarrow> mux_device \<Rightarrow> bytes \<Rightarrow> bytes \<Rightarrow> bytes" where
  "packet_bytes proto v header data = (let n = the (proto_hdrlen proto) in
     fst (packet_header proto (mux_header_size v + n + length data) v) @ take n header @ data)"

lemma send_packet_reduces:
  assumes "can_send w dev v d" "proto_hdrlen proto = Some n" "n \<le> length header"
    and "mux_header_size v + n + length data \<le> USB_MTU"
  defines "len \<equiv> mux_header_size v + n + length data" and "p \<equiv> next_ptr w"
  shows "send_packet dev proto header data w =
     seq (usb_send (dev_usbdev v) p len) (\<lambda>res. if res < 0 then seq (free_buf p) (\<lambda>_. ret res) else ret (int len))
       (w\<lparr>dev_heap := (dev_heap w)(dev := Some (snd (packet_header proto len v))), next_ptr := Suc p,
          buf_heap := (buf_heap w)(p := Some (packet_bytes proto v header data))\<rparr>)"
proof -
  obtain h v' where hv: "packet_header proto len v = (h, v')" by (cases "packet_header proto len v")
  have "packet_bytes proto v header data = h @ take n header @ data"
    using hv assms(2) by (simp add: packet_bytes_def len_def Let_def)
  with hv assms(1-4) show ?thesis
    unfolding len_def p_def
    by (simp add: send_packet_def seq_Inr get_dev_run can_send_def set_dev_def buf_read_def alloc_buf_def new_ptr_def
        Let_def cong: if_cong)
qed

lemma length_packet_bytes:
  assumes "proto_hdrlen proto = Some n" "n \<le> length header"
  shows "length (packet_bytes proto v header data) = mux_header_size v + n + length data"
  using assms by (simp add: packet_bytes_def Let_def)

lemma send_packet_run:
  fixes data :: bytes
  assumes "can_send w dev v d" "proto_hdrlen proto = Some n" "n \<le> length header"
  defines "len \<equiv> mux_header_size v + n + length data"
  shows "if len > USB_MTU then send_packet dev proto header data w = Inr (-1, w)
     else case send_packet dev proto header data w of
       Inl h \<Rightarrow> h = ProcessExit \<or> h = DoubleFree \<and> \<not> ud_tx_thread d \<and> len mod unat (ui_tx_max_packet_size (ud_info d)) = 0
     | Inr (r, w') \<Rightarrow> r = int len \<and> dev_heap w' = (dev_heap w)(dev := Some (snd (packet_header proto len v))) \<and>
         (\<exists>zlp. usb_out (sys w') = usb_out (sys w) @ (dev_usbdev v, packet_bytes proto v header data) # zlp \<and>
            (zlp = [] \<or> zlp = [(dev_usbdev v, [])]))"
proof (cases "len > USB_MTU")
  case True
  then show ?thesis using assms by (simp add: send_packet_def seq_Inr get_dev_run can_send_def Let_def)
next
  case False
  let ?p = "next_ptr w" and ?pkt = "packet_bytes proto v header data"
  let ?w = "w\<lparr>dev_heap := (dev_heap w)(dev := Some (snd (packet_header proto len v))), next_ptr := Suc ?p,
          buf_heap := (buf_heap w)(?p := Some ?pkt)\<rparr>"
  have run: "send_packet dev proto header data w =
     seq (usb_send (dev_usbdev v) ?p len) (\<lambda>res. if res < 0 then seq (free_buf ?p) (\<lambda>_. ret res) else ret (int len)) ?w"
    using send_packet_reduces [OF assms(1-3), of data] False by (simp add: len_def cong: if_cong)
  have u: "usb_heap ?w (dev_usbdev v) = Some d" "buf_heap ?w ?p = Some ?pkt" "ui_tx_max_packet_size (ud_info d) \<noteq> 0"
    "\<forall>e \<in> set (ud_tx_q d). te_buffer e \<noteq> Some ?p"
    using assms(1) by (simp_all add: can_send_def)
  have full: "take len ?pkt = ?pkt" using length_packet_bytes [OF assms(2,3)] by (simp add: len_def)
  note us = usb_send_run [OF u, of len, unfolded full]
  show ?thesis
  proof (cases "usb_send (dev_usbdev v) ?p len ?w")
    case (Inl h)
    then show ?thesis using us False by (simp add: run seq_Inl)
  next
    case (Inr rw)
    then obtain r w' where rw: "usb_send (dev_usbdev v) ?p len ?w = Inr (r, w')" by (cases rw) auto
    have dh: "dev_heap w' = dev_heap ?w"
      using keepsD [OF usb_send_tx_only rw] by (simp add: tx_only_def)
    obtain zlp where z: "usb_out (sys w') = usb_out (sys w) @ (dev_usbdev v, ?pkt) # zlp"
      "zlp = [] \<or> zlp = [(dev_usbdev v, [])]"
      "r = 0 \<or> r = -1 \<and> \<not> ud_tx_thread d \<and> len mod unat (ui_tx_max_packet_size (ud_info d)) = 0"
      "r \<noteq> 0 \<longrightarrow> buf_heap w' ?p = None"
      using us rw by (fastforce split: if_splits)
    show ?thesis
    proof (cases "r = 0")
      case True
      then have "send_packet dev proto header data w = Inr (int len, w')"
        using rw by (simp add: run seq_Inr)
      then show ?thesis using z(1,2) dh False by auto
    next
      case nz: False
      then have "send_packet dev proto header data w = Inl DoubleFree"
        using rw z(3,4) by (auto simp: run seq_Inr seq_Inl free_buf_run)
      then show ?thesis using False z(3) nz by auto
    qed
  qed
qed


subsection \<open>A failing empty transfer\<close>

lemma usb_send_empty_fails:
  assumes "usb_heap w u = Some d" "buf_heap w p = Some bs" "ui_tx_max_packet_size (ud_info d) \<noteq> 0" "\<not> ud_tx_thread d"
    and "n mod unat (ui_tx_max_packet_size (ud_info d)) = 0"
    and "xfers (sys w) = [XferOk, XferFailed]" "oks (sys w) = [False]"
  shows "\<exists>w'. usb_send u p n w = Inr (-1, w') \<and> buf_heap w' p = None"
proof -
  obtain e w1 q1 where e: "GetTXQElement u (Some p) w = Inr (e, w1)" "te_buffer e = Some p"
    "buf_heap w1 = buf_heap w" "sys w1 = sys w" "usb_heap w1 u = Some (d\<lparr>ud_tx_pool := q1\<rparr>)"
    using get_elem_run [OF assms(1), of "Some p"] by blast
  have buf: "get_buf p w1 = Inr (bs, w1)" using assms(2) e by (simp add: get_buf_def)
  obtain w2 where x: "com_transfer_out u (take n bs) w1 = Inr (XferOk, w2)" "buf_heap w2 = buf_heap w"
    "usb_heap w2 u = Some (d\<lparr>ud_tx_pool := q1\<rparr>)" "xfers (sys w2) = [XferFailed]" "oks (sys w2) = [False]"
    using e assms(6,7) by (auto simp: com_transfer_out_def Let_def)
  have "\<forall>q. te_buffer e = Some q \<longrightarrow> buf_heap w2 q \<noteq> None" using e x assms(2) by simp
  then obtain w3 q2 where r: "ReUseTXQElement u e w2 = Inr ((), w3)" "buf_heap w3 = bufs_without e (buf_heap w2)"
    "sys w3 = sys w2" "usb_heap w3 u = Some (d\<lparr>ud_tx_pool := q2\<rparr>)"
    using reuse_elem_run [OF x(3), of e] by auto
  obtain z w4 q3 where z: "GetTXQElement u None w3 = Inr (z, w4)" "te_buffer z = None"
    "buf_heap w4 = buf_heap w3" "sys w4 = sys w3" "usb_heap w4 u = Some (d\<lparr>ud_tx_pool := q3\<rparr>)"
    using get_elem_run [OF r(4), of None] by auto
  obtain w5 where y: "com_transfer_out u [] w4 = Inr (XferFailed, w5)" "buf_heap w5 = buf_heap w3"
    "usb_heap w5 u = Some (d\<lparr>ud_tx_pool := q3\<rparr>)" "oks (sys w5) = [False]"
    using z r x by (auto simp: com_transfer_out_def Let_def)
  let ?w6 = "w5\<lparr>sys := (sys w5)\<lparr>oks := []\<rparr>\<rparr>"
  have ok: "api_ok w5 = Inr (False, ?w6)" using y by (simp add: api_ok_def)
  obtain w7 q4 where f: "ReUseTXQElement u z ?w6 = Inr ((), w7)" "buf_heap w7 = bufs_without z (buf_heap ?w6)"
    "usb_heap w7 u = Some (d\<lparr>ud_tx_pool := q4\<rparr>)"
    using reuse_elem_run [of ?w6 u "d\<lparr>ud_tx_pool := q3\<rparr>" z] y(3) z(2) by auto
  have "finish_pending u z w5 = Inr (-1, w7)"
    using y(3) assms(4) ok f(1) by (simp add: finish_pending_def seq_run get_usb_run)
  moreover have "unat (ui_tx_max_packet_size (ud_info d)) \<noteq> 0" using assms(3) by (simp add: unat_eq_zero)
  ultimately have "usb_send u p n w = Inr (-1, w7)"
    using e(1) buf x(1) r(1,4) z(1) y(1) assms(5) by (simp add: usb_send_def seq_Inr get_usb_run)
  moreover have "buf_heap w7 p = None"
    using f(2) y(2) r(2) e(2) z(2) by (simp add: bufs_without_def)
  ultimately show ?thesis by blast
qed

text \<open>
  On a device without a write thread, when the empty transfer that ends a packet fails, \<open>usb_send\<close>
  reports the error although the packet's buffer has already been released with its completed transfer;
  \<open>send_packet\<close> then frees the buffer a second time.
\<close>

theorem send_packet_double_free:
  fixes data :: bytes
  assumes "can_send w dev v d" "\<not> ud_tx_thread d" "proto_hdrlen proto = Some n" "n \<le> length header"
    and "mux_header_size v + n + length data \<le> USB_MTU"
    and "(mux_header_size v + n + length data) mod unat (ui_tx_max_packet_size (ud_info d)) = 0"
    and "xfers (sys w) = [XferOk, XferFailed]" "oks (sys w) = [False]"
  shows "send_packet dev proto header data w = Inl DoubleFree"
proof -
  let ?p = "next_ptr w" and ?len = "mux_header_size v + n + length data"
  let ?w = "w\<lparr>dev_heap := (dev_heap w)(dev := Some (snd (packet_header proto ?len v))), next_ptr := Suc ?p,
          buf_heap := (buf_heap w)(?p := Some (packet_bytes proto v header data))\<rparr>"
  have "\<exists>w'. usb_send (dev_usbdev v) ?p ?len ?w = Inr (-1, w') \<and> buf_heap w' ?p = None"
    by (rule usb_send_empty_fails) (use assms in \<open>auto simp: can_send_def\<close>)
  then obtain w' where "usb_send (dev_usbdev v) ?p ?len ?w = Inr (-1, w')" "buf_heap w' ?p = None" by blast
  then show ?thesis
    unfolding send_packet_reduces [OF assms(1,3,4,5)] by (simp add: seq_Inr seq_Inl free_buf_run)
qed

theorem send_packet_double_free_witness:
  "send_packet 10 MUX_PROTO_SETUP [] (replicate 496 0) ((link_world (idle_device MUXDEV_ACTIVE [40]) (idle_conn CONN_CONNECTED [])
      (idle_client CLIENT_CONNECTED))\<lparr>usb_heap := [30 \<mapsto> idle_usb\<lparr>ud_tx_thread := False\<rparr>],
      sys := idle_env\<lparr>xfers := [XferOk, XferFailed], oks := [False]\<rparr>\<rparr>) = Inl DoubleFree"
  by (rule send_packet_double_free [where v = "idle_device MUXDEV_ACTIVE [40]" and d = "idle_usb\<lparr>ud_tx_thread := False\<rparr>" and n = 0])
    (simp_all add: can_send_def idle_defs mux_header_size_def USB_MTU_def)

end
