(* ===== verification/Device.thy ===== *)
theory Device
  imports Mux_Conn
begin

text \<open>
  The device half of device.cpp: reassembly and dispatch of the packets a device sends
  (\<open>device_data_input\<close> and the handlers of the three protocols), the sockets on which the read
  threads announce data, adding and removing devices, the acknowledgement timeout and shutdown.
  A received buffer is the list of all bytes the C++ pointer may read, which can be more than
  the \<open>len\<close> that was received.
\<close>

text \<open>Preflight runs in a thread of its own; starting it is recorded. Its model is theory \<open>Preflight\<close>.\<close>

definition preflight_worker_device_add :: "device_info \<Rightarrow> unit act" where
  "preflight_worker_device_add info =
     modify (\<lambda>w. w\<lparr>sys := (sys w)\<lparr>preflights := preflights (sys w) @ [info]\<rparr>\<rparr>)"

subsection \<open>Incoming packets\<close>

definition device_version_input :: "ptr \<Rightarrow> version_header \<Rightarrow> unit act" where
  "device_version_input dev vh = seq (get_dev dev) (\<lambda>d.
     if dev_state d \<noteq> MUXDEV_INIT then ret ()
     else if vh_major vh \<noteq> 2 \<and> vh_major vh \<noteq> 1
     then seq (modify (\<lambda>w. w\<lparr>device_list := collection_remove (device_list w) dev\<rparr>)) (\<lambda>_.
          seq logDeviceListStatus (\<lambda>_. free_dev dev))
     else seq (set_dev dev (d\<lparr>dev_version := vh_major vh\<rparr>)) (\<lambda>_.
          seq (if vh_major vh \<ge> 2 then seq (send_packet dev MUX_PROTO_SETUP [] [7]) (\<lambda>_. ret ()) else ret ()) (\<lambda>_.
          seq (upd_dev dev (\<lambda>d. d\<lparr>dev_state := MUXDEV_ACTIVE, dev_connections := Some collection_init\<rparr>)) (\<lambda>_.
          seq (device_info_of (dev_id d) (dev_usbdev d)) (\<lambda>info.
          seq (preflight_worker_device_add info) (\<lambda>_.
          upd_dev dev (\<lambda>d. d\<lparr>dev_is_preflight_worker_running := True\<rparr>)))))))"

text \<open>\<open>strncpy\<close> reads up to the first null byte or \<open>n\<close> bytes.\<close>

definition strn_read :: "nat \<Rightarrow> bytes \<Rightarrow> bytes act" where
  "strn_read n bs =
     (if n \<le> length bs \<or> 0 \<in> set bs then ret (takeWhile (\<lambda>b. b \<noteq> 0) (take n bs)) else stop UninitRead)"

text \<open>The messages of types 3 and 7 are only logged.\<close>

definition device_control_input :: "bytes \<Rightarrow> u32 \<Rightarrow> unit act" where
  "device_control_input payload payload_length =
     (if payload_length > 0
      then seq (buf_read 0 1 payload) (\<lambda>t.
           if (t = [3] \<or> t = [7]) \<and> payload_length > 1
           then seq (strn_read (unat payload_length - 1) (drop 1 payload)) (\<lambda>_. ret ())
           else ret ())
      else ret ())"

definition find_tcp_conn :: "ptr \<Rightarrow> u16 \<Rightarrow> u16 \<Rightarrow> ptr option act" where
  "find_tcp_conn dev sport dport = seq (get_connections dev) (\<lambda>col.
     find_in conn_heap (\<lambda>c. conn_sport c = sport \<and> conn_dport c = dport) col)"

text \<open>The answer to a \<open>SYN\<close> of ours.\<close>

definition tcp_connecting :: "ptr \<Rightarrow> u8 \<Rightarrow> unit act" where
  "tcp_connecting conn flags =
     (if flags \<noteq> (TH_SYN OR TH_ACK)
      then seq (if flags AND TH_RST \<noteq> 0 then upd_conn conn (\<lambda>c. c\<lparr>conn_state := CONN_REFUSED\<rparr>) else ret ())
             (\<lambda>_. teardown conn)
      else seq (upd_conn conn (\<lambda>c. c\<lparr>conn_tx_seq := conn_tx_seq c + 1, conn_tx_ack := conn_tx_ack c + 1\<rparr>)) (\<lambda>_.
           seq (send_tcp conn TH_ACK []) (\<lambda>r.
           if r < 0 then teardown conn
           else seq (upd_conn conn (\<lambda>c. c\<lparr>conn_state := CONN_CONNECTED\<rparr>)) (\<lambda>_.
                seq (get_conn conn) (\<lambda>c.
                seq (some_or NullDeref (conn_client c)) (\<lambda>k.
                seq (client_notify_connect k RESULT_OK) (\<lambda>r.
                seq (if r < 0
                     then seq (upd_conn conn (\<lambda>c. c\<lparr>conn_client := None\<rparr>)) (\<lambda>_. teardown conn)
                     else ret ()) (\<lambda>_.
                update_connection conn))))))))"

definition tcp_connected :: "ptr \<Rightarrow> u8 \<Rightarrow> bytes \<Rightarrow> u32 \<Rightarrow> unit act" where
  "tcp_connected conn flags payload payload_length =
     (if flags \<noteq> TH_ACK
      then seq (if flags AND TH_RST \<noteq> 0 then upd_conn conn (\<lambda>c. c\<lparr>conn_state := CONN_DYING\<rparr>) else ret ())
             (\<lambda>_. teardown conn)
      else seq (connection_device_input conn payload payload_length) (\<lambda>_.
           seq (get_conn conn) (\<lambda>c.
           if conn_flags c AND CONN_ACK_PENDING \<noteq> 0
           then seq (send_tcp_ack conn) (\<lambda>_. ret ()) else ret ())))"

definition device_tcp_input :: "ptr \<Rightarrow> tcphdr \<Rightarrow> bytes \<Rightarrow> u32 \<Rightarrow> unit act" where
  "device_tcp_input dev th payload payload_length = seq (get_dev dev) (\<lambda>d.
     let sport = th_dport th; dport = th_sport th in
     if dev_state d \<noteq> MUXDEV_ACTIVE then ret ()
     else seq (find_tcp_conn dev sport dport) (\<lambda>r.
       case r of
         None \<Rightarrow>
           if th_flags th AND TH_RST = 0
           then seq (send_anon_rst dev sport dport (th_seq th)) (\<lambda>r. if r < 0 then stop NullDeref else ret ())
           else ret ()
       | Some conn \<Rightarrow>
           seq (upd_conn conn (\<lambda>c. c\<lparr>conn_rx_seq := th_seq th, conn_rx_ack := th_ack th,
                  conn_rx_win := push_bit 8 (ucast (th_win th))\<rparr>)) (\<lambda>_.
           seq (if th_flags th AND TH_RST \<noteq> 0
                then seq (buf_read 0 (unat payload_length) payload) (\<lambda>_. ret ()) else ret ()) (\<lambda>_.
           seq (get_conn conn) (\<lambda>c.
             if conn_state c = CONN_CONNECTING then tcp_connecting conn (th_flags th)
             else if conn_state c = CONN_CONNECTED
             then tcp_connected conn (th_flags th) payload payload_length
             else ret ())))))"

subsection \<open>Reassembly\<close>

text \<open>
  The first half of \<open>device_data_input\<close>: \<open>Inl\<close> is an early return, \<open>Inr\<close> the buffer and length
  of a complete packet, which is \<open>pktbuf\<close> after parts were gathered.
\<close>

definition mux_length :: "bytes \<Rightarrow> u32 act" where
  "mux_length buffer = some_or UninitRead (be32_at 4 buffer)"

definition gather :: "ptr \<Rightarrow> bytes \<Rightarrow> u32 \<Rightarrow> (u32 + bytes \<times> u32) act" where
  "gather dev buffer len = seq (get_dev dev) (\<lambda>d.
     if dev_pktlen d \<noteq> 0
     then if unat (len + dev_pktlen d) > DEV_MRU
          then seq (set_dev dev (d\<lparr>dev_pktlen := 0\<rparr>)) (\<lambda>_. ret (Inl len))
          else seq (buf_read 0 (unat len) buffer) (\<lambda>bs.
               seq (buf_write DEV_MRU (unat (dev_pktlen d)) bs (dev_pktbuf d)) (\<lambda>pb.
               seq (mux_length pb) (\<lambda>mlen.
               if unat len < USB_MRU \<or> mlen = len + dev_pktlen d
               then seq (set_dev dev (d\<lparr>dev_pktbuf := pb, dev_pktlen := 0\<rparr>)) (\<lambda>_.
                    ret (Inr (pb, len + dev_pktlen d)))
               else seq (set_dev dev (d\<lparr>dev_pktbuf := pb, dev_pktlen := dev_pktlen d + len\<rparr>)) (\<lambda>_.
                    ret (Inl len)))))
     else if unat len = USB_MRU
     then seq (mux_length buffer) (\<lambda>mlen.
          if len < mlen
          then seq (buf_read 0 (unat len) buffer) (\<lambda>bs.
               seq (buf_write DEV_MRU 0 bs (dev_pktbuf d)) (\<lambda>pb.
               seq (set_dev dev (d\<lparr>dev_pktbuf := pb, dev_pktlen := len\<rparr>)) (\<lambda>_. ret (Inl len))))
          else ret (Inr (buffer, len)))
     else ret (Inr (buffer, len)))"

text \<open>
  The second half: the packet is handed to its protocol. \<open>None\<close> stands for the error returns,
  \<open>Some ()\<close> for reaching the end of the switch.
\<close>

definition dispatch :: "ptr \<Rightarrow> bytes \<Rightarrow> u32 \<Rightarrow> unit option act" where
  "dispatch dev buffer len = seq (get_dev dev) (\<lambda>d.
     let hsize = mux_header_size d in
     seq (if dev_version d \<ge> 2
          then seq (some_or UninitRead (be16_at 14 buffer)) (\<lambda>rx. set_dev dev (d\<lparr>dev_rx_seq := rx\<rparr>))
          else ret ()) (\<lambda>_.
     seq (some_or UninitRead (be32_at 0 buffer)) (\<lambda>proto.
     if proto = proto_num MUX_PROTO_VERSION
     then if unat len < hsize + 12 then ret None
          else seq (some_or UninitRead (read_version_header (take 12 (drop hsize buffer)))) (\<lambda>vh.
               seq (device_version_input dev vh) (\<lambda>_. ret (Some ())))
     else if proto = proto_num MUX_PROTO_CONTROL
     then seq (device_control_input (drop 16 buffer) (len - of_nat hsize)) (\<lambda>_. ret (Some ()))
     else if proto = proto_num MUX_PROTO_TCP
     then if unat len < hsize + 20 then ret None
          else seq (some_or UninitRead (read_tcphdr (take 20 (drop hsize buffer)))) (\<lambda>th.
               seq (device_tcp_input dev th (drop (hsize + 20) buffer) (len - 20 - of_nat hsize))
                 (\<lambda>_. ret (Some ())))
     else ret None)))"

definition device_data_input :: "ptr \<Rightarrow> bytes \<Rightarrow> u32 \<Rightarrow> u32 act" where
  "device_data_input usbdev buffer len = seq (find_dev_by_usb usbdev) (\<lambda>r.
     case r of
       None \<Rightarrow> seq (usb_get_location usbdev) (\<lambda>_. ret len)
     | Some dev \<Rightarrow>
         if len = 0 then ret len
         else if unat len > DEV_MRU then ret len
         else seq (gather dev buffer len) (\<lambda>g.
           case g of
             Inl n \<Rightarrow> ret n
           | Inr (buffer, len) \<Rightarrow>
               seq (mux_length buffer) (\<lambda>mlen.
               if mlen > len then ret len
               else seq (dispatch dev buffer len) (\<lambda>r.
                 case r of
                   None \<Rightarrow> ret len
                 | Some _ \<Rightarrow> ret (if mlen < len then mlen else len)))))"

subsection \<open>The data event sockets\<close>

definition device_accept_socket :: "bool \<Rightarrow> int act" where
  "device_accept_socket reject = seq sys_accept (\<lambda>r.
     case r of
       None \<Rightarrow> ret (-1)
     | Some s \<Rightarrow>
         let fail = (\<lambda>e. seq (closesocket s) (\<lambda>_. ret e)) in
         if reject then fail 0
         else seq api_ok (\<lambda>ok. if \<not> ok then fail (-1)
         else seq (sys_recv s 4) (\<lambda>r.
           case r of
             None \<Rightarrow> fail (-1)
           | Some bs \<Rightarrow> (case un_le32 bs of
               None \<Rightarrow> fail (-1)
             | Some usb_dev_id \<Rightarrow> seq (usb_get_device_by_id usb_dev_id) (\<lambda>u.
                 case u of
                   None \<Rightarrow> fail (-1)
                 | Some usb_dev \<Rightarrow> seq (find_dev_by_usb usb_dev) (\<lambda>d.
                     case d of
                       None \<Rightarrow> fail (- uint RESULT_BADDEV)
                     | Some dev \<Rightarrow>
                         seq (upd_dev dev (\<lambda>d. d\<lparr>dev_rx_data_events_socket := Some s\<rparr>)) (\<lambda>_. ret 0)))))))"

text \<open>
  The loop over the packets of one transfer. The device is read again in every round, as the
  code does with \<open>dev->usbdev\<close>; the loop need not end, hence the fuel.
\<close>

fun process_packets :: "nat \<Rightarrow> ptr \<Rightarrow> bytes \<Rightarrow> u32 \<Rightarrow> u32 \<Rightarrow> unit act" where
  "process_packets 0 dev buffer sz processed = (if processed < sz then stop OutOfFuel else ret ())"
| "process_packets (Suc n) dev buffer sz processed =
     (if processed < sz
      then seq (get_dev dev) (\<lambda>d.
           seq (device_data_input (dev_usbdev d) (drop (unat processed) buffer) (sz - processed)) (\<lambda>r.
           process_packets n dev buffer sz (processed + r)))
      else ret ())"

definition process_socket :: "nat \<Rightarrow> (fd \<Rightarrow> bool) \<Rightarrow> ptr \<Rightarrow> unit act" where
  "process_socket fuel readable dev = seq (get_dev dev) (\<lambda>d.
     case dev_rx_data_events_socket d of
       None \<Rightarrow> ret ()
     | Some s \<Rightarrow>
         if \<not> readable s then ret ()
         else seq (sys_recv s 1) (\<lambda>r.
           if map_option length r \<noteq> Some 1 then ret ()
           else seq (usb_get_read_result (dev_usbdev d)) (\<lambda>r.
             case r of
               None \<Rightarrow> ret ()
             | Some (buffer, sz) \<Rightarrow>
                 seq (process_packets fuel dev buffer sz 0) (\<lambda>_.
                 seq (get_dev dev) (\<lambda>d.
                 case dev_rx_data_events_socket d of
                   None \<Rightarrow> ret ()
                 | Some s \<Rightarrow> seq (sys_send s [1]) (\<lambda>_. ret ()))))))"

definition device_process_sockets :: "nat \<Rightarrow> (fd \<Rightarrow> bool) \<Rightarrow> unit act" where
  "device_process_sockets fuel readable = foreach (gets device_list) (process_socket fuel readable)"

subsection \<open>Adding and removing devices\<close>

definition new_device :: "u32 \<Rightarrow> ptr \<Rightarrow> u16 \<times> u16 \<Rightarrow> mux_device" where
  "new_device i usbdev junk =
     \<lparr>dev_usbdev = usbdev, dev_id = i, dev_state = MUXDEV_INIT, dev_visible = False,
      dev_connections = None, dev_next_sport = 1, dev_pktbuf = [], dev_pktlen = 0,
      dev_preflight_cb_data = None, dev_version = 0, dev_rx_seq = fst junk, dev_tx_seq = snd junk,
      dev_rx_data_events_socket = None, dev_is_preflight_worker_running = False\<rparr>"

definition version_request :: version_header where
  "version_request = \<lparr>vh_major = 1, vh_minor = 0, vh_padding = 0\<rparr>"

definition device_add :: "ptr \<Rightarrow> int act" where
  "device_add usbdev = seq get_next_device_id (\<lambda>i.
     seq (usb_get_location usbdev) (\<lambda>_.
     seq (gets (\<lambda>w. junk16 (sys w))) (\<lambda>junk.
     seq new_ptr (\<lambda>dev.
     seq (set_dev dev (new_device i usbdev junk)) (\<lambda>_.
     seq (send_packet dev MUX_PROTO_VERSION (version_header_bytes version_request) []) (\<lambda>res.
     if res < 0 then seq (free_dev dev) (\<lambda>_. ret res)
     else seq (modify (\<lambda>w. w\<lparr>device_list := collection_add (device_list w) dev\<rparr>)) (\<lambda>_.
          seq logDeviceListStatus (\<lambda>_. ret 0))))))))"

definition remove_active :: "ptr \<Rightarrow> unit act" where
  "remove_active dev =
     seq (upd_dev dev (\<lambda>d. d\<lparr>dev_state := MUXDEV_DEAD\<rparr>)) (\<lambda>_.
     seq (foreach (get_connections dev) teardown) (\<lambda>_.
     seq (get_dev dev) (\<lambda>d.
     seq (if dev_visible d then client_device_remove (dev_id d)
          else seq (device_info_of (dev_id d) (dev_usbdev d)) client_device_removed_during_add) (\<lambda>_.
     upd_dev dev (\<lambda>d. d\<lparr>dev_connections := Some []\<rparr>)))))"

text \<open>\<open>closesocket\<close> of a device whose read thread never connected is a failing call without effect.\<close>

definition device_remove :: "ptr \<Rightarrow> unit act" where
  "device_remove usbdev = seq (find_dev_by_usb usbdev) (\<lambda>r.
     case r of
       None \<Rightarrow> seq (usb_get_location usbdev) (\<lambda>_. ret ())
     | Some dev \<Rightarrow> seq (get_dev dev) (\<lambda>d.
         seq (usb_get_location usbdev) (\<lambda>_.
         seq (if dev_state d = MUXDEV_ACTIVE then remove_active dev else ret ()) (\<lambda>_.
         seq (get_dev dev) (\<lambda>d.
         seq (case dev_preflight_cb_data d of None \<Rightarrow> ret () | Some p \<Rightarrow> preflight_device_remove_cb p) (\<lambda>_.
         seq (modify (\<lambda>w. w\<lparr>device_list := collection_remove (device_list w) dev\<rparr>)) (\<lambda>_.
         seq logDeviceListStatus (\<lambda>_.
         seq (case dev_rx_data_events_socket d of None \<Rightarrow> ret () | Some s \<Rightarrow> closesocket s) (\<lambda>_.
         free_dev dev)))))))))"

definition device_add_failed :: "ptr \<Rightarrow> unit act" where
  "device_add_failed usbdev = seq (device_info_of 0 usbdev) client_device_removed_during_add"

subsection \<open>Timeouts and shutdown\<close>

definition check_conn_timeout :: "u64 \<Rightarrow> ptr \<Rightarrow> unit act" where
  "check_conn_timeout ct conn = seq (get_conn conn) (\<lambda>c.
     if ack_pending c \<and> ct - conn_last_ack_time c > ACK_TIMEOUT
     then seq (send_tcp_ack conn) (\<lambda>_. ret ()) else ret ())"

definition device_check_timeouts :: "unit act" where
  "device_check_timeouts = seq mstime64 (\<lambda>ct.
     foreach (gets device_list) (\<lambda>dev. seq (get_dev dev) (\<lambda>d.
       if dev_state d = MUXDEV_ACTIVE then foreach (get_connections dev) (check_conn_timeout ct) else ret ())))"

definition device_init :: "unit act" where
  "device_init = modify (\<lambda>w. w\<lparr>device_list := collection_init, next_device_id := 1\<rparr>)"

definition device_kill_connections :: "unit act" where
  "device_kill_connections = foreach (gets device_list) (\<lambda>dev. seq (get_dev dev) (\<lambda>d.
     if dev_state d \<noteq> MUXDEV_INIT then foreach (get_connections dev) teardown else ret ()))"

definition device_shutdown :: "unit act" where
  "device_shutdown =
     seq (foreach (gets device_list) (\<lambda>dev.
       seq (foreach (get_connections dev) teardown) (\<lambda>_.
       seq (upd_dev dev (\<lambda>d. d\<lparr>dev_connections := Some []\<rparr>)) (\<lambda>_.
       seq (modify (\<lambda>w. w\<lparr>device_list := collection_remove (device_list w) dev\<rparr>)) (\<lambda>_.
       free_dev dev))))) (\<lambda>_.
     modify (\<lambda>w. w\<lparr>device_list := collection_free (device_list w)\<rparr>))"

end
