(* ===== verification/Usb_Mce.thy ===== *)
theory Usb_Mce
  imports Device
begin

text \<open>
  The device management of usb-mce.cpp: the queue of pending commands and \<open>usb_process\<close>, which
  the main thread uses to add, remove and monitor devices; opening and configuring a port; the
  read and write threads; releasing a device. A handle that is only created and closed is not
  part of the state. A wait that can succeed, time out or fail takes its outcome from the
  script of the environment.
\<close>

definition MUX_INTERFACE :: "byte list" where "MUX_INTERFACE = [255, 254, 2]"

subsection \<open>Port names\<close>

text \<open>\<open>MCE_PORT_NAME_FORMAT\<close>: the name of a port is \<open>MCE\<close> and the location in decimal.\<close>

fun dec_digits :: "nat \<Rightarrow> string" where
  "dec_digits n = (if n < 10 then [char_of (48 + n)] else dec_digits (n div 10) @ [char_of (48 + n mod 10)])"

declare dec_digits.simps [simp del]

definition port_name :: "u32 \<Rightarrow> string" where
  "port_name location = ''MCE'' @ dec_digits (unat location)"

text \<open>
  \<open>sscanf_s\<close> with the same format into a location that was set to 0: an unmatched name leaves
  it 0. Names are those the port driver gives, without blanks or a sign before the number.
\<close>

definition parse_port_name :: "string \<Rightarrow> u32" where
  "parse_port_name s =
     (if take 3 s = ''MCE'' then of_nat (digits_value 0 (takeWhile is_digit (drop 3 s))) else 0)"

subsection \<open>Pending commands\<close>

definition usb_append_device_command ::
  "pending_type \<Rightarrow> pending_source \<Rightarrow> u32 \<Rightarrow> ptr option \<Rightarrow> device_monitor_state \<Rightarrow> nat act" where
  "usb_append_device_command ty src location event monitor =
     seq (modify (\<lambda>w. w\<lparr>g_pending_devices := g_pending_devices w @
            [\<lparr>pc_type = ty, pc_source = src, pc_location = location, pc_event = event, pc_monitor = monitor\<rparr>]\<rparr>))
       (\<lambda>_. gets (\<lambda>w. length (g_pending_devices w)))"

definition usb_add_device :: "u32 \<Rightarrow> ptr option \<Rightarrow> int act" where
  "usb_add_device location event =
     seq (usb_append_device_command PENDING_DEVICE_COMMAND_ADD PENDING_DEVICE_COMMAND_SOURCE_MANUAL
            location event DEVICE_MONITOR_DISABLE) (\<lambda>_. ret 0)"

definition usb_remove_device :: "u32 \<Rightarrow> ptr option \<Rightarrow> int act" where
  "usb_remove_device location event =
     seq (usb_append_device_command PENDING_DEVICE_COMMAND_REMOVE PENDING_DEVICE_COMMAND_SOURCE_MANUAL
            location event DEVICE_MONITOR_DISABLE) (\<lambda>_. ret 0)"

text \<open>The outcome of waiting for the completion event is the environment's.\<close>

definition usb_set_device_monitoring :: "u32 \<Rightarrow> device_monitor_state \<Rightarrow> int act" where
  "usb_set_device_monitoring location monitor = seq api_ok (\<lambda>created.
     if \<not> created then ret (-1)
     else seq new_ptr (\<lambda>event.
       seq (usb_append_device_command PENDING_DEVICE_COMMAND_SET_MONITOR
              PENDING_DEVICE_COMMAND_SOURCE_MANUAL location (Some event) monitor) (\<lambda>_.
       seq api_ok (\<lambda>signalled. ret (if signalled then 0 else -1)))))"

definition DBT_DEVICEARRIVAL :: u32 where "DBT_DEVICEARRIVAL = 0x8000"
definition DBT_DEVICEREMOVECOMPLETE :: u32 where "DBT_DEVICEREMOVECOMPLETE = 0x8004"

definition usb_port_change_callback :: "u32 \<Rightarrow> string \<Rightarrow> unit act" where
  "usb_port_change_callback event name =
     (let queue = (\<lambda>ty. seq (usb_append_device_command ty PENDING_DEVICE_COMMAND_SOURCE_MONITOR
            (parse_port_name name) None DEVICE_MONITOR_DISABLE) (\<lambda>_. ret ())) in
      if event = DBT_DEVICEARRIVAL then queue PENDING_DEVICE_COMMAND_ADD
      else if event = DBT_DEVICEREMOVECOMPLETE then queue PENDING_DEVICE_COMMAND_REMOVE
      else ret ())"

subsection \<open>Releasing a device\<close>

definition usb_free_device :: "ptr \<Rightarrow> unit act" where
  "usb_free_device dev = seq (get_usb dev) (\<lambda>_.
     seq (modify (\<lambda>w. w\<lparr>g_device_list := collection_remove (g_device_list w) dev\<rparr>)) (\<lambda>_.
     free_usb dev))"

text \<open>
  Stopping the read thread: \<open>False\<close> when it neither ended nor could be killed, which abandons
  the disconnect.
\<close>

definition stop_read_thread :: "ptr \<Rightarrow> bool act" where
  "stop_read_thread dev = seq (get_usb dev) (\<lambda>d.
     if \<not> ud_rx_thread d then ret True
     else seq (set_usb dev (d\<lparr>ud_rx_stop_event := Some True\<rparr>)) (\<lambda>_.
       seq api_ok (\<lambda>ended.
       if ended then seq (upd_usb dev (\<lambda>d. d\<lparr>ud_rx_stop_event := Some False\<rparr>)) (\<lambda>_. ret True)
       else seq api_ok (\<lambda>timeout. if timeout then api_ok else ret False))))"

text \<open>
  Stopping the write thread: it takes one more element, sees the stop event, and empties the
  queue; then the pool is emptied.
\<close>

definition stop_write_thread :: "ptr \<Rightarrow> unit act" where
  "stop_write_thread dev = seq (get_usb dev) (\<lambda>d.
     if ud_tx_stop d = None then ret ()
     else seq (set_usb dev (d\<lparr>ud_tx_stop := Some True,
              ud_tx_q := ud_tx_q d @ [\<lparr>te_buffer = None, te_overlapped = None\<rparr>]\<rparr>)) (\<lambda>_.
       seq api_ok (\<lambda>ended.
       if \<not> ended then ret ()
       else seq (usb_write_thread_iter dev) (\<lambda>_.
         seq (write_thread_cleanup dev) (\<lambda>_.
         upd_usb dev (\<lambda>d. d\<lparr>ud_tx_pool := []\<rparr>))))))"

definition no_port :: com_port where
  "no_port = \<lparr>port_id = 0, port_wVID = 0, port_wPID = 0, port_bTurbo = False\<rparr>"

definition no_info :: usb_info where
  "no_info = \<lparr>ui_serial = [], ui_ep_in = 0, ui_ep_out = 0, ui_tx_max_packet_size = 0\<rparr>"

definition usb_disconnect :: "ptr \<Rightarrow> bool \<Rightarrow> unit act" where
  "usb_disconnect dev manual_remove = seq (stop_read_thread dev) (\<lambda>go.
     if \<not> go then ret ()
     else seq (stop_write_thread dev) (\<lambda>_.
       seq api_ok (\<lambda>_.
       seq (get_usb dev) (\<lambda>d.
       seq (case ud_rx_socket d of None \<Rightarrow> ret () | Some s \<Rightarrow> closesocket s) (\<lambda>_.
       seq (set_usb dev (d\<lparr>ud_rx_socket := None, ud_rx_thread := False\<rparr>)) (\<lambda>_.
       if manual_remove \<or> ud_monitor d = DEVICE_MONITOR_DISABLE then usb_free_device dev
       else upd_usb dev (\<lambda>d. d\<lparr>ud_port := no_port, ud_info := no_info,
              ud_state := USB_DEVICE_STATE_WAITING_FOR_DEVICE\<rparr>)))))))"

subsection \<open>Threads\<close>

definition connect_socket :: "fd option act" where
  "connect_socket = seq api_ok (\<lambda>ok. if ok then seq new_ptr (\<lambda>s. ret (Some s)) else ret None)"

definition usb_start_read_thread :: "ptr \<Rightarrow> int act" where
  "usb_start_read_thread dev = seq connect_socket (\<lambda>r.
     seq (upd_usb dev (\<lambda>d. d\<lparr>ud_rx_socket := r\<rparr>)) (\<lambda>_.
     case r of
       None \<Rightarrow> ret (-1)
     | Some s \<Rightarrow>
         let cleanup = seq (closesocket s) (\<lambda>_. seq (upd_usb dev (\<lambda>d. d\<lparr>ud_rx_socket := None,
                            ud_rx_stop_event := None\<rparr>)) (\<lambda>_. ret (-1))) in
         seq api_ok (\<lambda>nodelay. if \<not> nodelay then cleanup
         else seq (get_usb dev) (\<lambda>d.
         seq (sys_send s (le32 (ud_id d))) (\<lambda>n. if n \<noteq> 4 then cleanup
         else seq (if ud_rx_stop_event d \<noteq> None then ret True else api_ok) (\<lambda>event. if \<not> event then cleanup
         else seq (upd_usb dev (\<lambda>d. d\<lparr>ud_rx_stop_event := Some False\<rparr>)) (\<lambda>_.
         seq api_ok (\<lambda>thread. if \<not> thread then cleanup
         else seq (upd_usb dev (\<lambda>d. d\<lparr>ud_rx_thread := True\<rparr>)) (\<lambda>_. ret 0)))))))))"

definition usb_start_write_thread :: "ptr \<Rightarrow> int act" where
  "usb_start_write_thread dev = seq api_ok (\<lambda>thread.
     seq (upd_usb dev (\<lambda>d. d\<lparr>ud_tx_stop := Some False, ud_tx_thread := thread\<rparr>)) (\<lambda>_.
     ret (if thread then 0 else -1)))"

text \<open>
  One round of \<open>usb_read_thread_proc\<close> after its wait: \<open>ReadStop\<close> is the stop event,
  \<open>ReadData\<close> a completed transfer, \<open>ReadTimeout\<close> a wait that expired. The result is whether
  the thread goes on.
\<close>

datatype read_wait = ReadStop | ReadData | ReadTimeout | ReadError

definition usb_read_thread_iter :: "ptr \<Rightarrow> read_wait \<Rightarrow> bool act" where
  "usb_read_thread_iter dev wait =
     (case wait of
        ReadStop \<Rightarrow> ret False
      | ReadTimeout \<Rightarrow> ret True
      | ReadError \<Rightarrow> ret False
      | ReadData \<Rightarrow> seq (get_usb dev) (\<lambda>d.
          case ud_rx_socket d of
            None \<Rightarrow> ret False
          | Some s \<Rightarrow> seq (sys_send s [1]) (\<lambda>n.
              if n \<noteq> 1 then ret False
              else seq (sys_recv s 1) (\<lambda>r.
                if map_option length r \<noteq> Some 1 then ret False
                else usb_start_read dev))))"

text \<open>
  \<open>usb_read_thread_proc\<close>: the first read, then a round for each wait until one ends the thread; the result is
  the waits that are left. A thread whose waits are used up still runs.
\<close>

fun usb_read_thread_loop :: "read_wait list \<Rightarrow> ptr \<Rightarrow> read_wait list act" where
  "usb_read_thread_loop [] dev = stop OutOfFuel"
| "usb_read_thread_loop (r # rs) dev = seq (usb_read_thread_iter dev r) (\<lambda>go.
     if go then usb_read_thread_loop rs dev else ret rs)"

definition usb_read_thread_proc :: "read_wait list \<Rightarrow> ptr \<Rightarrow> read_wait list act" where
  "usb_read_thread_proc waits dev = seq (usb_start_read dev) (\<lambda>started.
     if started then usb_read_thread_loop waits dev else ret waits)"

subsection \<open>Configuring a device\<close>

text \<open>
  \<open>usb_configure_mux_interface\<close> as a walk over the bytes behind the configuration descriptor.
  Nothing but a descriptor of length 0 ends the walk; reading past the buffer is out of bounds.
\<close>

definition byte_at :: "bytes \<Rightarrow> nat \<Rightarrow> halt + byte" where
  "byte_at bs i = (if i < length bs then Inr (bs ! i) else Inl OutOfBounds)"

text \<open>
  The class, the subclass and the protocol of the interface and the number of its endpoints, in the order of the source:
  a field is read only when those before it match.
\<close>

fun fields_match :: "bytes \<Rightarrow> (nat \<times> byte) list \<Rightarrow> halt + bool" where
  "fields_match bs [] = Inr True"
| "fields_match bs ((i, v) # fs) = (case byte_at bs i of
     Inl h \<Rightarrow> Inl h | Inr b \<Rightarrow> if b = v then fields_match bs fs else Inr False)"

definition mux_interface_desc :: "bytes \<Rightarrow> halt + bool" where
  "mux_interface_desc bs = fields_match bs (zip [5, 6, 7, 4] (MUX_INTERFACE @ [2]))"

text \<open>An endpoint descriptor: \<open>None\<close> for an endpoint that is not bulk, else the updated information.\<close>

definition endpoint_desc :: "bytes \<Rightarrow> usb_info \<Rightarrow> halt + usb_info option" where
  "endpoint_desc bs info =
     (if length bs < 4 then Inl OutOfBounds
      else if bs ! 3 \<noteq> 2 then Inr None
      else if bs ! 2 AND 0x80 \<noteq> 0 then Inr (Some (info\<lparr>ui_ep_in := bs ! 2\<rparr>))
      else if length bs < 6 then Inl OutOfBounds
      else Inr (Some (info\<lparr>ui_ep_out := bs ! 2,
             ui_tx_max_packet_size := the (un_le16 (take 2 (drop 4 bs)))\<rparr>)))"

function walk_descriptors :: "bytes \<Rightarrow> bool \<Rightarrow> usb_info \<Rightarrow> halt + bool \<times> usb_info" where
  "walk_descriptors [] found info = Inl OutOfBounds"
| "walk_descriptors (len # bs) found info =
     (let d = len # bs; rest = drop (unat len) d in
      if len = 0 then Inr (False, info)
      else case byte_at d 1 of
        Inl h \<Rightarrow> Inl h
      | Inr ty \<Rightarrow>
          if ty = 4
          then (case mux_interface_desc d of
                  Inl h \<Rightarrow> Inl h
                | Inr m \<Rightarrow> walk_descriptors rest (found \<or> m) info)
          else if ty = 5 \<and> found
          then (case endpoint_desc d info of
                  Inl h \<Rightarrow> Inl h
                | Inr None \<Rightarrow> walk_descriptors rest found info
                | Inr (Some info) \<Rightarrow>
                    if ui_ep_in info \<noteq> 0 \<and> ui_ep_out info \<noteq> 0 then Inr (True, info)
                    else walk_descriptors rest found info)
          else walk_descriptors rest found info)"
  by pat_completeness auto

termination
proof (relation "measure (\<lambda>(bs, _). length bs)", goal_cases)
  case 1
  show ?case by simp
qed (auto simp: unat_gt_0 unat_eq_zero)

definition usb_configure_mux_interface :: "ptr \<Rightarrow> bytes \<Rightarrow> bool act" where
  "usb_configure_mux_interface dev config = seq (get_usb dev) (\<lambda>d.
     case walk_descriptors (drop 9 config) False (ud_info d) of
       Inl h \<Rightarrow> stop h
     | Inr (ok, info) \<Rightarrow> seq (set_usb dev (d\<lparr>ud_info := info\<rparr>)) (\<lambda>_. ret ok))"

text \<open>The calls of the port plugin that answer with data.\<close>

definition com_open :: "com_port option act" where
  "com_open w = (case com_opens (sys w) of
       [] \<Rightarrow> Inr (None, w)
     | r # rs \<Rightarrow> Inr (r, w\<lparr>sys := (sys w)\<lparr>com_opens := rs\<rparr>\<rparr>))"

definition com_device_desc :: "(u8 \<times> u8) option act" where
  "com_device_desc w = (case com_device_descs (sys w) of
       [] \<Rightarrow> Inr (None, w)
     | r # rs \<Rightarrow> Inr (r, w\<lparr>sys := (sys w)\<lparr>com_device_descs := rs\<rparr>\<rparr>))"

definition com_serial :: "string option act" where
  "com_serial w = (case com_serials (sys w) of
       [] \<Rightarrow> Inr (None, w)
     | r # rs \<Rightarrow> Inr (r, w\<lparr>sys := (sys w)\<lparr>com_serials := rs\<rparr>\<rparr>))"

definition com_config :: "(u32 \<times> bytes option) act" where
  "com_config w = (case com_configs (sys w) of
       [] \<Rightarrow> Inr ((0, None), w)
     | r # rs \<Rightarrow> Inr (r, w\<lparr>sys := (sys w)\<lparr>com_configs := rs\<rparr>\<rparr>))"

text \<open>
  The two calls for the configuration descriptor are one entry of the script: the size, and
  the bytes when the second call succeeds, in a buffer that was filled with zeros. The serial
  buffer holds 255 characters.
\<close>

definition usb_configure_device :: "ptr \<Rightarrow> bool act" where
  "usb_configure_device dev = seq com_device_desc (\<lambda>r.
     if r = None then ret False
     else seq com_serial (\<lambda>s.
       case s of
         None \<Rightarrow> ret False
       | Some s \<Rightarrow>
           seq (upd_usb dev (\<lambda>d. d\<lparr>ud_info := (ud_info d)\<lparr>ui_serial := take 255 s\<rparr>\<rparr>)) (\<lambda>_.
           seq com_config (\<lambda>(sz, r).
           if sz = 0 then ret False
           else case r of
             None \<Rightarrow> ret False
           | Some config \<Rightarrow>
               if sz < 6 then stop OutOfBounds
               else seq api_ok (\<lambda>selected.
                 if \<not> selected then ret False
                 else usb_configure_mux_interface dev (take (unat sz) (config @ replicate (unat sz) 0)))))))"

subsection \<open>Adding a device\<close>

definition usb_report_device_already_exists :: "ptr \<Rightarrow> unit act" where
  "usb_report_device_already_exists dev = seq (get_usb dev) (\<lambda>d.
     if ud_monitor d = DEVICE_MONITOR_ONCE then ret ()
     else seq (device_is_initializing dev) (\<lambda>busy.
       if busy then ret ()
       else seq (device_info_of (ud_id d) dev) client_device_error_already_exits))"

text \<open>The scan of the device list: \<open>Inl\<close> an open device at the location, \<open>Inr\<close> the last closed one.\<close>

fun scan_existing :: "u32 \<Rightarrow> ptr option \<Rightarrow> ptr list \<Rightarrow> (ptr + ptr option) act" where
  "scan_existing location found [] = ret (Inr found)"
| "scan_existing location found (p # ps) = seq (get_usb p) (\<lambda>d.
     if ud_location d = location
     then if is_valid_device d then ret (Inl p) else scan_existing location (Some p) ps
     else scan_existing location found ps)"

definition new_usb_device :: "u32 \<Rightarrow> u32 \<Rightarrow> usb_device" where
  "new_usb_device i location =
     \<lparr>ud_id = i, ud_location = location, ud_port = no_port, ud_monitor = DEVICE_MONITOR_ONCE,
      ud_state = USB_DEVICE_STATE_ALIVE, ud_info = no_info, ud_rx_buffer = [], ud_rx_data_size = 0,
      ud_rx_socket = None, ud_rx_thread = False, ud_rx_stop_event = None, ud_tx_stop = None,
      ud_tx_thread = False, ud_tx_q = [], ud_tx_pool = [], ud_ready_event = None\<rparr>"

definition alloc_usb_device :: "u32 \<Rightarrow> ptr act" where
  "alloc_usb_device location = seq new_ptr (\<lambda>p.
     seq (gets g_next_usb_device_id) (\<lambda>i.
     seq (modify (\<lambda>w. w\<lparr>g_next_usb_device_id := i + 1\<rparr>)) (\<lambda>_.
     seq (set_usb p (new_usb_device i location)) (\<lambda>_. ret p))))"

text \<open>The label \<open>lblCleanup\<close> of \<open>usb_add_pending_device\<close>.\<close>

definition add_cleanup :: "ptr \<Rightarrow> bool \<Rightarrow> bool \<Rightarrow> int act" where
  "add_cleanup dev existing added = seq (get_usb dev) (\<lambda>d.
     let keep = existing \<and> ud_monitor d = DEVICE_MONITOR_ALWAYS in
     seq (if added then device_remove dev else if \<not> keep then device_add_failed dev else ret ()) (\<lambda>_.
     seq (usb_disconnect dev (\<not> keep)) (\<lambda>_. ret (if keep then 0 else -1))))"

definition apple_port :: "com_port \<Rightarrow> bool" where
  "apple_port p \<longleftrightarrow> port_wVID p = VID_APPLE \<and> PID_RANGE_LOW \<le> port_wPID p \<and> port_wPID p \<le> PID_RANGE_MAX"

text \<open>From the open port to the running threads.\<close>

definition start_device :: "pending_source \<Rightarrow> device_monitor_state \<Rightarrow> ptr option \<Rightarrow> bool \<Rightarrow> ptr \<Rightarrow> int act" where
  "start_device src monitor event existing dev = seq (get_usb dev) (\<lambda>d.
     if \<not> apple_port (ud_port d)
     then if src = PENDING_DEVICE_COMMAND_SOURCE_MONITOR then add_cleanup dev existing False
          else if monitor \<noteq> DEVICE_MONITOR_DISABLE then ret 0
          else add_cleanup dev existing False
     else seq (usb_configure_device dev) (\<lambda>configured.
       if \<not> configured
       then if existing \<and> ud_monitor d = DEVICE_MONITOR_ALWAYS then ret 0 else add_cleanup dev existing False
       else seq (if event \<noteq> None then upd_usb dev (\<lambda>d. d\<lparr>ud_ready_event := event\<rparr>) else ret ()) (\<lambda>_.
         seq (device_add dev) (\<lambda>r.
         if r < 0 then add_cleanup dev existing False
         else seq (usb_start_read_thread dev) (\<lambda>r.
           if r < 0 then add_cleanup dev existing True
           else seq (if port_bTurbo (ud_port d) then usb_start_write_thread dev else ret 0) (\<lambda>r.
             if r < 0 then add_cleanup dev existing True
             else seq (upd_usb dev (\<lambda>d. d\<lparr>ud_state := USB_DEVICE_STATE_ALIVE\<rparr>)) (\<lambda>_. ret 0)))))))"

text \<open>A new device enters the list; an existing one loses the one-time monitoring.\<close>

definition enlist_device :: "device_monitor_state \<Rightarrow> bool \<Rightarrow> ptr \<Rightarrow> bool act" where
  "enlist_device monitor existing dev =
     (if existing
      then seq (upd_usb dev (\<lambda>d. if ud_monitor d = DEVICE_MONITOR_ONCE
                                 then d\<lparr>ud_monitor := DEVICE_MONITOR_DISABLE\<rparr> else d)) (\<lambda>_. ret True)
      else seq (upd_usb dev (\<lambda>d. d\<lparr>ud_monitor := monitor,
                  ud_rx_buffer := replicate DEVICE_RX_BUFFER_SIZE 0\<rparr>)) (\<lambda>_.
           seq api_ok (\<lambda>event.
           if \<not> event then ret False
           else seq (modify (\<lambda>w. w\<lparr>g_device_list := collection_add (g_device_list w) dev\<rparr>))
                  (\<lambda>_. ret True))))"

definition usb_add_pending_device ::
  "pending_source \<Rightarrow> u32 \<Rightarrow> device_monitor_state \<Rightarrow> ptr option \<Rightarrow> int act" where
  "usb_add_pending_device src location monitor event = seq (gets g_device_list) (\<lambda>col.
     seq (scan_existing location None (elems col)) (\<lambda>r.
     case r of
       Inl dev \<Rightarrow> seq (usb_report_device_already_exists dev) (\<lambda>_. ret (-1))
     | Inr found \<Rightarrow>
         let existing = found \<noteq> None in
         seq (case found of Some dev \<Rightarrow> ret dev | None \<Rightarrow> alloc_usb_device location) (\<lambda>dev.
         seq com_open (\<lambda>port.
         seq (case port of
                Some p \<Rightarrow> upd_usb dev (\<lambda>d. d\<lparr>ud_port := p\<rparr>)
              | None \<Rightarrow> if monitor = DEVICE_MONITOR_ALWAYS
                        then upd_usb dev (\<lambda>d. d\<lparr>ud_state := USB_DEVICE_STATE_WAITING_FOR_DEVICE\<rparr>) else ret ()) (\<lambda>_.
         if port = None \<and> monitor \<noteq> DEVICE_MONITOR_ALWAYS then add_cleanup dev existing False
         else seq (enlist_device monitor existing dev) (\<lambda>ok.
           if \<not> ok then add_cleanup dev existing False
           else if port = None then ret 0
           else start_device src monitor event existing dev))))))"

subsection \<open>Processing commands\<close>

definition find_usb_at :: "u32 \<Rightarrow> ptr option act" where
  "find_usb_at location = seq (gets g_device_list) (\<lambda>col.
     find_in usb_heap (\<lambda>d. location = ud_location d) col)"

definition usb_remove_pending_device :: "pending_source \<Rightarrow> u32 \<Rightarrow> ptr option \<Rightarrow> int act" where
  "usb_remove_pending_device src location event = seq (find_usb_at location) (\<lambda>r.
     case r of
       None \<Rightarrow> ret (if src = PENDING_DEVICE_COMMAND_SOURCE_MONITOR then 0 else -1)
     | Some dev \<Rightarrow>
         seq (device_remove dev) (\<lambda>_.
         seq (usb_disconnect dev (src = PENDING_DEVICE_COMMAND_SOURCE_MANUAL)) (\<lambda>_.
         seq (case event of None \<Rightarrow> ret () | Some e \<Rightarrow> set_event e) (\<lambda>_. ret 0))))"

text \<open>The search of \<open>usb_handle_device_monitor_command\<close> has no \<open>break\<close>: it keeps the last match.\<close>

fun last_usb_at :: "u32 \<Rightarrow> ptr option \<Rightarrow> ptr list \<Rightarrow> ptr option act" where
  "last_usb_at location found [] = ret found"
| "last_usb_at location found (p # ps) = seq (get_usb p) (\<lambda>d.
     last_usb_at location (if location = ud_location d then Some p else found) ps)"

definition change_monitor :: "device_monitor_state \<Rightarrow> ptr \<Rightarrow> unit act" where
  "change_monitor monitor dev = seq (get_usb dev) (\<lambda>d.
     if ud_monitor d = DEVICE_MONITOR_ALWAYS \<and> monitor = DEVICE_MONITOR_ONCE then ret ()
     else if monitor = DEVICE_MONITOR_DISABLE \<and> ud_state d = USB_DEVICE_STATE_WAITING_FOR_DEVICE
     then usb_free_device dev
     else set_usb dev (d\<lparr>ud_monitor := monitor\<rparr>))"

text \<open>
  The result of adding a device that is to be monitored is stored in a variable that shadows
  the function's own result, so the command counts as done.
\<close>

definition usb_handle_device_monitor_command :: "u32 \<Rightarrow> device_monitor_state \<Rightarrow> ptr option \<Rightarrow> int act" where
  "usb_handle_device_monitor_command location monitor event = seq (gets g_device_list) (\<lambda>col.
     seq (last_usb_at location None (elems col)) (\<lambda>r.
     seq (case r of
            Some dev \<Rightarrow> seq (change_monitor monitor dev) (\<lambda>_. ret 0)
          | None \<Rightarrow>
              if monitor = DEVICE_MONITOR_ALWAYS
              then seq (usb_add_pending_device PENDING_DEVICE_COMMAND_SOURCE_MANUAL location monitor None) (\<lambda>_. ret 0)
              else ret (-1)) (\<lambda>res.
     if res = 0
     then seq (case event of None \<Rightarrow> ret () | Some e \<Rightarrow> set_event e) (\<lambda>_. ret res)
     else ret res)))"

definition usb_update_monitored_devices :: "unit act" where
  "usb_update_monitored_devices = seq (gets g_device_list) (\<lambda>col.
     seq (find_in usb_heap (\<lambda>d. ud_monitor d \<noteq> DEVICE_MONITOR_DISABLE) col) (\<lambda>r.
     seq (gets notification_cookie) (\<lambda>cookie.
     if r \<noteq> None \<and> \<not> cookie
     then seq api_ok (\<lambda>ok. if ok then modify (\<lambda>w. w\<lparr>notification_cookie := True\<rparr>) else ret ())
     else ret ())))"

definition usb_process_command :: "pending_command \<Rightarrow> unit act" where
  "usb_process_command c =
     seq (case pc_type c of
            PENDING_DEVICE_COMMAND_ADD \<Rightarrow>
              usb_add_pending_device (pc_source c) (pc_location c) (pc_monitor c) (pc_event c)
          | PENDING_DEVICE_COMMAND_REMOVE \<Rightarrow>
              usb_remove_pending_device (pc_source c) (pc_location c) (pc_event c)
          | PENDING_DEVICE_COMMAND_SET_MONITOR \<Rightarrow>
              usb_handle_device_monitor_command (pc_location c) (pc_monitor c) (pc_event c)) (\<lambda>_.
     usb_update_monitored_devices)"

text \<open>As many commands as there were at the start; \<open>RemoveHead\<close> of an empty list is an access through null.\<close>

fun usb_process_n :: "nat \<Rightarrow> unit act" where
  "usb_process_n 0 = ret ()"
| "usb_process_n (Suc n) = seq (gets g_pending_devices) (\<lambda>q.
     case q of
       [] \<Rightarrow> stop NullDeref
     | c # cs \<Rightarrow>
         seq (modify (\<lambda>w. w\<lparr>g_pending_devices := cs\<rparr>)) (\<lambda>_.
         seq (usb_process_command c) (\<lambda>_. usb_process_n n)))"

definition usb_process :: "int act" where
  "usb_process = seq (gets g_pending_devices) (\<lambda>q. seq (usb_process_n (length q)) (\<lambda>_. ret 0))"

definition usb_set_device_monitoring_immediately :: "u32 \<Rightarrow> device_monitor_state \<Rightarrow> int act" where
  "usb_set_device_monitoring_immediately location monitor =
     seq (usb_append_device_command PENDING_DEVICE_COMMAND_SET_MONITOR
            PENDING_DEVICE_COMMAND_SOURCE_MANUAL location None monitor) (\<lambda>_. usb_process)"

subsection \<open>Starting and stopping\<close>

definition usb_init :: "int act" where
  "usb_init = seq api_ok (\<lambda>loaded. if \<not> loaded then ret (-1)
     else seq api_ok (\<lambda>started. if \<not> started then ret (-1)
     else seq (modify (\<lambda>w. w\<lparr>notification_cookie := False, g_next_usb_device_id := 1,
                 g_device_list := collection_init\<rparr>)) (\<lambda>_. ret 0)))"

definition usb_shutdown :: "unit act" where
  "usb_shutdown =
     seq (foreach (gets g_device_list) (\<lambda>dev.
            seq (device_remove dev) (\<lambda>_. usb_disconnect dev True))) (\<lambda>_.
     seq (gets notification_cookie) (\<lambda>cookie.
     seq (if cookie then seq api_ok (\<lambda>_. ret ()) else ret ()) (\<lambda>_.
     modify (\<lambda>w. w\<lparr>g_pending_devices := [], notification_cookie := False,
                   g_device_list := collection_free (g_device_list w)\<rparr>))))"

end
