(* ===== verification/Client.thy ===== *)
theory Client
  imports Usb_Mce
begin

text \<open>
  The command half of client.cpp: accepting clients, the binary and property-list commands, the
  framing of the input stream (\<open>process_recv\<close>), the output (\<open>process_send\<close>), the event loop over
  the clients and shutdown. Handlers get the client, the tag of the command and its dictionary.
\<close>

subsection \<open>Accepting clients\<close>

definition new_client :: "fd \<Rightarrow> mux_client" where
  "new_client s =
     \<lparr>cl_fd = s, cl_ob_buf = Some [], cl_ob_size = 0, cl_ob_capacity = of_nat REPLY_BUF_SIZE,
      cl_ib_buf = Some [], cl_ib_size = 0, cl_ib_capacity = of_nat CMD_BUF_SIZE,
      cl_events = POLLIN, cl_devents = 0, cl_connect_tag = 0, cl_connect_device = 0,
      cl_state = CLIENT_COMMAND, cl_proto_version = 0\<rparr>"

definition client_accept :: "bool \<Rightarrow> int act" where
  "client_accept reject = seq sys_accept (\<lambda>r.
     case r of
       None \<Rightarrow> ret (-1)
     | Some s \<Rightarrow>
         let fail = (\<lambda>e. seq (closesocket s) (\<lambda>_. ret e)) in
         if reject then fail 0
         else seq api_ok (\<lambda>sndbuf. if \<not> sndbuf then fail (-1)
         else seq api_ok (\<lambda>rcvbuf. if \<not> rcvbuf then fail (-1)
         else seq api_ok (\<lambda>nonblock. if \<not> nonblock then fail (-1)
         else seq new_ptr (\<lambda>k.
           seq (set_client k (new_client s)) (\<lambda>_.
           seq (modify (\<lambda>w. w\<lparr>client_list := collection_add (client_list w) k\<rparr>)) (\<lambda>_.
           ret (int s))))))))"

subsection \<open>Replies with data\<close>

definition send_device_list :: "ptr \<Rightarrow> u32 \<Rightarrow> int act" where
  "send_device_list k tag = seq (gets (\<lambda>w. include_hidden (sys w))) (\<lambda>hidden.
     seq (device_get_list hidden) (\<lambda>devs.
     seq (map_m (\<lambda>dev. seq (read_serial (di_serial dev)) (\<lambda>s. ret (create_device_attached_plist dev s))) devs) (\<lambda>ps.
     send_plist_pkt k tag (PDict [(''DeviceList'', PArray ps)]))))"

definition send_system_buid :: "ptr \<Rightarrow> u32 \<Rightarrow> int act" where
  "send_system_buid k tag = seq (in_conf config_get_system_buid) (\<lambda>buid.
     send_plist_pkt k tag (PDict [(''BUID'', PString buid)]))"

text \<open>A record that parses must have its three keys; one that does not parse is sent as it is.\<close>

definition partial_record :: "plist option \<Rightarrow> bool" where
  "partial_record r = (case r of
       None \<Rightarrow> False
     | Some d \<Rightarrow> dict_get d ''DeviceCertificate'' = None \<or> dict_get d ''HostID'' = None \<or>
                 dict_get d ''SystemBUID'' = None)"

definition send_pair_record :: "ptr \<Rightarrow> u32 \<Rightarrow> string option \<Rightarrow> int act" where
  "send_pair_record k tag record_id =
     (case record_id of
        None \<Rightarrow> send_result k tag (of_nat EINVAL)
      | Some rid \<Rightarrow> seq (in_conf (config_get_device_record rid)) (\<lambda>r.
          case snd r of
            None \<Rightarrow> send_result k tag (of_nat ENOENT)
          | Some data \<Rightarrow> seq (gets (\<lambda>w. of_xml (conf w) data)) (\<lambda>dict.
              if partial_record dict then send_result k tag (of_nat ENOENT)
              else send_plist_pkt k tag (PDict [(''PairRecordData'', PData data)]))))"

fun notify_all :: "ptr \<Rightarrow> device_info list \<Rightarrow> bool act" where
  "notify_all k [] = ret True"
| "notify_all k (dev # devs) = seq (notify_device_add k dev) (\<lambda>r.
     if r < 0 then ret False else notify_all k devs)"

definition start_listen :: "ptr \<Rightarrow> int act" where
  "start_listen k = seq (upd_client k (\<lambda>c. c\<lparr>cl_state := CLIENT_LISTEN\<rparr>)) (\<lambda>_.
     seq (device_get_list False) (\<lambda>devs.
     seq (notify_all k devs) (\<lambda>ok.
     ret (if ok then int (length devs) else -1))))"

subsection \<open>Command handlers\<close>

text \<open>\<open>send_result\<close> whose failure is the handler's.\<close>

definition reply :: "ptr \<Rightarrow> u32 \<Rightarrow> u32 \<Rightarrow> int act" where
  "reply k tag result = seq (send_result k tag result) (\<lambda>r. ret (if r < 0 then -1 else 0))"

definition LIBUSBMXD_PLIST_BUNDLE_ID :: string where
  "LIBUSBMXD_PLIST_BUNDLE_ID = ''org.libimobiledevice.usbmuxd''"

definition handle_save_pair_record_command :: "ptr \<Rightarrow> u32 \<Rightarrow> plist \<Rightarrow> int act" where
  "handle_save_pair_record_command k tag d =
     (if string_val (dict_get d ''BundleID'') = Some LIBUSBMXD_PLIST_BUNDLE_ID
      then (case (string_val (dict_get d ''PairRecordID''), data_val (dict_get d ''PairRecordData'')) of
              (Some rid, Some data) \<Rightarrow>
                seq (in_conf (config_set_device_record (Some rid) (Some data))) (\<lambda>res.
                reply k tag (if res < 0 then of_int (- res) else RESULT_OK))
            | _ \<Rightarrow> reply k tag (of_nat EINVAL))
      else reply k tag RESULT_OK)"

definition ntohs :: "u16 \<Rightarrow> u16" where
  "ntohs x = push_bit 8 x OR drop_bit 8 x"

text \<open>The end of both connect commands.\<close>

definition connect_client :: "ptr \<Rightarrow> u32 \<Rightarrow> u32 \<Rightarrow> u16 \<Rightarrow> int act" where
  "connect_client k tag device_id port = seq (device_start_connect device_id port k) (\<lambda>res.
     if res < 0 then reply k tag (of_int (- res))
     else seq (upd_client k (\<lambda>c. c\<lparr>cl_connect_tag := tag, cl_connect_device := device_id,
                 cl_state := CLIENT_CONNECTING1\<rparr>)) (\<lambda>_. ret 0))"

definition handle_connect_command :: "ptr \<Rightarrow> u32 \<Rightarrow> plist \<Rightarrow> int act" where
  "handle_connect_command k tag d =
     (case dict_get d ''DeviceID'' of
        None \<Rightarrow> reply k tag RESULT_BADDEV
      | Some node \<Rightarrow> (case dict_get d ''PortNumber'' of
          None \<Rightarrow> reply k tag RESULT_BADCOMMAND
        | Some port \<Rightarrow>
            connect_client k tag (ucast (uint_val (Some node))) (ntohs (ucast (uint_val (Some port))))))"

text \<open>Only the first dash of a device id is removed.\<close>

definition remove_dash :: "string \<Rightarrow> string" where
  "remove_dash s = takeWhile (\<lambda>c. c \<noteq> CHR ''-'') s @ drop 1 (dropWhile (\<lambda>c. c \<noteq> CHR ''-'') s)"

definition handle_read_pair_record_command :: "ptr \<Rightarrow> u32 \<Rightarrow> plist \<Rightarrow> int act" where
  "handle_read_pair_record_command k tag d =
     seq (some_or NullDeref (string_val (dict_get d ''PairRecordID''))) (\<lambda>rid.
     seq (send_pair_record k tag (Some (remove_dash rid))) (\<lambda>res.
     ret (if res < 0 then -1 else 0)))"

definition handle_delete_pair_record_command :: "ptr \<Rightarrow> u32 \<Rightarrow> plist \<Rightarrow> int act" where
  "handle_delete_pair_record_command k tag d =
     (case string_val (dict_get d ''PairRecordID'') of
        None \<Rightarrow> reply k tag (of_nat EINVAL)
      | Some rid \<Rightarrow> seq (in_conf (config_remove_device_record rid)) (\<lambda>res.
          reply k tag (if res < 0 then of_int (- res) else RESULT_OK)))"

definition handle_listen_command :: "ptr \<Rightarrow> u32 \<Rightarrow> int act" where
  "handle_listen_command k tag = seq (send_result k tag 0) (\<lambda>r.
     if r < 0 then ret (-1) else start_listen k)"

definition get_device_location_from_device_command :: "plist \<Rightarrow> u32" where
  "get_device_location_from_device_command d = ucast (uint_val (dict_get d ''DeviceLocation''))"

text \<open>The commands on devices: a missing location is answered and reported as a failure.\<close>

definition device_command :: "ptr \<Rightarrow> u32 \<Rightarrow> plist \<Rightarrow> (u32 \<Rightarrow> int act) \<Rightarrow> int act" where
  "device_command k tag d f =
     (let location = get_device_location_from_device_command d in
      if location = 0 then seq (send_result k tag RESULT_BADCOMMAND) (\<lambda>_. ret (-1))
      else seq (f location) (\<lambda>r.
        if r < 0 then seq (send_result k tag (of_int (- int EIO))) (\<lambda>_. ret (-1))
        else reply k tag RESULT_OK))"

definition handle_add_device_command :: "ptr \<Rightarrow> u32 \<Rightarrow> plist \<Rightarrow> int act" where
  "handle_add_device_command k tag d = device_command k tag d (\<lambda>l. usb_add_device l None)"

definition handle_remove_device_command :: "ptr \<Rightarrow> u32 \<Rightarrow> plist \<Rightarrow> int act" where
  "handle_remove_device_command k tag d = device_command k tag d (\<lambda>l. usb_remove_device l None)"

definition handle_device_monitor_command :: "ptr \<Rightarrow> u32 \<Rightarrow> plist \<Rightarrow> int act" where
  "handle_device_monitor_command k tag d = device_command k tag d (\<lambda>l.
     usb_set_device_monitoring_immediately l
       (if bool_val (dict_get d ''AutoMonitor'') then DEVICE_MONITOR_ALWAYS else DEVICE_MONITOR_DISABLE))"

definition plist_message :: "ptr \<Rightarrow> u32 \<Rightarrow> plist \<Rightarrow> string \<Rightarrow> int act" where
  "plist_message k tag d message =
     (if message = ''Listen'' then handle_listen_command k tag
      else if message = ''Connect'' then handle_connect_command k tag d
      else if message = ''ListDevices'' then seq (send_device_list k tag) (\<lambda>r. ret (if r < 0 then -1 else 0))
      else if message = ''ReadBUID'' then seq (send_system_buid k tag) (\<lambda>r. ret (if r < 0 then -1 else 0))
      else if message = ''ReadPairRecord'' then handle_read_pair_record_command k tag d
      else if message = ''SavePairRecord'' then handle_save_pair_record_command k tag d
      else if message = ''DeletePairRecord'' then handle_delete_pair_record_command k tag d
      else if message = ''AddDevice'' then handle_add_device_command k tag d
      else if message = ''RemoveDevice'' then handle_remove_device_command k tag d
      else if message = ''DeviceMonitor'' then handle_device_monitor_command k tag d
      else reply k tag RESULT_BADCOMMAND)"

definition handle_client_plist_command :: "ptr \<Rightarrow> usbmuxd_header \<Rightarrow> bytes \<Rightarrow> int act" where
  "handle_client_plist_command k hdr buf =
     seq (upd_client k (\<lambda>c. c\<lparr>cl_proto_version := 1\<rparr>)) (\<lambda>_.
     seq (buf_read 16 (unat (uh_length hdr - 16)) buf) (\<lambda>payload.
     seq (gets (\<lambda>w. of_xml (conf w) payload)) (\<lambda>d.
     case d of
       None \<Rightarrow> ret (-1)
     | Some d \<Rightarrow> (case string_val (dict_get d ''MessageType'') of
         None \<Rightarrow> ret (-1)
       | Some message \<Rightarrow> plist_message k (uh_tag hdr) d message))))"

subsection \<open>Commands\<close>

text \<open>
  \<open>buf\<close> is the client's input buffer the header was read from. The body of a binary connect
  request is read at its fixed offsets, whatever length the header gives.
\<close>

definition client_command :: "ptr \<Rightarrow> usbmuxd_header \<Rightarrow> bytes \<Rightarrow> int act" where
  "client_command k hdr buf = seq (get_client k) (\<lambda>c.
     if cl_state c \<noteq> CLIENT_COMMAND
     then seq (send_result k (uh_tag hdr) RESULT_BADCOMMAND) (\<lambda>r.
          if r < 0 then ret (-1) else seq (close_client k) (\<lambda>_. ret (-1)))
     else if uh_version hdr \<noteq> 0 \<and> uh_version hdr \<noteq> 1
     then seq (send_result k (uh_tag hdr) RESULT_BADVERSION) (\<lambda>_. ret 0)
     else if uh_message hdr = MESSAGE_PLIST then handle_client_plist_command k hdr buf
     else if uh_message hdr = MESSAGE_LISTEN then handle_listen_command k (uh_tag hdr)
     else if uh_message hdr = MESSAGE_CONNECT
     then seq (some_or UninitRead (le32_at 16 buf)) (\<lambda>device_id.
          seq (some_or UninitRead (be16_at 20 buf)) (\<lambda>port.
          connect_client k (uh_tag hdr) device_id port))
     else reply k (uh_tag hdr) RESULT_BADCOMMAND)"

subsection \<open>Input and output\<close>

definition sent :: "nat \<Rightarrow> mux_client \<Rightarrow> mux_client" where
  "sent n c =
     (if n = unat (cl_ob_size c)
      then let c = c\<lparr>cl_ob_size := 0, cl_events := cl_events c AND NOT POLLOUT\<rparr> in
        (if cl_state c = CLIENT_CONNECTING2
         then c\<lparr>cl_state := CLIENT_CONNECTED, cl_events := cl_devents c, cl_ob_buf := None\<rparr> else c)
      else let rest = take (unat (cl_ob_size c) - n) (drop n (the (cl_ob_buf c))) in
        c\<lparr>cl_ob_size := cl_ob_size c - of_nat n, cl_ob_buf := Some (buf_put 0 rest (the (cl_ob_buf c)))\<rparr>)"

definition process_send :: "ptr \<Rightarrow> unit act" where
  "process_send k = seq (get_client k) (\<lambda>c.
     if cl_ob_size c = 0
     then set_client k (c\<lparr>cl_events := cl_events c AND NOT POLLOUT\<rparr>)
     else seq (some_or NullDeref (cl_ob_buf c)) (\<lambda>b.
       seq (buf_read 0 (unat (cl_ob_size c)) b) (\<lambda>bs.
       seq (sys_send (cl_fd c) bs) (\<lambda>res.
       if res \<le> 0 then close_client k else set_client k (sent (nat res) c)))))"

text \<open>
  Receiving up to \<open>n\<close> bytes behind those in the input buffer: \<open>False\<close> when the client was
  closed instead. A freed input buffer makes \<open>recv\<close> fail.
\<close>

definition recv_more :: "ptr \<Rightarrow> nat \<Rightarrow> bool act" where
  "recv_more k n = seq (get_client k) (\<lambda>c.
     seq (if cl_ib_buf c = None then ret None else sys_recv (cl_fd c) n) (\<lambda>r.
     case r of
       None \<Rightarrow> seq (close_client k) (\<lambda>_. ret False)
     | Some [] \<Rightarrow> seq (close_client k) (\<lambda>_. ret False)
     | Some bs \<Rightarrow>
         seq (some_or NullDeref (cl_ib_buf c)) (\<lambda>b.
         seq (buf_write (unat (cl_ib_capacity c)) (unat (cl_ib_size c)) bs b) (\<lambda>b.
         seq (set_client k (c\<lparr>cl_ib_buf := Some b, cl_ib_size := cl_ib_size c + of_nat (length bs)\<rparr>))
           (\<lambda>_. ret True)))))"

text \<open>The end of \<open>process_recv\<close>: the command is complete.\<close>

definition run_command :: "ptr \<Rightarrow> usbmuxd_header \<Rightarrow> bytes \<Rightarrow> unit act" where
  "run_command k hdr buf = seq (client_command k hdr buf) (\<lambda>_.
     upd_client k (\<lambda>c. c\<lparr>cl_ib_size := 0\<rparr>))"

text \<open>The part of \<open>process_recv\<close> behind the header.\<close>

definition recv_body :: "ptr \<Rightarrow> bool \<Rightarrow> unit act" where
  "recv_body k did_read = seq (get_client k) (\<lambda>c.
     seq (some_or NullDeref (cl_ib_buf c)) (\<lambda>b.
     seq (some_or UninitRead (read_usbmuxd_header (take 16 b))) (\<lambda>hdr.
     if uh_length hdr > cl_ib_capacity c then close_client k
     else if uh_length hdr < 16 then close_client k
     else if cl_ib_size c < uh_length hdr
     then if did_read then ret ()
          else seq (recv_more k (unat (uh_length hdr - cl_ib_size c))) (\<lambda>ok.
            if \<not> ok then ret ()
            else seq (get_client k) (\<lambda>c.
              if cl_ib_size c < uh_length hdr then ret ()
              else seq (some_or NullDeref (cl_ib_buf c)) (\<lambda>b. run_command k hdr b)))
     else run_command k hdr b)))"

definition process_recv :: "ptr \<Rightarrow> unit act" where
  "process_recv k = seq (get_client k) (\<lambda>c.
     if cl_ib_size c < 16
     then seq (recv_more k (16 - unat (cl_ib_size c))) (\<lambda>ok.
          if \<not> ok then ret ()
          else seq (get_client k) (\<lambda>c. if cl_ib_size c < 16 then ret () else recv_body k True))
     else recv_body k False)"

text \<open>One client of the loop, given which sockets are readable and writable.\<close>

definition client_events :: "(fd \<Rightarrow> bool) \<Rightarrow> (fd \<Rightarrow> bool) \<Rightarrow> fd \<Rightarrow> u16" where
  "client_events readable writable s =
     (if readable s then POLLIN else 0) OR (if writable s then POLLOUT else 0)"

definition process_client :: "(fd \<Rightarrow> bool) \<Rightarrow> (fd \<Rightarrow> bool) \<Rightarrow> ptr \<Rightarrow> unit act" where
  "process_client readable writable k = seq (get_client k) (\<lambda>c.
     let events = client_events readable writable (cl_fd c) in
     if events = 0 then ret ()
     else if cl_state c = CLIENT_CONNECTED then device_client_process (cl_connect_device c) k events
     else if has_bits POLLIN events then process_recv k
     else if has_bits POLLOUT events then process_send k
     else ret ())"

definition client_process :: "(fd \<Rightarrow> bool) \<Rightarrow> (fd \<Rightarrow> bool) \<Rightarrow> unit act" where
  "client_process readable writable = foreach (gets client_list) (process_client readable writable)"

definition client_init :: "unit act" where
  "client_init = modify (\<lambda>w. w\<lparr>client_list := collection_init\<rparr>)"

definition client_shutdown :: "unit act" where
  "client_shutdown = seq (foreach (gets client_list) close_client) (\<lambda>_.
     modify (\<lambda>w. w\<lparr>client_list := collection_free (client_list w)\<rparr>))"

end
