(* ===== verification/Fuel.thy ===== *)
theory Fuel
  imports Mux_Conn
begin

text \<open>
  Operations that never run out of fuel: those without loops, and those whose loops have the bound in
  their definition. What is left for the loops proper is in the theories of their components.
\<close>

lemma find_slot_fuel: "find_slot h P ps \<noteq> Inl OutOfFuel"
  by (induction ps) (auto split: option.splits)

lemma fueled_env:
  "fueled api_ok" "fueled mstime64" "fueled (sys_send s bs)" "fueled (sys_recv s n)" "fueled (com_transfer_out u bs)"
  "fueled new_ptr" "fueled (find_in hp P col)"
  by (auto simp: fueled_def api_ok_def mstime64_def sys_send_def sys_recv_def com_transfer_out_def new_ptr_def
      find_in_def find_slot_fuel Let_def split: list.splits sum.splits)

lemmas fueled_rules = fueled_seq fueled_basic fueled_if fueled_option fueled_list fueled_env halt.distinct

lemma fueled_heap:
  "fueled (get_dev d)" "fueled (get_conn c)" "fueled (get_client k)" "fueled (get_usb u)" "fueled (get_buf p)"
  "fueled (set_dev d v)" "fueled (set_conn c v')" "fueled (set_client k v'')" "fueled (set_usb u v3)"
  "fueled (free_buf p)" "fueled (free_conn c)" "fueled (free_client k)" "fueled (closesocket s)"
  unfolding get_dev_def get_conn_def get_client_def get_usb_def get_buf_def set_dev_def set_conn_def
    set_client_def set_usb_def free_buf_def free_conn_def free_client_def closesocket_def
  by (intro fueled_rules; simp)+

lemma fueled_upd: "fueled (upd_dev d f)" "fueled (upd_conn c g)" "fueled (upd_client k h)" "fueled (upd_usb u i)"
  unfolding upd_dev_def upd_conn_def upd_client_def upd_usb_def by (intro fueled_rules fueled_heap)+

lemma fueled_alloc: "fueled (alloc_buf bs)"
  unfolding alloc_buf_def by (intro fueled_rules)

lemma fueled_usb:
  "fueled (GetTXQElement u b)" "fueled (ReUseTXQElement u e)" "fueled (finish_pending u e)" "fueled (usb_send u p n)"
proof -
  show g: "fueled (GetTXQElement u b)" for b
    unfolding GetTXQElement_def by (intro fueled_rules fueled_heap)
  show r: "fueled (ReUseTXQElement u e)" for e
    unfolding ReUseTXQElement_def by (intro fueled_rules fueled_heap fueled_upd)
  show f: "fueled (finish_pending u e)" for e
    unfolding finish_pending_def by (intro fueled_rules fueled_heap r)
  show "fueled (usb_send u p n)"
    unfolding usb_send_def Let_def
    by (auto intro!: fueled_rules fueled_heap g r f split: xfer_status.splits)
qed

lemma fueled_send: "fueled (send_packet dev proto header data)" "fueled (send_tcp conn flags bs)"
proof -
  show p: "fueled (send_packet dev proto header data)" for dev proto header data
    unfolding send_packet_def Let_def
    by (auto intro!: fueled_rules fueled_heap fueled_alloc fueled_usb split: prod.splits)
  show "fueled (send_tcp conn flags bs)"
    unfolding send_tcp_def by (intro fueled_rules fueled_heap fueled_upd p)
qed

lemma fueled_client: "fueled (client_notify_connect k r)" "fueled (client_write k bs)" "fueled (client_release k)"
  unfolding client_notify_connect_def send_result_def send_plist_pkt_def send_pkt_def client_write_def
    client_release_def Let_def
  by (intro fueled_rules fueled_heap fueled_upd)+

lemma fueled_conn: "fueled (teardown_rst conn)" "fueled (teardown_release conn)" "fueled (get_mux_connection i k)"
  unfolding teardown_rst_def teardown_release_def remove_connection_def get_connections_def
    get_mux_connection_def get_mux_device_for_id_def
  by (intro fueled_rules fueled_heap fueled_upd fueled_send)+

text \<open>Loops over a collection, and the events they send to the clients.\<close>

lemma fueled_foreach:
  assumes "\<And>x. fueled (body x)"
  shows "fueled (foreach (gets L) body)"
proof -
  have "fueled (foreach_from (gets L) body i n)" for i n
    by (induction n arbitrary: i) (auto intro!: fueled_rules assms)
  then show ?thesis unfolding foreach_def by (intro fueled_rules)
qed

lemma fueled_pkt: "fueled (send_pkt k tag msg bs)" "fueled (send_plist_pkt k tag p)"
  unfolding send_plist_pkt_def send_pkt_def Let_def by (intro fueled_rules fueled_heap)+

lemma fueled_pairing_event: "fueled (client_device_pairing_event info event validate)"
  unfolding client_device_pairing_event_def for_clients_def device_exists_def get_mux_device_for_id_def read_serial_def
    usb_get_serial_def
  by (intro fueled_rules fueled_foreach fueled_heap fueled_pkt)

end
