(* ===== verification/Teardown.thy ===== *)
theory Teardown
  imports Fuel
begin

text \<open>
  Closing connections and clients. The three mutually recursive functions \<open>connection_teardown\<close>,
  \<open>client_close\<close> and \<open>device_abort_connect\<close> mark an object dead before they call each other;
  the lemmas turn this into a bound of five calls and say what closing a client leaves when its
  connect request was just answered. What the teardown of an established connection does is in
  \<open>Closing\<close>.
\<close>

subsection \<open>What sending changes\<close>

text \<open>A packet changes the sequence numbers of a device and what transfers change.\<close>

definition same_dev :: "mux_device \<Rightarrow> mux_device \<Rightarrow> bool" where
  "same_dev v v' \<longleftrightarrow> v' = v\<lparr>dev_tx_seq := dev_tx_seq v', dev_rx_seq := dev_rx_seq v'\<rparr>"

definition pkt_frame :: "world \<Rightarrow> world \<Rightarrow> bool" where
  "pkt_frame w w' \<longleftrightarrow>
     conn_heap w' = conn_heap w \<and> client_heap w' = client_heap w \<and> device_list w' = device_list w \<and>
     client_list w' = client_list w \<and>
     (\<forall>d v. dev_heap w d = Some v \<longrightarrow> (\<exists>v'. dev_heap w' d = Some v' \<and> same_dev v v'))"

lemma same_dev_fields:
  assumes "same_dev v v'"
  shows "dev_connections v' = dev_connections v" "dev_state v' = dev_state v" "dev_id v' = dev_id v"
    "dev_usbdev v' = dev_usbdev v" "dev_version v' = dev_version v"
  using assms by (cases v; cases v'; simp add: same_dev_def)+

lemma same_dev_refl [simp]: "same_dev v v"
  by (simp add: same_dev_def)

lemma same_dev_trans: "same_dev u v \<Longrightarrow> same_dev v w \<Longrightarrow> same_dev u w"
  by (cases u; cases v; cases w) (simp add: same_dev_def)

interpretation pkt: frame_rel pkt_frame
proof
  fix u v w :: world
  show "pkt_frame w w" by (auto simp: pkt_frame_def)
  assume "pkt_frame u v" "pkt_frame v w"
  then show "pkt_frame u w"
    unfolding pkt_frame_def by (metis same_dev_trans)
qed

lemma tx_only_pkt: "keeps tx_only m \<Longrightarrow> keeps pkt_frame m"
  unfolding keeps_def by (auto simp: tx_only_def pkt_frame_def)

lemma pkt_get: "keeps pkt_frame (get_dev d)" "keeps pkt_frame (get_conn c)" "keeps pkt_frame (get_client k)"
  by (auto simp: keeps_def get_dev_def get_conn_def get_client_def seq_eq_Inr some_or_def pkt.frame_refl
      split: option.splits)

lemma packet_header_same: "packet_header proto n d = (h, d') \<Longrightarrow> same_dev d d'"
  by (cases d) (auto simp: packet_header_def reset_seq_def same_dev_def Let_def split: if_splits)

lemma pkt_set_dev:
  "dev_heap w d = Some v \<Longrightarrow> same_dev v v' \<Longrightarrow> set_dev d v' w = Inr (x, w') \<Longrightarrow> pkt_frame w w'"
  by (auto simp: set_dev_def pkt_frame_def)

lemma send_packet_frame: "keeps pkt_frame (send_packet dev proto header data)"
proof -
  have rest: "keeps pkt_frame (seq (buf_read 0 n header) (\<lambda>hdr. seq (alloc_buf (mhdr @ hdr @ data)) (\<lambda>buffer.
      seq (usb_send u buffer len) (\<lambda>res. if res < 0 then seq (free_buf buffer) (\<lambda>_. ret res) else ret (int len)))))"
    for n mhdr u len
    by (intro pkt.keeps_rules tx_only_pkt [OF tx_alloc_buf] tx_only_pkt [OF usb_send_tx_only]
        tx_only_pkt [OF tx_prims(5)])
  show ?thesis
    unfolding keeps_def
  proof (intro allI impI)
    fix w x w'
    assume run: "send_packet dev proto header data w = Inr (x, w')"
    then obtain v where v: "dev_heap w dev = Some v"
      by (cases "dev_heap w dev") (auto simp: send_packet_def seq_def get_dev_def)
    show "pkt_frame w w'"
    proof (cases "proto_hdrlen proto")
      case None
      with run v show ?thesis by (simp add: send_packet_def seq_Inr get_dev_run pkt.frame_refl)
    next
      case (Some n)
      let ?len = "mux_header_size v + n + length data"
      obtain h v' where h: "packet_header proto ?len v = (h, v')" by (cases "packet_header proto ?len v")
      show ?thesis
      proof (cases "?len > USB_MTU")
        case True
        with run v Some show ?thesis by (simp add: send_packet_def seq_Inr get_dev_run pkt.frame_refl)
      next
        case False
        then obtain w1 where "set_dev dev v' w = Inr ((), w1)"
          "seq (buf_read 0 n header) (\<lambda>hdr. seq (alloc_buf (h @ hdr @ data)) (\<lambda>buffer.
             seq (usb_send (dev_usbdev v) buffer ?len) (\<lambda>res.
             if res < 0 then seq (free_buf buffer) (\<lambda>_. ret res) else ret (int ?len)))) w1 = Inr (x, w')"
          using run v Some h by (auto simp: send_packet_def seq_Inr get_dev_run set_dev_def Let_def)
        then show ?thesis
          using pkt_set_dev [OF v packet_header_same [OF h]] keepsD [OF rest] pkt.frame_trans by blast
      qed
    qed
  qed
qed

text \<open>The fields of a connection that \<open>send_tcp\<close> leaves alone.\<close>

definition same_conn :: "mux_connection \<Rightarrow> mux_connection \<Rightarrow> bool" where
  "same_conn c c' \<longleftrightarrow> c' = c\<lparr>conn_tx_acked := conn_tx_acked c', conn_last_ack_time := conn_last_ack_time c',
     conn_flags := conn_flags c'\<rparr>"

lemma same_conn_refl [simp]: "same_conn c c"
  by (simp add: same_conn_def)

lemma same_conn_fields:
  assumes "same_conn c c'"
  shows "conn_dev c' = conn_dev c" "conn_client c' = conn_client c" "conn_state c' = conn_state c"
    "conn_ib_size c' = conn_ib_size c" "conn_ib_buf c' = conn_ib_buf c" "conn_events c' = conn_events c"
    "conn_tx_win c' = conn_tx_win c" "conn_ib_capacity c' = conn_ib_capacity c"
  using assms by (cases c; cases c'; simp add: same_conn_def)+

lemma send_tcp_effect:
  assumes "send_tcp conn flags data w = Inr (r, w')" "conn_heap w conn = Some c"
  shows "\<exists>c'. same_conn c c' \<and> conn_heap w' = (conn_heap w)(conn := Some c') \<and> client_heap w' = client_heap w \<and>
     device_list w' = device_list w \<and> client_list w' = client_list w \<and>
     (\<forall>d v. dev_heap w d = Some v \<longrightarrow> (\<exists>v'. dev_heap w' d = Some v' \<and> same_dev v v'))"
proof -
  obtain res w1 where p: "send_packet (conn_dev c) MUX_PROTO_TCP (tcphdr_bytes (conn_header c flags)) data w = Inr (res, w1)"
    using assms by (cases "send_packet (conn_dev c) MUX_PROTO_TCP (tcphdr_bytes (conn_header c flags)) data w")
      (auto simp: send_tcp_def seq_Inr get_conn_run seq_def)
  note f = keepsD [OF send_packet_frame p, unfolded pkt_frame_def]
  show ?thesis
  proof (cases "res \<ge> 0")
    case False
    then have "w' = w1"
      using assms p by (simp add: send_tcp_def seq_Inr get_conn_run)
    then show ?thesis
      using f assms(2) by (intro exI [of _ c]) (auto simp: fun_upd_idem)
  next
    case True
    obtain t w2 where t: "mstime64 w1 = Inr (t, w2)"
      by (cases "ticks (sys w1)") (auto simp: mstime64_def)
    have m: "conn_heap w2 = conn_heap w1" "client_heap w2 = client_heap w1" "device_list w2 = device_list w1"
      "client_list w2 = client_list w1" "dev_heap w2 = dev_heap w1"
      using t by (auto simp: mstime64_def split: list.splits)
    let ?c = "c\<lparr>conn_tx_acked := conn_tx_ack c, conn_last_ack_time := t,
                 conn_flags := conn_flags c AND NOT CONN_ACK_PENDING\<rparr>"
    have "w' = w2\<lparr>conn_heap := (conn_heap w2)(conn := Some ?c)\<rparr>"
      using assms p t m f True
      by (simp add: send_tcp_def seq_Inr get_conn_run upd_conn_run)
    then show ?thesis
      using f m by (intro exI [of _ ?c]) (auto simp: same_conn_def)
  qed
qed

subsection \<open>Flushing and closing\<close>

text \<open>The flush loop writes at least one byte per round.\<close>

lemma client_write_bound:
  assumes "client_write k bs w = Inr (r, w')"
  shows "nat r \<le> length bs" "conn_heap w' = conn_heap w" "client_heap w' = client_heap w" "dev_heap w' = dev_heap w"
    "device_list w' = device_list w" "client_list w' = client_list w"
  using assms
  by (auto simp: client_write_def sys_send_def get_client_def seq_eq_Inr some_or_def Let_def
      split: option.splits list.splits if_splits)

lemma ib_consume_size:
  assumes "n \<le> unat (conn_ib_size c)"
  shows "unat (conn_ib_size (ib_consume n c)) = unat (conn_ib_size c) - n"
proof (cases "n = unat (conn_ib_size c)")
  case False
  have "n < 2 ^ 32"
    using assms unsigned_less [of "conn_ib_size c", where ?'a = nat] by simp
  then have n: "unat (of_nat n :: u32) = n" by (simp add: unat_of_nat_small)
  then have "unat (conn_ib_size c - of_nat n) = unat (conn_ib_size c) - n"
    using assms unat_sub_small [of "of_nat n" "conn_ib_size c"] by (simp add: word_le_nat_alt)
  with False show ?thesis by (simp add: ib_consume_def Let_def)
qed (simp add: ib_consume_def)

lemma flush_fueled:
  assumes "conn_heap w conn = Some c" "unat (conn_ib_size c) < n"
  shows "teardown_flush n conn k w \<noteq> Inl OutOfFuel"
  using assms
proof (induction n arbitrary: w c)
  case 0
  then show ?case by simp
next
  case (Suc n)
  show ?case
    unfolding teardown_flush.simps
  proof (rule seq_fuel)
    show "get_conn conn w \<noteq> Inl OutOfFuel" using fueled_heap(2) by (auto simp: fueled_def)
    fix c' w1
    assume "get_conn conn w = Inr (c', w1)"
    then have c: "c' = c" "w1 = w" using Suc.prems(1) by (simp_all add: get_conn_run)
    show "seq (buf_read 0 (unat (conn_ib_size c')) (conn_ib_buf c')) (\<lambda>bs. seq (client_write k bs) (\<lambda>size.
        if size \<le> 0 then ret () else seq (set_conn conn (ib_consume (nat size) c')) (\<lambda>_.
        if nat size = unat (conn_ib_size c') then ret () else teardown_flush n conn k))) w1 \<noteq> Inl OutOfFuel"
      unfolding c
    proof (rule seq_fuel)
      show "buf_read 0 (unat (conn_ib_size c)) (conn_ib_buf c) w \<noteq> Inl OutOfFuel" by (simp add: buf_read_def)
      fix bs w2
      assume rd: "buf_read 0 (unat (conn_ib_size c)) (conn_ib_buf c) w = Inr (bs, w2)"
      then have bs: "length bs = unat (conn_ib_size c)" "w2 = w"
        by (auto simp: buf_read_def split: if_splits)
      show "seq (client_write k bs) (\<lambda>size. if size \<le> 0 then ret () else seq (set_conn conn (ib_consume (nat size) c))
          (\<lambda>_. if nat size = unat (conn_ib_size c) then ret () else teardown_flush n conn k)) w2 \<noteq> Inl OutOfFuel"
      proof (rule seq_fuel)
        show "client_write k bs w2 \<noteq> Inl OutOfFuel" using fueled_client(2) by (auto simp: fueled_def)
        fix r w3
        assume cw: "client_write k bs w2 = Inr (r, w3)"
        note b = client_write_bound [OF cw]
        let ?c = "ib_consume (nat r) c"
        let ?w = "w3\<lparr>conn_heap := (conn_heap w3)(conn := Some ?c)\<rparr>"
        have "teardown_flush n conn k ?w \<noteq> Inl OutOfFuel" if "r > 0"
          using Suc.IH [of ?w ?c] that b(1) bs ib_consume_size [of "nat r" c] Suc.prems(2) by simp
        then show "(if r \<le> 0 then ret () else seq (set_conn conn ?c)
            (\<lambda>_. if nat r = unat (conn_ib_size c) then ret () else teardown_flush n conn k)) w3 \<noteq> Inl OutOfFuel"
          by (auto simp: set_conn_def)
      qed
    qed
  qed
qed

lemma flush_frame:
  assumes "teardown_flush n conn k w = Inr (x, w')" "conn_heap w conn = Some c"
  shows "\<exists>b s. conn_heap w' = (conn_heap w)(conn := Some (c\<lparr>conn_ib_buf := b, conn_ib_size := s\<rparr>)) \<and>
     client_heap w' = client_heap w \<and> dev_heap w' = dev_heap w \<and> device_list w' = device_list w \<and>
     client_list w' = client_list w"
  using assms
proof (induction n arbitrary: w c)
  case 0
  then show ?case by simp
next
  case (Suc n)
  from Suc.prems obtain bs r w3 where rd: "buf_read 0 (unat (conn_ib_size c)) (conn_ib_buf c) w = Inr (bs, w)"
    and cw: "client_write k bs w = Inr (r, w3)"
    by (auto simp: seq_eq_Inr get_conn_run buf_read_def split: if_splits)
  note b = client_write_bound [OF cw]
  let ?c = "ib_consume (nat r) c"
  let ?w = "w3\<lparr>conn_heap := (conn_heap w3)(conn := Some ?c)\<rparr>"
  have "\<exists>b s. ?c = c\<lparr>conn_ib_buf := b, conn_ib_size := s\<rparr>"
    by (cases c) (auto simp: ib_consume_def Let_def)
  then obtain b1 s1 where shape: "?c = c\<lparr>conn_ib_buf := b1, conn_ib_size := s1\<rparr>" by blast
  consider "r \<le> 0" "w' = w3" | "r > 0" "w' = ?w" | "r > 0" "teardown_flush n conn k ?w = Inr (x, w')"
    using Suc.prems rd cw
    by (auto simp: seq_Inr get_conn_run set_conn_def split: if_splits)
  then show ?case
  proof cases
    case 1
    then show ?thesis
      using b Suc.prems(2) by (intro exI [of _ "conn_ib_buf c"] exI [of _ "conn_ib_size c"]) (auto simp: fun_upd_idem)
  next
    case 2
    then show ?thesis
      using b by (intro exI [of _ b1] exI [of _ s1]) (simp add: shape)
  next
    case 3
    have "conn_heap ?w conn = Some ?c" by simp
    from Suc.IH [OF 3(2) this] show ?thesis
    proof (elim exE conjE)
      fix b2 s2
      assume "conn_heap w' = (conn_heap ?w)(conn := Some (?c\<lparr>conn_ib_buf := b2, conn_ib_size := s2\<rparr>))"
        "client_heap w' = client_heap ?w" "dev_heap w' = dev_heap ?w" "device_list w' = device_list ?w"
        "client_list w' = client_list ?w"
      then show ?thesis
        using b by (intro exI [of _ b2] exI [of _ s2]) (simp add: shape fun_upd_def cong: if_cong)
    qed
  qed
qed

subsection \<open>Five calls are enough\<close>

definition connecting :: "client_state \<Rightarrow> bool" where
  "connecting s \<longleftrightarrow> s = CLIENT_CONNECTING1 \<or> s = CLIENT_CONNECTING2"

lemma client_release_fuel: "client_release k w \<noteq> Inl OutOfFuel"
  using fueled_client(3) by (simp add: fueled_def)

lemma teardown_rst_frame: "teardown_rst conn w = Inr (x, w') \<Longrightarrow> client_heap w' = client_heap w"
proof -
  have "keeps pkt_frame (send_tcp conn TH_RST []) \<Longrightarrow> keeps pkt_frame (teardown_rst conn)"
    unfolding teardown_rst_def by (intro pkt.keeps_rules pkt_get)
  show "teardown_rst conn w = Inr (x, w') \<Longrightarrow> client_heap w' = client_heap w"
    using send_tcp_effect
    by (fastforce simp: teardown_rst_def seq_eq_Inr get_conn_def get_dev_def some_or_def
        split: option.splits if_splits)
qed

text \<open>Only the call of \<open>client_close\<close> can use up the fuel of \<open>connection_teardown\<close>.\<close>

lemma teardown_fuel_step:
  assumes "\<And>c k w1. conn_heap w conn = Some c \<Longrightarrow> conn_client c = Some k \<Longrightarrow>
      client_heap w1 = client_heap w \<Longrightarrow> client_close n k w1 \<noteq> Inl OutOfFuel"
  shows "connection_teardown (Suc n) conn w \<noteq> Inl OutOfFuel"
proof (cases "conn_heap w conn")
  case None
  then show ?thesis by (simp add: seq_Inl get_conn_run)
next
  case (Some c)
  note dead = fueled_def [THEN iffD1, rule_format]
  have rest: "seq (case conn_client c of None \<Rightarrow> ret ()
       | Some k \<Rightarrow> if conn_state c = CONN_REFUSED \<or> conn_state c = CONN_CONNECTING
           then seq (client_notify_connect k RESULT_CONNREFUSED) (\<lambda>_. ret ())
           else seq (upd_conn conn (\<lambda>c. c\<lparr>conn_state := CONN_DEAD\<rparr>)) (\<lambda>_.
                seq (if has_bits POLLOUT (conn_events c) \<and> conn_ib_size c > 0
                     then teardown_flush (Suc (unat (conn_ib_size c))) conn k else ret ()) (\<lambda>_.
                client_close n k))) (\<lambda>_. teardown_release conn) w1 \<noteq> Inl OutOfFuel"
    if rst: "teardown_rst conn w = Inr ((), w1)" for w1
  proof (rule seq_fuel)
    show "teardown_release conn w2 \<noteq> Inl OutOfFuel" for w2 using dead [OF fueled_conn(2)] .
    have same: "\<exists>c'. conn_heap w1 conn = Some c' \<and> conn_ib_size c' = conn_ib_size c"
      using rst Some send_tcp_effect
      by (fastforce simp: teardown_rst_def seq_eq_Inr get_conn_run get_dev_def some_or_def same_conn_fields
          split: option.splits if_splits)
    then obtain c1 where c1: "conn_heap w1 conn = Some c1" "conn_ib_size c1 = conn_ib_size c" by blast
    note cl = teardown_rst_frame [OF rst]
    let ?c2 = "c1\<lparr>conn_state := CONN_DEAD\<rparr>"
    let ?w2 = "w1\<lparr>conn_heap := (conn_heap w1)(conn := Some ?c2)\<rparr>"
    show "(case conn_client c of None \<Rightarrow> ret ()
       | Some k \<Rightarrow> if conn_state c = CONN_REFUSED \<or> conn_state c = CONN_CONNECTING
           then seq (client_notify_connect k RESULT_CONNREFUSED) (\<lambda>_. ret ())
           else seq (upd_conn conn (\<lambda>c. c\<lparr>conn_state := CONN_DEAD\<rparr>)) (\<lambda>_.
                seq (if has_bits POLLOUT (conn_events c) \<and> conn_ib_size c > 0
                     then teardown_flush (Suc (unat (conn_ib_size c))) conn k else ret ()) (\<lambda>_.
                client_close n k))) w1 \<noteq> Inl OutOfFuel"
    proof (cases "conn_client c")
      case None
      then show ?thesis by simp
    next
      case k: (Some k)
      have notify: "seq (client_notify_connect k RESULT_CONNREFUSED) (\<lambda>_. ret ()) w1 \<noteq> Inl OutOfFuel"
        by (rule dead, intro fueled_seq fueled_client fueled_basic)
      have "seq (if has_bits POLLOUT (conn_events c) \<and> conn_ib_size c > 0
                 then teardown_flush (Suc (unat (conn_ib_size c))) conn k else ret ()) (\<lambda>_. client_close n k) ?w2
            \<noteq> Inl OutOfFuel"
      proof (rule seq_fuel)
        show "(if has_bits POLLOUT (conn_events c) \<and> conn_ib_size c > 0
            then teardown_flush (Suc (unat (conn_ib_size c))) conn k else ret ()) ?w2 \<noteq> Inl OutOfFuel"
          using flush_fueled [of ?w2 conn ?c2 "Suc (unat (conn_ib_size c))" k] c1(2) by simp
        fix x w3
        assume "(if has_bits POLLOUT (conn_events c) \<and> conn_ib_size c > 0
            then teardown_flush (Suc (unat (conn_ib_size c))) conn k else ret ()) ?w2 = Inr (x, w3)"
        then have "client_heap w3 = client_heap w1"
          using flush_frame [of "Suc (unat (conn_ib_size c))" conn k ?w2 x w3 ?c2] by (auto split: if_splits)
        then show "client_close n k w3 \<noteq> Inl OutOfFuel"
          using assms [OF Some k] cl by simp
      qed
      with k notify c1(1) show ?thesis by (simp add: seq_Inr upd_conn_run)
    qed
  qed
  show ?thesis
  proof (cases "conn_state c = CONN_DEAD")
    case True
    then show ?thesis using Some by (simp add: seq_Inr get_conn_run)
  next
    case False
    have run: "connection_teardown (Suc n) conn w = seq (teardown_rst conn) (\<lambda>_.
        seq (case conn_client c of None \<Rightarrow> ret ()
       | Some k \<Rightarrow> if conn_state c = CONN_REFUSED \<or> conn_state c = CONN_CONNECTING
           then seq (client_notify_connect k RESULT_CONNREFUSED) (\<lambda>_. ret ())
           else seq (upd_conn conn (\<lambda>c. c\<lparr>conn_state := CONN_DEAD\<rparr>)) (\<lambda>_.
                seq (if has_bits POLLOUT (conn_events c) \<and> conn_ib_size c > 0
                     then teardown_flush (Suc (unat (conn_ib_size c))) conn k else ret ()) (\<lambda>_.
                client_close n k))) (\<lambda>_. teardown_release conn)) w"
      using Some False by (simp add: seq_Inr get_conn_run)
    show ?thesis
      unfolding run by (rule seq_fuel [OF dead [OF fueled_conn(1)]]) (simp add: rest)
  qed
qed

text \<open>
  A client that is not connecting is closed without a nested call; so a connection of such a
  client needs two calls, an aborted connect three, closing a connecting client four and tearing
  down the connection of a connecting client five.
\<close>

lemma client_close_fuel1:
  assumes "\<And>c. client_heap w k = Some c \<Longrightarrow> \<not> connecting (cl_state c)"
  shows "client_close (Suc n) k w \<noteq> Inl OutOfFuel"
  using assms client_release_fuel
  by (cases "client_heap w k") (auto simp: seq_Inl seq_Inr get_client_run connecting_def)

lemma teardown_fuel2:
  assumes "\<And>c k v. conn_heap w conn = Some c \<Longrightarrow> conn_client c = Some k \<Longrightarrow> client_heap w k = Some v \<Longrightarrow>
      \<not> connecting (cl_state v)"
  shows "connection_teardown (Suc (Suc n)) conn w \<noteq> Inl OutOfFuel"
  by (rule teardown_fuel_step, rule client_close_fuel1) (metis assms)

lemma find_in_result:
  assumes "find_in hp P col w = Inr (r, w')"
  shows "w' = w" "r = Some p \<Longrightarrow> p \<in> set (elems col) \<and> (\<exists>v. hp w p = Some v \<and> P v)"
  using assms find_slot_Some [of "hp w" P "elems col" p]
  by (auto simp: find_in_run split: sum.splits)

lemma get_mux_connection_result:
  assumes "get_mux_connection i k w = Inr (r, w')"
  shows "w' = w" "r = Some conn \<Longrightarrow> \<exists>c. conn_heap w conn = Some c \<and> conn_client c = Some k"
proof -
  obtain d where d: "get_mux_device_for_id i w = Inr (d, w)"
    using assms by (auto simp: get_mux_connection_def seq_eq_Inr get_mux_device_for_id_run split: sum.splits)
  have "w' = w \<and> (r = Some conn \<longrightarrow> (\<exists>c. conn_heap w conn = Some c \<and> conn_client c = Some k))"
  proof (cases d)
    case None
    then show ?thesis using assms d by (simp add: get_mux_connection_def seq_Inr)
  next
    case (Some dev)
    then have g: "seq (get_connections dev) (\<lambda>col. find_in conn_heap (\<lambda>c. conn_client c = Some k) col) w = Inr (r, w')"
      using assms d by (simp add: get_mux_connection_def seq_Inr)
    then obtain col w1 where "get_connections dev w = Inr (col, w1)"
      "find_in conn_heap (\<lambda>c. conn_client c = Some k) col w1 = Inr (r, w')"
      unfolding seq_eq_Inr by blast
    moreover from this(1) have "w1 = w"
      by (cases "dev_heap w dev")
        (auto simp: get_connections_def seq_eq_Inr get_dev_def some_or_def split: option.splits)
    ultimately have fi: "find_in conn_heap (\<lambda>c. conn_client c = Some k) col w = Inr (r, w')" by simp
    show ?thesis using find_in_result(1) [OF fi] find_in_result(2) [OF fi, of conn] by simp
  qed
  then show "w' = w" "r = Some conn \<Longrightarrow> \<exists>c. conn_heap w conn = Some c \<and> conn_client c = Some k" by auto
qed

lemma abort_fuel3:
  assumes "\<And>v. client_heap w k = Some v \<Longrightarrow> \<not> connecting (cl_state v)"
  shows "device_abort_connect (Suc (Suc (Suc n))) i k w \<noteq> Inl OutOfFuel"
proof -
  have "(case r of None \<Rightarrow> ret () | Some conn \<Rightarrow> connection_teardown (Suc (Suc n)) conn) w' \<noteq> Inl OutOfFuel"
    if g: "get_mux_connection i k w = Inr (r, w')" for r w'
  proof (cases r)
    case (Some conn)
    have "connection_teardown (Suc (Suc n)) conn w \<noteq> Inl OutOfFuel"
      using get_mux_connection_result [OF g] Some assms by (intro teardown_fuel2) force
    then show ?thesis
      using Some get_mux_connection_result(1) [OF g] by (simp del: connection_teardown.simps)
  qed simp
  then show ?thesis
    unfolding device_abort_connect.simps
    using fueled_conn(3) by (intro seq_fuel) (auto simp: fueled_def)
qed

lemma client_close_fuel4: "client_close (Suc (Suc (Suc (Suc n)))) k w \<noteq> Inl OutOfFuel"
proof (cases "client_heap w k")
  case None
  then show ?thesis by (simp add: seq_Inl get_client_run)
next
  case (Some c)
  let ?w = "w\<lparr>client_heap := (client_heap w)(k := Some (c\<lparr>cl_state := CLIENT_DEAD\<rparr>))\<rparr>"
  have ab: "device_abort_connect (Suc (Suc (Suc n))) i k ?w \<noteq> Inl OutOfFuel" for i
    by (rule abort_fuel3) (simp add: connecting_def)
  have "client_close (Suc (Suc (Suc (Suc n)))) k w =
      seq (if connecting (cl_state c) then seq (set_client k (c\<lparr>cl_state := CLIENT_DEAD\<rparr>)) (\<lambda>_.
           device_abort_connect (Suc (Suc (Suc n))) (cl_connect_device c) k) else ret ())
       (\<lambda>_. client_release k) w"
    using Some by (subst client_close.simps(2)) (simp add: seq_Inr get_client_run connecting_def)
  also have "\<dots> \<noteq> Inl OutOfFuel"
    using ab by (intro seq_fuel client_release_fuel) (simp add: set_client_def del: device_abort_connect.simps)
  finally show ?thesis .
qed

lemma teardown_fuel5: "connection_teardown (Suc (Suc (Suc (Suc (Suc n))))) conn w \<noteq> Inl OutOfFuel"
  by (rule teardown_fuel_step, rule client_close_fuel4)

text \<open>C13: No chain of calls between \<open>connection_teardown\<close>, \<open>client_close\<close> and
  \<open>device_abort_connect\<close> is deeper than the model allows for, in any state of the program: the
  recursion through the three functions always ends.\<close>

theorem teardown_terminates:
  "teardown conn w \<noteq> Inl OutOfFuel \<and> close_client k w \<noteq> Inl OutOfFuel"
proof
  have f: "TEARDOWN_FUEL = Suc (Suc (Suc (Suc (Suc 3))))" "TEARDOWN_FUEL = Suc (Suc (Suc (Suc 4)))"
    by (simp_all add: TEARDOWN_FUEL_def)
  show "teardown conn w \<noteq> Inl OutOfFuel" unfolding f(1) by (rule teardown_fuel5)
  show "close_client k w \<noteq> Inl OutOfFuel" unfolding f(2) by (rule client_close_fuel4)
qed

subsection \<open>The bytes a client receives\<close>

text \<open>All bytes written to a socket, the bytes buffered for a client, and a buffer inside its bounds.\<close>

definition sent_on :: "fd \<Rightarrow> world \<Rightarrow> bytes" where
  "sent_on s w = concat (map snd (filter (\<lambda>e. fst e = s) (sock_out (sys w))))"

definition ib_pending :: "mux_connection \<Rightarrow> bytes" where
  "ib_pending c = take (unat (conn_ib_size c)) (conn_ib_buf c)"

definition ib_ok :: "mux_connection \<Rightarrow> bool" where
  "ib_ok c \<longleftrightarrow> unat (conn_ib_size c) \<le> length (conn_ib_buf c)"

lemma client_write_run:
  assumes "client_heap w k = Some v"
  shows "\<exists>r s. client_write k bs w = Inr (r, w\<lparr>sys := s\<rparr>) \<and> nat r \<le> length bs \<and>
     sent_on (cl_fd v) (w\<lparr>sys := s\<rparr>) = sent_on (cl_fd v) w @ take (nat r) bs \<and>
     closed_socks s = closed_socks (sys w)"
proof -
  have idle: "w = w\<lparr>sys := sys w\<rparr>" by simp
  show ?thesis
  proof (cases "cl_state v = CLIENT_CONNECTED")
    case False
    then have "client_write k bs w = Inr (-1, w)"
      using assms by (simp add: client_write_def seq_Inr get_client_run)
    then show ?thesis by (intro exI [of _ "-1"] exI [of _ "sys w"]) simp
  next
    case True
    then have run: "client_write k bs w = sys_send (cl_fd v) bs w"
      using assms by (simp add: client_write_def seq_Inr get_client_run)
    show ?thesis
    proof (cases "sends (sys w)")
      case Nil
      then show ?thesis
        unfolding run
        by (intro exI [of _ "int (length bs)"]
              exI [of _ "(sys w)\<lparr>sock_out := sock_out (sys w) @ [(cl_fd v, bs)]\<rparr>"])
          (simp add: sys_send_def sent_on_def)
    next
      case (Cons r rs)
      show ?thesis
      proof (cases "r < 0")
        case True
        then show ?thesis
          unfolding run
          by (intro exI [of _ "-1"] exI [of _ "(sys w)\<lparr>sends := rs\<rparr>"])
            (simp add: Cons sys_send_def sent_on_def)
      next
        case False
        let ?n = "min (nat r) (length bs)"
        show ?thesis
          unfolding run using False
          by (intro exI [of _ "int ?n"]
                exI [of _ "(sys w)\<lparr>sends := rs, sock_out := sock_out (sys w) @ [(cl_fd v, take ?n bs)]\<rparr>"])
            (simp add: Cons sys_send_def sent_on_def Let_def)
      qed
    qed
  qed
qed

lemma ib_consume_pending:
  assumes "ib_ok c" "n \<le> unat (conn_ib_size c)"
  shows "ib_ok (ib_consume n c)" "ib_pending (ib_consume n c) = drop n (ib_pending c)"
proof -
  have s: "unat (conn_ib_size (ib_consume n c)) = unat (conn_ib_size c) - n"
    by (rule ib_consume_size [OF assms(2)])
  have len: "unat (conn_ib_size c) \<le> length (conn_ib_buf c)" using assms(1) by (simp add: ib_ok_def)
  show "ib_ok (ib_consume n c)" "ib_pending (ib_consume n c) = drop n (ib_pending c)"
    using s len assms(2)
    by (auto simp: ib_ok_def ib_pending_def ib_consume_def Let_def buf_put_zero min_def drop_take)
qed

lemma length_ib_pending: "ib_ok c \<Longrightarrow> length (ib_pending c) = unat (conn_ib_size c)"
  by (simp add: ib_ok_def ib_pending_def)

lemma read_ib_pending [prog]: "ib_ok c \<Longrightarrow> buf_read 0 (unat (conn_ib_size c)) (conn_ib_buf c) w = Inr (ib_pending c, w)"
  by (simp add: buf_read_def ib_ok_def ib_pending_def)

lemma ib_consume_fields:
  "conn_client (ib_consume n c) = conn_client c" "conn_dev (ib_consume n c) = conn_dev c"
  "conn_state (ib_consume n c) = conn_state c" "conn_events (ib_consume n c) = conn_events c"
  by (simp_all add: ib_consume_def Let_def)

lemma conn_heap_idem: "conn_heap w p = Some c \<Longrightarrow> w\<lparr>conn_heap := (conn_heap w)(p := Some c), sys := s\<rparr> = w\<lparr>sys := s\<rparr>"
  by (cases w) (simp add: fun_upd_idem)

subsection \<open>Closing a client whose connect was just answered\<close>

lemma client_close_gone: "client_close n k w = Inr (x, w') \<Longrightarrow> client_heap w' k = None"
  by (cases n) (auto simp: seq_eq_Inr client_release_def free_client_def split: if_splits)

lemma teardown_release_frame: "teardown_release conn w = Inr (x, w') \<Longrightarrow> client_heap w' = client_heap w"
  by (auto simp: teardown_release_def remove_connection_def get_connections_def seq_eq_Inr upd_dev_def
      set_dev_def get_dev_def get_conn_def some_or_def free_conn_def split: option.splits if_splits)

text \<open>
  C27: A client whose connect request was answered but whose answer is not sent yet
  (\<open>CLIENT_CONNECTING2\<close>) is on an established connection. \<open>client_close\<close> on it aborts that
  connection, whose teardown closes and frees the same client; the outer call goes on using it. So
  closing such a client never returns normally.
\<close>

theorem close_answered_client:
  assumes "client_heap w k = Some v" "connecting (cl_state v)"
    and "get_mux_connection (cl_connect_device v) k w = Inr (Some conn, w)"
    and "conn_heap w conn = Some c"
    and "conn_state c = CONN_CONNECTED \<or> conn_state c = CONN_DYING"
  shows "\<exists>h. close_client k w = Inl h \<and> h \<noteq> OutOfFuel"
proof -
  let ?w = "w\<lparr>client_heap := (client_heap w)(k := Some (v\<lparr>cl_state := CLIENT_DEAD\<rparr>))\<rparr>"
  have look: "get_mux_connection (cl_connect_device v) k ?w = Inr (Some conn, ?w)"
    using assms(3)
    by (auto simp: get_mux_connection_def get_mux_device_for_id_run find_in_run get_connections_def seq_def
        get_dev_def some_or_def split: sum.splits option.splits)
  have "conn_client c = Some k"
    using get_mux_connection_result(2) [OF assms(3)] assms(4) by fastforce
  have gone: "client_heap w' k = None" if td: "connection_teardown (Suc 5) conn ?w = Inr ((), w')" for w'
  proof -
    obtain w1 w2 where "client_close 5 k w1 = Inr ((), w2)" "teardown_release conn w2 = Inr ((), w')"
      using td [unfolded connection_teardown.simps] assms(4,5) \<open>conn_client c = Some k\<close>
      by (auto simp: seq_eq_Inr get_conn_run simp del: client_close.simps split: if_splits)
    then show ?thesis using client_close_gone teardown_release_frame by metis
  qed
  have ab: "device_abort_connect (Suc (Suc 5)) (cl_connect_device v) k ?w = connection_teardown (Suc 5) conn ?w"
    unfolding device_abort_connect.simps using look by (simp add: seq_Inr del: connection_teardown.simps)
  have f: "TEARDOWN_FUEL = Suc (Suc (Suc 5))" by (simp add: TEARDOWN_FUEL_def)
  have run: "close_client k w = seq (connection_teardown (Suc 5) conn) (\<lambda>_. client_release k) ?w"
    unfolding f client_close.simps
    using assms(1,2) ab
    by (simp add: seq_Inr get_client_run connecting_def set_client_def seq_def
        del: device_abort_connect.simps connection_teardown.simps)
  show ?thesis
  proof (cases "connection_teardown (Suc 5) conn ?w")
    case (Inl h)
    then show ?thesis
      using run client_close_fuel4 [of 4 k w] by (auto simp: seq_Inl TEARDOWN_FUEL_def eval_nat_numeral
          simp del: connection_teardown.simps client_close.simps)
  next
    case (Inr r)
    then have "connection_teardown (Suc 5) conn ?w = Inr ((), snd r)" by (cases r) simp
    then have "close_client k w = Inl UseAfterFree"
      using run gone by (simp add: seq_Inr client_release_def seq_Inl get_client_run del: connection_teardown.simps)
    then show ?thesis by simp
  qed
qed

theorem close_answered_client_witness:
  "\<exists>h. close_client 20 (link_world (idle_device MUXDEV_ACTIVE [40]) (idle_conn CONN_CONNECTED [])
      (idle_client CLIENT_CONNECTING2)) = Inl h \<and> h \<noteq> OutOfFuel"
  by (rule close_answered_client [where conn = 40 and v = "idle_client CLIENT_CONNECTING2" and
      c = "idle_conn CONN_CONNECTED []"])
    (simp_all add: connecting_def idle_defs get_mux_connection_def get_mux_device_for_id_run find_in_run seq_Inr
      get_connections_run)

end
