(* ===== verification/Client_Io.thy ===== *)
theory Client_Io
  imports Client Teardown
begin

text \<open>
  The streams between a client and the daemon (\<open>process_send\<close>, \<open>process_recv\<close>, \<open>send_pkt\<close> of client.cpp):
  replies reach the client whole and in order, whatever the socket accepts at a time, and a command is
  run when, and only when, its last byte has arrived, on exactly the bytes the client sent, however
  they were cut into pieces.
\<close>

subsection \<open>Replies\<close>

text \<open>A client that may be sent replies, or has become a data connection with nothing left to send.\<close>

definition ob_ok :: "mux_client \<Rightarrow> bool" where
  "ob_ok c \<longleftrightarrow> ob_wf c \<or> cl_ob_size c = 0"

lemma queued_empty: "cl_ob_size c = 0 \<Longrightarrow> queued c = []"
  by (simp add: queued_def)

lemma queued_length: "ob_wf c \<Longrightarrow> length (queued c) = unat (cl_ob_size c)"
  by (auto simp: ob_wf_def queued_def)

lemma sent_queued:
  assumes "ob_wf c" "n \<le> unat (cl_ob_size c)" "0 < unat (cl_ob_size c)"
  shows "queued (sent n c) = drop n (queued c)" "ob_ok (sent n c)" "cl_fd (sent n c) = cl_fd c"
proof -
  obtain b where b: "cl_ob_buf c = Some b" "unat (cl_ob_size c) \<le> length b" "length b \<le> unat (cl_ob_capacity c)"
    using assms(1) by (auto simp: ob_wf_def)
  let ?s = "unat (cl_ob_size c)"
  have n: "unat (cl_ob_size c - of_nat n) = ?s - n"
  proof -
    have "n < 2 ^ 32" using assms(2) unsigned_less [of "cl_ob_size c", where ?'a = nat] by simp
    then have "unat (of_nat n :: u32) = n" by (simp add: unat_of_nat_small)
    then show ?thesis using assms(2) unat_sub_small [of "of_nat n" "cl_ob_size c"] by (simp add: word_le_nat_alt)
  qed
  let ?rest = "take (?s - n) (drop n b)"
  have put: "take (?s - n) (buf_put 0 ?rest b) = ?rest" "length (buf_put 0 ?rest b) = length b"
    using b(2) by (simp_all add: buf_put_def)
  show "queued (sent n c) = drop n (queued c)"
    using b put n assms(2) by (auto simp: sent_def queued_def Let_def drop_take)
  show "cl_fd (sent n c) = cl_fd c" by (simp add: sent_def Let_def)
  show "ob_ok (sent n c)"
    using b put n by (auto simp: sent_def ob_ok_def ob_wf_def Let_def)
qed

lemma sys_send_runs:
  assumes "sys_send s bs w = Inr (r, w')" "r > 0"
  shows "nat r \<le> length bs" "sent_on s w' = sent_on s w @ take (nat r) bs" "client_heap w' = client_heap w"
  using assms by (auto simp: sys_send_def sent_on_def Let_def split: list.splits if_splits)

lemma process_send_step:
  assumes "process_send k w = Inr ((), w')" "client_heap w k = Some c" "ob_ok c" "client_heap w' k = Some c'"
  shows "sent_on (cl_fd c) w' @ queued c' = sent_on (cl_fd c) w @ queued c" "ob_ok c'" "cl_fd c' = cl_fd c"
proof -
  have "sent_on (cl_fd c) w' @ queued c' = sent_on (cl_fd c) w @ queued c \<and> ob_ok c' \<and> cl_fd c' = cl_fd c"
  proof (cases "cl_ob_size c = 0")
    case True
    then show ?thesis using assms
      by (auto simp: process_send_def seq_Inr get_client_run set_client_def queued_empty ob_ok_def sent_on_def)
  next
    case False
    then have wf: "ob_wf c" "0 < unat (cl_ob_size c)" using assms(3) by (auto simp: ob_ok_def unat_gt_0)
    then obtain b where b: "cl_ob_buf c = Some b" "unat (cl_ob_size c) \<le> length b" by (auto simp: ob_wf_def)
    have q: "buf_read 0 (unat (cl_ob_size c)) b x = Inr (queued c, x)" for x :: world
      using b by (simp add: buf_read_def queued_def)
    obtain r w1 where r: "sys_send (cl_fd c) (queued c) w = Inr (r, w1)"
      "(if r \<le> 0 then close_client k else set_client k (sent (nat r) c)) w1 = Inr ((), w')"
      using assms(1,2) False b q by (auto simp: process_send_def seq_Inr get_client_run seq_eq_Inr)
    have pos: "r > 0"
    proof (rule ccontr)
      assume "\<not> r > 0"
      then have "close_client k w1 = Inr ((), w')" using r(2) by simp
      then have "client_heap w' k = None" by (rule client_close_gone)
      with assms(4) show False by simp
    qed
    note s = sys_send_runs [OF r(1) pos]
    have n: "nat r \<le> unat (cl_ob_size c)" using s(1) queued_length [OF wf(1)] by simp
    have w': "w' = w1\<lparr>client_heap := (client_heap w1)(k := Some (sent (nat r) c))\<rparr>" using r(2) pos by (simp add: set_client_def)
    then have c': "c' = sent (nat r) c" using assms(4) by simp
    have "sent_on (cl_fd c) w' = sent_on (cl_fd c) w1" by (simp add: w' sent_on_def)
    then show ?thesis using s(2) sent_queued [OF wf(1) n wf(2)] by (simp add: c')
  qed
  then show "sent_on (cl_fd c) w' @ queued c' = sent_on (cl_fd c) w @ queued c" "ob_ok c'" "cl_fd c' = cl_fd c" by auto
qed

text \<open>
  The output of one client as a step relation: the state is the world and the packets queued so far.
  A packet is queued, or the socket takes some of what is queued.
\<close>

inductive reply_step :: "ptr \<Rightarrow> world \<times> bytes list \<Rightarrow> world \<times> bytes list \<Rightarrow> bool" for k where
  queue: "send_pkt k tag msg payload w = Inr (r, w') \<Longrightarrow> r \<ge> 0 \<Longrightarrow> client_heap w k = Some c \<Longrightarrow> ob_wf c \<Longrightarrow> ob_room c payload \<Longrightarrow>
     reply_step k (w, ps) (w', ps @ [packet c tag msg payload])"
| refuse: "send_pkt k tag msg payload w = Inr (r, w') \<Longrightarrow> r < 0 \<Longrightarrow> client_heap w k = Some c \<Longrightarrow> ob_wf c \<Longrightarrow> ob_room c payload \<Longrightarrow>
     reply_step k (w, ps) (w', ps)"
| flush: "process_send k w = Inr ((), w') \<Longrightarrow> client_heap w' k \<noteq> None \<Longrightarrow> reply_step k (w, ps) (w', ps)"

inductive_cases reply_stepE: "reply_step k x y"

definition reply_inv :: "ptr \<Rightarrow> fd \<Rightarrow> bytes \<Rightarrow> world \<times> bytes list \<Rightarrow> bool" where
  "reply_inv k s before x \<longleftrightarrow> (\<exists>c. client_heap (fst x) k = Some c \<and> cl_fd c = s \<and> ob_ok c \<and>
     sent_on s (fst x) @ queued c = before @ concat (snd x))"

lemma pkt_queued_fields: "pkt_queued c p c' \<Longrightarrow> cl_fd c' = cl_fd c"
  unfolding pkt_queued_def by (metis mux_client.select_convs(1) mux_client.surjective mux_client.update_convs(2-4,8))

lemma reply_inv_step:
  assumes "reply_step k x y" "reply_inv k s before x"
  shows "reply_inv k s before y"
  using assms(1)
proof (cases rule: reply_step.cases)
  case (queue tag msg payload w r w' c ps)
  then have c: "cl_fd c = s" "sent_on s w @ queued c = before @ concat ps"
    using assms(2) by (auto simp: reply_inv_def)
  obtain c' where c': "only_clients w w'" "client_heap w' = (client_heap w)(k := Some c')" "pkt_queued c (packet c tag msg payload) c'"
    using send_pkt_run [OF queue(5-7), of tag msg] queue(3,4) by auto
  have "cl_fd c' = cl_fd c" by (rule pkt_queued_fields [OF c'(3)])
  moreover have "sent_on s w' = sent_on s w" using only_clients_fields(9) [OF c'(1)] by (simp add: sent_on_def)
  moreover have "queued c' = queued c @ packet c tag msg payload" "ob_wf c'" using c'(3) unfolding pkt_queued_def by auto
  ultimately show ?thesis using queue(2) c c'(2) by (auto simp: reply_inv_def ob_ok_def)
next
  case (refuse tag msg payload w r w' c ps)
  then have "client_heap w' = client_heap w" "only_clients w w'"
    using send_pkt_run [OF refuse(5-7), of tag msg] by auto
  then show ?thesis
    using assms(2) refuse(1,2) only_clients_fields(9) by (fastforce simp: reply_inv_def sent_on_def)
next
  case (flush w w' ps)
  obtain c where c: "client_heap w k = Some c" "cl_fd c = s" "ob_ok c" "sent_on s w @ queued c = before @ concat ps"
    using assms(2) flush(1) by (auto simp: reply_inv_def)
  obtain c' where c': "client_heap w' k = Some c'" using flush(4) by blast
  show ?thesis
    using process_send_step [OF flush(3) c(1,3) c'] c c' flush(2) by (auto simp: reply_inv_def)
qed

lemma reply_inv_steps: "(reply_step k)\<^sup>*\<^sup>* x y \<Longrightarrow> reply_inv k s before x \<Longrightarrow> reply_inv k s before y"
  by (induction rule: rtranclp_induct) (auto intro: reply_inv_step)

text \<open>
  C9: Replies are not lost, cut or reordered. In every state that is reached by queueing packets for a
  client and letting its socket take any part of what is queued, the bytes that were sent on the socket
  followed by the bytes still queued are those of the start followed by the packets in the order in which
  they were queued.
\<close>

theorem replies_in_order:
  assumes "(reply_step k)\<^sup>*\<^sup>* (w, []) (w', ps)" "client_heap w k = Some c" "ob_wf c"
  shows "\<exists>c'. client_heap w' k = Some c' \<and> sent_on (cl_fd c) w' @ queued c' = sent_on (cl_fd c) w @ queued c @ concat ps"
proof -
  have "reply_inv k (cl_fd c) (sent_on (cl_fd c) w @ queued c) (w, [])"
    using assms(2,3) by (simp add: reply_inv_def ob_ok_def)
  from reply_inv_steps [OF assms(1) this] show ?thesis by (auto simp: reply_inv_def)
qed

theorem replies_in_order_witness:
  "\<exists>w c. (reply_step 20)\<^sup>*\<^sup>* (link_world (idle_device MUXDEV_ACTIVE []) (idle_conn CONN_CONNECTED []) (idle_client CLIENT_COMMAND), [])
       (w, [packet (idle_client CLIENT_COMMAND) 5 MESSAGE_RESULT (le32 0)]) \<and> client_heap w 20 = Some c \<and>
     sent_on 7 w @ queued c = packet (idle_client CLIENT_COMMAND) 5 MESSAGE_RESULT (le32 0)"
proof -
  let ?k = "idle_client CLIENT_COMMAND" and ?w = "link_world (idle_device MUXDEV_ACTIVE []) (idle_conn CONN_CONNECTED []) (idle_client CLIENT_COMMAND)"
  have h: "client_heap ?w 20 = Some ?k" "ob_wf ?k" "ob_room ?k (le32 0)"
    "unat (cl_ob_size ?k) + (16 + length (le32 0)) \<le> unat (cl_ob_capacity ?k)" "16 + length (le32 0) < 2 ^ 31"
    by (simp_all add: idle_defs ob_wf_def ob_room_def)
  obtain c1 where c1: "send_pkt 20 5 MESSAGE_RESULT (le32 0) ?w = Inr (16 + int (length (le32 0)), ?w\<lparr>client_heap := (client_heap ?w)(20 := Some c1)\<rparr>)"
    using send_pkt_fits [OF h(1,2,4,5)] by blast
  let ?w1 = "?w\<lparr>client_heap := (client_heap ?w)(20 := Some c1)\<rparr>"
  have "reply_step 20 (?w, []) (?w1, [] @ [packet ?k 5 MESSAGE_RESULT (le32 0)])"
    by (rule reply_step.queue [OF c1 _ h(1-3)]) simp
  then have steps: "(reply_step 20)\<^sup>*\<^sup>* (?w, []) (?w1, [packet ?k 5 MESSAGE_RESULT (le32 0)])" by auto
  have fd: "cl_fd ?k = 7" "sent_on 7 ?w = []" "queued ?k = []" by (simp_all add: idle_defs sent_on_def queued_def)
  have "\<exists>c. client_heap ?w1 20 = Some c \<and> sent_on 7 ?w1 @ queued c = packet ?k 5 MESSAGE_RESULT (le32 0)"
    using replies_in_order [OF steps h(1,2)] unfolding fd by simp
  with steps show ?thesis by blast
qed

subsection \<open>Commands\<close>

text \<open>The client has received exactly \<open>got\<close> of its next message.\<close>

definition received_so_far :: "mux_client \<Rightarrow> bytes \<Rightarrow> bool" where
  "received_so_far c got \<longleftrightarrow> unat (cl_ib_size c) = length got \<and>
     (\<exists>b. cl_ib_buf c = Some b \<and> length got \<le> length b \<and> take (length got) b = got)"

text \<open>The state after some more of the script of \<open>recv\<close> was read into the client \<open>c\<close>.\<close>

abbreviation at_client :: "world \<Rightarrow> ptr \<Rightarrow> mux_client \<Rightarrow> bytes option list \<Rightarrow> world" where
  "at_client w k c rs \<equiv> w\<lparr>client_heap := (client_heap w)(k := Some c), sys := (sys w)\<lparr>recvs := rs\<rparr>\<rparr>"

definition same_but_input :: "mux_client \<Rightarrow> mux_client \<Rightarrow> bool" where
  "same_but_input c c' \<longleftrightarrow> c' = c\<lparr>cl_ib_buf := cl_ib_buf c', cl_ib_size := cl_ib_size c'\<rparr>"

lemma same_but_input_trans: "same_but_input a b \<Longrightarrow> same_but_input b c \<Longrightarrow> same_but_input a c"
  by (cases a; cases b; cases c) (simp add: same_but_input_def)

lemma same_but_input_capacity: "same_but_input a b \<Longrightarrow> cl_ib_capacity b = cl_ib_capacity a"
  by (cases a; cases b) (simp add: same_but_input_def)

lemma recv_more_run:
  assumes "client_heap w k = Some c" "received_so_far c got" "recvs (sys w) = Some x # rs" "x \<noteq> []" "length x \<le> n"
    and "length (got @ x) \<le> unat (cl_ib_capacity c)"
  shows "\<exists>c'. recv_more k n w = Inr (True, at_client w k c' rs) \<and> received_so_far c' (got @ x) \<and> same_but_input c c'"
proof -
  obtain b where b: "cl_ib_buf c = Some b" "length got \<le> length b" "take (length got) b = got" "unat (cl_ib_size c) = length got"
    using assms(2) by (auto simp: received_so_far_def)
  let ?b = "buf_put (length got) x b" and ?s = "cl_ib_size c + of_nat (length x)"
  let ?c = "c\<lparr>cl_ib_buf := Some ?b, cl_ib_size := ?s\<rparr>"
  obtain y ys where x: "x = y # ys" using assms(4) by (cases x) auto
  have lt: "length (got @ x) < 2 ^ 32" using assms(6) unsigned_less [of "cl_ib_capacity c", where ?'a = nat] by simp
  then have ux: "unat (of_nat (length x) :: u32) = length x" by (intro unat_of_nat_small) simp
  have s: "unat ?s = length (got @ x)" using lt ux b(4) by (subst unat_add_small) simp_all
  have "recv_more k n w = Inr (True, at_client w k ?c rs)"
    using assms(1,3,5,6) b x
    by (simp add: recv_more_def seq_Inr get_client_run sys_recv_def buf_write_def set_client_def)
  moreover have "received_so_far ?c (got @ x)"
    using s b take_buf_put [OF b(2), of x] by (simp add: received_so_far_def length_buf_put)
  ultimately show ?thesis by (intro exI [of _ ?c]) (simp add: same_but_input_def)
qed

lemma received_empty: "cl_ib_size c = 0 \<Longrightarrow> cl_ib_buf c = Some b \<Longrightarrow> received_so_far c []"
  by (simp add: received_so_far_def)

lemma received_header:
  assumes "received_so_far c got" "16 \<le> length got"
  obtains b where "cl_ib_buf c = Some b" "take 16 b = take 16 got" "take (length got) b = got"
proof -
  obtain b where b: "cl_ib_buf c = Some b" "take (length got) b = got" using assms(1) by (auto simp: received_so_far_def)
  have "take 16 (take (length got) b) = take 16 b" using assms(2) by (simp add: min_absorb1)
  then show thesis using that b by metis
qed

text \<open>\<open>recv_rounds\<close>: the client's socket becomes readable \<open>n\<close> times.\<close>

fun recv_rounds :: "nat \<Rightarrow> ptr \<Rightarrow> unit act" where
  "recv_rounds 0 k = ret ()"
| "recv_rounds (Suc n) k = seq (process_recv k) (\<lambda>_. recv_rounds n k)"

text \<open>What is left to do: the command runs in the last round, on a buffer that starts with the message.\<close>

definition runs_message :: "nat \<Rightarrow> ptr \<Rightarrow> mux_client \<Rightarrow> bytes \<Rightarrow> usbmuxd_header \<Rightarrow> bytes option list \<Rightarrow> world \<Rightarrow> bool" where
  "runs_message n k c msg hdr rs w \<longleftrightarrow> (\<exists>c' b. same_but_input c c' \<and> received_so_far c' msg \<and> cl_ib_buf c' = Some b \<and>
     take (length msg) b = msg \<and> recv_rounds n k w = run_command k hdr b (at_client w k c' rs))"

lemma seq_ret_right: "seq m ret = m"
  by (auto simp: seq_def fun_eq_iff split: sum.splits)

lemma runs_message_step:
  assumes "process_recv k w = Inr ((), at_client w k c1 rs1)" "same_but_input c c1" "runs_message n k c1 msg hdr rs (at_client w k c1 rs1)"
  shows "runs_message (Suc n) k c msg hdr rs w"
  using assms same_but_input_trans by (fastforce simp: runs_message_def seq_Inr)

text \<open>The message as the client announces it in its header.\<close>

definition framed :: "bytes \<Rightarrow> usbmuxd_header \<Rightarrow> mux_client \<Rightarrow> bool" where
  "framed msg hdr c \<longleftrightarrow> read_usbmuxd_header (take 16 msg) = Some hdr \<and> unat (uh_length hdr) = length msg \<and>
     16 \<le> length msg \<and> length msg \<le> unat (cl_ib_capacity c)"

lemma framed_same: "framed msg hdr c \<Longrightarrow> same_but_input c c' \<Longrightarrow> framed msg hdr c'"
  by (simp add: framed_def same_but_input_capacity)

lemma framed_tests:
  assumes "framed msg hdr c" "received_so_far c got"
  shows "\<not> uh_length hdr > cl_ib_capacity c" "\<not> uh_length hdr < 16" "cl_ib_size c < uh_length hdr \<longleftrightarrow> length got < length msg"
    "length got \<le> length msg \<Longrightarrow> unat (uh_length hdr - cl_ib_size c) = length msg - length got" "cl_ib_size c < 16 \<longleftrightarrow> length got < 16"
proof -
  have u: "unat (uh_length hdr) = length msg" "unat (cl_ib_size c) = length got" "16 \<le> length msg" "length msg \<le> unat (cl_ib_capacity c)"
    using assms by (simp_all add: framed_def received_so_far_def)
  show "\<not> uh_length hdr > cl_ib_capacity c" "\<not> uh_length hdr < 16" "cl_ib_size c < uh_length hdr \<longleftrightarrow> length got < length msg"
    "cl_ib_size c < 16 \<longleftrightarrow> length got < 16"
    using u by (simp_all add: word_less_nat_alt)
  show "length got \<le> length msg \<Longrightarrow> unat (uh_length hdr - cl_ib_size c) = length msg - length got"
    using u by (subst unat_sub_small) (simp_all add: word_le_nat_alt)
qed

lemma message_header:
  assumes "framed msg hdr c" "received_so_far c got" "16 \<le> length got" "got @ rest = msg"
  obtains b where "cl_ib_buf c = Some b" "read_usbmuxd_header (take 16 b) = Some hdr" "take (length got) b = got"
proof -
  obtain b where b: "cl_ib_buf c = Some b" "take 16 b = take 16 got" "take (length got) b = got"
    using received_header [OF assms(2,3)] by metis
  have "take 16 got = take 16 msg" using assms(3,4) by auto
  then show thesis using that b assms(1) by (simp add: framed_def)
qed

lemma body_rounds:
  assumes "client_heap w k = Some c" "received_so_far c got" "16 \<le> length got" "got @ concat bs = msg" "bs \<noteq> []"
    and "\<forall>x \<in> set bs. x \<noteq> []" "framed msg hdr c" "recvs (sys w) = map Some bs @ rs"
  shows "runs_message (length bs) k c msg hdr rs w"
  using assms
proof (induction bs arbitrary: w c got)
  case Nil
  then show ?case by simp
next
  case (Cons x bs)
  note t = framed_tests [OF Cons.prems(7,2)]
  have x: "x \<noteq> []" "length (got @ x) \<le> length msg" "length got < length msg" using Cons.prems(4,6) by auto
  obtain b where b: "cl_ib_buf c = Some b" "read_usbmuxd_header (take 16 b) = Some hdr"
    using message_header [OF Cons.prems(7,2,3,4)] by blast
  have room: "length (got @ x) \<le> unat (cl_ib_capacity c)" "length x \<le> length msg - length got"
    using x(2) Cons.prems(7) by (auto simp: framed_def)
  have rcv: "recvs (sys w) = Some x # map Some bs @ rs" using Cons.prems(8) by simp
  obtain c1 where c1: "recv_more k (length msg - length got) w = Inr (True, at_client w k c1 (map Some bs @ rs))"
    "received_so_far c1 (got @ x)" "same_but_input c c1"
    using recv_more_run [OF Cons.prems(1,2) rcv x(1) room(2,1)] by blast
  note t1 = framed_tests [OF framed_same [OF Cons.prems(7) c1(3)] c1(2)]
  have run: "process_recv k w = (if length (got @ x) < length msg then ret ()
      else seq (some_or NullDeref (cl_ib_buf c1)) (\<lambda>b. run_command k hdr b)) (at_client w k c1 (map Some bs @ rs))"
    using Cons.prems(1,3) b t x(2,3) c1(1) t1(3)
    by (simp add: process_recv_def recv_body_def seq_Inr get_client_run seq_run cong: if_cong)
  show ?case
  proof (cases "bs = []")
    case True
    then have m: "got @ x = msg" using Cons.prems(4) by simp
    obtain b1 where b1: "cl_ib_buf c1 = Some b1" "take (length msg) b1 = msg"
      using c1(2) m by (auto simp: received_so_far_def)
    have "recv_rounds (length (x # bs)) k w = run_command k hdr b1 (at_client w k c1 rs)"
      using run True m b1(1) by (simp add: seq_ret_right seq_Inr)
    then show ?thesis using c1 m b1 unfolding runs_message_def by blast
  next
    case False
    then obtain y ys where bs: "bs = y # ys" by (cases bs) auto
    have "length (got @ x) < length msg" using Cons.prems(4,6) bs by auto
    then have step: "process_recv k w = Inr ((), at_client w k c1 (map Some bs @ rs))" using run by simp
    have "runs_message (length bs) k c1 msg hdr rs (at_client w k c1 (map Some bs @ rs))"
      by (rule Cons.IH [OF _ c1(2)]) (use Cons.prems c1 False framed_same in auto)
    then show ?thesis using runs_message_step [OF step c1(3)] by simp
  qed
qed

lemma header_rounds:
  assumes "client_heap w k = Some c" "received_so_far c got" "length (got @ concat hs) = 16" "hs \<noteq> []" "got @ concat hs @ concat bs = msg"
    and "\<forall>x \<in> set (hs @ bs). x \<noteq> []" "framed msg hdr c" "recvs (sys w) = map Some (hs @ bs) @ rs"
  shows "runs_message (length (hs @ bs)) k c msg hdr rs w"
  using assms
proof (induction hs arbitrary: w c got)
  case Nil
  then show ?case by simp
next
  case (Cons x hs)
  let ?rs = "map Some (hs @ bs) @ rs"
  have "x \<noteq> []" using Cons.prems(6) by simp
  then have "length got < length (got @ x)" by simp
  moreover have "length (got @ x) \<le> 16" using Cons.prems(3) by simp
  ultimately have x: "x \<noteq> []" "length (got @ x) \<le> 16" "length got < 16" using \<open>x \<noteq> []\<close> by linarith+
  have room: "length (got @ x) \<le> unat (cl_ib_capacity c)" "length x \<le> 16 - length got"
    using x(2) Cons.prems(7) by (auto simp: framed_def)
  have rcv: "recvs (sys w) = Some x # ?rs" using Cons.prems(8) by simp
  obtain c1 where c1: "recv_more k (16 - length got) w = Inr (True, at_client w k c1 ?rs)"
    "received_so_far c1 (got @ x)" "same_but_input c c1"
    using recv_more_run [OF Cons.prems(1,2) rcv x(1) room(2,1)] by blast
  have f1: "framed msg hdr c1" by (rule framed_same [OF Cons.prems(7) c1(3)])
  note t = framed_tests [OF Cons.prems(7,2)] and t1 = framed_tests [OF f1 c1(2)]
  have size: "unat (cl_ib_size c) = length got" using Cons.prems(2) by (simp add: received_so_far_def)
  have run: "process_recv k w = (if length (got @ x) < 16 then ret () else recv_body k True) (at_client w k c1 ?rs)"
    using Cons.prems(1) t(5) x(3) size c1(1) t1(5)
    by (simp add: process_recv_def seq_Inr get_client_run seq_run cong: if_cong)
  show ?case
  proof (cases "hs = []")
    case False
    then obtain y ys where hs: "hs = y # ys" by (cases hs) auto
    have "0 < length y" using Cons.prems(6) hs by simp
    then have "length (got @ x) < 16" using Cons.prems(3) hs by (simp only: concat.simps length_append)
    then have step: "process_recv k w = Inr ((), at_client w k c1 ?rs)" using run by simp
    have "runs_message (length (hs @ bs)) k c1 msg hdr rs (at_client w k c1 ?rs)"
      by (rule Cons.IH [OF _ c1(2)]) (use Cons.prems c1 f1 False in auto)
    then show ?thesis using runs_message_step [OF step c1(3)] by simp
  next
    case True
    then have g: "length (got @ x) = 16" "(got @ x) @ concat bs = msg" using Cons.prems(3,5) by simp_all
    obtain b1 where b1: "cl_ib_buf c1 = Some b1" "read_usbmuxd_header (take 16 b1) = Some hdr" "take (length (got @ x)) b1 = got @ x"
      using message_header [OF f1 c1(2) _ g(2)] g(1) by auto
    have body: "process_recv k w = (if 16 < length msg then ret () else run_command k hdr b1) (at_client w k c1 ?rs)"
      using run g(1) b1(1,2) t1(1-3)
      by (simp add: recv_body_def seq_Inr get_client_run seq_run cong: if_cong)
    show ?thesis
    proof (cases "bs = []")
      case no_body: True
      then have m: "got @ x = msg" "\<not> 16 < length msg" using g by auto
      have "recv_rounds (length ((x # hs) @ bs)) k w = run_command k hdr b1 (at_client w k c1 rs)"
        using body m(2) True no_body by (simp add: seq_ret_right)
      then show ?thesis using c1 m(1) b1 unfolding runs_message_def by blast
    next
      case more: False
      then obtain y ys where bs: "bs = y # ys" by (cases bs) auto
      have y: "0 < length y" using Cons.prems(6) bs by simp
      have "length msg = 16 + (length y + length (concat ys))" using g bs by auto
      then have "16 < length msg" using y by linarith
      then have step: "process_recv k w = Inr ((), at_client w k c1 ?rs)" using body by simp
      have "runs_message (length bs) k c1 msg hdr rs (at_client w k c1 ?rs)"
        by (rule body_rounds [OF _ c1(2)]) (use g more True Cons.prems(6) f1 in auto)
      then show ?thesis using runs_message_step [OF step c1(3)] True by simp
    qed
  qed
qed

text \<open>
  C11: Commands are framed. A message whose header announces its length, at least the 16 bytes of the
  header and at most what the input buffer holds, is run exactly once, when its last byte has arrived:
  however the socket cuts the header and the body into pieces, all rounds but the last only collect, and
  in the last one the command runs with the announced header on a buffer that starts with the message.
  Nothing of the client but its input buffer has changed by then.
\<close>

theorem command_framed:
  assumes "client_heap w k = Some c" "cl_ib_size c = 0" "cl_ib_buf c \<noteq> None" "hs \<noteq> []" "length (concat hs) = 16"
    and "\<forall>x \<in> set (hs @ bs). x \<noteq> []" "concat (hs @ bs) = msg" "framed msg hdr c" "recvs (sys w) = map Some (hs @ bs) @ rs"
  shows "\<exists>c' b. same_but_input c c' \<and> take (length msg) b = msg \<and>
     recv_rounds (length (hs @ bs)) k w = run_command k hdr b (at_client w k c' rs)"
proof -
  obtain b0 where "cl_ib_buf c = Some b0" using assms(3) by auto
  then have "received_so_far c []" by (rule received_empty [OF assms(2)])
  from header_rounds [OF assms(1) this _ assms(4) _ assms(6,8,9)] assms(5,7) show ?thesis
    unfolding runs_message_def by auto
qed

theorem command_framed_witness:
  "\<exists>c' b. recv_rounds 3 20 ((link_world (idle_device MUXDEV_ACTIVE []) (idle_conn CONN_CONNECTED []) (idle_client CLIENT_COMMAND))
       \<lparr>sys := idle_env\<lparr>recvs := [Some (le32 20), Some (le32 0 @ le32 3 @ le32 9), Some [1, 2, 3, 4]]\<rparr>\<rparr>) =
     run_command 20 \<lparr>uh_length = 20, uh_version = 0, uh_message = 3, uh_tag = 9\<rparr> b
       ((link_world (idle_device MUXDEV_ACTIVE []) (idle_conn CONN_CONNECTED []) c')\<lparr>sys := idle_env\<rparr>) \<and>
     take 20 b = le32 20 @ le32 0 @ le32 3 @ le32 9 @ [1, 2, 3, 4]"
proof -
  let ?k = "idle_client CLIENT_COMMAND" and ?hdr = "\<lparr>uh_length = 20, uh_version = 0, uh_message = 3, uh_tag = 9\<rparr>"
  let ?w = "(link_world (idle_device MUXDEV_ACTIVE []) (idle_conn CONN_CONNECTED []) ?k)
       \<lparr>sys := idle_env\<lparr>recvs := [Some (le32 20), Some (le32 0 @ le32 3 @ le32 9), Some [1, 2, 3, 4]]\<rparr>\<rparr>"
  let ?hs = "[le32 20, le32 0 @ le32 3 @ le32 9]" and ?bs = "[[1, 2, 3, 4]] :: bytes list"
  have nonempty: "le32 x \<noteq> []" for x by (metis int_lengths(4) list.size(3) zero_neq_numeral)
  have hd: "usbmuxd_header_bytes ?hdr = le32 20 @ le32 0 @ le32 3 @ le32 9" by (simp add: usbmuxd_header_bytes_def)
  have m: "concat (?hs @ ?bs) = usbmuxd_header_bytes ?hdr @ [1, 2, 3, 4]" by (simp add: hd)
  have h: "client_heap ?w 20 = Some ?k" "cl_ib_size ?k = 0" "cl_ib_buf ?k \<noteq> None" "?hs \<noteq> []" "length (concat ?hs) = 16"
    "\<forall>x \<in> set (?hs @ ?bs). x \<noteq> []" "framed (usbmuxd_header_bytes ?hdr @ [1, 2, 3, 4]) ?hdr ?k"
    "recvs (sys ?w) = map Some (?hs @ ?bs) @ []"
    by (simp_all add: idle_defs framed_def nonempty)
  obtain c' b where run: "take (length (usbmuxd_header_bytes ?hdr @ [1, 2, 3, 4 :: byte])) b = usbmuxd_header_bytes ?hdr @ [1, 2, 3, 4]"
     "recv_rounds (length (?hs @ ?bs)) 20 ?w = run_command 20 ?hdr b (at_client ?w 20 c' [])"
    using command_framed [OF h(1-6) m h(7,8)] by blast
  have w: "at_client ?w 20 c' [] = (link_world (idle_device MUXDEV_ACTIVE []) (idle_conn CONN_CONNECTED []) c')\<lparr>sys := idle_env\<rparr>"
    by (simp add: idle_defs)
  have three: "length (?hs @ ?bs) = 3" by simp
  show ?thesis using run unfolding three w hd by (intro exI [of _ c'] exI [of _ b]) simp
qed

end
