(* ===== verification/Client_Events.thy ===== *)
theory Client_Events
  imports Client_Io
begin

text \<open>
  What clients see of events they did not ask for: the removal of a device is told to every listener
  (\<open>client_device_remove\<close> with \<open>notify_device_remove\<close>, client.cpp); and what happens when a client that
  listens already sends another command (\<open>client_command\<close> under \<open>process_recv\<close>).
\<close>

subsection \<open>Notifications\<close>

text \<open>
  What a listening client is told about a removed device, by the protocol it speaks; \<open>told\<close> says that
  the client can be told.
\<close>

definition removal_packet :: "world \<Rightarrow> mux_client \<Rightarrow> u32 \<Rightarrow> bytes option" where
  "removal_packet w c i =
     (if cl_proto_version c = 1 then map_option (packet c 0 MESSAGE_PLIST) (xml_of (conf w) (detached_plist i))
      else Some (packet c 0 MESSAGE_DEVICE_REMOVE (le32 i)))"

definition can_tell :: "world \<Rightarrow> mux_client \<Rightarrow> u32 \<Rightarrow> bool" where
  "can_tell w c i \<longleftrightarrow> ob_wf c \<and> (\<exists>pkt. removal_packet w c i = Some pkt \<and> ob_room c pkt)"

definition listening :: "mux_client \<Rightarrow> bool" where
  "listening c \<longleftrightarrow> cl_state c = CLIENT_LISTEN"

lemma ob_room_shorter: "ob_room c (packet c tag msg payload) \<Longrightarrow> ob_room c payload"
  by (simp add: ob_room_def)

lemma notify_remove_run:
  assumes "client_heap w k = Some c" "can_tell w c i" "False \<notin> set (oks (sys w))"
  shows "\<exists>r w' c' pkt. notify_device_remove k i w = Inr (r, w') \<and> only_clients w w' \<and> removal_packet w c i = Some pkt \<and>
     client_heap w' = (client_heap w)(k := Some c') \<and> pkt_queued c pkt c'"
proof (cases "cl_proto_version c = 1")
  case True
  obtain xml where x: "xml_of (conf w) (detached_plist i) = Some xml" "removal_packet w c i = Some (packet c 0 MESSAGE_PLIST xml)"
    "ob_wf c" "ob_room c xml"
    using assms(2) True by (auto simp: can_tell_def removal_packet_def dest: ob_room_shorter)
  from send_pkt_run [OF assms(1) x(3,4), of 0 MESSAGE_PLIST] assms(3) show ?thesis
    using True x(1,2) assms(1) by (auto simp: notify_device_remove_def send_plist_pkt_def seq_Inr get_client_run)
next
  case False
  have x: "removal_packet w c i = Some (packet c 0 MESSAGE_DEVICE_REMOVE (le32 i))" "ob_wf c" "ob_room c (le32 i)"
    using assms(2) False by (auto simp: can_tell_def removal_packet_def dest: ob_room_shorter)
  from send_pkt_run [OF assms(1) x(2,3), of 0 MESSAGE_DEVICE_REMOVE] assms(3) show ?thesis
    using False x(1) assms(1) by (auto simp: notify_device_remove_def seq_Inr get_client_run)
qed

text \<open>The clients after the loop has told those of \<open>ps\<close> that listen.\<close>

definition told :: "world \<Rightarrow> u32 \<Rightarrow> ptr set \<Rightarrow> world \<Rightarrow> bool" where
  "told w i P w' \<longleftrightarrow> only_clients w w' \<and> (\<forall>p c. client_heap w p = Some c \<longrightarrow> (\<exists>c'. client_heap w' p = Some c' \<and>
     (if p \<in> P \<and> listening c then (\<exists>pkt. removal_packet w c i = Some pkt \<and> pkt_queued c pkt c') else c' = c)))"

lemma told_all:
  assumes "told w i P w1" "distinct ps" "P \<inter> set ps = {}" "False \<notin> set (oks (sys w))"
    and "\<forall>p \<in> set ps. \<exists>c. client_heap w p = Some c \<and> (listening c \<longrightarrow> can_tell w c i)"
  shows "\<exists>w'. for_list ps (\<lambda>k. seq (get_client k) (\<lambda>c. if cl_state c = CLIENT_LISTEN
      then seq (notify_device_remove k i) (\<lambda>_. ret ()) else ret ())) w1 = Inr ((), w') \<and> told w i (P \<union> set ps) w'"
  using assms
proof (induction ps arbitrary: P w1)
  case Nil
  then show ?case by simp
next
  case (Cons p ps)
  obtain c where c: "client_heap w p = Some c" "listening c \<Longrightarrow> can_tell w c i" using Cons.prems(5) by auto
  have c1: "client_heap w1 p = Some c" using Cons.prems(1,3) c(1) by (fastforce simp: told_def)
  have o1: "only_clients w w1" using Cons.prems(1) by (simp add: told_def)
  note k1 = only_clients_oks [OF o1]
  have "\<exists>w2. seq (get_client p) (\<lambda>c. if cl_state c = CLIENT_LISTEN
      then seq (notify_device_remove p i) (\<lambda>_. ret ()) else ret ()) w1 = Inr ((), w2) \<and> told w i (insert p P) w2"
  proof (cases "listening c")
    case False
    then have "told w i (insert p P) w1" using Cons.prems(1) c by (force simp: told_def)
    then show ?thesis using False c1 by (auto simp: listening_def seq_Inr get_client_run)
  next
    case True
    have same: "removal_packet w1 c i = removal_packet w c i" using k1 by (simp add: removal_packet_def)
    then have ct: "can_tell w1 c i" using c(2) True by (simp add: can_tell_def)
    have ok: "False \<notin> set (oks (sys w1))" using k1 Cons.prems(4) by blast
    obtain r w2 c' pkt where n: "notify_device_remove p i w1 = Inr (r, w2)" "only_clients w1 w2" "removal_packet w c i = Some pkt"
      "client_heap w2 = (client_heap w1)(p := Some c')" "pkt_queued c pkt c'"
      using notify_remove_run [OF c1 ct ok, unfolded same] by blast
    have "told w i (insert p P) w2"
      unfolding told_def
    proof (intro conjI allI impI)
      show "only_clients w w2" by (rule cl_frame.frame_trans [OF o1 n(2)])
      fix q d assume "client_heap w q = Some d"
      then show "\<exists>c'. client_heap w2 q = Some c' \<and> (if q \<in> insert p P \<and> listening d
          then \<exists>pkt. removal_packet w d i = Some pkt \<and> pkt_queued d pkt c' else c' = d)"
        using Cons.prems(1) n(3-5) c True by (cases "q = p") (auto simp: told_def)
    qed
    then show ?thesis using True c1 n(1) by (auto simp: listening_def seq_Inr get_client_run)
  qed
  then obtain w2 where w2: "seq (get_client p) (\<lambda>c. if cl_state c = CLIENT_LISTEN
      then seq (notify_device_remove p i) (\<lambda>_. ret ()) else ret ()) w1 = Inr ((), w2)" "told w i (insert p P) w2" by blast
  have "p \<notin> set ps" "insert p P \<inter> set ps = {}" using Cons.prems(2,3) by auto
  then obtain w' where "for_list ps (\<lambda>k. seq (get_client k) (\<lambda>c. if cl_state c = CLIENT_LISTEN
      then seq (notify_device_remove k i) (\<lambda>_. ret ()) else ret ())) w2 = Inr ((), w')" "told w i (insert p P \<union> set ps) w'"
    using Cons.IH [OF w2(2)] Cons.prems(2,4,5) by auto
  then show ?case using w2(1) by (intro exI [of _ w']) (simp add: seq_Inr)
qed

text \<open>
  C22: A removal is announced to every listener. When a device is removed, every listed client that
  listens gets exactly one more packet behind its queue, in the protocol it speaks (a plist for the
  newer one, the binary message with the device's id for the older), and nothing else about any client
  changes: clients that do not listen, and everything but the output buffer of those that do, are as
  before.
\<close>

theorem removal_announced:
  assumes "distinct (elems (client_list w))" "False \<notin> set (oks (sys w))"
    and "\<forall>p \<in> set (elems (client_list w)). \<exists>c. client_heap w p = Some c \<and> (listening c \<longrightarrow> can_tell w c i)"
  shows "\<exists>w'. client_device_remove i w = Inr ((), w') \<and> only_clients w w' \<and>
    (\<forall>p c. client_heap w p = Some c \<longrightarrow> (\<exists>c'. client_heap w' p = Some c' \<and>
       (if p \<in> set (elems (client_list w)) \<and> listening c
        then \<exists>pkt. removal_packet w c i = Some pkt \<and> pkt_queued c pkt c' else c' = c)))"
proof -
  let ?body = "\<lambda>k. seq (get_client k) (\<lambda>c. if cl_state c = CLIENT_LISTEN
      then seq (notify_device_remove k i) (\<lambda>_. ret ()) else ret ())"
  have keep: "keeps only_clients (?body k)" for k
    by (intro cl_frame.keeps_rules cl_prims cl_notify_device_remove)
  have "\<forall>x v v'. ?body x v = Inr ((), v') \<longrightarrow> client_list v' = client_list v \<or> client_list v' = collection_remove (client_list v) x"
    using keep only_clients_fields(6) unfolding keeps_def by blast
  from foreach_run [OF this assms(1)]
  have l: "client_device_remove i w = for_list (elems (client_list w)) ?body w"
    by (simp add: client_device_remove_def for_clients_def)
  have "told w i {} w" by (simp add: told_def cl_frame.frame_refl)
  from told_all [OF this assms(1) _ assms(2,3)] show ?thesis unfolding l told_def by simp
qed

theorem removal_announced_witness:
  "\<exists>w' c'. client_device_remove 5 (link_world (idle_device MUXDEV_ACTIVE []) (idle_conn CONN_CONNECTED []) (idle_client CLIENT_LISTEN)) = Inr ((), w') \<and>
     client_heap w' 20 = Some c' \<and>
     queued c' = usbmuxd_header_bytes \<lparr>uh_length = 20, uh_version = 0, uh_message = MESSAGE_DEVICE_REMOVE, uh_tag = 0\<rparr> @ le32 5"
proof -
  let ?k = "idle_client CLIENT_LISTEN" and ?w = "link_world (idle_device MUXDEV_ACTIVE []) (idle_conn CONN_CONNECTED []) (idle_client CLIENT_LISTEN)"
  have h: "distinct (elems (client_list ?w))" "False \<notin> set (oks (sys ?w))" by (simp_all add: idle_defs)
  have p: "removal_packet ?w ?k 5 = Some (packet ?k 0 MESSAGE_DEVICE_REMOVE (le32 5))"
    by (simp add: removal_packet_def idle_defs)
  have "can_tell ?w ?k 5" unfolding can_tell_def p by (simp add: ob_wf_def ob_room_def packet_def idle_defs)
  then have live: "\<forall>p \<in> set (elems (client_list ?w)). \<exists>c. client_heap ?w p = Some c \<and> (listening c \<longrightarrow> can_tell ?w c 5)"
    by (simp add: idle_defs)
  have k: "client_heap ?w 20 = Some ?k" "20 \<in> set (elems (client_list ?w))" "listening ?k"
    by (simp_all add: link_world_def listening_def idle_client_def)
  obtain w' c' where w': "client_device_remove 5 ?w = Inr ((), w')" "client_heap w' 20 = Some c'"
      "pkt_queued ?k (packet ?k 0 MESSAGE_DEVICE_REMOVE (le32 5)) c'"
    using removal_announced [OF h live] k p by (smt (verit, best) option.inject)
  have "queued ?k = []" by (simp add: queued_def idle_client_def)
  then have "queued c' = packet ?k 0 MESSAGE_DEVICE_REMOVE (le32 5)"
    using w'(3) by (simp add: pkt_queued_def)
  moreover have "packet ?k 0 MESSAGE_DEVICE_REMOVE (le32 5) =
     usbmuxd_header_bytes \<lparr>uh_length = 20, uh_version = 0, uh_message = MESSAGE_DEVICE_REMOVE, uh_tag = 0\<rparr> @ le32 5"
    by (simp add: packet_def idle_client_def)
  ultimately show ?thesis using w'(1,2) by auto
qed

subsection \<open>A command too many\<close>

lemma pkt_queued_state:
  assumes "pkt_queued c pkt c'"
  shows "cl_state c' = cl_state c"
proof -
  have "c' = c\<lparr>cl_ob_buf := cl_ob_buf c', cl_ob_size := cl_ob_size c', cl_ob_capacity := cl_ob_capacity c',
      cl_events := cl_events c OR POLLOUT\<rparr>" using assms by (simp add: pkt_queued_def)
  from arg_cong [OF this, of cl_state] show ?thesis by simp
qed

lemma close_listener:
  assumes "client_heap w k = Some c" "\<not> connecting (cl_state c)"
  shows "\<exists>w'. close_client k w = Inr ((), w') \<and> client_heap w' k = None"
  using assms
  by (auto simp: TEARDOWN_FUEL_def numeral_eq_Suc connecting_def seq_Inr get_client_run client_release_def
      closesocket_run free_client_run modify_def)

text \<open>The bytes of a result for a client of either protocol version; a plist may fail to serialise.\<close>

definition result_body :: "world \<Rightarrow> mux_client \<Rightarrow> u32 \<Rightarrow> bytes option" where
  "result_body w c result =
     (if cl_proto_version c = 1 then xml_of (conf w) (result_plist result) else Some (le32 result))"

lemma send_result_cases:
  assumes "client_heap w k = Some c" "ob_wf c" "\<forall>bs. result_body w c result = Some bs \<longrightarrow> ob_room c bs"
  obtains r c' w' bs where "result_body w c result = Some bs" "can_queue w c bs"
      "send_result k tag result w = Inr (r, w')" "r \<ge> 0"
      "client_heap w' = (client_heap w)(k := Some c')" "cl_state c' = cl_state c"
  | w' where "\<forall>bs. result_body w c result = Some bs \<longrightarrow> \<not> can_queue w c bs"
      "send_result k tag result w = Inr (-1, w')" "only_clients w w'" "client_heap w' = client_heap w"
proof (cases "result_body w c result")
  case None
  then have "send_result k tag result w = Inr (-1, w)"
    using assms(1) by (auto simp: result_body_def send_result_def send_plist_pkt_def seq_Inr get_client_run
        split: if_splits)
  then show thesis using that(2) [of w] None cl_frame.frame_refl by simp
next
  case (Some bs)
  obtain msg where run: "send_result k tag result w = send_pkt k tag msg bs w"
    using assms(1) Some by (auto simp: result_body_def send_result_def send_plist_pkt_def seq_Inr get_client_run
        split: if_splits)
  consider w' where "send_pkt k tag msg bs w = Inr (-1, w')" "only_clients w w'" "client_heap w' = client_heap w"
      "\<not> can_queue w c bs"
    | c' w' where "send_pkt k tag msg bs w = Inr (16 + int (length bs), w')" "can_queue w c bs"
      "client_heap w' = (client_heap w)(k := Some c')" "pkt_queued c (packet c tag msg bs) c'"
    using send_pkt_cases [OF assms(1,2) assms(3) [rule_format, OF Some], of tag msg] by blast
  then show thesis
  proof cases
    case 1
    then show thesis using that(2) run Some by simp
  next
    case 2
    then show thesis using that(1) [of bs] run Some pkt_queued_state by simp
  qed
qed

text \<open>
  C29: A client of either protocol version that listens already and sends one more command. When the
  answer can be queued (it serialises, and there is room for it in the output buffer or the buffer can
  grow), the client is closed at once by \<open>client_command\<close>, and \<open>process_recv\<close>, which does not look at the
  result, goes on to reset the input buffer of the client it has just freed. Otherwise the command is
  dropped without an answer and the client goes on listening. The output buffer and the answer
  together stay below 2 GiB.
\<close>

theorem second_command_crashes:
  assumes "client_heap w k = Some c" "cl_state c = CLIENT_LISTEN" "ob_wf c"
    and "\<forall>bs. result_body w c RESULT_BADCOMMAND = Some bs \<longrightarrow> ob_room c bs"
  shows "if \<exists>bs. result_body w c RESULT_BADCOMMAND = Some bs \<and> can_queue w c bs
     then run_command k hdr buf w = Inl UseAfterFree
     else \<exists>w'. run_command k hdr buf w = Inr ((), w') \<and>
       client_heap w' = (client_heap w)(k := Some (c\<lparr>cl_ib_size := 0\<rparr>)) \<and> client_list w' = client_list w \<and>
       closed_socks (sys w') = closed_socks (sys w)"
proof (cases rule: send_result_cases [OF assms(1,3,4), where tag = "uh_tag hdr"])
  case (1 r c' w1 bs)
  then obtain w' where w': "close_client k w1 = Inr ((), w')" "client_heap w' k = None"
    using close_listener [of w1 k c'] assms(2) by (auto simp: connecting_def)
  have "client_command k hdr buf w = Inr (-1, w')"
    using assms(1,2) 1(3,4) w'(1) by (simp add: client_command_def seq_Inr get_client_run)
  then have "run_command k hdr buf w = Inl UseAfterFree"
    using w'(2) by (simp add: run_command_def seq_Inr upd_client_def seq_Inl get_client_run)
  then show ?thesis using 1(1,2) by auto
next
  case (2 w1)
  have "client_command k hdr buf w = Inr (-1, w1)"
    using assms(1,2) 2(2) by (simp add: client_command_def seq_Inr get_client_run)
  then have "run_command k hdr buf w =
      Inr ((), w1\<lparr>client_heap := (client_heap w)(k := Some (c\<lparr>cl_ib_size := 0\<rparr>))\<rparr>)"
    using 2(4) assms(1) by (simp add: run_command_def seq_Inr upd_client_run)
  moreover have "client_list w1 = client_list w" "closed_socks (sys w1) = closed_socks (sys w)"
    using 2(3) by (auto simp: only_clients_def)
  ultimately show ?thesis using 2(1) by auto
qed

text \<open>Both protocol versions, and an output buffer that is full and cannot grow.\<close>

theorem second_command_crashes_witness:
  "let hdr = \<lparr>uh_length = 16, uh_version = 0, uh_message = 3, uh_tag = 2\<rparr>;
       w = (\<lambda>c bs. (link_world (idle_device MUXDEV_ACTIVE []) (idle_conn CONN_CONNECTED []) c)\<lparr>sys := idle_env\<lparr>oks := bs\<rparr>\<rparr>);
       c = idle_client CLIENT_LISTEN; full = c\<lparr>cl_ob_buf := Some [1], cl_ob_size := 1, cl_ob_capacity := 1\<rparr>
   in run_command 20 hdr [] (w c []) = Inl UseAfterFree \<and>
      run_command 20 hdr [] (w (c\<lparr>cl_proto_version := 1\<rparr>) []) = Inl UseAfterFree \<and>
      run_command 20 hdr [] (w full []) = Inl UseAfterFree \<and>
      (\<exists>w'. run_command 20 hdr [] (w full [False]) = Inr ((), w') \<and> client_heap w' 20 = Some (full\<lparr>cl_ib_size := 0\<rparr>))"
proof -
  define hdr where "hdr = \<lparr>uh_length = 16, uh_version = 0, uh_message = 3, uh_tag = 2\<rparr>"
  define w where "w = (\<lambda>c bs. (link_world (idle_device MUXDEV_ACTIVE []) (idle_conn CONN_CONNECTED []) c)\<lparr>sys := idle_env\<lparr>oks := bs\<rparr>\<rparr>)"
  define c where "c = idle_client CLIENT_LISTEN"
  define plist_c where "plist_c = c\<lparr>cl_proto_version := 1\<rparr>"
  define full where "full = c\<lparr>cl_ob_buf := Some [1], cl_ob_size := 1, cl_ob_capacity := 1\<rparr>"
  have k: "client_heap (w v bs) 20 = Some v" "oks (sys (w v bs)) = bs" "conf (w v bs) = sample_store" for v bs
    by (simp_all add: w_def link_world_def idle_world_def idle_env_def)
  have st: "cl_state c = CLIENT_LISTEN" "cl_state plist_c = CLIENT_LISTEN" "cl_state full = CLIENT_LISTEN"
    "ob_wf c" "ob_wf plist_c" "ob_wf full"
    by (simp_all add: c_def plist_c_def full_def idle_client_def ob_wf_def)
  have body: "result_body (w v bs) c r = Some (le32 r)" "result_body (w v bs) plist_c r = Some [60]"
    "result_body (w v bs) full r = Some (le32 r)" for v bs r
    by (simp_all add: result_body_def k sample_store_def c_def plist_c_def full_def idle_client_def)
  have room: "ob_room c (le32 r)" "ob_room plist_c [60]" "ob_room full (le32 r)" for r
    by (simp_all add: ob_room_def c_def plist_c_def full_def idle_client_def)
  have queue: "can_queue (w v []) c' p" "\<not> can_queue (w v [False]) full (le32 r)" for v c' p r
    by (simp_all add: can_queue_def k ob_fits_def) (simp add: full_def)
  have "run_command 20 hdr [] (w c []) = Inl UseAfterFree"
    using second_command_crashes [OF k(1) [of c "[]"] st(1,4), of hdr "[]"] body room queue by simp
  moreover have "run_command 20 hdr [] (w plist_c []) = Inl UseAfterFree"
    using second_command_crashes [OF k(1) [of plist_c "[]"] st(2,5), of hdr "[]"] body room queue by simp
  moreover have "run_command 20 hdr [] (w full []) = Inl UseAfterFree"
    using second_command_crashes [OF k(1) [of full "[]"] st(3,6), of hdr "[]"] body room queue by simp
  moreover have "\<exists>w'. run_command 20 hdr [] (w full [False]) = Inr ((), w') \<and> client_heap w' 20 = Some (full\<lparr>cl_ib_size := 0\<rparr>)"
    using second_command_crashes [OF k(1) [of full "[False]"] st(3,6), of hdr "[]"] body room queue by auto
  ultimately show ?thesis unfolding Let_def hdr_def w_def full_def plist_c_def c_def by simp
qed

end
