(* ===== verification/Framing.thy ===== *)
theory Framing
  imports Device Teardown
begin

text \<open>
  The framing of the byte stream from a device (\<open>device_data_input\<close>, \<open>device_process_sockets\<close> of
  device.cpp): packets that arrive in several transfers are put together, the header a daemon sends is
  the header a daemon understands, and what the loop over the packets of one transfer does with
  packets that follow each other.
\<close>

subsection \<open>Reassembly\<close>

lemma be32_at_prefix: "off + 4 \<le> n \<Longrightarrow> take n xs = take n ys \<Longrightarrow> be32_at off xs = be32_at off ys"
proof -
  assume n: "off + 4 \<le> n" "take n xs = take n ys"
  have "take 4 (drop off (take n zs)) = take 4 (drop off zs)" for zs :: bytes
    using n(1) by (simp add: drop_take min_absorb1)
  then show ?thesis using n(2) unfolding be32_at_def field_def by metis
qed

lemma be32_at_append: "be32_at off xs = Some x \<Longrightarrow> be32_at off (xs @ ys) = Some x"
proof -
  assume a: "be32_at off xs = Some x"
  then have "off + 4 \<le> length xs" using be32_at_defined by auto
  then show ?thesis using a be32_at_prefix [of off "length xs" "xs @ ys" xs] by simp
qed

text \<open>
  \<open>gathering v got\<close>: the device has collected exactly the bytes \<open>got\<close> of a packet, and the counter is
  the number of bytes in the buffer.
\<close>

definition gathering :: "mux_device \<Rightarrow> bytes \<Rightarrow> bool" where
  "gathering v got \<longleftrightarrow> unat (dev_pktlen v) = length got \<and> length got \<le> length (dev_pktbuf v) \<and>
     take (length got) (dev_pktbuf v) = got"

lemma unat_length_small: "length (xs :: bytes) \<le> DEV_MRU \<Longrightarrow> unat (of_nat (length xs) :: u32) = length xs"
  by (simp add: unat_of_nat_small DEV_MRU_def)

lemma gather_more:
  assumes "dev_heap w dev = Some v" "gathering v got" "got \<noteq> []" "length (got @ b) \<le> DEV_MRU"
    and "length pkt \<le> DEV_MRU" "8 \<le> length got" "got @ b @ rest = pkt" "be32_at 4 pkt = Some (of_nat (length pkt))"
    and "length b \<le> USB_MRU"
  defines "all \<equiv> rest = [] \<or> length b < USB_MRU"
  shows "\<exists>v'. gather dev b (of_nat (length b)) w = Inr (if all then Inr (dev_pktbuf v', of_nat (length (got @ b))) else Inl (of_nat (length b)),
       w\<lparr>dev_heap := (dev_heap w)(dev := Some v')\<rparr>) \<and> v' = v\<lparr>dev_pktbuf := dev_pktbuf v', dev_pktlen := dev_pktlen v'\<rparr> \<and>
     take (length (got @ b)) (dev_pktbuf v') = got @ b \<and>
     (if all then dev_pktlen v' = 0 else gathering v' (got @ b))"
proof -
  let ?len = "of_nat (length b) :: u32" and ?pb = "buf_put (length got) b (dev_pktbuf v)"
  have g: "unat (dev_pktlen v) = length got" "length got \<le> length (dev_pktbuf v)" "take (length got) (dev_pktbuf v) = got"
    using assms(2) by (simp_all add: gathering_def)
  have lb: "unat ?len = length b" using assms(4) by (intro unat_length_small) simp
  have sum: "unat (?len + dev_pktlen v) = length b + length got"
    using lb g(1) assms(4) by (subst unat_add_small) (simp_all add: DEV_MRU_def)
  have total: "?len + dev_pktlen v = of_nat (length (got @ b))"
    using sum unat_length_small [OF assms(4)] by (metis add.commute length_append unsigned_word_eqI)
  have pb: "take (length (got @ b)) ?pb = got @ b" "length (got @ b) \<le> length ?pb"
    using g(2,3) take_buf_put [OF g(2), of b] by (simp_all add: length_buf_put)
  have "take (length (got @ b)) ?pb = take (length (got @ b)) pkt" using pb(1) assms(7) by auto
  then have mlen: "be32_at 4 ?pb = Some (of_nat (length pkt))"
    using be32_at_prefix [of 4 "length (got @ b)" ?pb pkt] assms(6,8) by simp
  have nz: "dev_pktlen v \<noteq> 0" using g(1) assms(3) by auto
  have "of_nat (length pkt) = ?len + dev_pktlen v \<longleftrightarrow> length pkt = length b + length got"
    using sum unat_length_small [OF assms(5)] by (metis unsigned_word_eqI)
  also have "\<dots> \<longleftrightarrow> rest = []" using assms(7) by auto
  finally have cond: "unat ?len < USB_MRU \<or> of_nat (length pkt) = ?len + dev_pktlen v \<longleftrightarrow> all"
    using lb by (auto simp: all_def)
  have fits: "\<not> unat (?len + dev_pktlen v) > DEV_MRU" using sum assms(4) by simp
  have run: "gather dev b ?len w = (if all
     then Inr (Inr (?pb, ?len + dev_pktlen v), w\<lparr>dev_heap := (dev_heap w)(dev := Some (v\<lparr>dev_pktbuf := ?pb, dev_pktlen := 0\<rparr>))\<rparr>)
     else Inr (Inl ?len, w\<lparr>dev_heap := (dev_heap w)(dev := Some (v\<lparr>dev_pktbuf := ?pb, dev_pktlen := dev_pktlen v + ?len\<rparr>))\<rparr>))"
    using assms(1,4) nz fits lb g(1) cond
    by (simp add: gather_def seq_Inr get_dev_run buf_read_def buf_write_def mux_length_def mlen set_dev_def cong: if_cong)
  show ?thesis
  proof (cases "all")
    case True
    then show ?thesis using run pb total
      by (intro exI [of _ "v\<lparr>dev_pktbuf := ?pb, dev_pktlen := 0\<rparr>"]) simp
  next
    case False
    then show ?thesis using run pb sum
      by (intro exI [of _ "v\<lparr>dev_pktbuf := ?pb, dev_pktlen := dev_pktlen v + ?len\<rparr>"]) (simp add: gathering_def add.commute)
  qed
qed

text \<open>Devices are found by their usb device; an update that keeps it does not change what is found.\<close>

definition finds_dev :: "world \<Rightarrow> ptr \<Rightarrow> ptr \<Rightarrow> mux_device \<Rightarrow> bool" where
  "finds_dev w u dev v \<longleftrightarrow> find_slot (dev_heap w) (\<lambda>d. dev_usbdev d = u) (elems (device_list w)) = Inr (Some dev) \<and>
     dev_heap w dev = Some v"

lemma find_slot_update:
  "find_slot h P ps = Inr r \<Longrightarrow> h p = Some v \<Longrightarrow> P v' = P v \<Longrightarrow> find_slot (h(p := Some v')) P ps = Inr r"
  by (induction ps) (auto split: option.splits if_splits)

lemma finds_dev_update:
  "finds_dev w u dev v \<Longrightarrow> dev_usbdev v' = dev_usbdev v \<Longrightarrow> finds_dev (w\<lparr>dev_heap := (dev_heap w)(dev := Some v')\<rparr>) u dev v'"
  by (simp add: finds_dev_def find_slot_update)

lemma data_input_run:
  assumes "finds_dev w u dev v" "len \<noteq> 0" "unat len \<le> DEV_MRU"
  shows "device_data_input u b len w = seq (gather dev b len) (\<lambda>g.
     case g of
       Inl n \<Rightarrow> ret n
     | Inr (buffer, len) \<Rightarrow> seq (mux_length buffer) (\<lambda>mlen.
         if mlen > len then ret len
         else seq (dispatch dev buffer len) (\<lambda>r.
           case r of None \<Rightarrow> ret len | Some _ \<Rightarrow> ret (if mlen < len then mlen else len)))) w"
proof -
  have "find_dev_by_usb u w = Inr (Some dev, w)"
    using assms(1) by (simp add: find_dev_by_usb_def find_in_run finds_dev_def)
  then show ?thesis using assms(2,3) by (simp add: device_data_input_def seq_Inr)
qed

text \<open>
  The loop over the chunks in which a packet arrives: the results are the numbers of bytes taken, and
  behind the last chunk the whole packet is dispatched.
\<close>

definition deliver :: "ptr \<Rightarrow> bytes list \<Rightarrow> u32 list act" where
  "deliver u cs = map_m (\<lambda>b. device_data_input u b (of_nat (length b))) cs"

lemma seq_result: "case_option (ret n) (\<lambda>_. ret n) = (\<lambda>_. ret n)"
  by (simp add: fun_eq_iff split: option.splits)

text \<open>What is done with the collected bytes: a complete packet is dispatched, another is dropped.\<close>

definition hand_over :: "ptr \<Rightarrow> bool \<Rightarrow> bytes \<Rightarrow> u32 \<Rightarrow> unit option act" where
  "hand_over dev complete buf len = (if complete then dispatch dev buf len else ret None)"

lemma taken_whole:
  assumes "mux_length buf w = Inr (of_nat n, w)" "len = of_nat k" "unat (of_nat n :: u32) = n" "unat len = k" "k \<le> n"
  shows "seq (mux_length buf) (\<lambda>mlen. if mlen > len then ret len
      else seq (dispatch dev buf len) (\<lambda>r. case r of None \<Rightarrow> ret len | Some _ \<Rightarrow> ret (if mlen < len then mlen else len))) w =
    seq (hand_over dev (k = n) buf len) (\<lambda>_. ret len) w"
proof (cases "k = n")
  case True
  then show ?thesis using assms by (simp add: seq_Inr hand_over_def seq_result)
next
  case False
  then have "of_nat n > len" using assms by (simp add: word_less_nat_alt)
  then show ?thesis using assms(1) False by (simp add: seq_Inr hand_over_def)
qed

lemma deliver_rest:
  assumes "finds_dev w u dev v" "gathering v got" "8 \<le> length got" "got @ concat (cs @ [b]) @ rest = pkt"
    and "length pkt \<le> DEV_MRU" "be32_at 4 pkt = Some (of_nat (length pkt))"
    and "\<forall>x \<in> set cs. length x = USB_MRU" "b \<noteq> []" "length b \<le> USB_MRU" "rest = [] \<or> length b < USB_MRU"
  shows "\<exists>v'. v' = v\<lparr>dev_pktbuf := dev_pktbuf v', dev_pktlen := 0\<rparr> \<and>
     take (length (got @ concat (cs @ [b]))) (dev_pktbuf v') = got @ concat (cs @ [b]) \<and>
     deliver u (cs @ [b]) w = seq (hand_over dev (rest = []) (dev_pktbuf v') (of_nat (length (got @ concat (cs @ [b])))))
       (\<lambda>_. ret (map (of_nat \<circ> length) cs @ [of_nat (length (got @ concat (cs @ [b])))])) (w\<lparr>dev_heap := (dev_heap w)(dev := Some v')\<rparr>)"
  using assms
proof (induction cs arbitrary: w v got)
  case Nil
  then have pkt: "got @ b @ rest = pkt" by simp
  have h: "dev_heap w dev = Some v" "got \<noteq> []" "length (got @ b) \<le> DEV_MRU"
    using Nil.prems pkt by (auto simp: finds_dev_def)
  obtain v' where v': "gather dev b (of_nat (length b)) w = Inr (Inr (dev_pktbuf v', of_nat (length (got @ b))), w\<lparr>dev_heap := (dev_heap w)(dev := Some v')\<rparr>)"
    "v' = v\<lparr>dev_pktbuf := dev_pktbuf v', dev_pktlen := 0\<rparr>" "take (length (got @ b)) (dev_pktbuf v') = got @ b"
    using gather_more [OF h(1) Nil.prems(2) h(2,3) Nil.prems(5,3) pkt Nil.prems(6,9)] Nil.prems(10) by auto
  let ?w = "w\<lparr>dev_heap := (dev_heap w)(dev := Some v')\<rparr>"
  have "take (length (got @ b)) (dev_pktbuf v') = take (length (got @ b)) pkt" using v'(3) pkt by auto
  then have mlen: "mux_length (dev_pktbuf v') x = Inr (of_nat (length pkt), x)" for x
    using be32_at_prefix [of 4 "length (got @ b)" "dev_pktbuf v'" pkt] Nil.prems(3,6) by (simp add: mux_length_def)
  have len: "of_nat (length b) \<noteq> (0 :: u32)" "unat (of_nat (length b) :: u32) \<le> DEV_MRU"
    using unat_length_small [of b] h(3) Nil.prems(8) by (auto simp flip: unat_eq_zero)
  define k :: nat where "k = length (got @ b)"
  have k: "k = length pkt \<longleftrightarrow> rest = []" "k \<le> length pkt" "unat (of_nat k :: u32) = k"
    using pkt unat_length_small [OF h(3)] by (auto simp: k_def)
  have g: "gather dev b (of_nat (length b)) w = Inr (Inr (dev_pktbuf v', of_nat k), ?w)" unfolding k_def by (rule v'(1))
  have "device_data_input u b (of_nat (length b)) w = seq (hand_over dev (rest = []) (dev_pktbuf v') (of_nat k)) (\<lambda>_. ret (of_nat k)) ?w"
    using taken_whole [OF mlen refl unat_length_small [OF Nil.prems(5)] k(3,2), of dev] k(1)
    by (simp add: data_input_run [OF Nil.prems(1) len] seq_run g)
  then have "device_data_input u b (of_nat (length b)) w = seq (hand_over dev (rest = []) (dev_pktbuf v') (of_nat (length (got @ b))))
      (\<lambda>_. ret (of_nat (length (got @ b)))) ?w" unfolding k_def .
  then show ?case
    using v' by (intro exI [of _ v']) (simp add: deliver_def seq_def fun_upd_def split: sum.splits)
next
  case (Cons x cs)
  have x: "length x = USB_MRU" "x \<noteq> []" using Cons.prems(7) by (auto simp: USB_MRU_def)
  have rest: "\<not> (concat (cs @ [b]) @ rest = [] \<or> length x < USB_MRU)" using Cons.prems(8) x(1) by simp
  have h: "dev_heap w dev = Some v" "got \<noteq> []" "length (got @ x) \<le> DEV_MRU" "got @ x @ concat (cs @ [b]) @ rest = pkt"
    using Cons.prems by (auto simp: finds_dev_def)
  obtain v1 where v1: "gather dev x (of_nat (length x)) w = Inr (Inl (of_nat (length x)), w\<lparr>dev_heap := (dev_heap w)(dev := Some v1)\<rparr>)"
    "v1 = v\<lparr>dev_pktbuf := dev_pktbuf v1, dev_pktlen := dev_pktlen v1\<rparr>" "gathering v1 (got @ x)"
    using gather_more [OF h(1) Cons.prems(2) h(2,3) Cons.prems(5,3) h(4) Cons.prems(6) eq_refl [OF x(1)],
        unfolded if_not_P [OF rest]] by blast
  let ?w1 = "w\<lparr>dev_heap := (dev_heap w)(dev := Some v1)\<rparr>"
  have "dev_usbdev v1 = dev_usbdev v" by (subst v1(2)) simp
  then have w1: "finds_dev ?w1 u dev v1" by (rule finds_dev_update [OF Cons.prems(1)])
  have len: "of_nat (length x) \<noteq> (0 :: u32)" "unat (of_nat (length x) :: u32) \<le> DEV_MRU"
    using unat_length_small [of x] h(3) x(2) by (auto simp flip: unat_eq_zero)
  have "device_data_input u x (of_nat (length x)) w = Inr (of_nat (length x), ?w1)"
    using data_input_run [OF Cons.prems(1) len] v1(1) by (simp add: seq_Inr)
  then have step: "deliver u ((x # cs) @ [b]) w = seq (deliver u (cs @ [b])) (\<lambda>ys. ret (of_nat (length x) # ys)) ?w1"
    by (simp add: deliver_def seq_Inr)
  obtain v' where v': "v' = v1\<lparr>dev_pktbuf := dev_pktbuf v', dev_pktlen := 0\<rparr>" "take (length ((got @ x) @ concat (cs @ [b]))) (dev_pktbuf v') = (got @ x) @ concat (cs @ [b])"
    "deliver u (cs @ [b]) ?w1 = seq (hand_over dev (rest = []) (dev_pktbuf v') (of_nat (length ((got @ x) @ concat (cs @ [b])))))
       (\<lambda>_. ret (map (of_nat \<circ> length) cs @ [of_nat (length ((got @ x) @ concat (cs @ [b])))])) (?w1\<lparr>dev_heap := (dev_heap ?w1)(dev := Some v')\<rparr>)"
    using Cons.IH [OF w1 v1(3)] Cons.prems by fastforce
  show ?case
  proof (intro exI conjI)
    show "v' = v\<lparr>dev_pktbuf := dev_pktbuf v', dev_pktlen := 0\<rparr>"
      using v'(1) v1(2) by (cases v; cases v1; cases v') simp
    show "take (length (got @ concat ((x # cs) @ [b]))) (dev_pktbuf v') = got @ concat ((x # cs) @ [b])"
      using v'(2) by simp
    show "deliver u ((x # cs) @ [b]) w = seq (hand_over dev (rest = []) (dev_pktbuf v') (of_nat (length (got @ concat ((x # cs) @ [b])))))
       (\<lambda>_. ret (map (of_nat \<circ> length) (x # cs) @ [of_nat (length (got @ concat ((x # cs) @ [b])))])) (w\<lparr>dev_heap := (dev_heap w)(dev := Some v')\<rparr>)"
      unfolding step using v'(3) by (simp add: seq_def split: sum.splits)
  qed
qed

text \<open>The first transfer is the last one, or is collected.\<close>

lemma reassembled_one:
  assumes "finds_dev w u dev v" "dev_pktlen v = 0" "b @ rest = pkt" "length pkt \<le> DEV_MRU"
    and "be32_at 4 pkt = Some (of_nat (length pkt))" "b \<noteq> []" "length b \<le> USB_MRU"
    and "rest = [] \<or> length b < USB_MRU \<and> 8 \<le> length b"
  shows "\<exists>v' buf. v' = v\<lparr>dev_pktbuf := dev_pktbuf v', dev_pktlen := 0\<rparr> \<and> take (length b) buf = b \<and>
     deliver u [b] w = seq (hand_over dev (rest = []) buf (of_nat (length b))) (\<lambda>_. ret [of_nat (length b)])
       (w\<lparr>dev_heap := (dev_heap w)(dev := Some v')\<rparr>)"
proof -
  have b: "b @ rest = pkt" "8 \<le> length b" "length b \<le> DEV_MRU"
    using assms(3,4,5,8) be32_at_defined [of 4 pkt] by auto
  have n: "unat (of_nat (length b) :: u32) = length b" by (rule unat_length_small [OF b(3)])
  have len: "of_nat (length b) \<noteq> (0 :: u32)" "unat (of_nat (length b) :: u32) \<le> DEV_MRU"
    using n assms(6) b(3) by (auto simp flip: unat_eq_zero)
  have "take (length b) b = take (length b) pkt" using b(1) by auto
  then have mlen: "mux_length b x = Inr (of_nat (length pkt), x)" for x
    using be32_at_prefix [of 4 "length b" b pkt] b(2) assms(5) by (simp add: mux_length_def)
  have w: "w\<lparr>dev_heap := (dev_heap w)(dev := Some v)\<rparr> = w"
    using assms(1) by (simp add: finds_dev_def fun_upd_idem)
  have all: "length b = length pkt \<longleftrightarrow> rest = []" "length b \<le> length pkt" using b(1) by auto
  have "\<not> (unat (of_nat (length b) :: u32) = USB_MRU \<and> (of_nat (length b) :: u32) < of_nat (length pkt))"
    using assms(8) n all(1) by auto
  then have g: "gather dev b (of_nat (length b)) w = Inr (Inr (b, of_nat (length b)), w)"
    using assms(1,2) mlen by (auto simp: gather_def seq_Inr get_dev_run finds_dev_def)
  have "device_data_input u b (of_nat (length b)) w = seq (hand_over dev (rest = []) b (of_nat (length b))) (\<lambda>_. ret (of_nat (length b))) w"
    using taken_whole [OF mlen refl unat_length_small [OF assms(4)] n all(2), of dev] all(1)
    by (simp add: data_input_run [OF assms(1) len] seq_run g)
  then have "deliver u [b] w = seq (hand_over dev (rest = []) b (of_nat (length b))) (\<lambda>_. ret [of_nat (length b)]) w"
    by (simp add: deliver_def seq_def split: sum.splits)
  then show ?thesis
    using w assms(2) all(1) by (intro exI [of _ v] exI [of _ b]) auto
qed

lemma reassembled_more:
  assumes "finds_dev w u dev v" "dev_pktlen v = 0" "concat ((x # cs) @ [b]) @ rest = pkt" "length pkt \<le> DEV_MRU"
    and "be32_at 4 pkt = Some (of_nat (length pkt))" "\<forall>y \<in> set (x # cs). length y = USB_MRU" "b \<noteq> []" "length b \<le> USB_MRU"
    and "rest = [] \<or> length b < USB_MRU"
  defines "got \<equiv> concat ((x # cs) @ [b])"
  shows "\<exists>v' buf. v' = v\<lparr>dev_pktbuf := dev_pktbuf v', dev_pktlen := 0\<rparr> \<and> take (length got) buf = got \<and>
     deliver u ((x # cs) @ [b]) w = seq (hand_over dev (rest = []) buf (of_nat (length got)))
       (\<lambda>_. ret (map (of_nat \<circ> length) (x # cs) @ [of_nat (length got)])) (w\<lparr>dev_heap := (dev_heap w)(dev := Some v')\<rparr>)"
proof -
  have x: "length x = USB_MRU" "x \<noteq> []" using assms(6) by (auto simp: USB_MRU_def)
  have pkt: "x @ concat (cs @ [b]) @ rest = pkt" using assms(3) by simp
  then have more: "length x < length pkt" "length x \<le> DEV_MRU" using assms(4,7) by auto
  have n: "unat (of_nat (length x) :: u32) = length x" by (rule unat_length_small [OF more(2)])
  have len: "of_nat (length x) \<noteq> (0 :: u32)" "unat (of_nat (length x) :: u32) \<le> DEV_MRU"
    using n more(2) x(2) by (auto simp flip: unat_eq_zero)
  have "take USB_MRU x = take USB_MRU pkt" using pkt x(1) by auto
  then have mlen: "be32_at 4 x = Some (of_nat (length pkt))"
    using be32_at_prefix [of 4 USB_MRU x pkt] assms(5) by (simp add: USB_MRU_def)
  have lt: "(of_nat (length x) :: u32) < of_nat (length pkt)"
    using n unat_length_small [OF assms(4)] more(1) by (simp add: word_less_nat_alt)
  let ?v1 = "v\<lparr>dev_pktbuf := buf_put 0 x (dev_pktbuf v), dev_pktlen := of_nat (length x)\<rparr>"
  let ?w1 = "w\<lparr>dev_heap := (dev_heap w)(dev := Some ?v1)\<rparr>"
  have g: "gather dev x (of_nat (length x)) w = Inr (Inl (of_nat (length x)), ?w1)"
    using assms(1,2) n x(1) more(2) mlen lt
    by (simp add: gather_def seq_Inr get_dev_run finds_dev_def mux_length_def buf_read_def buf_write_def set_dev_def USB_MRU_def)
  have step: "deliver u ((x # cs) @ [b]) w = seq (deliver u (cs @ [b])) (\<lambda>ys. ret (of_nat (length x) # ys)) ?w1"
    using data_input_run [OF assms(1) len] g by (simp add: deliver_def seq_Inr)
  have w1: "finds_dev ?w1 u dev ?v1" by (rule finds_dev_update [OF assms(1)]) simp
  have got: "gathering ?v1 x" using n by (simp add: gathering_def buf_put_def)
  have eq: "x @ concat (cs @ [b]) = got" by (simp add: got_def)
  have "8 \<le> length x" using x(1) by (simp add: USB_MRU_def)
  then obtain v' where v': "v' = ?v1\<lparr>dev_pktbuf := dev_pktbuf v', dev_pktlen := 0\<rparr>" "take (length got) (dev_pktbuf v') = got"
    "deliver u (cs @ [b]) ?w1 = seq (hand_over dev (rest = []) (dev_pktbuf v') (of_nat (length got)))
       (\<lambda>_. ret (map (of_nat \<circ> length) cs @ [of_nat (length got)])) (?w1\<lparr>dev_heap := (dev_heap ?w1)(dev := Some v')\<rparr>)"
    using deliver_rest [OF w1 got _ pkt assms(4,5) _ assms(7,8), unfolded eq] assms(6,9) Cons by auto
  show ?thesis
  proof (intro exI conjI)
    show "v' = v\<lparr>dev_pktbuf := dev_pktbuf v', dev_pktlen := 0\<rparr>" using v'(1) by (cases v; cases v') simp
    show "take (length got) (dev_pktbuf v') = got" by (rule v'(2))
    show "deliver u ((x # cs) @ [b]) w = seq (hand_over dev (rest = []) (dev_pktbuf v') (of_nat (length got)))
       (\<lambda>_. ret (map (of_nat \<circ> length) (x # cs) @ [of_nat (length got)])) (w\<lparr>dev_heap := (dev_heap w)(dev := Some v')\<rparr>)"
      unfolding step using v'(3) by (simp add: seq_def split: sum.splits)
  qed
qed



subsection \<open>The header of a packet\<close>

lemma packet_header_fields:
  "be32_at 0 (fst (packet_header proto n p) @ rest) = Some (proto_num proto)"
  "be32_at 4 (fst (packet_header proto n p) @ rest) = Some (of_nat n)"
proof -
  have "be32_at 0 (fst (packet_header proto n p)) = Some (proto_num proto) \<and> be32_at 4 (fst (packet_header proto n p)) = Some (of_nat n)"
  proof (cases "dev_version p < 2")
    case True
    then show ?thesis by (simp add: packet_header_def be32_at_def field_def)
  next
    case False
    then show ?thesis by (simp add: packet_header_def Let_def)
  qed
  then show "be32_at 0 (fst (packet_header proto n p) @ rest) = Some (proto_num proto)"
    "be32_at 4 (fst (packet_header proto n p) @ rest) = Some (of_nat n)"
    by (simp_all add: be32_at_append)
qed

lemma packet_header_rx:
  assumes "\<not> dev_version p < 2" "proto \<noteq> MUX_PROTO_SETUP"
  shows "be16_at 14 (fst (packet_header proto n p) @ rest) = Some (dev_rx_seq p)"
  using assms by (simp add: packet_header_def reset_seq_def Let_def mux_header_bytes_def be16_at_def field_def)

text \<open>
  The packets a device and the daemon exchange: their protocol, the protocol's own header and the data, as \<open>send_packet\<close>
  puts them together behind a mux header.
\<close>

datatype mux_message = Version_Msg version_header | Control_Msg bytes | Tcp_Msg tcphdr bytes

fun msg_parts :: "mux_message \<Rightarrow> mux_protocol \<times> bytes \<times> bytes" where
  "msg_parts (Version_Msg vh) = (MUX_PROTO_VERSION, version_header_bytes vh, [])"
| "msg_parts (Control_Msg bs) = (MUX_PROTO_CONTROL, [], bs)"
| "msg_parts (Tcp_Msg th bs) = (MUX_PROTO_TCP, tcphdr_bytes th, bs)"

definition msg_bytes :: "mux_device \<Rightarrow> mux_message \<Rightarrow> bytes" where
  "msg_bytes p m = (case msg_parts m of (proto, header, data) \<Rightarrow>
     fst (packet_header proto (mux_header_size p + length header + length data) p) @ header @ data)"

lemma msg_bytes_sent:
  "msg_bytes p (Tcp_Msg th bs) = packet_bytes MUX_PROTO_TCP p (tcphdr_bytes th) bs"
  "msg_bytes p (Version_Msg vh) = packet_bytes MUX_PROTO_VERSION p (version_header_bytes vh) []"
  by (simp_all add: msg_bytes_def packet_bytes_def)

lemma msg_bytes_length: "be32_at 4 (msg_bytes p m @ rest) = Some (of_nat (length (msg_bytes p m)))"
  by (cases "msg_parts m") (simp add: msg_bytes_def packet_header_fields add.assoc)

lemma seq_some: "seq (some_or h (Some x)) f = f x"
  by (simp add: fun_eq_iff seq_Inr)

lemma dispatch_run:
  assumes "dev_heap w dev = Some v" "dev_version v < 2 \<longleftrightarrow> dev_version p < 2" "length (msg_bytes p m @ rest) \<le> DEV_MRU"
  shows "dispatch dev (msg_bytes p m @ rest) (of_nat (length (msg_bytes p m @ rest))) w =
     seq (case m of
            Version_Msg vh \<Rightarrow> device_version_input dev vh
          | Control_Msg bs \<Rightarrow> device_control_input (drop (16 - mux_header_size p) (bs @ rest)) (of_nat (length bs + length rest))
          | Tcp_Msg th bs \<Rightarrow> device_tcp_input dev th (bs @ rest) (of_nat (length bs + length rest))) (\<lambda>_. ret (Some ()))
       (if dev_version p < 2 then w else w\<lparr>dev_heap := (dev_heap w)(dev := Some (v\<lparr>dev_rx_seq := dev_rx_seq p\<rparr>))\<rparr>)"
proof -
  obtain proto header data where m: "msg_parts m = (proto, header, data)" by (cases "msg_parts m")
  let ?s = "mux_header_size p" and ?body = "header @ data @ rest"
  let ?h = "fst (packet_header proto (?s + length header + length data) p)"
  define n where "n = ?s + length ?body"
  have pkt: "msg_bytes p m @ rest = ?h @ ?body" by (simp add: msg_bytes_def m)
  have sizes: "mux_header_size v = ?s" "?s \<le> 16" using assms(2) by (simp_all add: mux_header_size_def)
  have len: "length (?h @ ?body) = n" by (simp add: n_def)
  have un: "unat (of_nat n :: u32) = n"
    using assms(3) unfolding pkt len by (intro unat_of_nat_small) (simp add: DEV_MRU_def)
  have body: "drop (?s + k) (?h @ ?body) = drop k ?body" for k by (simp add: drop_append)
  have rx: "be16_at 14 (?h @ ?body) = Some (dev_rx_seq p)" if "\<not> dev_version p < 2" 
    by (rule packet_header_rx [OF that]) (use m in \<open>cases m; auto\<close>)
  let ?w = "if dev_version p < 2 then w else w\<lparr>dev_heap := (dev_heap w)(dev := Some (v\<lparr>dev_rx_seq := dev_rx_seq p\<rparr>))\<rparr>"
  let ?handle = "if proto = MUX_PROTO_VERSION
     then if n < ?s + 12 then ret None
          else seq (some_or UninitRead (read_version_header (take 12 ?body))) (\<lambda>vh.
               seq (device_version_input dev vh) (\<lambda>_. ret (Some ())))
     else if proto = MUX_PROTO_CONTROL
     then seq (device_control_input (drop (16 - ?s) ?body) (of_nat n - of_nat ?s)) (\<lambda>_. ret (Some ()))
     else if proto = MUX_PROTO_TCP
     then if n < ?s + 20 then ret None
          else seq (some_or UninitRead (read_tcphdr (take 20 ?body))) (\<lambda>th.
               seq (device_tcp_input dev th (drop 20 ?body) (of_nat n - 20 - of_nat ?s)) (\<lambda>_. ret (Some ())))
     else ret None"
  define buf where "buf = ?h @ ?body"
  have bufs: "drop ?s buf = ?body" "drop (?s + 20) buf = drop 20 ?body" "drop 16 buf = drop (16 - ?s) ?body"
    using body [of 0] body [of 20] body [of "16 - ?s"] sizes(2) by (simp_all add: buf_def)
  have fields: "be32_at 0 buf = Some (proto_num proto)" "\<not> dev_version p < 2 \<Longrightarrow> be16_at 14 buf = Some (dev_rx_seq p)"
    using rx unfolding buf_def by (simp_all add: packet_header_fields)
  have "dispatch dev buf (of_nat n) w = ?handle ?w"
  proof (cases "dev_version p < 2")
    case True
    then have "\<not> 2 \<le> dev_version v" using assms(2) by (simp add: not_le)
    then show ?thesis using assms(1) True
      by (cases proto) (simp_all add: dispatch_def seq_run get_dev_run Let_def bufs fields sizes(1) un)
  next
    case False
    then have "2 \<le> dev_version v" using assms(2) by (metis not_less)
    then show ?thesis using assms(1) False
      by (cases proto) (simp_all add: dispatch_def seq_run get_dev_run set_dev_def Let_def bufs fields sizes(1) un)
  qed
  moreover have "of_nat n - of_nat ?s = (of_nat (length ?body) :: u32)" by (simp add: n_def)
  ultimately show ?thesis
    using m unfolding pkt len buf_def by (cases m) (auto simp: n_def add.commute seq_some)
qed

lemma dispatch_tcp:
  fixes data rest :: bytes
  assumes "dev_heap w dev = Some v" "dev_version v \<ge> 2" "dev_version p \<ge> 2"
    and "length (packet_bytes MUX_PROTO_TCP p (tcphdr_bytes th) data @ rest) \<le> DEV_MRU"
  shows "dispatch dev (packet_bytes MUX_PROTO_TCP p (tcphdr_bytes th) data @ rest)
       (of_nat (length (packet_bytes MUX_PROTO_TCP p (tcphdr_bytes th) data @ rest))) w =
     seq (device_tcp_input dev th (data @ rest) (of_nat (length data + length rest))) (\<lambda>_. ret (Some ()))
       (w\<lparr>dev_heap := (dev_heap w)(dev := Some (v\<lparr>dev_rx_seq := dev_rx_seq p\<rparr>))\<rparr>)"
  using dispatch_run [of w dev v p "Tcp_Msg th data" rest] assms by (simp add: msg_bytes_sent flip: not_le)

text \<open>
  C24: The two directions of the protocol agree. A version, control or TCP packet that is built the way \<open>send_packet\<close>
  builds one announces its own length, and a receiver whose protocol version asks for the same form of header hands it to
  the handler of its protocol, with exactly the version or TCP header it was built from; with the full header its receive
  number is noted. The payload handed to a control or TCP handler is the packet's data with everything that follows in
  the transfer; it is the data alone when nothing follows. The exception are control packets with the short header: their
  payload is taken from behind a full header, eight bytes too far, under the length of the whole data.
  The transfer is no longer than the receive buffer of a device.
\<close>

theorem packets_understood:
  assumes "dev_heap w dev = Some v" "dev_version v < 2 \<longleftrightarrow> dev_version p < 2" "length (msg_bytes p m @ rest) \<le> DEV_MRU"
  shows "be32_at 4 (msg_bytes p m @ rest) = Some (of_nat (length (msg_bytes p m))) \<and>
     dispatch dev (msg_bytes p m @ rest) (of_nat (length (msg_bytes p m @ rest))) w =
     seq (case m of
            Version_Msg vh \<Rightarrow> device_version_input dev vh
          | Control_Msg bs \<Rightarrow> device_control_input (drop (16 - mux_header_size p) (bs @ rest)) (of_nat (length bs + length rest))
          | Tcp_Msg th bs \<Rightarrow> device_tcp_input dev th (bs @ rest) (of_nat (length bs + length rest))) (\<lambda>_. ret (Some ()))
       (if dev_version p < 2 then w else w\<lparr>dev_heap := (dev_heap w)(dev := Some (v\<lparr>dev_rx_seq := dev_rx_seq p\<rparr>))\<rparr>)"
  using dispatch_run [OF assms] msg_bytes_length [of p m rest] by simp

theorem packets_understood_witness:
  "dispatch 10 (msg_bytes (idle_device MUXDEV_ACTIVE []) (Tcp_Msg (tcp_header 1 2 3 4 TH_RST 5) [7, 8]) @ []) 38
      (link_world (idle_device MUXDEV_ACTIVE []) (idle_conn CONN_CONNECTED []) (idle_client CLIENT_CONNECTED)) =
    seq (device_tcp_input 10 (tcp_header 1 2 3 4 TH_RST 5) [7, 8] 2) (\<lambda>_. ret (Some ()))
      (link_world (idle_device MUXDEV_ACTIVE []) (idle_conn CONN_CONNECTED []) (idle_client CLIENT_CONNECTED))"
proof -
  let ?v = "idle_device MUXDEV_ACTIVE []" and ?m = "Tcp_Msg (tcp_header 1 2 3 4 TH_RST 5) [7, 8]"
  let ?w = "link_world ?v (idle_conn CONN_CONNECTED []) (idle_client CLIENT_CONNECTED)"
  have n: "length (msg_bytes ?v ?m @ []) = 38" by (simp add: msg_bytes_def mux_header_size_def idle_device_def)
  have h: "dev_heap ?w 10 = Some ?v" "dev_version ?v < 2 \<longleftrightarrow> dev_version ?v < 2" "length (msg_bytes ?v ?m @ []) \<le> DEV_MRU"
    unfolding n by (simp_all add: link_world_def DEV_MRU_def)
  have v: "?v\<lparr>dev_rx_seq := dev_rx_seq ?v\<rparr> = ?v" "\<not> dev_version ?v < 2" by (simp_all add: idle_device_def)
  have w: "?w\<lparr>dev_heap := (dev_heap ?w)(10 := Some ?v)\<rparr> = ?w" using h(1) by (simp add: fun_upd_idem)
  show ?thesis using packets_understood [OF h] unfolding n v w by (simp add: v(2))
qed

subsection \<open>The loop over the packets of a transfer\<close>

lemma control_zero_length:
  assumes "finds_dev w u dev v" "dev_pktlen v = 0" "be32_at 0 buf = Some 1" "be32_at 4 buf = Some 0" "17 \<le> length buf"
    and "buf ! 16 \<noteq> 3" "buf ! 16 \<noteq> 7" "sz \<noteq> 0" "unat sz \<le> DEV_MRU"
  shows "\<exists>v'. device_data_input u buf sz w = Inr (0, w\<lparr>dev_heap := (dev_heap w)(dev := Some v')\<rparr>) \<and>
     dev_usbdev v' = dev_usbdev v \<and> dev_pktlen v' = 0"
proof -
  have dev: "dev_heap w dev = Some v" using assms(1) by (simp add: finds_dev_def)
  obtain rx where rx: "be16_at 14 buf = Some rx" using be16_at_defined [of 14 buf] assms(5) by auto
  have first: "take 1 (drop 16 buf) = [buf ! 16]" using assms(5) by (simp add: take_Suc_conv_app_nth [of 0, simplified])
  have room: "Suc 0 \<le> length buf - 16" using assms(5) by arith
  have control: "device_control_input (drop 16 buf) n x = Inr ((), x)" for n x
    using assms(6,7) first room by (simp add: device_control_input_def buf_read_def seq_def)
  have g: "gather dev buf sz w = Inr (Inr (buf, sz), w)"
    using assms(2,4,8) dev by (simp add: gather_def seq_Inr get_dev_run mux_length_def)
  let ?v = "if dev_version v \<ge> 2 then v\<lparr>dev_rx_seq := rx\<rparr> else v"
  have d: "dispatch dev buf sz w = Inr (Some (), w\<lparr>dev_heap := (dev_heap w)(dev := Some ?v)\<rparr>)"
    using assms(3) dev rx control
    by (simp add: dispatch_def seq_Inr get_dev_run set_dev_def Let_def fun_upd_idem seq_run)
  have "device_data_input u buf sz w = Inr (0, w\<lparr>dev_heap := (dev_heap w)(dev := Some ?v)\<rparr>)"
    using data_input_run [OF assms(1,8,9)] g d assms(4,8)
    by (simp add: seq_Inr mux_length_def word_neq_0_conv del: seq_if)
  then show ?thesis using assms(2) by (intro exI [of _ ?v]) simp
qed

text \<open>
  C28: A control packet whose length field is 0 hangs the daemon. \<open>device_data_input\<close> returns the length
  from the packet, so the loop over the transfer makes no progress and meets the same packet for ever:
  no number of rounds is enough.
\<close>

theorem zero_length_hangs:
  assumes "finds_dev w u dev v" "dev_pktlen v = 0" "be32_at 0 buf = Some 1" "be32_at 4 buf = Some 0" "17 \<le> length buf"
    and "buf ! 16 \<noteq> 3" "buf ! 16 \<noteq> 7" "sz \<noteq> 0" "unat sz \<le> DEV_MRU"
  shows "process_packets fuel dev buf sz 0 w = Inl OutOfFuel"
  using assms
proof (induction fuel arbitrary: w v)
  case 0
  then show ?case by (simp add: word_neq_0_conv)
next
  case (Suc fuel)
  have dev: "dev_heap w dev = Some v" "dev_usbdev v = u"
    using Suc.prems(1) find_slot_Some by (fastforce simp: finds_dev_def)+
  obtain v' where v': "device_data_input u buf sz w = Inr (0, w\<lparr>dev_heap := (dev_heap w)(dev := Some v')\<rparr>)"
    "dev_usbdev v' = dev_usbdev v" "dev_pktlen v' = 0"
    using control_zero_length [OF Suc.prems] by blast
  have "process_packets fuel dev buf sz 0 (w\<lparr>dev_heap := (dev_heap w)(dev := Some v')\<rparr>) = Inl OutOfFuel"
    by (rule Suc.IH [OF finds_dev_update [OF Suc.prems(1) v'(2)] v'(3) Suc.prems(3-9)])
  then show ?case
    using dev v'(1) Suc.prems(8) by (simp add: seq_Inr get_dev_run word_neq_0_conv)
qed

theorem zero_length_hangs_witness:
  "process_packets 1000000 10 (be32 1 @ be32 0 @ replicate 16 0) 24 0
     (link_world (idle_device MUXDEV_ACTIVE []) (idle_conn CONN_CONNECTED []) (idle_client CLIENT_CONNECTED)) = Inl OutOfFuel"
  by (rule zero_length_hangs [where u = 30 and v = "idle_device MUXDEV_ACTIVE []"])
    (simp_all add: finds_dev_def idle_defs be32_at_def field_def nth_append DEV_MRU_def)

end
