(* ===== verification/Sockets.thy ===== *)
theory Sockets
  imports Base
begin

text \<open>
  The socket helpers of SocketUtil.h: creating listening and connected sockets, the loops that send or
  receive a whole buffer, with and without a timeout, and the two socket classes. The state is what
  Winsock answers and what was done to it; each answer comes from a script. An exhausted script means:
  \<open>socket\<close> and \<open>accept\<close> fail, other calls succeed, \<open>send\<close> takes everything, \<open>recv\<close> finds the peer
  closed, \<open>select\<close> reports the socket ready, and the clock stands still.
\<close>

datatype recv_result = Received bytes | RecvTimedOut | RecvFailed

record net =
  new_sockets :: "fd option list"
  call_results :: "bool list"
  free_ports :: "u16 list"
  send_results :: "int list"
  recv_results :: "recv_result list"
  select_results :: "int list"
  accept_results :: "fd option list"
  clock :: "u32 list"
  bytes_out :: "(fd \<times> bytes) list"
  bound :: "(fd \<times> u16) list"
  closed :: "fd list"
  nonblocking :: "(fd \<times> bool) list"
  waited :: "(int \<times> int) option list"

type_synonym 'a net_act = "(net, 'a) prog"

subsection \<open>Winsock\<close>

definition net_socket :: "fd option net_act" where
  "net_socket n = Inr (next_or None (new_sockets n), n\<lparr>new_sockets := tl (new_sockets n)\<rparr>)"

definition net_call :: "bool net_act" where
  "net_call n = Inr (next_or True (call_results n), n\<lparr>call_results := tl (call_results n)\<rparr>)"

definition net_accept :: "fd option net_act" where
  "net_accept n = Inr (next_or None (accept_results n), n\<lparr>accept_results := tl (accept_results n)\<rparr>)"

definition GetTickCount :: "u32 net_act" where
  "GetTickCount n = Inr (next_or 0 (clock n),
     n\<lparr>clock := (case clock n of t # u # ts \<Rightarrow> u # ts | ts \<Rightarrow> ts)\<rparr>)"

text \<open>\<open>select\<close> on one socket, with the timeout it was given (none means it waits for ever).\<close>

definition net_select :: "(int \<times> int) option \<Rightarrow> int net_act" where
  "net_select t n = Inr (next_or 1 (select_results n),
     n\<lparr>select_results := tl (select_results n), waited := waited n @ [t]\<rparr>)"

text \<open>\<open>SOCKET_ERROR\<close> is -1. \<open>send\<close> takes at most what it is given.\<close>

definition net_send :: "fd \<Rightarrow> bytes \<Rightarrow> int net_act" where
  "net_send s bs n =
     (let r = next_or (int (length bs)) (send_results n); m = min (nat r) (length bs);
          n' = n\<lparr>send_results := tl (send_results n)\<rparr>
      in if r < 0 then Inr (-1, n')
         else Inr (int m, n'\<lparr>bytes_out := bytes_out n @ [(s, take m bs)]\<rparr>))"

text \<open>\<open>recv\<close> hands out at most \<open>len\<close> bytes; the rest of what has arrived stays for the next call.\<close>

definition net_recv :: "fd \<Rightarrow> nat \<Rightarrow> recv_result net_act" where
  "net_recv s len n =
     (case recv_results n of
        [] \<Rightarrow> Inr (Received [], n)
      | Received bs # rs \<Rightarrow>
          Inr (Received (take len bs),
               n\<lparr>recv_results := (if len < length bs then Received (drop len bs) # rs else rs)\<rparr>)
      | r # rs \<Rightarrow> Inr (r, n\<lparr>recv_results := rs\<rparr>))"

text \<open>\<open>bind\<close> to port 0 binds to a port of the system's choice.\<close>

definition net_bind :: "fd \<Rightarrow> u16 \<Rightarrow> u16 option net_act" where
  "net_bind s port = seq net_call (\<lambda>ok n.
     if \<not> ok then Inr (None, n)
     else let p = (if port = 0 then next_or 1024 (free_ports n) else port)
          in Inr (Some p, n\<lparr>free_ports := (if port = 0 then tl (free_ports n) else free_ports n),
                            bound := bound n @ [(s, p)]\<rparr>))"

definition net_close :: "fd \<Rightarrow> unit net_act" where
  "net_close s = modify (\<lambda>n. n\<lparr>closed := closed n @ [s]\<rparr>)"

definition SAFE_CLOSE_SOCKET :: "fd option \<Rightarrow> fd option net_act" where
  "SAFE_CLOSE_SOCKET s = (case s of None \<Rightarrow> ret None | Some s \<Rightarrow> seq (net_close s) (\<lambda>_. ret None))"

text \<open>The macro splits a timeout, which is never negative, into seconds and microseconds.\<close>

definition MS_TIMEOUT_TO_TIMEVAL :: "int \<Rightarrow> int \<times> int" where
  "MS_TIMEOUT_TO_TIMEVAL t = (let s = t div 1000 in (s, (t - s * 1000) * 1000))"

subsection \<open>Creating sockets\<close>

definition CreateListenSocket :: "u16 \<Rightarrow> (fd \<times> u16) option net_act" where
  "CreateListenSocket port = seq net_socket (\<lambda>s.
     case s of
       None \<Rightarrow> ret None
     | Some s \<Rightarrow>
         let fail = seq (SAFE_CLOSE_SOCKET (Some s)) (\<lambda>_. ret None) in
         seq (net_bind s port) (\<lambda>b.
         case b of
           None \<Rightarrow> fail
         | Some p \<Rightarrow> seq net_call (\<lambda>named. if \<not> named then fail
             else seq net_call (\<lambda>listens. if \<not> listens then fail else ret (Some (s, p))))))"

datatype CONNECT_SOCKET_TYPE = CONNECT_SOCKET_TYPE_TCP | CONNECT_SOCKET_TYPE_UDP

definition ConnectSocket :: "CONNECT_SOCKET_TYPE \<Rightarrow> fd option net_act" where
  "ConnectSocket ty = seq net_socket (\<lambda>s.
     case s of
       None \<Rightarrow> ret None
     | Some s \<Rightarrow> seq net_call (\<lambda>ok. if ok then ret (Some s) else seq (net_close s) (\<lambda>_. ret None)))"

subsection \<open>Whole buffers\<close>

text \<open>
  The loops need not end (\<open>send\<close> may take nothing, a receive may time out again and again), hence the
  fuel. The buffer of a receive loop is filled from the front; what is received so far is \<open>got\<close>.
\<close>

fun send_all_loop :: "nat \<Rightarrow> fd \<Rightarrow> bytes \<Rightarrow> int \<Rightarrow> int \<Rightarrow> int \<Rightarrow> bool net_act" where
  "send_all_loop 0 s buf len sent left = (if sent < len then stop OutOfFuel else ret True)"
| "send_all_loop (Suc f) s buf len sent left =
     (if sent < len
      then if length buf < nat (sent + left) then stop OutOfBounds
           else seq (net_send s (take (nat left) (drop (nat sent) buf))) (\<lambda>r.
                if r = -1 then ret False else send_all_loop f s buf len (sent + r) (left - r))
      else ret True)"

definition SocketSendAll :: "nat \<Rightarrow> fd \<Rightarrow> bytes \<Rightarrow> int \<Rightarrow> bool net_act" where
  "SocketSendAll fuel s buf len = send_all_loop fuel s buf len 0 len"

fun recv_all_loop :: "nat \<Rightarrow> fd \<Rightarrow> bytes \<Rightarrow> int \<Rightarrow> int \<Rightarrow> (bool \<times> bytes) net_act" where
  "recv_all_loop 0 s got len left = (if int (length got) < len then stop OutOfFuel else ret (True, got))"
| "recv_all_loop (Suc f) s got len left =
     (if int (length got) < len
      then seq (net_recv s (nat left)) (\<lambda>r.
           case r of
             Received bs \<Rightarrow> if bs = [] then ret (False, got)
                            else recv_all_loop f s (got @ bs) len (left - int (length bs))
           | RecvTimedOut \<Rightarrow> recv_all_loop f s got len left
           | RecvFailed \<Rightarrow> ret (False, got))
      else ret (True, got))"

definition SocketRecvAll :: "nat \<Rightarrow> fd \<Rightarrow> int \<Rightarrow> (bool \<times> bytes) net_act" where
  "SocketRecvAll fuel s len = recv_all_loop fuel s [] len len"

subsection \<open>With a timeout\<close>

definition INFINITE :: u32 where "INFINITE = 0xFFFFFFFF"

definition SocketWaitForEvent :: "fd \<Rightarrow> u32 \<Rightarrow> bool net_act" where
  "SocketWaitForEvent s timeout =
     seq (net_select (if timeout = INFINITE then None else Some (MS_TIMEOUT_TO_TIMEVAL (uint timeout))))
       (\<lambda>r. ret (\<not> r < 1))"

definition SocketAcceptWithTimeout :: "fd \<Rightarrow> u32 \<Rightarrow> fd option net_act" where
  "SocketAcceptWithTimeout s timeout = seq (SocketWaitForEvent s timeout) (\<lambda>ready.
     if ready then net_accept else ret None)"

text \<open>One wait of the loops: \<open>False\<close> when the time is over or the wait failed.\<close>

definition wait_round :: "fd \<Rightarrow> u32 \<Rightarrow> u32 \<Rightarrow> bool net_act" where
  "wait_round s timeout elapsed =
     (if timeout = INFINITE then SocketWaitForEvent s INFINITE
      else if elapsed \<ge> timeout then ret False
      else SocketWaitForEvent s (timeout - elapsed))"

fun recv_timeout_loop :: "nat \<Rightarrow> fd \<Rightarrow> bytes \<Rightarrow> int \<Rightarrow> int \<Rightarrow> u32 \<Rightarrow> u32 \<Rightarrow> u32 \<Rightarrow> (bool \<times> bytes) net_act" where
  "recv_timeout_loop 0 s got len left timeout start elapsed =
     (if int (length got) < len then stop OutOfFuel else ret (True, got))"
| "recv_timeout_loop (Suc f) s got len left timeout start elapsed =
     (if int (length got) < len
      then seq (wait_round s timeout elapsed) (\<lambda>ok.
           if \<not> ok then ret (False, got)
           else seq (net_recv s (nat left)) (\<lambda>r.
             case r of
               Received bs \<Rightarrow> seq GetTickCount (\<lambda>t.
                 recv_timeout_loop f s (got @ bs) len (left - int (length bs)) timeout start (t - start))
             | _ \<Rightarrow> ret (False, got)))
      else ret (True, got))"

definition SocketRecvAllWithTimeout :: "nat \<Rightarrow> fd \<Rightarrow> int \<Rightarrow> u32 \<Rightarrow> (bool \<times> bytes) net_act" where
  "SocketRecvAllWithTimeout fuel s len timeout = seq GetTickCount (\<lambda>start.
     recv_timeout_loop fuel s [] len len timeout start 0)"

fun send_timeout_loop :: "nat \<Rightarrow> fd \<Rightarrow> bytes \<Rightarrow> int \<Rightarrow> int \<Rightarrow> int \<Rightarrow> u32 \<Rightarrow> u32 \<Rightarrow> u32 \<Rightarrow> bool net_act" where
  "send_timeout_loop 0 s buf len sent left timeout start elapsed =
     (if sent < len then stop OutOfFuel else ret True)"
| "send_timeout_loop (Suc f) s buf len sent left timeout start elapsed =
     (if sent < len
      then seq (wait_round s timeout elapsed) (\<lambda>ok.
           if \<not> ok then ret False
           else if length buf < nat (sent + left) then stop OutOfBounds
           else seq (net_send s (take (nat left) (drop (nat sent) buf))) (\<lambda>r.
                if r = -1 then ret False
                else seq GetTickCount (\<lambda>t.
                  send_timeout_loop f s buf len (sent + r) (left - r) timeout start (t - start))))
      else ret True)"

definition SocketSendAllWithTimeout :: "nat \<Rightarrow> fd \<Rightarrow> bytes \<Rightarrow> int \<Rightarrow> u32 \<Rightarrow> bool net_act" where
  "SocketSendAllWithTimeout fuel s buf len timeout = seq GetTickCount (\<lambda>start.
     send_timeout_loop fuel s buf len 0 len timeout start 0)"

subsection \<open>Options\<close>

text \<open>\<open>SocketSetTimeouts\<close> stops at the first option that cannot be set.\<close>

definition SocketSetTimeouts :: "fd \<Rightarrow> u32 \<Rightarrow> u32 \<Rightarrow> bool net_act" where
  "SocketSetTimeouts s recv_timeout send_timeout = seq net_call (\<lambda>ok. if \<not> ok then ret False else net_call)"

definition SocketSetNonBlocking :: "fd \<Rightarrow> bool \<Rightarrow> bool net_act" where
  "SocketSetNonBlocking s b = seq net_call (\<lambda>ok.
     if \<not> ok then ret False
     else seq (modify (\<lambda>n. n\<lparr>nonblocking := nonblocking n @ [(s, b)]\<rparr>)) (\<lambda>_. ret True))"

definition SocketEnableKeepAlive :: "fd \<Rightarrow> u32 \<Rightarrow> u32 \<Rightarrow> bool net_act" where
  "SocketEnableKeepAlive s time interval = net_call"

definition SocketDisableKeepAlive :: "fd \<Rightarrow> bool net_act" where
  "SocketDisableKeepAlive s = net_call"

definition SocketDisableTcpDelay :: "fd \<Rightarrow> bool net_act" where
  "SocketDisableTcpDelay s = net_call"

subsection \<open>The socket classes\<close>

record CTCPSocket =
  m_hSock :: "fd option"
  m_bIsNonBlocking :: bool

definition new_CTCPSocket :: "fd \<Rightarrow> bool \<Rightarrow> CTCPSocket" where
  "new_CTCPSocket s nb = \<lparr>m_hSock = Some s, m_bIsNonBlocking = nb\<rparr>"

definition delete_CTCPSocket :: "CTCPSocket \<Rightarrow> unit net_act" where
  "delete_CTCPSocket c = seq (SAFE_CLOSE_SOCKET (m_hSock c)) (\<lambda>_. ret ())"

definition CTCPSocket_ConnectSocket :: "CTCPSocket option net_act" where
  "CTCPSocket_ConnectSocket = seq (ConnectSocket CONNECT_SOCKET_TYPE_TCP) (\<lambda>s.
     ret (map_option (\<lambda>s. new_CTCPSocket s False) s))"

text \<open>A method on a socket whose handle is invalid is a call that fails.\<close>

definition on_socket :: "CTCPSocket \<Rightarrow> 'a \<Rightarrow> (fd \<Rightarrow> 'a net_act) \<Rightarrow> 'a net_act" where
  "on_socket c failed f = (case m_hSock c of None \<Rightarrow> ret failed | Some s \<Rightarrow> f s)"

definition CTCPSocket_Send :: "CTCPSocket \<Rightarrow> bytes \<Rightarrow> (bool \<times> int) net_act" where
  "CTCPSocket_Send c bs = seq (on_socket c (-1) (\<lambda>s. net_send s bs)) (\<lambda>r. ret (r > 0, r))"

definition CTCPSocket_SendAll :: "nat \<Rightarrow> CTCPSocket \<Rightarrow> bytes \<Rightarrow> int \<Rightarrow> bool net_act" where
  "CTCPSocket_SendAll fuel c buf len = on_socket c False (\<lambda>s.
     if m_bIsNonBlocking c then SocketSendAllWithTimeout fuel s buf len INFINITE
     else SocketSendAll fuel s buf len)"

definition CTCPSocket_SendAll_timeout :: "nat \<Rightarrow> CTCPSocket \<Rightarrow> bytes \<Rightarrow> int \<Rightarrow> u32 \<Rightarrow> bool net_act" where
  "CTCPSocket_SendAll_timeout fuel c buf len timeout =
     (if m_bIsNonBlocking c then ret False
      else on_socket c False (\<lambda>s. SocketSendAllWithTimeout fuel s buf len timeout))"

definition CTCPSocket_Recv :: "CTCPSocket \<Rightarrow> nat \<Rightarrow> (bool \<times> bytes) net_act" where
  "CTCPSocket_Recv c len = seq (on_socket c RecvFailed (\<lambda>s. net_recv s len)) (\<lambda>r.
     ret (case r of Received bs \<Rightarrow> (bs \<noteq> [], bs) | _ \<Rightarrow> (False, [])))"

definition CTCPSocket_RecvAll :: "nat \<Rightarrow> CTCPSocket \<Rightarrow> int \<Rightarrow> (bool \<times> bytes) net_act" where
  "CTCPSocket_RecvAll fuel c len = on_socket c (False, []) (\<lambda>s.
     if m_bIsNonBlocking c then SocketRecvAllWithTimeout fuel s len INFINITE
     else SocketRecvAll fuel s len)"

definition CTCPSocket_RecvAll_timeout :: "nat \<Rightarrow> CTCPSocket \<Rightarrow> int \<Rightarrow> u32 \<Rightarrow> (bool \<times> bytes) net_act" where
  "CTCPSocket_RecvAll_timeout fuel c len timeout =
     (if m_bIsNonBlocking c then ret (False, [])
      else on_socket c (False, []) (\<lambda>s. SocketRecvAllWithTimeout fuel s len timeout))"

text \<open>\<open>Purge\<close> polls the socket and throws away up to 1024 bytes; the count is -1 when that receive fails.\<close>

definition CTCPSocket_Purge :: "CTCPSocket \<Rightarrow> (bool \<times> u32) net_act" where
  "CTCPSocket_Purge c = seq (on_socket c (-1) (\<lambda>_. net_select (Some (0, 0)))) (\<lambda>r.
     if r = -1 then ret (False, 0)
     else if r > 0
     then seq (on_socket c RecvFailed (\<lambda>s. net_recv s 1024)) (\<lambda>b.
          ret (True, case b of Received bs \<Rightarrow> of_nat (length bs) | _ \<Rightarrow> -1))
     else ret (True, 0))"

text \<open>The mode is asked of the socket, but the field that remembers it is not written.\<close>

definition CTCPSocket_SetNonBlocking :: "CTCPSocket \<Rightarrow> bool \<Rightarrow> (bool \<times> CTCPSocket) net_act" where
  "CTCPSocket_SetNonBlocking c b =
     (if m_bIsNonBlocking c = b then ret (True, c)
      else seq (on_socket c False (\<lambda>s. SocketSetNonBlocking s b)) (\<lambda>ok. ret (ok, c)))"

definition CTCPSocket_IsNonBlocking :: "CTCPSocket \<Rightarrow> bool" where
  "CTCPSocket_IsNonBlocking c = m_bIsNonBlocking c"

definition CTCPSocket_SetTimeouts :: "CTCPSocket \<Rightarrow> u32 \<Rightarrow> u32 \<Rightarrow> bool net_act" where
  "CTCPSocket_SetTimeouts c recv_timeout send_timeout =
     (if m_bIsNonBlocking c then ret False
      else on_socket c False (\<lambda>s. SocketSetTimeouts s recv_timeout send_timeout))"

record CListeningSocket =
  l_hSock :: "fd option"
  l_wPort :: u16

definition new_CListeningSocket :: "u16 \<Rightarrow> CListeningSocket" where
  "new_CListeningSocket port = \<lparr>l_hSock = None, l_wPort = port\<rparr>"

definition CListeningSocket_Start :: "CListeningSocket \<Rightarrow> (bool \<times> CListeningSocket) net_act" where
  "CListeningSocket_Start l =
     (if l_hSock l \<noteq> None then ret (False, l)
      else seq (CreateListenSocket (l_wPort l)) (\<lambda>r.
        case r of None \<Rightarrow> ret (False, l)
                | Some (s, p) \<Rightarrow> ret (True, l\<lparr>l_hSock := Some s, l_wPort := p\<rparr>)))"

definition CListeningSocket_Accpet :: "CListeningSocket \<Rightarrow> u32 \<Rightarrow> CTCPSocket option net_act" where
  "CListeningSocket_Accpet l timeout =
     (case l_hSock l of
        None \<Rightarrow> ret None
      | Some s \<Rightarrow> seq (SocketAcceptWithTimeout s timeout) (\<lambda>r.
          ret (map_option (\<lambda>s. new_CTCPSocket s False) r)))"

definition CListeningSocket_Close :: "CListeningSocket \<Rightarrow> CListeningSocket net_act" where
  "CListeningSocket_Close l = seq (SAFE_CLOSE_SOCKET (l_hSock l)) (\<lambda>s. ret (l\<lparr>l_hSock := s\<rparr>))"

subsection \<open>Sending a whole buffer\<close>

definition idle_net :: net where
  "idle_net = \<lparr>new_sockets = [], call_results = [], free_ports = [], send_results = [], recv_results = [],
     select_results = [], accept_results = [], clock = [], bytes_out = [], bound = [], closed = [],
     nonblocking = [], waited = []\<rparr>"

definition out_on :: "fd \<Rightarrow> net \<Rightarrow> bytes" where
  "out_on s n = concat (map snd (filter (\<lambda>x. fst x = s) (bytes_out n)))"

lemma net_send_run:
  assumes "0 \<notin> set (send_results n)" "bs \<noteq> []"
  obtains n' where "net_send s bs n = Inr (-1, n')" "out_on s n' = out_on s n"
  | m n' where "net_send s bs n = Inr (int m, n')" "0 < m" "m \<le> length bs" "out_on s n' = out_on s n @ take m bs"
      "set (send_results n') \<subseteq> set (send_results n)"
proof (cases "send_results n")
  case Nil
  then show thesis using that(2) [of "length bs" "n\<lparr>bytes_out := bytes_out n @ [(s, bs)]\<rparr>"] assms(2)
    by (simp add: net_send_def next_or_def out_on_def Let_def)
next
  case (Cons r rs)
  then have "r \<noteq> 0" using assms(1) by auto
  show thesis
  proof (cases "r < 0")
    case True
    then show thesis using that(1) Cons by (simp add: net_send_def next_or_def out_on_def Let_def)
  next
    case False
    let ?m = "min (nat r) (length bs)"
    have "net_send s bs n = Inr (int ?m, n\<lparr>send_results := rs, bytes_out := bytes_out n @ [(s, take ?m bs)]\<rparr>)"
      using False Cons by (simp add: net_send_def next_or_def Let_def)
    from that(2) [OF this] show thesis using Cons False \<open>r \<noteq> 0\<close> assms(2) by (simp add: out_on_def subset_insertI)
  qed
qed

lemma send_all_loop_run:
  assumes "0 \<notin> set (send_results n)" "0 \<le> sent" "sent \<le> len" "nat len \<le> length buf" "nat (len - sent) < fuel"
    and "out_on s n = out @ take (nat sent) buf"
  shows "\<exists>ok n' k. send_all_loop fuel s buf len sent (len - sent) n = Inr (ok, n') \<and>
     out_on s n' = out @ take k buf \<and> k \<le> nat len \<and> (ok \<longleftrightarrow> k = nat len)"
  using assms
proof (induction fuel arbitrary: n sent)
  case 0
  then show ?case by simp
next
  case (Suc fuel)
  show ?case
  proof (cases "sent < len")
    case False
    then show ?thesis using Suc.prems by (intro exI [of _ True] exI [of _ n] exI [of _ "nat len"]) auto
  next
    case True
    let ?part = "take (nat (len - sent)) (drop (nat sent) buf)"
    have part: "length ?part = nat (len - sent)" "?part \<noteq> []"
      using True Suc.prems(2,4) by (auto simp: min_def)
    have inside: "\<not> length buf < nat (sent + (len - sent))" using Suc.prems(4) by simp
    from Suc.prems(1) part(2) show ?thesis
    proof (cases rule: net_send_run [where s = s])
      case (1 n')
      have "send_all_loop (Suc fuel) s buf len sent (len - sent) n = Inr (False, n')"
        using True inside 1(1) by (simp add: seq_Inr)
      then show ?thesis using 1(2) Suc.prems(2,6) True
        by (intro exI [of _ False] exI [of _ n'] exI [of _ "nat sent"]) auto
    next
      case (2 m n')
      have m: "m \<le> nat (len - sent)" using 2(3) part(1) by simp
      then have out: "out_on s n' = out @ take (nat (sent + int m)) buf"
        using 2(4) Suc.prems(2,6) by (simp add: nat_add_distrib take_add)
      have step: "send_all_loop (Suc fuel) s buf len sent (len - sent) n =
          send_all_loop fuel s buf len (sent + int m) (len - (sent + int m)) n'"
        using True inside 2(1) by (simp add: seq_Inr diff_diff_eq)
      have "0 \<notin> set (send_results n')" using 2(5) Suc.prems(1) by blast
      from Suc.IH [OF this _ _ Suc.prems(4) _ out] show ?thesis
        unfolding step using Suc.prems(2,5) m 2(2) True by auto
    qed
  qed
qed

text \<open>
  \<open>SocketSendAll\<close> sends everything or reports a failure. As long as each \<open>send\<close> takes something or
  fails, it returns within as many rounds as there are bytes; the bytes that reach the socket are a
  prefix of the buffer, in order and without repetition however \<open>send\<close> cuts them, and the result is
  true exactly when the prefix is everything.
\<close>

theorem send_all_delivers:
  assumes "0 \<le> len" "nat len \<le> length buf" "0 \<notin> set (send_results n)" "nat len < fuel"
  shows "\<exists>ok n' k. SocketSendAll fuel s buf len n = Inr (ok, n') \<and> out_on s n' = out_on s n @ take k buf \<and>
     k \<le> nat len \<and> (ok \<longleftrightarrow> k = nat len)"
  using send_all_loop_run [of n 0 len buf fuel s "out_on s n"] assms by (simp add: SocketSendAll_def)

theorem send_all_delivers_witness:
  "\<exists>ok n' k. SocketSendAll 6 7 [1, 2, 3, 4, 5]  5
     (idle_net\<lparr>send_results := [2, 1, 9], bytes_out := [(7, [0])]\<rparr>) = Inr (ok, n') \<and>
     out_on 7 n' = [0] @ take k [1, 2, 3, 4, 5] \<and> k \<le> 5 \<and> (ok \<longleftrightarrow> k = 5)"
proof -
  let ?n = "idle_net\<lparr>send_results := [2, 1, 9], bytes_out := [(7, [0])]\<rparr>"
  have "out_on 7 ?n = [0]" by (simp add: out_on_def idle_net_def)
  then show ?thesis using send_all_delivers [of 5 "[1, 2, 3, 4, 5]" ?n 6 7] by (simp add: idle_net_def)
qed

subsection \<open>Receiving a whole buffer\<close>

text \<open>What the peer will send before it closes or the connection fails; receive timeouts do not count.\<close>

fun incoming :: "recv_result list \<Rightarrow> bytes" where
  "incoming [] = []"
| "incoming (Received bs # rs) = (if bs = [] then [] else bs @ incoming rs)"
| "incoming (RecvTimedOut # rs) = incoming rs"
| "incoming (RecvFailed # rs) = []"

lemma recv_all_loop_run:
  assumes "length got \<le> len" "length (recv_results n) + 1 < fuel"
  shows "\<exists>n'. recv_all_loop fuel s got (int len) (int len - int (length got)) n =
     Inr ((len - length got \<le> length (incoming (recv_results n)), got @ take (len - length got) (incoming (recv_results n))), n') \<and>
     (len - length got \<le> length (incoming (recv_results n)) \<longrightarrow>
        incoming (recv_results n') = drop (len - length got) (incoming (recv_results n)))"
  using assms
proof (induction "recv_results n" arbitrary: n got fuel)
  case Nil
  obtain f where f: "fuel = Suc f" using Nil.prems(2) by (cases fuel) auto
  show ?case using Nil(1) [symmetric] Nil.prems(1) unfolding f by (auto simp: net_recv_def seq_Inr)
next
  case (Cons r rs)
  have r: "recv_results n = r # rs" using Cons.hyps(2) by simp
  have rest: "rs = recv_results (n\<lparr>recv_results := rs\<rparr>)" by simp
  obtain f where f: "fuel = Suc f" using Cons.prems(2) by (cases fuel) auto
  show ?case
  proof (cases "length got = len")
    case True
    then show ?thesis unfolding f by simp
  next
    case False
    then have more: "length got < len" using Cons.prems(1) by simp
    show ?thesis
    proof (cases r)
      case (Received bs)
      consider (empty) "bs = []" | (part) "bs \<noteq> []" "length got + length bs \<le> len" | (full) "len < length got + length bs" by linarith
      then show ?thesis
      proof cases
        case empty
        then show ?thesis using more r Received unfolding f by (simp add: net_recv_def seq_Inr)
      next
        case part
        have left: "int len - int (length got) - int (length bs) = int len - int (length (got @ bs))" by simp
        have keep: "\<not> nat (int len - int (length got)) < length bs" "take (nat (int len - int (length got))) bs = bs"
          using part(2) by auto
        have step: "recv_all_loop fuel s got (int len) (int len - int (length got)) n =
            recv_all_loop f s (got @ bs) (int len) (int len - int (length (got @ bs))) (n\<lparr>recv_results := rs\<rparr>)"
          using more r Received part(1) keep unfolding f left [symmetric] by (simp add: net_recv_def seq_Inr)
        have g: "length (got @ bs) \<le> len" "length (recv_results (n\<lparr>recv_results := rs\<rparr>)) + 1 < f"
          using part(2) Cons.prems(2) r f by auto
        show ?thesis using Cons.hyps(1) [OF rest g] part unfolding step r Received by auto
      next
        case full
        have cut: "nat (int len - int (length got)) = len - length got" by simp
        have "take (len - length got) bs \<noteq> []" using more full by (cases bs) auto
        moreover obtain g where "f = Suc g" using Cons.prems(2) f r by (cases f) auto
        moreover have "bs \<noteq> []" using full more by auto
        ultimately show ?thesis using more r Received full unfolding f by (auto simp: net_recv_def seq_Inr cut)
      qed
    next
      case RecvTimedOut
      have step: "recv_all_loop fuel s got (int len) (int len - int (length got)) n =
          recv_all_loop f s got (int len) (int len - int (length got)) (n\<lparr>recv_results := rs\<rparr>)"
        using more r RecvTimedOut unfolding f by (simp add: net_recv_def seq_Inr)
      have "length (recv_results (n\<lparr>recv_results := rs\<rparr>)) + 1 < f" using Cons.prems(2) r f by auto
      from Cons.hyps(1) [OF rest Cons.prems(1) this] show ?thesis unfolding step r RecvTimedOut by simp
    next
      case RecvFailed
      then show ?thesis using more r unfolding f by (simp add: net_recv_def seq_Inr)
    qed
  qed
qed

text \<open>
  C35: \<open>SocketRecvAll\<close> reads exactly what it is asked for. However the bytes are cut into segments and
  however often the socket times out in between, it succeeds exactly when the peer sends at least that
  many bytes before it closes or fails; the buffer then holds the first ones in order, and the next
  receive goes on with the byte behind them. Two rounds more than there are events are enough.
\<close>

theorem recv_all_exact:
  assumes "length (recv_results n) + 1 < fuel"
  shows "\<exists>n'. SocketRecvAll fuel s (int len) n =
     Inr ((len \<le> length (incoming (recv_results n)), take len (incoming (recv_results n))), n') \<and>
     (len \<le> length (incoming (recv_results n)) \<longrightarrow> incoming (recv_results n') = drop len (incoming (recv_results n)))"
  using recv_all_loop_run [of "[]" len n fuel s] assms by (simp add: SocketRecvAll_def)

theorem recv_all_exact_witness:
  "\<exists>n'. SocketRecvAll 5 7 4 (idle_net\<lparr>recv_results := [Received [1, 2], RecvTimedOut, Received [3, 4, 5]]\<rparr>) =
     Inr ((True, [1, 2, 3, 4]), n') \<and> incoming (recv_results n') = [5]"
  using recv_all_exact [of "idle_net\<lparr>recv_results := [Received [1, 2], RecvTimedOut, Received [3, 4, 5]]\<rparr>" 5 7 4] by (simp add: idle_net_def)

lemma recv_timeout_spins:
  assumes "recv_results n = []" "select_results n = []" "int (length got) < len"
  shows "recv_timeout_loop fuel s got len left INFINITE start elapsed n = Inl OutOfFuel"
  using assms
proof (induction fuel arbitrary: n left elapsed)
  case 0
  then show ?case by simp
next
  case (Suc fuel)
  obtain n1 where n1: "wait_round s INFINITE elapsed n = Inr (True, n1)" "recv_results n1 = []" "select_results n1 = []"
    using Suc.prems by (simp add: wait_round_def SocketWaitForEvent_def net_select_def next_or_def seq_Inr)
  obtain t n2 where n2: "GetTickCount n1 = Inr (t, n2)" "recv_results n2 = []" "select_results n2 = []"
    using n1 by (simp add: GetTickCount_def)
  show ?case using n1 n2 Suc.IH [OF n2(2,3) Suc.prems(3)] Suc.prems(3) by (simp add: seq_Inr net_recv_def)
qed

text \<open>
  When the peer has closed, \<open>SocketRecvAll\<close> reports it, but \<open>SocketRecvAllWithTimeout\<close> without a limit
  never returns: it takes the empty receive for progress, and a closed socket is always ready to read.
\<close>

theorem closed_peer_spins:
  assumes "recv_results n = []" "select_results n = []" "0 < len"
  shows "SocketRecvAll (Suc 0) s len n = Inr ((False, []), n) \<and>
    SocketRecvAllWithTimeout fuel s len INFINITE n = Inl OutOfFuel"
proof (rule conjI)
  show "SocketRecvAll (Suc 0) s len n = Inr ((False, []), n)"
    using assms by (simp add: SocketRecvAll_def net_recv_def seq_Inr)
  obtain t n' where "GetTickCount n = Inr (t, n')" "recv_results n' = []" "select_results n' = []"
    using assms by (simp add: GetTickCount_def)
  then show "SocketRecvAllWithTimeout fuel s len INFINITE n = Inl OutOfFuel"
    using recv_timeout_spins [of n' "[]" len fuel s len t 0] assms(3) by (simp add: SocketRecvAllWithTimeout_def seq_Inr)
qed

theorem closed_peer_spins_witness:
  "SocketRecvAllWithTimeout 1000000 7 4 INFINITE (idle_net\<lparr>clock := [3, 5]\<rparr>) = Inl OutOfFuel"
  using closed_peer_spins [of "idle_net\<lparr>clock := [3, 5]\<rparr>" 4 7 1000000] by (simp add: idle_net_def)

end
