(* ===== verification/Connection.thy ===== *)
theory Connection
  imports Teardown
begin

text \<open>
  The properties of an open connection (the functions of \<open>Mux_Conn\<close> between the connect and the
  teardown): the window and the poll mask of \<open>update_connection\<close>, flow control in both directions,
  and the stream contract: what a client has received is, byte for byte, a prefix of what its device
  has sent on the connection.
\<close>

subsection \<open>Window and poll mask\<close>

lemma set_mask_bits: "has_bits m (set_mask m b x) \<longleftrightarrow> b \<and> m \<noteq> 0"
proof -
  have "(x AND NOT m) AND m = 0" "(x OR m) AND m = m"
    by (rule bit_word_eqI; auto simp: bit_simps)+
  then show ?thesis by (simp add: has_bits_def set_mask_def)
qed

lemma set_mask_other: "m AND n = 0 \<Longrightarrow> has_bits n (set_mask m b x) = has_bits n x"
proof -
  assume z: "m AND n = 0"
  have "\<not> (bit m i \<and> bit n i)" for i
  proof
    assume "bit m i \<and> bit n i"
    then have "bit (m AND n) i" by (simp add: bit_simps)
    with z show False by simp
  qed
  then have "(x AND NOT m) AND n = x AND n" "(x OR m) AND n = x AND n"
    by (auto intro!: bit_word_eqI simp: bit_simps)
  then show ?thesis by (simp add: has_bits_def set_mask_def)
qed

lemma refresh_fields [simp]:
  "conn_dev (refresh c) = conn_dev c" "conn_client (refresh c) = conn_client c" "conn_state (refresh c) = conn_state c"
  "conn_ib_buf (refresh c) = conn_ib_buf c" "conn_ib_size (refresh c) = conn_ib_size c"
  "conn_ib_capacity (refresh c) = conn_ib_capacity c" "conn_tx_win (refresh c) = conn_tx_win c"
  "conn_tx_seq (refresh c) = conn_tx_seq c" "conn_tx_ack (refresh c) = conn_tx_ack c"
  "conn_tx_acked (refresh c) = conn_tx_acked c"
  "conn_sendable (refresh c) = sendable_of c" "conn_sport (refresh c) = conn_sport c" "conn_dport (refresh c) = conn_dport c"
  "conn_rx_ack (refresh c) = conn_rx_ack c" "conn_rx_win (refresh c) = conn_rx_win c"
  "conn_max_payload (refresh c) = conn_max_payload c" "conn_ob_capacity (refresh c) = conn_ob_capacity c"
  by (simp_all add: refresh_def)

lemma refresh_masks:
  "has_bits POLLIN (conn_events (refresh c)) \<longleftrightarrow> sendable_of c > 0"
  "has_bits POLLOUT (conn_events (refresh c)) \<longleftrightarrow> conn_ib_size c \<noteq> 0"
  "conn_flags (refresh c) AND CONN_ACK_PENDING \<noteq> 0 \<longleftrightarrow> conn_tx_acked c \<noteq> conn_tx_ack c"
proof -
  have disj: "POLLOUT AND POLLIN = 0" by (simp add: POLLIN_def POLLOUT_def)
  have ev: "conn_events (refresh c) = set_mask POLLOUT (conn_ib_size c \<noteq> 0)
      (set_mask POLLIN (sendable_of c > 0) (conn_events c))"
    by (simp add: refresh_def)
  show "has_bits POLLIN (conn_events (refresh c)) \<longleftrightarrow> sendable_of c > 0"
    unfolding ev set_mask_other [OF disj] set_mask_bits by (simp add: POLLIN_def)
  show "has_bits POLLOUT (conn_events (refresh c)) \<longleftrightarrow> conn_ib_size c \<noteq> 0"
    unfolding ev set_mask_bits by (simp add: POLLOUT_def)
  have "(x AND NOT CONN_ACK_PENDING) AND CONN_ACK_PENDING = 0" "(x OR CONN_ACK_PENDING) AND CONN_ACK_PENDING = CONN_ACK_PENDING" for x
    by (rule bit_word_eqI; auto simp: bit_simps)+
  then show "conn_flags (refresh c) AND CONN_ACK_PENDING \<noteq> 0 \<longleftrightarrow> conn_tx_acked c \<noteq> conn_tx_ack c"
    by (simp add: refresh_def CONN_ACK_PENDING_def)
qed

lemma sendable_bounds:
  "sendable_of c \<le> conn_max_payload c" "sendable_of c \<le> conn_ob_capacity c"
  "unat (conn_tx_seq c - conn_rx_ack c) + unat (sendable_of c) \<le> max (unat (conn_rx_win c)) (unat (conn_tx_seq c - conn_rx_ack c))"
proof -
  let ?sent = "conn_tx_seq c - conn_rx_ack c"
  let ?s = "if conn_rx_win c > ?sent then conn_rx_win c - ?sent else 0"
  have le: "sendable_of c \<le> ?s" "sendable_of c \<le> conn_max_payload c" "sendable_of c \<le> conn_ob_capacity c"
    by (auto simp: sendable_of_def Let_def)
  then show "sendable_of c \<le> conn_max_payload c" "sendable_of c \<le> conn_ob_capacity c" by simp_all
  have "unat (sendable_of c) \<le> unat ?s" using le(1) by (simp only: word_le_nat_alt)
  also have "\<dots> = unat (conn_rx_win c) - unat ?sent"
    by (auto simp: unat_sub_small less_imp_le word_less_nat_alt not_less)
  finally show "unat ?sent + unat (sendable_of c) \<le> max (unat (conn_rx_win c)) (unat ?sent)" by linarith
qed

text \<open>
  C14: \<open>update_connection\<close> keeps flow control: what it offers to send never exceeds the payload of one
  packet or the output buffer, and together with the bytes in flight it stays within the window the
  device has announced (when more is already in flight, nothing is offered). The client is polled for
  input exactly when something may be sent, for output exactly when something is buffered for it, and
  an acknowledgement is pending exactly when received bytes are not acknowledged yet. The client gets
  the same mask, and nothing else changes.
\<close>

theorem update_connection_window:
  assumes "conn_heap w conn = Some c" "conn_client c = Some k" "client_heap w k = Some v"
    and "cl_state v = CLIENT_CONNECTED"
  shows "\<exists>c' v'. update_connection conn w = Inr ((), w\<lparr>conn_heap := (conn_heap w)(conn := Some c'),
       client_heap := (client_heap w)(k := Some v')\<rparr>) \<and>
     c' = c\<lparr>conn_sendable := conn_sendable c', conn_events := conn_events c', conn_flags := conn_flags c'\<rparr> \<and>
     v' = v\<lparr>cl_devents := conn_events c', cl_events := conn_events c'\<rparr> \<and>
     conn_sendable c' \<le> conn_max_payload c \<and> conn_sendable c' \<le> conn_ob_capacity c \<and>
     unat (conn_tx_seq c - conn_rx_ack c) + unat (conn_sendable c') \<le>
       max (unat (conn_rx_win c)) (unat (conn_tx_seq c - conn_rx_ack c)) \<and>
     (has_bits POLLIN (conn_events c') \<longleftrightarrow> conn_sendable c' > 0) \<and>
     (has_bits POLLOUT (conn_events c') \<longleftrightarrow> conn_ib_size c > 0) \<and>
     (conn_flags c' AND CONN_ACK_PENDING \<noteq> 0 \<longleftrightarrow> conn_tx_acked c \<noteq> conn_tx_ack c)"
proof -
  let ?v = "v\<lparr>cl_devents := conn_events (refresh c), cl_events := conn_events (refresh c)\<rparr>"
  have "update_connection conn w = Inr ((), w\<lparr>conn_heap := (conn_heap w)(conn := Some (refresh c)),
       client_heap := (client_heap w)(k := Some ?v)\<rparr>)"
    using assms by (simp add: update_connection_def seq_Inr get_conn_run set_conn_def client_set_events_def
        get_client_run set_client_def)
  moreover have "refresh c = c\<lparr>conn_sendable := conn_sendable (refresh c), conn_events := conn_events (refresh c),
      conn_flags := conn_flags (refresh c)\<rparr>"
    by (simp add: refresh_def)
  ultimately show ?thesis
    using sendable_bounds [of c] refresh_masks [of c]
    by (intro exI [of _ "refresh c"] exI [of _ ?v]) (simp add: word_neq_0_conv fun_upd_def)
qed

theorem update_connection_window_witness:
  "\<exists>c'. conn_sendable c' = 32728 \<and> (\<exists>w'. update_connection 40 (link_world (idle_device MUXDEV_ACTIVE [40])
      (idle_conn CONN_CONNECTED []) (idle_client CLIENT_CONNECTED)) = Inr ((), w') \<and> conn_heap w' 40 = Some c')"
proof -
  let ?c = "idle_conn CONN_CONNECTED []" and ?v = "idle_client CLIENT_CONNECTED"
  let ?w = "link_world (idle_device MUXDEV_ACTIVE [40]) ?c ?v"
  have h: "conn_heap ?w 40 = Some ?c" "conn_client ?c = Some 20" "client_heap ?w 20 = Some ?v" "cl_state ?v = CLIENT_CONNECTED"
    by (simp_all add: idle_defs)
  have "refresh ?c = ?c\<lparr>conn_sendable := 32728, conn_events := POLLIN\<rparr>"
    by (simp add: refresh_def sendable_of_def set_mask_def idle_defs POLLIN_def POLLOUT_def CONN_ACK_PENDING_def)
  then have "update_connection 40 ?w = Inr ((), ?w\<lparr>conn_heap := (conn_heap ?w)(40 := Some (?c\<lparr>conn_sendable := 32728, conn_events := POLLIN\<rparr>)),
       client_heap := (client_heap ?w)(20 := Some (?v\<lparr>cl_devents := POLLIN, cl_events := POLLIN\<rparr>))\<rparr>)"
    using h by (simp add: update_connection_def seq_Inr get_conn_run set_conn_def client_set_events_def get_client_run set_client_def)
  with update_connection_window [OF h] show ?thesis by auto
qed

subsection \<open>Sending to a device leaves the client sockets alone\<close>

definition quiet :: "world \<Rightarrow> world \<Rightarrow> bool" where
  "quiet w w' \<longleftrightarrow> sock_out (sys w') = sock_out (sys w) \<and> closed_socks (sys w') = closed_socks (sys w) \<and>
     sends (sys w') = sends (sys w) \<and> conf w' = conf w"

interpretation quiet: frame_rel quiet
  by unfold_locales (auto simp: quiet_def)

lemma quiet_heap:
  "keeps quiet (get_dev d)" "keeps quiet (get_conn c)" "keeps quiet (get_client k)" "keeps quiet (get_usb u)"
  "keeps quiet (get_buf p)" "keeps quiet (set_dev d v)" "keeps quiet (set_conn c v')" "keeps quiet (set_client k v'')"
  "keeps quiet (set_usb u v3)" "keeps quiet (free_buf p)"
  unfolding get_dev_def get_conn_def get_client_def get_usb_def get_buf_def set_dev_def set_conn_def set_client_def
    set_usb_def free_buf_def
  by (auto simp: keeps_def quiet_def seq_eq_Inr some_or_def split: option.splits if_splits)

lemma quiet_upd: "keeps quiet (upd_conn c g)" "keeps quiet (upd_usb u i)"
  unfolding upd_conn_def upd_usb_def by (intro quiet.keeps_rules quiet_heap)+

lemma quiet_env: "keeps quiet api_ok" "keeps quiet mstime64" "keeps quiet (com_transfer_out u bs)" "keeps quiet new_ptr"
  by (auto simp: keeps_def quiet_def api_ok_def mstime64_def com_transfer_out_def new_ptr_def Let_def split: list.splits)

lemma quiet_usb: "keeps quiet (GetTXQElement u b)" "keeps quiet (ReUseTXQElement u e)" "keeps quiet (finish_pending u e)"
  unfolding GetTXQElement_def ReUseTXQElement_def finish_pending_def
  by (intro quiet.keeps_rules quiet_heap quiet_upd quiet_env)+

lemma quiet_usb_send: "keeps quiet (usb_send u p n)"
  unfolding usb_send_def Let_def
  by (auto intro!: quiet.keeps_rules quiet_heap quiet_env quiet_usb split: xfer_status.splits)

lemma quiet_alloc: "keeps quiet (alloc_buf bs)"
proof -
  have "keeps quiet (modify (\<lambda>w. w\<lparr>buf_heap := f w\<rparr>))" for f by (simp add: keeps_def quiet_def)
  then show ?thesis unfolding alloc_buf_def by (intro quiet.keeps_rules quiet_env)
qed

lemma quiet_send_packet: "keeps quiet (send_packet dev proto header data)"
  unfolding send_packet_def Let_def
  by (auto intro!: quiet.keeps_rules quiet_heap quiet_alloc quiet_usb_send split: prod.splits)

lemma quiet_send_tcp: "keeps quiet (send_tcp conn flags bs)"
  unfolding send_tcp_def by (intro quiet.keeps_rules quiet_heap quiet_upd quiet_env quiet_send_packet)

lemma quiet_update: "keeps quiet (update_connection conn)"
  unfolding update_connection_def client_set_events_def by (intro quiet.keeps_rules quiet_heap)

lemma sent_on_quiet: "quiet w w' \<Longrightarrow> sent_on s w' = sent_on s w"
  by (simp add: quiet_def sent_on_def)

subsection \<open>A connection that was torn down is gone\<close>

lemma teardown_gone:
  assumes "connection_teardown n conn w = Inr ((), w')" "conn_heap w conn = Some c" "conn_state c \<noteq> CONN_DEAD"
  shows "conn_heap w' conn = None"
proof -
  have rel: "teardown_release conn v = Inr ((), v') \<Longrightarrow> conn_heap v' conn = None" for v v'
    by (auto simp: teardown_release_def seq_eq_Inr free_conn_def split: if_splits)
  obtain m where n: "n = Suc m" using assms(1) by (cases n) auto
  obtain w1 where "teardown_release conn w1 = Inr ((), w')"
    using assms(1) [unfolded n connection_teardown.simps] assms(2,3)
    by (auto simp: seq_eq_Inr get_conn_run simp del: client_close.simps)
  then show ?thesis by (rule rel)
qed

subsection \<open>One operation on an open connection\<close>

text \<open>
  The invariant of a connection: its buffer is inside its bounds, and what is buffered plus the window
  still offered to the device is the whole buffer.
\<close>

definition conn_ok :: "mux_connection \<Rightarrow> bool" where
  "conn_ok c \<longleftrightarrow> ib_ok c \<and> unat (conn_ib_capacity c) = CONN_INBUF_SIZE \<and>
     unat (conn_tx_win c) + unat (conn_ib_size c) = CONN_INBUF_SIZE"

text \<open>Clients keep their sockets and states.\<close>

definition same_clients :: "world \<Rightarrow> world \<Rightarrow> bool" where
  "same_clients w w' \<longleftrightarrow> (\<forall>k v. client_heap w k = Some v \<longrightarrow>
     (\<exists>v'. client_heap w' k = Some v' \<and> cl_fd v' = cl_fd v \<and> cl_state v' = cl_state v))"

lemma same_clients_refl: "client_heap w' = client_heap w \<Longrightarrow> same_clients w w'"
  by (simp add: same_clients_def)

lemma same_clients_trans: "same_clients u v \<Longrightarrow> same_clients v w \<Longrightarrow> same_clients u w"
  unfolding same_clients_def by metis

lemma update_connection_effect:
  assumes "update_connection conn w = Inr ((), w')" "conn_heap w conn = Some c"
  shows "conn_heap w' conn = Some (refresh c)" "same_clients w w'" "quiet w w'" "dev_heap w' = dev_heap w"
proof -
  obtain k v where k: "conn_client c = Some k" "client_heap w k = Some v"
    using assms by (auto simp: update_connection_def seq_eq_Inr get_conn_run set_conn_def client_set_events_def
        get_client_def some_or_def split: option.splits)
  let ?w = "w\<lparr>conn_heap := (conn_heap w)(conn := Some (refresh c))\<rparr>"
  let ?v = "v\<lparr>cl_devents := conn_events (refresh c),
      cl_events := (if cl_state v = CLIENT_CONNECTED then conn_events (refresh c) else cl_events v)\<rparr>"
  have "\<exists>r. client_set_events k (conn_events (refresh c)) ?w =
      Inr (r, if cl_state v \<noteq> CLIENT_CONNECTED \<and> cl_state v \<noteq> CLIENT_CONNECTING2 then ?w
              else ?w\<lparr>client_heap := (client_heap w)(k := Some ?v)\<rparr>)"
    using k(2) by (simp add: client_set_events_def seq_Inr get_client_run set_client_def)
  then obtain r where "client_set_events k (conn_events (refresh c)) ?w =
      Inr (r, if cl_state v \<noteq> CLIENT_CONNECTED \<and> cl_state v \<noteq> CLIENT_CONNECTING2 then ?w
              else ?w\<lparr>client_heap := (client_heap w)(k := Some ?v)\<rparr>)" by blast
  then have "w' = (if cl_state v \<noteq> CLIENT_CONNECTED \<and> cl_state v \<noteq> CLIENT_CONNECTING2 then ?w
              else ?w\<lparr>client_heap := (client_heap w)(k := Some ?v)\<rparr>)"
    using assms k(1) by (simp add: update_connection_def seq_Inr get_conn_run set_conn_def)
  then show "conn_heap w' conn = Some (refresh c)" "same_clients w w'" "quiet w w'" "dev_heap w' = dev_heap w"
    using k by (auto simp: same_clients_def quiet_def)
qed

lemma client_set_events_run:
  assumes "client_heap w k = Some v"
  shows "\<exists>r e1 e2. client_set_events k e w =
     Inr (r, w\<lparr>client_heap := (client_heap w)(k := Some (v\<lparr>cl_events := e1, cl_devents := e2\<rparr>))\<rparr>)"
proof (cases "cl_state v \<noteq> CLIENT_CONNECTED \<and> cl_state v \<noteq> CLIENT_CONNECTING2")
  case True
  have "(client_heap w)(k := Some (v\<lparr>cl_events := cl_events v, cl_devents := cl_devents v\<rparr>)) = client_heap w"
    using assms by (simp add: fun_upd_idem)
  then show ?thesis using True assms
    by (intro exI [of _ "-1"] exI [of _ "cl_events v"] exI [of _ "cl_devents v"]) (simp add: client_set_events_def seq_Inr get_client_run)
next
  case False
  then show ?thesis using assms
    by (intro exI [of _ 0] exI [of _ "if cl_state v = CLIENT_CONNECTED then e else cl_events v"] exI [of _ e])
      (cases v, auto simp: client_set_events_def seq_Inr get_client_run set_client_def)
qed

lemma update_connection_run:
  assumes "conn_heap w conn = Some c" "conn_client c = Some k" "client_heap w k = Some v"
  obtains e1 e2 where "update_connection conn w = Inr ((), w\<lparr>conn_heap := (conn_heap w)(conn := Some (refresh c)),
    client_heap := (client_heap w)(k := Some (v\<lparr>cl_events := e1, cl_devents := e2\<rparr>))\<rparr>)"
proof -
  let ?w = "w\<lparr>conn_heap := (conn_heap w)(conn := Some (refresh c))\<rparr>"
  obtain r e1 e2 where "client_set_events k (conn_events (refresh c)) ?w =
      Inr (r, ?w\<lparr>client_heap := (client_heap w)(k := Some (v\<lparr>cl_events := e1, cl_devents := e2\<rparr>))\<rparr>)"
    using client_set_events_run [of ?w k v "conn_events (refresh c)"] assms(3) by auto
  then show thesis using assms that by (simp add: update_connection_def seq_Inr get_conn_run set_conn_def)
qed

lemma refresh_ok [simp]: "conn_ok (refresh c) = conn_ok c" "ib_pending (refresh c) = ib_pending c"
  by (simp_all add: conn_ok_def ib_ok_def ib_pending_def)

text \<open>An acknowledgement that leaves the connection open.\<close>

lemma send_tcp_ack_effect:
  assumes "send_tcp_ack conn w = Inr (r, w')" "conn_heap w conn = Some c" "conn_state c \<noteq> CONN_DEAD"
    and "conn_heap w' conn = Some c'"
  shows "same_clients w w'" "quiet w w'" "conn_client c' = conn_client c" "conn_state c' = conn_state c"
    "ib_pending c' = ib_pending c" "conn_ok c' = conn_ok c"
proof -
  obtain s w1 where s: "send_tcp conn TH_ACK [] w = Inr (s, w1)"
    using assms(1) by (auto simp: send_tcp_ack_def seq_eq_Inr)
  obtain c1 where c1: "same_conn c c1" "conn_heap w1 conn = Some c1" "client_heap w1 = client_heap w"
    using send_tcp_effect [OF s assms(2)] by auto
  note f = same_conn_fields [OF c1(1)]
  have "\<not> s < 0"
  proof
    assume "s < 0"
    then have "teardown conn w1 = Inr ((), w')" using assms(1) s by (auto simp: send_tcp_ack_def seq_Inr seq_eq_Inr)
    then show False using teardown_gone c1(2) f(3) assms(3,4) by fastforce
  qed
  then have up: "update_connection conn w1 = Inr ((), w')"
    using assms(1) s by (auto simp: send_tcp_ack_def seq_Inr seq_eq_Inr)
  note u = update_connection_effect [OF up c1(2)]
  have c': "c' = refresh c1" using u(1) assms(4) by simp
  show "same_clients w w'" using same_clients_refl [OF c1(3)] u(2) same_clients_trans by blast
  show "quiet w w'" using keepsD [OF quiet_send_tcp s] u(3) quiet.frame_trans by blast
  show "conn_client c' = conn_client c" "conn_state c' = conn_state c" "ib_pending c' = ib_pending c" "conn_ok c' = conn_ok c"
    using f by (simp_all add: c' conn_ok_def ib_ok_def ib_pending_def)
qed

text \<open>Input from the device that leaves the connection open is appended to the buffer.\<close>

lemma device_input_effect:
  assumes "connection_device_input conn p n w = Inr ((), w')" "conn_heap w conn = Some c" "conn_state c \<noteq> CONN_DEAD"
    and "conn_ok c" "conn_heap w' conn = Some c'"
  shows "same_clients w w'" "quiet w w'" "conn_client c' = conn_client c" "conn_state c' = conn_state c"
    "ib_pending c' = ib_pending c @ take (unat n) p" "conn_ok c'" "unat n \<le> length p"
proof -
  have open_: "\<not> conn_ib_size c + n > conn_ib_capacity c"
  proof
    assume "conn_ib_size c + n > conn_ib_capacity c"
    then have "teardown conn w = Inr ((), w')" using assms(1,2) by (simp add: connection_device_input_def seq_Inr get_conn_run)
    then show False using teardown_gone assms(2,3,5) by fastforce
  qed
  let ?s = "unat (conn_ib_size c)" and ?n = "unat n"
  have ok: "?s \<le> length (conn_ib_buf c)" "unat (conn_ib_capacity c) = CONN_INBUF_SIZE"
    "unat (conn_tx_win c) + ?s = CONN_INBUF_SIZE"
    using assms(4) by (simp_all add: conn_ok_def ib_ok_def)
  have len: "?n \<le> length p" "?s + ?n \<le> CONN_INBUF_SIZE"
    using assms(1,2) open_ ok(2)
    by (auto simp: connection_device_input_def seq_Inr get_conn_run seq_eq_Inr buf_read_def buf_write_def split: if_splits)
  let ?c = "c\<lparr>conn_ib_buf := buf_put ?s (take ?n p) (conn_ib_buf c), conn_ib_size := conn_ib_size c + n,
              conn_tx_win := conn_tx_win c - n, conn_tx_ack := conn_tx_ack c + n\<rparr>"
  let ?w = "w\<lparr>conn_heap := (conn_heap w)(conn := Some ?c)\<rparr>"
  have up: "update_connection conn ?w = Inr ((), w')"
    using assms(1,2) open_ ok(2) len
    by (simp add: connection_device_input_def seq_Inr get_conn_run buf_read_def buf_write_def set_conn_def min_absorb1)
  note u = update_connection_effect [OF up, of ?c, simplified]
  have c': "c' = refresh ?c" using u(1) assms(5) by simp
  have small: "CONN_INBUF_SIZE < 2 ^ 32" by (simp add: CONN_INBUF_SIZE_def)
  have size: "unat (conn_ib_size c + n) = ?s + ?n"
    using len(2) small by (intro unat_add_small) simp
  have win: "unat (conn_tx_win c - n) = unat (conn_tx_win c) - ?n"
    using len(2) ok(3) by (intro unat_sub_small) (simp add: word_le_nat_alt)
  show "same_clients w w'" using u(2) same_clients_refl [of ?w w] same_clients_trans by fastforce
  show "quiet w w'" using u(3) by (simp add: quiet_def)
  show "conn_client c' = conn_client c" "conn_state c' = conn_state c" by (simp_all add: c')
  have "length (take ?n p) = ?n" using len(1) by simp
  then have "take (?s + ?n) (buf_put ?s (take ?n p) (conn_ib_buf c)) = take ?s (conn_ib_buf c) @ take ?n p"
    using take_buf_put [OF ok(1), of "take ?n p"] by simp
  then show "ib_pending c' = ib_pending c @ take ?n p" by (simp add: c' ib_pending_def size)
  show "conn_ok c'"
    using ok len size win by (simp add: c' conn_ok_def ib_ok_def length_buf_put min_absorb1)
  show "?n \<le> length p" by (rule len)
qed

text \<open>Writing to the client takes a prefix of what is buffered.\<close>

lemma to_client_effect:
  assumes "process_to_client conn w = Inr (b, w')" "conn_heap w conn = Some c" "conn_state c \<noteq> CONN_DEAD"
    and "conn_ok c" "conn_heap w' conn = Some c'"
  shows "\<exists>k v n. conn_client c = Some k \<and> client_heap w k = Some v \<and> 0 < n \<and> n \<le> length (ib_pending c) \<and>
     sent_on (cl_fd v) w' = sent_on (cl_fd v) w @ take n (ib_pending c) \<and> ib_pending c' = drop n (ib_pending c) \<and>
     same_clients w w' \<and> conn_client c' = conn_client c \<and> conn_state c' = conn_state c \<and> conn_ok c'"
proof -
  have ok: "ib_ok c" "unat (conn_ib_capacity c) = CONN_INBUF_SIZE"
    "unat (conn_tx_win c) + unat (conn_ib_size c) = CONN_INBUF_SIZE"
    using assms(4) by (simp_all add: conn_ok_def)
  obtain k v where k: "conn_client c = Some k" "client_heap w k = Some v"
    using assms(1,2) ok(1)
    by (auto simp: process_to_client_def seq_eq_Inr get_conn_run read_ib_pending client_write_def get_client_def
        some_or_def split: option.splits)
  obtain r s where cw: "client_write k (ib_pending c) w = Inr (r, w\<lparr>sys := s\<rparr>)" "nat r \<le> length (ib_pending c)"
    "sent_on (cl_fd v) (w\<lparr>sys := s\<rparr>) = sent_on (cl_fd v) w @ take (nat r) (ib_pending c)"
    using client_write_run [OF k(2)] by metis
  have pos: "r > 0"
  proof (rule ccontr)
    assume "\<not> r > 0"
    then have "teardown conn (w\<lparr>sys := s\<rparr>) = Inr ((), w')"
      using assms(1,2) k(1) cw(1) ok(1)
      by (auto simp: process_to_client_def seq_Inr get_conn_run read_ib_pending seq_eq_Inr)
    then show False using teardown_gone assms(2,3,5) by fastforce
  qed
  let ?n = "nat r"
  have n: "?n \<le> unat (conn_ib_size c)" using cw(2) length_ib_pending [OF ok(1)] by simp
  let ?c = "(ib_consume ?n c)\<lparr>conn_tx_win := conn_tx_win c + of_int r\<rparr>"
  let ?w = "w\<lparr>sys := s, conn_heap := (conn_heap w)(conn := Some ?c)\<rparr>"
  have rest: "(if unat (conn_tx_win c) < MAX_MUX_PACKET_SIZE then seq (send_tcp_ack conn) (\<lambda>_. ret True) else ret True) ?w
      = Inr (b, w')"
    using assms(1,2) k(1) cw(1) ok(1) pos
    by (simp add: process_to_client_def seq_Inr get_conn_run read_ib_pending set_conn_def)
  have small: "CONN_INBUF_SIZE < 2 ^ 32" by (simp add: CONN_INBUF_SIZE_def)
  have on: "of_int r = (of_nat ?n :: u32)" using pos by (metis of_int_of_nat_eq zero_less_imp_eq_int nat_int)
  have un: "unat (of_nat ?n :: u32) = ?n" using n ok(3) small by (intro unat_of_nat_small) simp
  have win: "unat (conn_tx_win c + of_int r) = unat (conn_tx_win c) + ?n"
    unfolding on using un n ok(3) small by (subst unat_add_small) simp_all
  note p = ib_consume_pending [OF ok(1) n]
  have cap: "conn_ib_capacity (ib_consume ?n c) = conn_ib_capacity c" by (simp add: ib_consume_def Let_def)
  have okc: "conn_ok ?c" "ib_pending ?c = drop ?n (ib_pending c)"
    "conn_client ?c = conn_client c" "conn_state ?c = conn_state c"
    using p ok win n ib_consume_size [OF n] cap
    by (auto simp: conn_ok_def ib_ok_def ib_pending_def ib_consume_fields)
  have "sent_on (cl_fd v) w' = sent_on (cl_fd v) ?w \<and> same_clients ?w w' \<and> conn_client c' = conn_client ?c \<and>
      conn_state c' = conn_state ?c \<and> ib_pending c' = ib_pending ?c \<and> conn_ok c'"
  proof (cases "unat (conn_tx_win c) < MAX_MUX_PACKET_SIZE")
    case True
    then obtain x where "send_tcp_ack conn ?w = Inr (x, w')" using rest by (auto simp: seq_eq_Inr)
    from send_tcp_ack_effect [OF this, of ?c c'] show ?thesis
      using assms(3,5) okc by (simp add: sent_on_quiet)
  next
    case False
    then have "w' = ?w" using rest by simp
    then show ?thesis using okc assms(5) by (simp add: same_clients_refl)
  qed
  moreover have "sent_on (cl_fd v) ?w = sent_on (cl_fd v) w @ take ?n (ib_pending c)" using cw(3) by (simp add: sent_on_def)
  moreover have "same_clients w w'"
    using calculation(1) same_clients_refl [of ?w w] same_clients_trans by fastforce
  ultimately show ?thesis using k pos cw(2) okc by (intro exI [of _ k] exI [of _ v] exI [of _ ?n]) simp
qed

text \<open>Reading from the client and sending to the device leaves the input side alone.\<close>

lemma from_client_effect:
  assumes "process_from_client conn w = Inr (b, w')" "conn_heap w conn = Some c" "conn_state c \<noteq> CONN_DEAD"
    and "conn_heap w' conn = Some c'"
  shows "same_clients w w'" "quiet w w'" "conn_client c' = conn_client c" "conn_state c' = conn_state c"
    "ib_pending c' = ib_pending c" "conn_ok c' = conn_ok c"
proof -
  obtain k r w1 where k: "conn_client c = Some k" and rd: "client_read k (unat (conn_sendable c)) w = Inr (r, w1)"
    using assms(1,2) by (cases "conn_client c") (auto simp: process_from_client_def seq_eq_Inr get_conn_run)
  have w1: "conn_heap w1 = conn_heap w" "client_heap w1 = client_heap w" "quiet w w1"
    using rd by (auto simp: client_read_def seq_eq_Inr get_client_def some_or_def sys_recv_def quiet_def
        split: option.splits list.splits if_splits)
  have no_td: "\<not> teardown conn v = Inr ((), w')" if "conn_heap v conn = Some c2" "conn_state c2 = conn_state c" for v c2
    using teardown_gone [of _ conn v w' c2] that assms(3,4) by auto
  have run: "(case r of None \<Rightarrow> seq (teardown conn) (\<lambda>_. ret False) | Some [] \<Rightarrow> seq (teardown conn) (\<lambda>_. ret False)
     | Some bs \<Rightarrow> seq (buf_write (unat (conn_ob_capacity c)) 0 bs (conn_ob_buf c)) (\<lambda>buf.
         seq (set_conn conn (c\<lparr>conn_ob_buf := buf\<rparr>)) (\<lambda>_. seq (send_tcp conn TH_ACK bs) (\<lambda>res.
         if res < 0 then seq (teardown conn) (\<lambda>_. ret False)
         else seq (upd_conn conn (\<lambda>c. c\<lparr>conn_tx_seq := conn_tx_seq c + of_nat (length bs)\<rparr>)) (\<lambda>_. ret True))))) w1 = Inr (b, w')"
    using assms(1,2) k rd by (simp add: process_from_client_def seq_Inr get_conn_run)
  have "\<exists>bs. r = Some bs \<and> bs \<noteq> []"
  proof (rule ccontr)
    assume "\<not> (\<exists>bs. r = Some bs \<and> bs \<noteq> [])"
    then have "r = None \<or> r = Some []" by (cases r) auto
    then have "seq (teardown conn) (\<lambda>_. ret False) w1 = Inr (b, w')" using run by auto
    then have "teardown conn w1 = Inr ((), w')" by (auto simp: seq_eq_Inr)
    then show False using no_td [of w1 c] w1(1) assms(2) by simp
  qed
  then obtain bs where r: "r = Some bs" "bs \<noteq> []" by blast
  then obtain x xs where bs: "bs = x # xs" by (cases bs) auto
  let ?c = "c\<lparr>conn_ob_buf := buf_put 0 bs (conn_ob_buf c)\<rparr>"
  let ?w = "w1\<lparr>conn_heap := (conn_heap w1)(conn := Some ?c)\<rparr>"
  have "seq (send_tcp conn TH_ACK bs) (\<lambda>res. if res < 0 then seq (teardown conn) (\<lambda>_. ret False)
        else seq (upd_conn conn (\<lambda>c. c\<lparr>conn_tx_seq := conn_tx_seq c + of_nat (length bs)\<rparr>)) (\<lambda>_. ret True)) ?w = Inr (b, w')"
    using run r bs w1(1) by (auto simp: seq_Inr buf_write_def set_conn_def seq_eq_Inr split: if_splits)
  then obtain res w2 where s: "send_tcp conn TH_ACK bs ?w = Inr (res, w2)" and
    rest: "(if res < 0 then seq (teardown conn) (\<lambda>_. ret False)
        else seq (upd_conn conn (\<lambda>c. c\<lparr>conn_tx_seq := conn_tx_seq c + of_nat (length bs)\<rparr>)) (\<lambda>_. ret True)) w2 = Inr (b, w')"
    unfolding seq_eq_Inr by blast
  obtain c2 where c2: "same_conn ?c c2" "conn_heap w2 conn = Some c2" "client_heap w2 = client_heap ?w"
    using send_tcp_effect [OF s, of ?c] by auto
  note f = same_conn_fields [OF c2(1)]
  have "\<not> res < 0"
    using rest no_td [of w2 c2] c2(2) f(3) by (auto simp: seq_eq_Inr)
  then have w': "w' = w2\<lparr>conn_heap := (conn_heap w2)(conn := Some (c2\<lparr>conn_tx_seq := conn_tx_seq c2 + of_nat (length bs)\<rparr>))\<rparr>"
    using rest c2(2) by (simp add: seq_Inr upd_conn_run)
  then have c': "c' = c2\<lparr>conn_tx_seq := conn_tx_seq c2 + of_nat (length bs)\<rparr>" using assms(4) by simp
  show "same_clients w w'" using w' c2(3) w1(2) by (simp add: same_clients_refl)
  have "quiet ?w w2" by (rule keepsD [OF quiet_send_tcp s])
  then show "quiet w w'" using w1(3) w' by (simp add: quiet_def)
  show "conn_client c' = conn_client c" "conn_state c' = conn_state c" "ib_pending c' = ib_pending c" "conn_ok c' = conn_ok c"
    using f by (simp_all add: c' conn_ok_def ib_ok_def ib_pending_def)
qed

subsection \<open>The stream contract\<close>

text \<open>
  The operations on one connection that leave it open, with the payload bytes the device has sent so
  far: input from the device, writing to the client, reading from the client, an acknowledgement.
\<close>

inductive stream_step :: "ptr \<Rightarrow> world \<times> bytes \<Rightarrow> world \<times> bytes \<Rightarrow> bool" for conn where
  from_device: "connection_device_input conn p n w = Inr ((), w') \<Longrightarrow> conn_heap w' conn = Some c \<Longrightarrow>
     stream_step conn (w, rcvd) (w', rcvd @ take (unat n) p)"
| to_client: "process_to_client conn w = Inr (b, w') \<Longrightarrow> conn_heap w' conn = Some c \<Longrightarrow>
     stream_step conn (w, rcvd) (w', rcvd)"
| from_client: "process_from_client conn w = Inr (b, w') \<Longrightarrow> conn_heap w' conn = Some c \<Longrightarrow>
     stream_step conn (w, rcvd) (w', rcvd)"
| acknowledge: "send_tcp_ack conn w = Inr (r, w') \<Longrightarrow> conn_heap w' conn = Some c \<Longrightarrow>
     stream_step conn (w, rcvd) (w', rcvd)"

inductive_cases stream_stepE: "stream_step conn (w, rcvd) y"

text \<open>What holds after every such operation: the bytes sent to the client's socket followed by those still
  buffered are what was there before followed by everything received.\<close>

definition stream_inv :: "ptr \<Rightarrow> ptr \<Rightarrow> fd \<Rightarrow> bytes \<Rightarrow> world \<times> bytes \<Rightarrow> bool" where
  "stream_inv conn k s before = (\<lambda>(w, rcvd). \<exists>c v. conn_heap w conn = Some c \<and> conn_state c = CONN_CONNECTED \<and>
     conn_client c = Some k \<and> client_heap w k = Some v \<and> cl_fd v = s \<and> conn_ok c \<and>
     sent_on s w @ ib_pending c = before @ rcvd)"

lemma stream_inv_step:
  assumes "stream_step conn x y" "stream_inv conn k s before x"
  shows "stream_inv conn k s before y"
proof -
  obtain w rcvd where x: "x = (w, rcvd)" by (cases x)
  from assms(2) obtain c v where c: "conn_heap w conn = Some c" "conn_state c = CONN_CONNECTED" "conn_client c = Some k"
    "client_heap w k = Some v" "cl_fd v = s" "conn_ok c" "sent_on s w @ ib_pending c = before @ rcvd"
    by (auto simp: stream_inv_def x)
  have alive: "conn_state c \<noteq> CONN_DEAD" using c(2) by simp
  have client: "\<exists>v'. client_heap w' k = Some v' \<and> cl_fd v' = s" if "same_clients w w'" for w'
    using that c(4,5) by (auto simp: same_clients_def)
  from assms(1)[unfolded x] show ?thesis
  proof (rule stream_stepE)
    fix p n w' c'
    assume y: "y = (w', rcvd @ take (unat n) p)" "connection_device_input conn p n w = Inr ((), w')" "conn_heap w' conn = Some c'"
    note e = device_input_effect [OF y(2) c(1) alive c(6) y(3)]
    show ?thesis
      using e y client [OF e(1)] c by (auto simp: stream_inv_def sent_on_quiet)
  next
    fix b w' c'
    assume y: "y = (w', rcvd)" "process_to_client conn w = Inr (b, w')" "conn_heap w' conn = Some c'"
    obtain n where e: "sent_on s w' = sent_on s w @ take n (ib_pending c)" "ib_pending c' = drop n (ib_pending c)"
      "same_clients w w'" "conn_client c' = conn_client c" "conn_state c' = conn_state c" "conn_ok c'"
      using to_client_effect [OF y(2) c(1) alive c(6) y(3)] c by auto
    show ?thesis
      using e y client [OF e(3)] c by (auto simp: stream_inv_def)
  next
    fix b w' c'
    assume y: "y = (w', rcvd)" "process_from_client conn w = Inr (b, w')" "conn_heap w' conn = Some c'"
    note e = from_client_effect [OF y(2) c(1) alive y(3)]
    show ?thesis
      using e y client [OF e(1)] c by (auto simp: stream_inv_def sent_on_quiet)
  next
    fix r w' c'
    assume y: "y = (w', rcvd)" "send_tcp_ack conn w = Inr (r, w')" "conn_heap w' conn = Some c'"
    note e = send_tcp_ack_effect [OF y(2) c(1) alive y(3)]
    show ?thesis
      using e y client [OF e(1)] c by (auto simp: stream_inv_def sent_on_quiet)
  qed
qed

lemma stream_inv_steps: "(stream_step conn)\<^sup>*\<^sup>* x y \<Longrightarrow> stream_inv conn k s before x \<Longrightarrow> stream_inv conn k s before y"
  by (induction rule: rtranclp_induct) (auto intro: stream_inv_step)

text \<open>
  C1: What a client receives is what its device sent. After any sequence of operations that leave the
  connection open (input from the device, writes to the client of any size, reads from the client,
  acknowledgements), the bytes written to the client's socket followed by the bytes still buffered are
  those of the start followed by every payload received since, in order, and the buffered bytes plus
  the window still offered to the device are the whole buffer.
\<close>

theorem stream_in_order:
  assumes "(stream_step conn)\<^sup>*\<^sup>* (w0, []) (w, rcvd)"
    and "conn_heap w0 conn = Some c0" "conn_state c0 = CONN_CONNECTED" "conn_client c0 = Some k"
    and "client_heap w0 k = Some v" "conn_ok c0"
  shows "\<exists>c. conn_heap w conn = Some c \<and>
     sent_on (cl_fd v) w @ ib_pending c = sent_on (cl_fd v) w0 @ ib_pending c0 @ rcvd \<and>
     unat (conn_tx_win c) + unat (conn_ib_size c) = CONN_INBUF_SIZE"
proof -
  have "stream_inv conn k (cl_fd v) (sent_on (cl_fd v) w0 @ ib_pending c0) (w0, [])"
    using assms(2-6) by (simp add: stream_inv_def)
  from stream_inv_steps [OF assms(1) this] show ?thesis
    by (auto simp: stream_inv_def conn_ok_def)
qed

text \<open>
  A payload that fits is accepted: the call returns, the bytes stand behind those already buffered,
  the window shrinks and the acknowledgement number grows by exactly the payload, and the client is
  polled for output.
\<close>

theorem device_input_accepted:
  assumes "conn_heap w conn = Some c" "conn_client c = Some k" "client_heap w k = Some v" "conn_state c \<noteq> CONN_DEAD"
    and "conn_ok c" "unat n \<le> length p" "unat (conn_ib_size c) + unat n \<le> CONN_INBUF_SIZE"
  shows "\<exists>w' c'. connection_device_input conn p n w = Inr ((), w') \<and> conn_heap w' conn = Some c' \<and>
     ib_pending c' = ib_pending c @ take (unat n) p \<and>
     unat (conn_tx_win c') = unat (conn_tx_win c) - unat n \<and> conn_tx_ack c' = conn_tx_ack c + n \<and>
     (has_bits POLLOUT (conn_events c') \<longleftrightarrow> ib_pending c @ take (unat n) p \<noteq> []) \<and> conn_ok c'"
proof -
  let ?s = "unat (conn_ib_size c)" and ?n = "unat n"
  have ok: "ib_ok c" "?s \<le> length (conn_ib_buf c)" "unat (conn_ib_capacity c) = CONN_INBUF_SIZE"
    "unat (conn_tx_win c) + ?s = CONN_INBUF_SIZE"
    using assms(5) by (simp_all add: conn_ok_def ib_ok_def)
  have small: "CONN_INBUF_SIZE < 2 ^ 32" by (simp add: CONN_INBUF_SIZE_def)
  have size: "unat (conn_ib_size c + n) = ?s + ?n"
    using assms(7) small by (intro unat_add_small) simp
  have fits: "\<not> conn_ib_size c + n > conn_ib_capacity c"
    using size assms(7) ok(3) by (simp add: word_less_nat_alt)
  let ?c = "c\<lparr>conn_ib_buf := buf_put ?s (take ?n p) (conn_ib_buf c), conn_ib_size := conn_ib_size c + n,
              conn_tx_win := conn_tx_win c - n, conn_tx_ack := conn_tx_ack c + n\<rparr>"
  let ?w = "w\<lparr>conn_heap := (conn_heap w)(conn := Some ?c)\<rparr>"
  have run: "connection_device_input conn p n w = update_connection conn ?w"
    using assms fits ok(3)
    by (simp add: connection_device_input_def seq_Inr get_conn_run buf_read_def buf_write_def set_conn_def min_absorb1)
  obtain w' where up: "update_connection conn ?w = Inr ((), w')"
    using update_connection_run [of ?w conn ?c k v] assms(2,3) by auto
  have c': "conn_heap w' conn = Some (refresh ?c)"
    using update_connection_effect(1) [OF up] by simp
  have ran: "connection_device_input conn p n w = Inr ((), w')" using run up by simp
  note e = device_input_effect [OF ran assms(1,4,5) c']
  have win: "unat (conn_tx_win c - n) = unat (conn_tx_win c) - ?n"
    using assms(7) ok(4) by (intro unat_sub_small) (simp add: word_le_nat_alt)
  have pend: "ib_pending c @ take ?n p \<noteq> [] \<longleftrightarrow> ?s + ?n \<noteq> 0"
    using length_ib_pending [OF ok(1)] assms(6) by (simp flip: length_0_conv)
  have "has_bits POLLOUT (conn_events (refresh ?c)) \<longleftrightarrow> conn_ib_size c + n \<noteq> 0"
    by (simp add: refresh_masks)
  also have "\<dots> \<longleftrightarrow> ?s + ?n \<noteq> 0" unfolding size [symmetric] by (simp add: unat_eq_zero)
  finally show ?thesis
    using ran c' e(5,6) win pend by (intro exI [of _ w'] exI [of _ "refresh ?c"]) simp
qed

theorem device_input_accepted_witness:
  "\<exists>w' c'. connection_device_input 40 [7, 8, 9] 2 (link_world (idle_device MUXDEV_ACTIVE [40])
      (idle_conn CONN_CONNECTED [5]) (idle_client CLIENT_CONNECTED)) = Inr ((), w') \<and>
     conn_heap w' 40 = Some c' \<and> ib_pending c' = [5, 7, 8]"
proof -
  let ?c = "idle_conn CONN_CONNECTED [5]" and ?v = "idle_client CLIENT_CONNECTED"
  let ?w = "link_world (idle_device MUXDEV_ACTIVE [40]) ?c ?v"
  have h: "conn_heap ?w 40 = Some ?c" "conn_client ?c = Some 20" "client_heap ?w 20 = Some ?v" "conn_state ?c \<noteq> CONN_DEAD"
    "conn_ok ?c" "unat (2 :: u32) \<le> length [7, 8, 9 :: byte]" "unat (conn_ib_size ?c) + unat (2 :: u32) \<le> CONN_INBUF_SIZE"
    by (simp_all add: idle_defs conn_ok_def ib_ok_def CONN_INBUF_SIZE_def)
  show ?thesis using device_input_accepted [OF h] by (auto simp: ib_pending_def idle_defs)
qed

theorem stream_in_order_witness:
  "\<exists>w c. (stream_step 40)\<^sup>*\<^sup>* (link_world (idle_device MUXDEV_ACTIVE [40]) (idle_conn CONN_CONNECTED [5]) (idle_client CLIENT_CONNECTED), [])
       (w, [7, 8]) \<and> conn_heap w 40 = Some c \<and> sent_on 7 w @ ib_pending c = [5, 7, 8]"
proof -
  let ?c = "idle_conn CONN_CONNECTED [5]" and ?v = "idle_client CLIENT_CONNECTED"
  let ?w = "link_world (idle_device MUXDEV_ACTIVE [40]) ?c ?v"
  have h: "conn_heap ?w 40 = Some ?c" "conn_state ?c = CONN_CONNECTED" "conn_client ?c = Some 20" "client_heap ?w 20 = Some ?v" "conn_ok ?c"
    by (simp_all add: idle_defs conn_ok_def ib_ok_def CONN_INBUF_SIZE_def)
  have "\<exists>w'. connection_device_input 40 [7, 8, 9] 2 ?w = Inr ((), w') \<and> conn_heap w' 40 \<noteq> None"
    by (simp add: connection_device_input_def update_connection_def seq_Inr get_conn_run buf_read_def buf_write_def
        set_conn_def client_set_events_def get_client_run set_client_def idle_defs)
  then obtain w' c' where run: "connection_device_input 40 [7, 8, 9] 2 ?w = Inr ((), w')" "conn_heap w' 40 = Some c'" by auto
  have "stream_step 40 (?w, []) (w', [] @ take (unat (2 :: u32)) [7, 8, 9])"
    by (rule stream_step.from_device [OF run])
  moreover have "[] @ take (unat (2 :: u32)) [7, 8, 9 :: byte] = [7, 8]" by simp
  ultimately have "(stream_step 40)\<^sup>*\<^sup>* (?w, []) (w', [7, 8])" by (metis r_into_rtranclp)
  from stream_in_order [OF this h] this show ?thesis by (auto simp: idle_defs sent_on_def ib_pending_def)
qed

end
