(* ===== verification/Usb_Ready.thy ===== *)
theory Usb_Ready
  imports Connection
begin

text \<open>
  What a usb device needs to take a packet (\<open>usb_send\<close> of usb-mce.cpp, \<open>send_packet\<close> and \<open>send_tcp\<close> of device.cpp),
  and that sending one leaves it ready for the next.
\<close>

subsection \<open>Sending leaves a device ready to send\<close>

text \<open>
  A usb device can send when it knows its packet size, has its write thread and holds no buffer that is
  yet to be allocated. The frame \<open>grown b\<close> allows only buffers below \<open>b\<close> to be queued.
\<close>

definition usb_ready :: "world \<Rightarrow> ptr \<Rightarrow> bool" where
  "usb_ready w u \<longleftrightarrow> (\<exists>d. usb_heap w u = Some d \<and> ui_tx_max_packet_size (ud_info d) \<noteq> 0 \<and> ud_tx_thread d \<and>
     (\<forall>e \<in> set (ud_tx_q d). \<forall>p. te_buffer e = Some p \<longrightarrow> p < next_ptr w))"

definition grown_dev :: "ptr \<Rightarrow> usb_device \<Rightarrow> usb_device \<Rightarrow> bool" where
  "grown_dev b d d' \<longleftrightarrow> ud_info d' = ud_info d \<and> ud_tx_thread d' = ud_tx_thread d \<and>
     (\<forall>e \<in> set (ud_tx_q d') - set (ud_tx_q d). \<forall>p. te_buffer e = Some p \<longrightarrow> p < b)"

lemma grown_dev_refl [simp]: "grown_dev b d d"
  by (simp add: grown_dev_def)

lemma grown_dev_trans: "grown_dev b d d1 \<Longrightarrow> grown_dev b d1 d2 \<Longrightarrow> grown_dev b d d2"
  by (auto simp: grown_dev_def)

definition grown :: "ptr \<Rightarrow> world \<Rightarrow> world \<Rightarrow> bool" where
  "grown b w w' \<longleftrightarrow> next_ptr w \<le> next_ptr w' \<and>
     (\<forall>u d. usb_heap w u = Some d \<longrightarrow> (\<exists>d'. usb_heap w' u = Some d' \<and> grown_dev b d d'))"

interpretation grown: frame_rel "grown b" for b
proof
  fix u v w :: world
  show "grown b w w" by (simp add: grown_def)
  assume g: "grown b u v" "grown b v w"
  then have "next_ptr u \<le> next_ptr w" by (simp add: grown_def)
  then show "grown b u w" using g unfolding grown_def by (metis grown_dev_trans)
qed

lemma grown_ready:
  assumes "usb_ready w u" "grown b w w'" "b \<le> next_ptr w'"
  shows "usb_ready w' u"
proof -
  obtain d where d: "usb_heap w u = Some d" "ui_tx_max_packet_size (ud_info d) \<noteq> 0" "ud_tx_thread d"
    "\<forall>e \<in> set (ud_tx_q d). \<forall>p. te_buffer e = Some p \<longrightarrow> p < next_ptr w" using assms(1) by (auto simp: usb_ready_def)
  obtain d' where d': "usb_heap w' u = Some d'" "grown_dev b d d'" using assms(2) d(1) by (auto simp: grown_def)
  have up: "next_ptr w \<le> next_ptr w'" using assms(2) by (simp add: grown_def)
  have "p < next_ptr w'" if e: "e \<in> set (ud_tx_q d')" "te_buffer e = Some p" for e p
  proof (cases "e \<in> set (ud_tx_q d)")
    case True
    then show ?thesis using d(4) e(2) up by fastforce
  next
    case False
    then have "p < b" using d'(2) e by (simp add: grown_dev_def)
    then show ?thesis using assms(3) by simp
  qed
  then show ?thesis using d d' by (auto simp: usb_ready_def grown_dev_def)
qed

lemma grown_prims:
  "keeps (grown b) (get_usb u)" "keeps (grown b) (get_buf p)" "keeps (grown b) (free_buf p)" "keeps (grown b) api_ok"
  "keeps (grown b) (com_transfer_out u bs)" "keeps (grown b) mstime64" "keeps (grown b) (get_dev d)"
  "keeps (grown b) (get_conn c)" "keeps (grown b) (set_dev d v)" "keeps (grown b) (set_conn c v')" "keeps (grown b) new_ptr"
  by (auto simp: keeps_def get_usb_def get_buf_def free_buf_def api_ok_def com_transfer_out_def mstime64_def get_dev_def
      get_conn_def set_dev_def set_conn_def new_ptr_def some_or_def grown_def Let_def split: option.splits list.splits if_splits)

lemma grown_elem: "GetTXQElement u b w = Inr (e, w') \<Longrightarrow> grown n w w' \<and> te_buffer e = b"
  by (auto simp: GetTXQElement_def get_usb_def set_usb_def new_ptr_def some_or_def grown_def grown_dev_def seq_eq_Inr
      split: option.splits list.splits)

lemma grown_reuse: "keeps (grown n) (ReUseTXQElement u e)"
proof -
  have "keeps (grown n) (upd_usb u (\<lambda>d. d\<lparr>ud_tx_pool := f d\<rparr>))" for f
    by (auto simp: keeps_def upd_usb_def set_usb_def get_usb_def some_or_def grown_def grown_dev_def seq_eq_Inr split: option.splits)
  then show ?thesis unfolding ReUseTXQElement_def by (intro grown.keeps_rules grown_prims)
qed

lemma grown_finish:
  assumes "\<forall>p. te_buffer e = Some p \<longrightarrow> p < n"
  shows "keeps (grown n) (finish_pending u e)"
  unfolding keeps_def
proof (intro allI impI)
  fix w x w' assume run: "finish_pending u e w = Inr (x, w')"
  then obtain d where d: "usb_heap w u = Some d"
    by (cases "usb_heap w u") (auto simp: finish_pending_def seq_Inl get_usb_run)
  have rest: "keeps (grown n) (seq api_ok (\<lambda>ok. seq (ReUseTXQElement u e) (\<lambda>_. ret (if ok then 0 else - 1))))"
    by (intro grown.keeps_rules grown_prims grown_reuse)
  show "grown n w w'"
  proof (cases "ud_tx_thread d")
    case True
    then show ?thesis using run d assms
      by (auto simp: finish_pending_def seq_Inr get_usb_run set_usb_def grown_def grown_dev_def)
  next
    case False
    then show ?thesis using run d keepsD [OF rest] by (auto simp: finish_pending_def seq_Inr get_usb_run)
  qed
qed

lemma grown_usb_send:
  assumes "usb_send u p len w = Inr (r, w')" "p < n"
  shows "grown n w w'"
proof -
  obtain e w1 where e: "GetTXQElement u (Some p) w = Inr (e, w1)"
    using assms(1) by (auto simp: usb_send_def seq_eq_Inr)
  have fin: "keeps (grown n) (finish_pending u e)" by (rule grown_finish) (use grown_elem [OF e] assms(2) in auto)
  have zero: "keeps (grown n) (seq (GetTXQElement u None) (\<lambda>ze. seq (com_transfer_out u []) (\<lambda>st.
         if st = XferOk then seq (ReUseTXQElement u ze) (\<lambda>_. ret 0) else finish_pending u ze)))"
    unfolding keeps_def
  proof (intro allI impI)
    fix v x v'
    assume "seq (GetTXQElement u None) (\<lambda>ze. seq (com_transfer_out u []) (\<lambda>st.
         if st = XferOk then seq (ReUseTXQElement u ze) (\<lambda>_. ret 0) else finish_pending u ze)) v = Inr (x, v')"
    then obtain ze v1 where z: "GetTXQElement u None v = Inr (ze, v1)" "seq (com_transfer_out u []) (\<lambda>st.
         if st = XferOk then seq (ReUseTXQElement u ze) (\<lambda>_. ret 0) else finish_pending u ze) v1 = Inr (x, v')"
      by (auto simp: seq_eq_Inr)
    have "keeps (grown n) (finish_pending u ze)" by (rule grown_finish) (use grown_elem [OF z(1)] in auto)
    then have "keeps (grown n) (seq (com_transfer_out u []) (\<lambda>st.
         if st = XferOk then seq (ReUseTXQElement u ze) (\<lambda>_. ret 0) else finish_pending u ze))"
      by (intro grown.keeps_rules grown_prims grown_reuse)
    from keepsD [OF this z(2)] show "grown n v v'" using grown_elem [OF z(1)] grown.frame_trans by blast
  qed
  have "keeps (grown n) (case st of XferOk \<Rightarrow> seq (ReUseTXQElement u e) (\<lambda>_. ret 0)
      | XferPending \<Rightarrow> finish_pending u e | XferFailed \<Rightarrow> ret (-1))" for st
    using fin by (auto intro: grown.keeps_rules grown_reuse split: xfer_status.splits)
  then have "keeps (grown n) (\<lambda>v. seq (get_buf p) (\<lambda>bs.
     seq (com_transfer_out u (take len bs)) (\<lambda>st.
     seq (case st of XferOk \<Rightarrow> seq (ReUseTXQElement u e) (\<lambda>_. ret 0)
          | XferPending \<Rightarrow> finish_pending u e | XferFailed \<Rightarrow> ret (-1)) (\<lambda>iRet.
     if iRet \<noteq> 0 then stop ProcessExit
     else seq (get_usb u) (\<lambda>d.
       let mps = unat (ui_tx_max_packet_size (ud_info d)) in
       if mps = 0 then stop DivByZero
       else if len mod mps = 0 then
         seq (GetTXQElement u None) (\<lambda>ze. seq (com_transfer_out u []) (\<lambda>st.
         if st = XferOk then seq (ReUseTXQElement u ze) (\<lambda>_. ret 0) else finish_pending u ze))
       else ret 0)))) v)"
    unfolding Let_def by (intro grown.keeps_rules grown_prims zero)
  from keepsD [OF this, of w1 r w'] show ?thesis
    using assms(1) e grown_elem [OF e] grown.frame_trans by (simp add: usb_send_def seq_Inr) blast
qed

lemma send_tcp_ready:
  assumes "send_tcp conn flags data w = Inr (r, w')" "usb_ready w u"
  shows "usb_ready w' u"
proof -
  obtain c w1 r1 where c: "conn_heap w conn = Some c"
    "send_packet (conn_dev c) MUX_PROTO_TCP (tcphdr_bytes (conn_header c flags)) data w = Inr (r1, w1)"
    using assms(1) by (auto simp: send_tcp_def seq_eq_Inr get_conn_def some_or_def split: option.splits)
  have u1: "usb_ready w1 u"
  proof -
    obtain v where v: "dev_heap w (conn_dev c) = Some v"
      using c(2) by (auto simp: send_packet_def seq_eq_Inr get_dev_def some_or_def split: option.splits)
    let ?h = "tcphdr_bytes (conn_header c flags)" and ?len = "mux_header_size v + 20 + length data"
    show ?thesis
    proof (cases "?len > USB_MTU")
      case True
      then show ?thesis using c(2) v assms(2) by (simp add: send_packet_def seq_Inr get_dev_run)
    next
      case False
      obtain mh v' where mh: "packet_header MUX_PROTO_TCP ?len v = (mh, v')" by (cases "packet_header MUX_PROTO_TCP ?len v")
      let ?w = "w\<lparr>dev_heap := (dev_heap w)(conn_dev c := Some v')\<rparr>"
      obtain p w2 r2 w3 where p: "alloc_buf (mh @ take 20 ?h @ data) ?w = Inr (p, w2)" "usb_send (dev_usbdev v) p ?len w2 = Inr (r2, w3)"
        "(if r2 < 0 then seq (free_buf p) (\<lambda>_. ret r2) else ret (int ?len)) w3 = Inr (r1, w1)"
        using c(2) v mh False by (auto simp: send_packet_def seq_eq_Inr get_dev_run set_dev_def Let_def buf_read_run)
      have w2: "usb_heap w2 = usb_heap w" "next_ptr w2 = Suc (next_ptr w)" "p < next_ptr w2"
        using p(1) by (auto simp: alloc_buf_def new_ptr_def seq_def)
      have "usb_ready w2 u" using assms(2) w2(1,2) by (auto simp: usb_ready_def intro: less_SucI)
      moreover have g: "grown (next_ptr w2) w2 w3" by (rule grown_usb_send [OF p(2) w2(3)])
      ultimately have u3: "usb_ready w3 u" by (rule grown_ready) (use g in \<open>simp add: grown_def\<close>)
      have "keeps (grown 0) (if r2 < 0 then seq (free_buf p) (\<lambda>_. ret r2) else ret (int ?len))"
        by (intro grown.keeps_rules grown_prims)
      from keepsD [OF this p(3)] show ?thesis using grown_ready [OF u3] by simp
    qed
  qed
  let ?rest = "if r1 \<ge> 0
    then seq mstime64 (\<lambda>t.
          seq (upd_conn conn (\<lambda>c. c\<lparr>conn_tx_acked := conn_tx_ack c, conn_last_ack_time := t,
                 conn_flags := conn_flags c AND NOT CONN_ACK_PENDING\<rparr>)) (\<lambda>_. ret r1))
    else ret r1"
  have "?rest w1 = Inr (r, w')" using assms(1) c by (simp add: send_tcp_def seq_Inr get_conn_run)
  moreover have "keeps (grown 0) ?rest" unfolding upd_conn_def by (intro grown.keeps_rules grown_prims)
  ultimately have "grown 0 w1 w'" by (rule keepsD [rotated])
  then show ?thesis using grown_ready [OF u1] by simp
qed

end
