(* ===== verification/Tcp.thy ===== *)
theory Tcp
  imports Device Usb_Ready
begin

text \<open>
  The TCP-like protocol between the daemon and a device (\<open>device_tcp_input\<close>, \<open>device_start_connect\<close>,
  \<open>send_tcp\<close> of device.cpp): opening and refusing a connection, resets for unknown ports, and the
  acknowledged transfer of data in both directions. Each property follows one event from the packet
  to the state of connection and client and to the packets that go back to the device.
\<close>

subsection \<open>Sending a segment\<close>

text \<open>
  A segment leaves the connection acknowledged up to \<open>conn_tx_ack\<close> at the time \<open>t\<close>. \<open>segment_sent\<close>
  says what the world looks like after \<open>send_tcp\<close>: one packet, built from the connection and the device
  as they were, possibly followed by an empty transfer.
\<close>

definition acked :: "u64 \<Rightarrow> mux_connection \<Rightarrow> mux_connection" where
  "acked t c = c\<lparr>conn_tx_acked := conn_tx_ack c, conn_last_ack_time := t,
     conn_flags := conn_flags c AND NOT CONN_ACK_PENDING\<rparr>"

definition segment :: "mux_device \<Rightarrow> mux_connection \<Rightarrow> u8 \<Rightarrow> bytes \<Rightarrow> bytes" where
  "segment v c flags data = packet_bytes MUX_PROTO_TCP v (tcphdr_bytes (conn_header c flags)) data"

definition transmitted :: "ptr \<Rightarrow> bytes \<Rightarrow> world \<Rightarrow> world \<Rightarrow> bool" where
  "transmitted u pkt w w' \<longleftrightarrow> (\<exists>zlp. usb_out (sys w') = usb_out (sys w) @ (u, pkt) # zlp \<and> (zlp = [] \<or> zlp = [(u, [])]))"

definition segment_sent :: "ptr \<Rightarrow> mux_connection \<Rightarrow> mux_device \<Rightarrow> u8 \<Rightarrow> bytes \<Rightarrow> world \<Rightarrow> world \<Rightarrow> bool" where
  "segment_sent conn c v flags data w w' \<longleftrightarrow>
     (\<exists>t. conn_heap w' = (conn_heap w)(conn := Some (acked t c))) \<and> client_heap w' = client_heap w \<and>
     device_list w' = device_list w \<and> client_list w' = client_list w \<and> quiet w w' \<and>
     (\<forall>u. usb_ready w u \<longrightarrow> usb_ready w' u) \<and>
     dev_heap w' = (dev_heap w)(conn_dev c := Some (snd (packet_header MUX_PROTO_TCP (mux_header_size v + 20 + length data) v))) \<and>
     transmitted (dev_usbdev v) (segment v c flags data) w w'"

text \<open>What an exchange of packets over the link to \<open>dev\<close> leaves as it was.\<close>

definition link_kept :: "ptr \<Rightarrow> world \<Rightarrow> world \<Rightarrow> bool" where
  "link_kept dev w w' \<longleftrightarrow> device_list w' = device_list w \<and> client_list w' = client_list w \<and> quiet w w' \<and>
     (\<forall>u. usb_ready w u \<longrightarrow> usb_ready w' u) \<and>
     (\<exists>v v'. dev_heap w dev = Some v \<and> dev_heap w' = (dev_heap w)(dev := Some v') \<and> same_dev v v')"

lemma same_dev_header: "same_dev v (snd (packet_header proto n v))"
  by (auto simp: packet_header_def reset_seq_def same_dev_def Let_def)

lemma segment_sent_kept: "segment_sent conn c v flags data w w' \<Longrightarrow> dev_heap w (conn_dev c) = Some v \<Longrightarrow> link_kept (conn_dev c) w w'"
  using same_dev_header by (auto simp: segment_sent_def link_kept_def)

lemma link_kept_same:
  assumes "dev_heap w dev = Some v"
  shows "link_kept dev w (w\<lparr>conn_heap := h, client_heap := k\<rparr>)"
proof -
  have "dev_heap w = (dev_heap w)(dev := Some v)" "same_dev v v" using assms by (simp_all add: fun_upd_idem same_dev_def)
  then show ?thesis using assms unfolding link_kept_def
    by (intro conjI exI [of _ v]) (simp_all add: quiet_def usb_ready_def)
qed

lemma link_kept_set: "link_kept dev w w' \<Longrightarrow> link_kept dev (w\<lparr>conn_heap := h, client_heap := k\<rparr>) (w'\<lparr>conn_heap := h', client_heap := k'\<rparr>)"
  by (simp add: link_kept_def quiet_def usb_ready_def)

lemma acked_fields [simp]:
  "conn_dev (acked t c) = conn_dev c" "conn_client (acked t c) = conn_client c" "conn_state (acked t c) = conn_state c"
  "conn_tx_seq (acked t c) = conn_tx_seq c" "conn_tx_ack (acked t c) = conn_tx_ack c" "conn_tx_acked (acked t c) = conn_tx_ack c"
  "conn_tx_win (acked t c) = conn_tx_win c" "conn_rx_seq (acked t c) = conn_rx_seq c" "conn_rx_ack (acked t c) = conn_rx_ack c"
  "conn_rx_win (acked t c) = conn_rx_win c" "conn_ib_buf (acked t c) = conn_ib_buf c" "conn_ib_size (acked t c) = conn_ib_size c"
  "conn_ib_capacity (acked t c) = conn_ib_capacity c" "conn_sport (acked t c) = conn_sport c" "conn_dport (acked t c) = conn_dport c"
  "conn_max_payload (acked t c) = conn_max_payload c" "conn_ob_capacity (acked t c) = conn_ob_capacity c"
  by (simp_all add: acked_def)

lemma refresh_more [simp]: "conn_rx_seq (refresh c) = conn_rx_seq c"
  by (simp add: refresh_def)

lemma header_more [simp]:
  "dev_usbdev (snd (packet_header proto n v)) = dev_usbdev v" "dev_connections (snd (packet_header proto n v)) = dev_connections v"
  "dev_state (snd (packet_header proto n v)) = dev_state v" "dev_version (snd (packet_header proto n v)) = dev_version v"
  "dev_id (snd (packet_header proto n v)) = dev_id v" "dev_next_sport (snd (packet_header proto n v)) = dev_next_sport v"
  by (simp_all add: packet_header_def reset_seq_def Let_def)

lemma mux_header_size_bound: "mux_header_size v \<le> 16"
  by (simp add: mux_header_size_def)

text \<open>With a write thread, a segment that fits is sent, or the process ends on a failed transfer.\<close>

lemma send_tcp_run:
  fixes data :: bytes
  assumes "conn_heap w conn = Some c" "can_send w (conn_dev c) v d" "ud_tx_thread d"
    and "mux_header_size v + 20 + length data \<le> USB_MTU"
  obtains "send_tcp conn flags data w = Inl ProcessExit"
  | w' where "send_tcp conn flags data w = Inr (int (mux_header_size v + 20 + length data), w')"
      "segment_sent conn c v flags data w w'"
proof -
  let ?h = "tcphdr_bytes (conn_header c flags)" and ?len = "mux_header_size v + 20 + length data"
  have h: "proto_hdrlen MUX_PROTO_TCP = Some 20" "20 \<le> length ?h" by simp_all
  note sp = send_packet_run [OF assms(2) h, of data]
  show thesis
  proof (cases "send_packet (conn_dev c) MUX_PROTO_TCP ?h data w")
    case (Inl e)
    then have "send_tcp conn flags data w = Inl ProcessExit"
      using sp assms(1,3,4) by (simp add: send_tcp_def seq_Inr seq_Inl get_conn_run)
    then show thesis using that(1) by blast
  next
    case (Inr rw)
    then obtain r w1 where r: "send_packet (conn_dev c) MUX_PROTO_TCP ?h data w = Inr (r, w1)" by (cases rw) auto
    have sent: "r = int ?len" "dev_heap w1 = (dev_heap w)(conn_dev c := Some (snd (packet_header MUX_PROTO_TCP ?len v)))"
      "transmitted (dev_usbdev v) (segment v c flags data) w w1"
      using sp assms(4) by (auto simp: r transmitted_def segment_def)
    note f = keepsD [OF send_packet_frame r, unfolded pkt_frame_def] and q = keepsD [OF quiet_send_packet r]
    obtain t w2 where t: "mstime64 w1 = Inr (t, w2)" by (cases "ticks (sys w1)") (auto simp: mstime64_def)
    have m: "conn_heap w2 = conn_heap w1" "client_heap w2 = client_heap w1" "device_list w2 = device_list w1"
      "client_list w2 = client_list w1" "dev_heap w2 = dev_heap w1" "usb_out (sys w2) = usb_out (sys w1)" "quiet w1 w2"
      using t keepsD [OF quiet_env(2) t] by (auto simp: mstime64_def split: list.splits)
    let ?w' = "w2\<lparr>conn_heap := (conn_heap w2)(conn := Some (acked t c))\<rparr>"
    have run: "send_tcp conn flags data w = Inr (int ?len, ?w')"
      using assms(1) r sent(1) t f m(1) by (simp add: send_tcp_def seq_Inr get_conn_run upd_conn_run acked_def)
    have "quiet w ?w'" using q m(7) by (simp add: quiet_def)
    then have "segment_sent conn c v flags data w ?w'"
      unfolding segment_sent_def using sent f m send_tcp_ready [OF run] by (auto simp: transmitted_def)
    with run show thesis using that(2) by blast
  qed
qed

subsection \<open>A segment from the device\<close>

text \<open>
  A connection \<open>conn\<close> of an active device \<open>dev\<close>, found by the ports of the header \<open>th\<close>, with its client
  \<open>k\<close>; the device has its write thread. \<open>received\<close> is the connection after the header was noted.
\<close>

definition tcp_link :: "world \<Rightarrow> ptr \<Rightarrow> mux_device \<Rightarrow> usb_device \<Rightarrow> ptr \<Rightarrow> mux_connection \<Rightarrow> ptr \<Rightarrow> mux_client \<Rightarrow> tcphdr \<Rightarrow> bool" where
  "tcp_link w dev v d conn c k kc th \<longleftrightarrow>
     can_send w dev v d \<and> ud_tx_thread d \<and> dev_state v = MUXDEV_ACTIVE \<and>
     conn_heap w conn = Some c \<and> conn_dev c = dev \<and> conn_client c = Some k \<and> client_heap w k = Some kc \<and>
     (\<exists>col. dev_connections v = Some col \<and>
        find_slot (conn_heap w) (\<lambda>x. conn_sport x = th_dport th \<and> conn_dport x = th_sport th) (elems col) = Inr (Some conn))"

definition received :: "tcphdr \<Rightarrow> mux_connection \<Rightarrow> mux_connection" where
  "received th c = c\<lparr>conn_rx_seq := th_seq th, conn_rx_ack := th_ack th, conn_rx_win := push_bit 8 (ucast (th_win th))\<rparr>"

lemma received_fields [simp]:
  "conn_dev (received th c) = conn_dev c" "conn_client (received th c) = conn_client c" "conn_state (received th c) = conn_state c"
  "conn_tx_seq (received th c) = conn_tx_seq c" "conn_tx_ack (received th c) = conn_tx_ack c" "conn_tx_win (received th c) = conn_tx_win c"
  "conn_tx_acked (received th c) = conn_tx_acked c" "conn_ib_buf (received th c) = conn_ib_buf c" "conn_ib_size (received th c) = conn_ib_size c"
  "conn_ib_capacity (received th c) = conn_ib_capacity c" "conn_flags (received th c) = conn_flags c"
  "conn_rx_seq (received th c) = th_seq th" "conn_rx_ack (received th c) = th_ack th"
  "conn_rx_win (received th c) = push_bit 8 (ucast (th_win th))"
  by (simp_all add: received_def)

lemma tcp_input_found:
  assumes "tcp_link w dev v d conn c k kc th"
    and "th_flags th AND TH_RST \<noteq> 0 \<Longrightarrow> unat n \<le> length payload"
  shows "device_tcp_input dev th payload n w =
     (if conn_state c = CONN_CONNECTING then tcp_connecting conn (th_flags th)
      else if conn_state c = CONN_CONNECTED then tcp_connected conn (th_flags th) payload n else ret ())
       (w\<lparr>conn_heap := (conn_heap w)(conn := Some (received th c))\<rparr>)"
proof -
  obtain col where col: "dev_connections v = Some col"
    "find_slot (conn_heap w) (\<lambda>x. conn_sport x = th_dport th \<and> conn_dport x = th_sport th) (elems col) = Inr (Some conn)"
    using assms(1) by (auto simp: tcp_link_def)
  have "find_tcp_conn dev (th_dport th) (th_sport th) w = Inr (Some conn, w)"
    using assms(1) col by (simp add: find_tcp_conn_def seq_Inr get_connections_run tcp_link_def can_send_def find_in_run)
  then show ?thesis
    using assms
    by (simp add: device_tcp_input_def seq_Inr get_dev_run get_conn_run upd_conn_run tcp_link_def can_send_def Let_def
        received_def buf_read_run cong: if_cong)
qed

lemma sendable_refresh [simp]: "sendable_of (refresh c) = sendable_of c"
  by (simp add: sendable_of_def Let_def cong: if_cong)

text \<open>The reply a client gets to its connect request, and a client with room for it.\<close>

definition result_packet :: "world \<Rightarrow> mux_client \<Rightarrow> u32 \<Rightarrow> bytes option" where
  "result_packet w kc result =
     (if cl_proto_version kc = 1
      then map_option (packet kc (cl_connect_tag kc) MESSAGE_PLIST) (xml_of (conf w) (result_plist result))
      else Some (packet kc (cl_connect_tag kc) MESSAGE_RESULT (le32 result)))"

definition awaits_reply :: "world \<Rightarrow> mux_client \<Rightarrow> u32 \<Rightarrow> bytes \<Rightarrow> bool" where
  "awaits_reply w kc result pkt \<longleftrightarrow> cl_state kc = CLIENT_CONNECTING1 \<and> ob_wf kc \<and> result_packet w kc result = Some pkt \<and>
     unat (cl_ob_size kc) + length pkt \<le> unat (cl_ob_capacity kc) \<and> length pkt < 2 ^ 31"

lemma awaits_reply_conf: "conf w' = conf w \<Longrightarrow> awaits_reply w' kc r pkt = awaits_reply w kc r pkt"
  by (simp add: awaits_reply_def result_packet_def)

lemma send_result_fits:
  assumes "client_heap w k = Some kc" "awaits_reply w kc result pkt"
  shows "\<exists>kc'. send_result k (cl_connect_tag kc) result w = Inr (int (length pkt), w\<lparr>client_heap := (client_heap w)(k := Some kc')\<rparr>) \<and>
     pkt_queued kc pkt kc'"
proof (cases "cl_proto_version kc = 1")
  case True
  then obtain bs where bs: "xml_of (conf w) (result_plist result) = Some bs" "pkt = packet kc (cl_connect_tag kc) MESSAGE_PLIST bs"
    using assms(2) by (auto simp: awaits_reply_def result_packet_def)
  with send_pkt_fits [OF assms(1), of bs "cl_connect_tag kc" MESSAGE_PLIST] assms True show ?thesis
    by (simp add: send_result_def send_plist_pkt_def seq_Inr get_client_run awaits_reply_def)
next
  case False
  then have "pkt = packet kc (cl_connect_tag kc) MESSAGE_RESULT (le32 result)"
    using assms(2) by (auto simp: awaits_reply_def result_packet_def)
  with send_pkt_fits [OF assms(1), of "le32 result" "cl_connect_tag kc" MESSAGE_RESULT] assms False show ?thesis
    by (simp add: send_result_def seq_Inr get_client_run awaits_reply_def)
qed

lemma notify_connect_run:
  assumes "client_heap w k = Some kc" "awaits_reply w kc result pkt"
  shows "\<exists>kc'. client_notify_connect k result w = Inr (0, w\<lparr>client_heap := (client_heap w)(k := Some kc')\<rparr>) \<and>
     queued kc' = queued kc @ pkt \<and> ob_wf kc' \<and> cl_fd kc' = cl_fd kc \<and>
     (if result = RESULT_OK then cl_state kc' = CLIENT_CONNECTING2 \<and> cl_ib_buf kc' = None \<and> cl_events kc' = POLLOUT
      else cl_state kc' = CLIENT_COMMAND \<and> cl_ib_buf kc' = cl_ib_buf kc)"
proof -
  obtain k1 where k1: "send_result k (cl_connect_tag kc) result w = Inr (int (length pkt), w\<lparr>client_heap := (client_heap w)(k := Some k1)\<rparr>)"
    "pkt_queued kc pkt k1"
    using send_result_fits [OF assms] by blast
  have ib: "cl_ib_buf k1 = cl_ib_buf kc" "cl_fd k1 = cl_fd kc" using k1(2) unfolding pkt_queued_def
    by (metis mux_client.select_convs(1,5) mux_client.surjective mux_client.update_convs(2,3,4,8))+
  let ?k2 = "if result = RESULT_OK then k1\<lparr>cl_state := CLIENT_CONNECTING2, cl_events := POLLOUT, cl_ib_buf := None\<rparr>
     else k1\<lparr>cl_state := CLIENT_COMMAND\<rparr>"
  have "client_notify_connect k result w = Inr (0, w\<lparr>client_heap := (client_heap w)(k := Some ?k2)\<rparr>)"
    using assms k1(1) by (simp add: client_notify_connect_def seq_Inr get_client_run upd_client_run awaits_reply_def)
  moreover have "queued ?k2 = queued k1" by (simp add: queued_def)
  moreover have "ob_wf k1" "queued k1 = queued kc @ pkt" using k1(2) by (simp_all only: pkt_queued_def)
  ultimately show ?thesis using ib by (intro exI [of _ ?k2]) (simp add: ob_wf_def)
qed

text \<open>
  The run of the handshake. \<open>opened\<close> is the connection behind it.
\<close>

definition opened :: "u64 \<Rightarrow> tcphdr \<Rightarrow> mux_connection \<Rightarrow> mux_connection" where
  "opened t th c = refresh ((acked t ((received th c)\<lparr>conn_tx_seq := conn_tx_seq c + 1, conn_tx_ack := conn_tx_ack c + 1\<rparr>))
     \<lparr>conn_state := CONN_CONNECTED\<rparr>)"

lemma handshake_run:
  assumes "tcp_link w dev v d conn c k kc th" "conn_state c = CONN_CONNECTING" "th_flags th = TH_SYN OR TH_ACK"
    and "awaits_reply w kc RESULT_OK pkt"
  defines "c1 \<equiv> (received th c)\<lparr>conn_tx_seq := conn_tx_seq c + 1, conn_tx_ack := conn_tx_ack c + 1\<rparr>"
  obtains "device_tcp_input dev th payload n w = Inl ProcessExit"
  | w' t kc' where "device_tcp_input dev th payload n w = Inr ((), w')" "conn_heap w' = (conn_heap w)(conn := Some (opened t th c))"
      "client_heap w' = (client_heap w)(k := Some kc')" "cl_state kc' = CLIENT_CONNECTING2" "queued kc' = queued kc @ pkt"
      "cl_ib_buf kc' = None" "cl_events kc' = POLLOUT" "cl_devents kc' = conn_events (opened t th c)" "ob_wf kc'" "cl_fd kc' = cl_fd kc"
      "transmitted (dev_usbdev v) (segment v c1 TH_ACK []) w w'" "link_kept dev w w'"
proof -
  let ?w0 = "w\<lparr>conn_heap := (conn_heap w)(conn := Some (received th c))\<rparr>"
  let ?w1 = "w\<lparr>conn_heap := (conn_heap w)(conn := Some c1)\<rparr>"
  have link: "conn_heap ?w1 conn = Some c1" "can_send ?w1 (conn_dev c1) v d" "ud_tx_thread d"
    "mux_header_size v + 20 + length ([] :: bytes) \<le> USB_MTU"
    using assms(1) mux_header_size_bound [of v] by (auto simp: tcp_link_def can_send_def c1_def USB_MTU_def)
  have k: "conn_client c1 = Some k" "client_heap ?w1 k = Some kc" using assms(1) by (simp_all add: tcp_link_def c1_def)
  have rst: "th_flags th AND TH_RST = 0" by (simp add: assms(3) TH_defs)
  have "device_tcp_input dev th payload n w = tcp_connecting conn (TH_SYN OR TH_ACK) ?w0"
    using tcp_input_found [OF assms(1)] rst assms(2,3) by simp
  also have "\<dots> = seq (send_tcp conn TH_ACK []) (\<lambda>r. if r < 0 then teardown conn
           else seq (upd_conn conn (\<lambda>c. c\<lparr>conn_state := CONN_CONNECTED\<rparr>)) (\<lambda>_.
                seq (get_conn conn) (\<lambda>c.
                seq (some_or NullDeref (conn_client c)) (\<lambda>k.
                seq (client_notify_connect k RESULT_OK) (\<lambda>r.
                seq (if r < 0
                     then seq (upd_conn conn (\<lambda>c. c\<lparr>conn_client := None\<rparr>)) (\<lambda>_. teardown conn)
                     else ret ()) (\<lambda>_.
                update_connection conn)))))) ?w1"
    by (simp add: tcp_connecting_def seq_Inr upd_conn_run c1_def)
  finally have run: "device_tcp_input dev th payload n w = \<dots>" .
  from link show thesis
  proof (cases rule: send_tcp_run [where flags = TH_ACK])
    case 1
    then show thesis using that(1) by (simp add: run seq_Inl)
  next
    case (2 w2)
    then obtain t where t: "conn_heap w2 = (conn_heap w)(conn := Some (acked t c1))" "client_heap w2 = client_heap w"
      "quiet ?w1 w2" "transmitted (dev_usbdev v) (segment v c1 TH_ACK []) w w2"
      by (auto simp: segment_sent_def transmitted_def)
    have dev: "conn_dev c1 = dev" "dev_heap ?w1 dev = Some v" using assms(1) by (simp_all add: tcp_link_def can_send_def c1_def)
    have kept: "link_kept dev ?w1 w2" using segment_sent_kept [OF 2(2)] dev by simp
    let ?c2 = "(acked t c1)\<lparr>conn_state := CONN_CONNECTED\<rparr>"
    let ?w3 = "w2\<lparr>conn_heap := (conn_heap w)(conn := Some ?c2)\<rparr>"
    have k3: "client_heap ?w3 k = Some kc" "awaits_reply ?w3 kc RESULT_OK pkt"
      using k(2) t(2,3) assms(4) awaits_reply_conf [of ?w3 w] by (simp_all add: quiet_def)
    obtain k1 where k1: "client_notify_connect k RESULT_OK ?w3 = Inr (0, ?w3\<lparr>client_heap := (client_heap w)(k := Some k1)\<rparr>)"
      "queued k1 = queued kc @ pkt" "cl_state k1 = CLIENT_CONNECTING2" "cl_ib_buf k1 = None" "cl_events k1 = POLLOUT"
      "ob_wf k1" "cl_fd k1 = cl_fd kc"
      using notify_connect_run [OF k3] t(2) by auto
    let ?k2 = "k1\<lparr>cl_devents := conn_events (refresh ?c2), cl_events := POLLOUT\<rparr>"
    have result: "device_tcp_input dev th payload n w = Inr ((), ?w3\<lparr>conn_heap := (conn_heap w)(conn := Some (refresh ?c2)),
        client_heap := (client_heap w)(k := Some ?k2)\<rparr>)"
      using 2(1) t(1) k(1) k1 
      by (simp add: run seq_Inr upd_conn_run get_conn_run update_connection_def set_conn_def client_set_events_def
          get_client_run set_client_def fun_upd_def cong: if_cong)
    have k2: "queued ?k2 = queued k1" "ob_wf ?k2 = ob_wf k1" by (simp_all add: queued_def ob_wf_def)
    have "link_kept dev w (?w3\<lparr>conn_heap := (conn_heap w)(conn := Some (refresh ?c2)), client_heap := (client_heap w)(k := Some ?k2)\<rparr>)"
      using kept by (simp add: link_kept_def quiet_def usb_ready_def)
    from that(2) [OF result _ _ _ _ _ _ _ _ _ _ this, of t ?k2] show thesis
      using t(4) k1 k2 by (simp add: opened_def c1_def transmitted_def)
  qed
qed

text \<open>
  C6: The handshake. When a device answers the \<open>SYN\<close> of a connecting connection with \<open>SYN|ACK\<close>, the
  daemon acknowledges with a segment that carries the advanced sequence numbers, the connection is
  connected, the header's sequence number, acknowledgement and scaled window are noted, and the client
  finds the positive reply behind what was queued for it. Its input buffer is released, and it waits
  only for the reply to be sent while the connection's poll mask is kept for afterwards.
\<close>

theorem handshake_completes:
  assumes "tcp_link w dev v d conn c k kc th" "conn_state c = CONN_CONNECTING" "th_flags th = TH_SYN OR TH_ACK"
    and "awaits_reply w kc RESULT_OK pkt"
  defines "c1 \<equiv> (received th c)\<lparr>conn_tx_seq := conn_tx_seq c + 1, conn_tx_ack := conn_tx_ack c + 1\<rparr>"
  shows "case device_tcp_input dev th payload n w of
       Inl h \<Rightarrow> h = ProcessExit
     | Inr (_, w') \<Rightarrow> \<exists>c' kc'. conn_heap w' = (conn_heap w)(conn := Some c') \<and> client_heap w' = (client_heap w)(k := Some kc') \<and>
         conn_state c' = CONN_CONNECTED \<and> conn_tx_seq c' = conn_tx_seq c + 1 \<and> conn_tx_ack c' = conn_tx_ack c + 1 \<and>
         conn_tx_acked c' = conn_tx_ack c' \<and>
         conn_rx_seq c' = th_seq th \<and> conn_rx_ack c' = th_ack th \<and> conn_rx_win c' = push_bit 8 (ucast (th_win th)) \<and>
         conn_sendable c' = sendable_of c' \<and>
         cl_state kc' = CLIENT_CONNECTING2 \<and> queued kc' = queued kc @ pkt \<and> cl_ib_buf kc' = None \<and>
         cl_events kc' = POLLOUT \<and> cl_devents kc' = conn_events c' \<and>
         transmitted (dev_usbdev v) (segment v c1 TH_ACK []) w w'"
proof -
  from assms(1-4) show ?thesis
  proof (cases rule: handshake_run [where payload = payload and n = n])
    case (2 w' t kc')
    have "conn_state (opened t th c) = CONN_CONNECTED" "conn_tx_seq (opened t th c) = conn_tx_seq c + 1"
      "conn_tx_ack (opened t th c) = conn_tx_ack c + 1" "conn_tx_acked (opened t th c) = conn_tx_ack c + 1"
      "conn_rx_seq (opened t th c) = th_seq th" "conn_rx_ack (opened t th c) = th_ack th"
      "conn_rx_win (opened t th c) = push_bit 8 (ucast (th_win th))" "conn_sendable (opened t th c) = sendable_of (opened t th c)"
      by (simp_all add: opened_def)
    then show ?thesis using 2(2-) unfolding 2(1) sum.case prod.case c1_def
      by (intro exI [of _ "opened t th c"] exI [of _ kc']) simp
  qed simp
qed

text \<open>One concrete link: a device waiting for the answer to a \<open>SYN\<close>, or an open connection.\<close>

definition link_header :: "u8 \<Rightarrow> tcphdr" where
  "link_header flags = tcp_header 62078 1 5 1 flags 0x200"

lemma link_ready:
  "tcp_link (link_world (idle_device MUXDEV_ACTIVE [40]) (idle_conn st ib) (idle_client ks)) 10 (idle_device MUXDEV_ACTIVE [40]) idle_usb 40
     (idle_conn st ib) 20 (idle_client ks) (link_header flags)"
  "result_packet w (idle_client CLIENT_CONNECTING1) r = Some pkt \<Longrightarrow> length pkt = 20 \<Longrightarrow> awaits_reply w (idle_client CLIENT_CONNECTING1) r pkt"
  by (simp_all add: tcp_link_def can_send_def awaits_reply_def ob_wf_def link_header_def tcp_header_def idle_defs)

theorem handshake_completes_witness:
  "case device_tcp_input 10 (link_header (TH_SYN OR TH_ACK)) [] 0
      (link_world (idle_device MUXDEV_ACTIVE [40]) (idle_conn CONN_CONNECTING []) (idle_client CLIENT_CONNECTING1)) of
     Inl h \<Rightarrow> h = ProcessExit
   | Inr (_, w') \<Rightarrow> (\<exists>c'. conn_heap w' 40 = Some c' \<and> conn_state c' = CONN_CONNECTED \<and> conn_tx_seq c' = 2 \<and> conn_rx_win c' = 0x20000)"
proof -
  let ?kc = "idle_client CLIENT_CONNECTING1" and ?c = "idle_conn CONN_CONNECTING []"
  let ?w = "link_world (idle_device MUXDEV_ACTIVE [40]) ?c ?kc"
  have pkt: "result_packet ?w ?kc RESULT_OK = Some (packet ?kc (cl_connect_tag ?kc) MESSAGE_RESULT (le32 RESULT_OK))"
    by (simp add: result_packet_def idle_defs)
  have reply: "awaits_reply ?w ?kc RESULT_OK (packet ?kc (cl_connect_tag ?kc) MESSAGE_RESULT (le32 RESULT_OK))"
    by (rule link_ready(2) [OF pkt]) simp
  have st: "conn_state ?c = CONN_CONNECTING" "th_flags (link_header (TH_SYN OR TH_ACK)) = TH_SYN OR TH_ACK"
    "conn_tx_seq ?c = 1" "th_win (link_header (TH_SYN OR TH_ACK)) = 0x200"
    by (simp_all add: idle_conn_def link_header_def tcp_header_def)
  show ?thesis
    using handshake_completes [OF link_ready(1) st(1,2) reply, of "[]" 0] st(3,4)
    by (auto split: sum.splits)
qed

text \<open>
  C15: A refused connection. A \<open>RST\<close> in answer to the \<open>SYN\<close> always ends the attempt: the client gets the
  negative reply and may send commands again, the connection is freed and taken off its device, and
  nothing is sent back.
\<close>

theorem connection_refused:
  assumes "tcp_link w dev v d conn c k kc th" "conn_state c = CONN_CONNECTING" "th_flags th AND TH_RST \<noteq> 0"
    and "unat n \<le> length payload" "awaits_reply w kc RESULT_CONNREFUSED pkt"
  shows "\<exists>kc' col. dev_connections v = Some col \<and>
     device_tcp_input dev th payload n w = Inr ((), w\<lparr>conn_heap := (conn_heap w)(conn := None),
        client_heap := (client_heap w)(k := Some kc'),
        dev_heap := (dev_heap w)(dev := Some (v\<lparr>dev_connections := Some (collection_remove col conn)\<rparr>))\<rparr>) \<and>
     cl_state kc' = CLIENT_COMMAND \<and> queued kc' = queued kc @ pkt"
proof -
  let ?c1 = "(received th c)\<lparr>conn_state := CONN_REFUSED\<rparr>"
  let ?w1 = "w\<lparr>conn_heap := (conn_heap w)(conn := Some ?c1)\<rparr>"
  have f: "dev_heap w dev = Some v" "conn_dev c = dev" "conn_client c = Some k" "client_heap w k = Some kc"
    using assms(1) by (simp_all add: tcp_link_def can_send_def)
  obtain col where col: "dev_connections v = Some col" using assms(1) by (auto simp: tcp_link_def)
  have flags: "th_flags th \<noteq> TH_SYN OR TH_ACK" using assms(3) by (auto simp: TH_defs)
  have k1: "client_heap ?w1 k = Some kc" "awaits_reply ?w1 kc RESULT_CONNREFUSED pkt"
    using f(4) assms(5) awaits_reply_conf [of ?w1 w] by simp_all
  obtain kc' where kc': "client_notify_connect k RESULT_CONNREFUSED ?w1 = Inr (0, ?w1\<lparr>client_heap := (client_heap w)(k := Some kc')\<rparr>)"
    "queued kc' = queued kc @ pkt" "cl_state kc' = CLIENT_COMMAND"
    using notify_connect_run [OF k1] by (auto simp: msg_defs)
  have "teardown conn ?w1 = Inr ((), w\<lparr>conn_heap := (conn_heap w)(conn := None), client_heap := (client_heap w)(k := Some kc'),
      dev_heap := (dev_heap w)(dev := Some (v\<lparr>dev_connections := Some (collection_remove col conn)\<rparr>))\<rparr>)"
    unfolding TEARDOWN_FUEL_def using f col kc'
    by (simp add: eval_nat_numeral seq_Inr get_conn_run teardown_rst_def get_dev_run teardown_release_def remove_connection_def
        get_connections_run upd_dev_run free_conn_run fun_upd_def cong: if_cong)
  then have "device_tcp_input dev th payload n w = Inr ((), w\<lparr>conn_heap := (conn_heap w)(conn := None), client_heap := (client_heap w)(k := Some kc'),
      dev_heap := (dev_heap w)(dev := Some (v\<lparr>dev_connections := Some (collection_remove col conn)\<rparr>))\<rparr>)"
    using tcp_input_found [OF assms(1), of n payload] assms(2-4) flags
    by (simp add: tcp_connecting_def seq_Inr upd_conn_run)
  with col kc' show ?thesis by blast
qed

theorem connection_refused_witness:
  "\<exists>w'. device_tcp_input 10 (link_header TH_RST) [] 0
      (link_world (idle_device MUXDEV_ACTIVE [40]) (idle_conn CONN_CONNECTING []) (idle_client CLIENT_CONNECTING1)) = Inr ((), w') \<and>
     conn_heap w' 40 = None"
proof -
  let ?kc = "idle_client CLIENT_CONNECTING1" and ?c = "idle_conn CONN_CONNECTING []"
  let ?w = "link_world (idle_device MUXDEV_ACTIVE [40]) ?c ?kc"
  have pkt: "result_packet ?w ?kc RESULT_CONNREFUSED = Some (packet ?kc (cl_connect_tag ?kc) MESSAGE_RESULT (le32 RESULT_CONNREFUSED))"
    by (simp add: result_packet_def idle_defs)
  have reply: "awaits_reply ?w ?kc RESULT_CONNREFUSED (packet ?kc (cl_connect_tag ?kc) MESSAGE_RESULT (le32 RESULT_CONNREFUSED))"
    by (rule link_ready(2) [OF pkt]) simp
  have st: "conn_state ?c = CONN_CONNECTING" "th_flags (link_header TH_RST) AND TH_RST \<noteq> 0" "unat (0 :: u32) \<le> length ([] :: bytes)"
    by (simp_all add: idle_conn_def link_header_def tcp_header_def TH_defs)
  show ?thesis using connection_refused [OF link_ready(1) st reply] by auto
qed

text \<open>
  A segment for ports no connection has is answered with a \<open>RST\<close> that acknowledges its sequence
  number, unless it is a \<open>RST\<close> itself, which changes nothing: resets are never answered with resets.
  Connections and clients are not touched.
\<close>

theorem unknown_ports_reset:
  assumes "can_send w dev v d" "ud_tx_thread d" "dev_state v = MUXDEV_ACTIVE" "dev_connections v = Some col"
    and "find_slot (conn_heap w) (\<lambda>x. conn_sport x = th_dport th \<and> conn_dport x = th_sport th) (elems col) = Inr None"
  shows "if th_flags th AND TH_RST \<noteq> 0 then device_tcp_input dev th payload n w = Inr ((), w)
     else case device_tcp_input dev th payload n w of
       Inl h \<Rightarrow> h = ProcessExit
     | Inr (_, w') \<Rightarrow> conn_heap w' = conn_heap w \<and> client_heap w' = client_heap w \<and>
         transmitted (dev_usbdev v) (packet_bytes MUX_PROTO_TCP v
           (tcphdr_bytes (tcp_header (th_dport th) (th_sport th) 0 (th_seq th) TH_RST 0)) []) w w'"
proof -
  have "find_tcp_conn dev (th_dport th) (th_sport th) w = Inr (None, w)"
    using assms by (simp add: find_tcp_conn_def seq_Inr get_connections_run can_send_def find_in_run)
  then have run: "device_tcp_input dev th payload n w =
     (if th_flags th AND TH_RST = 0
      then seq (send_anon_rst dev (th_dport th) (th_sport th) (th_seq th)) (\<lambda>r. if r < 0 then stop NullDeref else ret ())
      else ret ()) w"
    using assms(1,3) by (simp add: device_tcp_input_def seq_Inr get_dev_run can_send_def Let_def cong: if_cong)
  let ?h = "tcphdr_bytes (tcp_header (th_dport th) (th_sport th) 0 (th_seq th) TH_RST 0)"
  have h: "proto_hdrlen MUX_PROTO_TCP = Some 20" "20 \<le> length ?h" by simp_all
  have fits: "\<not> mux_header_size v + 20 + length ([] :: bytes) > USB_MTU"
    using mux_header_size_bound [of v] by (simp add: USB_MTU_def)
  note sp = send_packet_run [OF assms(1) h, of "[]"]
  show ?thesis
  proof (cases "send_packet dev MUX_PROTO_TCP ?h [] w")
    case (Inl e)
    then have "e = ProcessExit" using sp fits assms(2) by simp
    with Inl show ?thesis by (simp add: run send_anon_rst_def seq_Inl)
  next
    case (Inr rw)
    then obtain r w1 where r: "send_packet dev MUX_PROTO_TCP ?h [] w = Inr (r, w1)" by (cases rw) auto
    note f = keepsD [OF send_packet_frame r, unfolded pkt_frame_def]
    have s: "\<not> r < 0" "transmitted (dev_usbdev v) (packet_bytes MUX_PROTO_TCP v ?h []) w w1"
      using sp fits by (auto simp: r transmitted_def)
    show ?thesis using r f s by (simp add: run send_anon_rst_def seq_Inr)
  qed
qed

theorem unknown_ports_reset_witness:
  "device_tcp_input 10 (link_header TH_RST) [] 0 (link_world (idle_device MUXDEV_ACTIVE []) (idle_conn CONN_CONNECTED []) (idle_client CLIENT_CONNECTED))
     = Inr ((), link_world (idle_device MUXDEV_ACTIVE []) (idle_conn CONN_CONNECTED []) (idle_client CLIENT_CONNECTED))"
proof -
  let ?v = "idle_device MUXDEV_ACTIVE []"
  let ?w = "link_world ?v (idle_conn CONN_CONNECTED []) (idle_client CLIENT_CONNECTED)"
  have h: "can_send ?w 10 ?v idle_usb" "ud_tx_thread idle_usb" "dev_state ?v = MUXDEV_ACTIVE" "dev_connections ?v = Some [None]"
    "find_slot (conn_heap ?w) (\<lambda>x. conn_sport x = th_dport (link_header TH_RST) \<and> conn_dport x = th_sport (link_header TH_RST)) (elems [None]) = Inr None"
    by (simp_all add: can_send_def idle_defs)
  have "th_flags (link_header TH_RST) AND TH_RST \<noteq> 0" by (simp add: link_header_def tcp_header_def TH_defs)
  then show ?thesis using unknown_ports_reset [OF h, of "[]" 0] by simp
qed

subsection \<open>Data in both directions\<close>

lemma send_tcp_ack_run:
  assumes "conn_heap w conn = Some c" "can_send w (conn_dev c) v d" "ud_tx_thread d" "conn_client c = Some k" "client_heap w k = Some kc"
  obtains "send_tcp_ack conn w = Inl ProcessExit"
  | t w' e1 e2 where "send_tcp_ack conn w = Inr (0, w')" "conn_heap w' = (conn_heap w)(conn := Some (refresh (acked t c)))"
      "client_heap w' = (client_heap w)(k := Some (kc\<lparr>cl_events := e1, cl_devents := e2\<rparr>))"
      "transmitted (dev_usbdev v) (segment v c TH_ACK []) w w'" "link_kept (conn_dev c) w w'"
proof -
  have fits: "mux_header_size v + 20 + length ([] :: bytes) \<le> USB_MTU"
    using mux_header_size_bound [of v] by (simp add: USB_MTU_def)
  from assms(1-3) fits show thesis
  proof (cases rule: send_tcp_run [where flags = TH_ACK])
    case 1
    then show thesis using that(1) by (simp add: send_tcp_ack_def seq_Inl)
  next
    case (2 w1)
    then obtain t where t: "conn_heap w1 = (conn_heap w)(conn := Some (acked t c))" "client_heap w1 = client_heap w"
      "transmitted (dev_usbdev v) (segment v c TH_ACK []) w w1"
      by (auto simp: segment_sent_def)
    have kept: "link_kept (conn_dev c) w w1" using segment_sent_kept [OF 2(2)] assms(2) by (simp add: can_send_def)
    have w1: "conn_heap w1 conn = Some (acked t c)" "conn_client (acked t c) = Some k" "client_heap w1 k = Some kc"
      using t assms(4,5) by simp_all
    obtain e1 e2 where "update_connection conn w1 = Inr ((), w1\<lparr>conn_heap := (conn_heap w1)(conn := Some (refresh (acked t c))),
        client_heap := (client_heap w1)(k := Some (kc\<lparr>cl_events := e1, cl_devents := e2\<rparr>))\<rparr>)"
      by (rule update_connection_run [OF w1])
    then have "send_tcp_ack conn w = Inr (0, w1\<lparr>conn_heap := (conn_heap w)(conn := Some (refresh (acked t c))),
        client_heap := (client_heap w)(k := Some (kc\<lparr>cl_events := e1, cl_devents := e2\<rparr>))\<rparr>)"
      using 2(1) t(1,2) by (simp add: send_tcp_ack_def seq_Inr)
    then show thesis using that(2) t(3) kept by (simp add: transmitted_def link_kept_def quiet_def usb_ready_def)
  qed
qed

lemma acked_pending [simp]: "ib_pending (acked t c) = ib_pending c"
  by (simp add: ib_pending_def)

lemma segment_same [simp]: "segment v (acked t c) = segment v c" "segment v (refresh c) = segment v c"
  by (simp_all add: segment_def conn_header_def fun_eq_iff)

text \<open>The run of the handler; \<open>buffered\<close> is the connection with the new data in its buffer.\<close>

definition buffered :: "tcphdr \<Rightarrow> u32 \<Rightarrow> bytes \<Rightarrow> mux_connection \<Rightarrow> mux_connection" where
  "buffered th n payload c = refresh ((received th c)\<lparr>
     conn_ib_buf := buf_put (unat (conn_ib_size c)) (take (unat n) payload) (conn_ib_buf c),
     conn_ib_size := conn_ib_size c + n, conn_tx_win := conn_tx_win c - n, conn_tx_ack := conn_tx_ack c + n\<rparr>)"

lemma buffered_fields:
  "conn_dev (buffered th n p c) = conn_dev c" "conn_client (buffered th n p c) = conn_client c" "conn_state (buffered th n p c) = conn_state c"
  "conn_tx_ack (buffered th n p c) = conn_tx_ack c + n" "conn_tx_win (buffered th n p c) = conn_tx_win c - n"
  "conn_tx_acked (buffered th n p c) = conn_tx_acked c"
  by (simp_all add: buffered_def)

lemma buffered_ok:
  assumes "conn_ok c" "unat n \<le> length payload" "unat (conn_ib_size c) + unat n \<le> CONN_INBUF_SIZE"
  shows "ib_pending (buffered th n payload c) = ib_pending c @ take (unat n) payload"
    "unat (conn_tx_win (buffered th n payload c)) = unat (conn_tx_win c) - unat n" "conn_ok (buffered th n payload c)"
    "unat (conn_ib_size (buffered th n payload c)) = unat (conn_ib_size c) + unat n"
proof -
  have size: "unat (conn_ib_size c + n) = unat (conn_ib_size c) + unat n"
    using assms(3) by (intro unat_add_small) (simp add: CONN_INBUF_SIZE_def)
  have ok: "unat (conn_ib_size c) \<le> length (conn_ib_buf c)" "unat (conn_ib_capacity c) = CONN_INBUF_SIZE"
    "unat (conn_tx_win c) + unat (conn_ib_size c) = CONN_INBUF_SIZE"
    using assms(1) by (simp_all add: conn_ok_def ib_ok_def)
  have win: "unat (conn_tx_win c - n) = unat (conn_tx_win c) - unat n"
    using assms(3) ok(3) by (intro unat_sub_small) (simp add: word_le_nat_alt)
  then show "unat (conn_tx_win (buffered th n payload c)) = unat (conn_tx_win c) - unat n" by (simp add: buffered_def)
  show "ib_pending (buffered th n payload c) = ib_pending c @ take (unat n) payload"
    using size ok(1) assms(2) take_buf_put [OF ok(1), of "take (unat n) payload"] by (simp add: ib_pending_def min_absorb1 buffered_def)
  show "conn_ok (buffered th n payload c)"
    using assms ok size win by (simp add: buffered_def conn_ok_def ib_ok_def length_buf_put min_absorb1)
  show "unat (conn_ib_size (buffered th n payload c)) = unat (conn_ib_size c) + unat n"
    using size by (simp add: buffered_def)
qed

lemma data_run:
  assumes "tcp_link w dev v d conn c k kc th" "conn_state c = CONN_CONNECTED" "th_flags th = TH_ACK"
    and "conn_ok c" "unat n \<le> length payload" "unat (conn_ib_size c) + unat n \<le> CONN_INBUF_SIZE"
  obtains "device_tcp_input dev th payload n w = Inl ProcessExit"
  | w' c' kc' where "device_tcp_input dev th payload n w = Inr ((), w')" "conn_heap w' = (conn_heap w)(conn := Some c')"
      "client_heap w' = (client_heap w)(k := Some kc')" "cl_fd kc' = cl_fd kc" "cl_state kc' = cl_state kc"
      "cl_connect_device kc' = cl_connect_device kc"
      "(c' = buffered th n payload c \<and> conn_tx_acked c' = conn_tx_ack c' \<and> usb_out (sys w') = usb_out (sys w)) \<or>
       (\<exists>t. c' = refresh (acked t (buffered th n payload c))) \<and>
         transmitted (dev_usbdev v) (segment v (buffered th n payload c) TH_ACK []) w w'"
      "link_kept dev w w'"
proof -
  let ?c0 = "received th c" and ?w0 = "w\<lparr>conn_heap := (conn_heap w)(conn := Some (received th c))\<rparr>" and ?b = "buffered th n payload c"
  have f: "conn_dev c = dev" "conn_client c = Some k" "client_heap w k = Some kc" "can_send w dev v d" "ud_tx_thread d" "dev_heap w dev = Some v"
    using assms(1) by (simp_all add: tcp_link_def can_send_def)
  let ?c1 = "?c0\<lparr>conn_ib_buf := buf_put (unat (conn_ib_size c)) (take (unat n) payload) (conn_ib_buf c),
     conn_ib_size := conn_ib_size c + n, conn_tx_win := conn_tx_win c - n, conn_tx_ack := conn_tx_ack c + n\<rparr>"
  have b: "refresh ?c1 = ?b" by (simp add: buffered_def)
  have w1: "conn_heap (w\<lparr>conn_heap := (conn_heap w)(conn := Some ?c1)\<rparr>) conn = Some ?c1" "conn_client ?c1 = Some k"
    "client_heap (w\<lparr>conn_heap := (conn_heap w)(conn := Some ?c1)\<rparr>) k = Some kc"
    using f by simp_all
  obtain e1 e2 where up: "update_connection conn (w\<lparr>conn_heap := (conn_heap w)(conn := Some ?c1)\<rparr>) =
      Inr ((), w\<lparr>conn_heap := (conn_heap w)(conn := Some ?b), client_heap := (client_heap w)(k := Some (kc\<lparr>cl_events := e1, cl_devents := e2\<rparr>))\<rparr>)"
    by (rule update_connection_run [OF w1]) (simp add: b)
  let ?kc = "kc\<lparr>cl_events := e1, cl_devents := e2\<rparr>"
  let ?w1 = "w\<lparr>conn_heap := (conn_heap w)(conn := Some ?b), client_heap := (client_heap w)(k := Some ?kc)\<rparr>"
  note bok = buffered_ok [OF assms(4-6), of th]
  have ok: "unat (conn_ib_size c) \<le> length (conn_ib_buf c)" "unat (conn_ib_capacity c) = CONN_INBUF_SIZE"
    using assms(4) by (simp_all add: conn_ok_def ib_ok_def)
  have "unat (conn_ib_size c + n) = unat (conn_ib_size c) + unat n" using bok(4) by (simp add: buffered_def)
  then have fits: "\<not> conn_ib_size c + n > conn_ib_capacity c" using assms(6) ok(2) by (simp add: word_less_nat_alt)
  have input: "connection_device_input conn payload n ?w0 = Inr ((), ?w1)"
    using assms(5,6) fits ok(1,2) up
    by (simp add: connection_device_input_def seq_Inr get_conn_run buf_read_def buf_write_def set_conn_def min_absorb1)
  have rst: "th_flags th AND TH_RST = 0" by (simp add: assms(3) TH_defs)
  have "device_tcp_input dev th payload n w = tcp_connected conn TH_ACK payload n ?w0"
    using tcp_input_found [OF assms(1), of n payload] rst assms(2,3) by simp
  also have "\<dots> = (if conn_tx_acked c \<noteq> conn_tx_ack c + n then seq (send_tcp_ack conn) (\<lambda>_. ret ()) else ret ()) ?w1"
    using input refresh_masks(3) [of ?c1] by (simp add: tcp_connected_def seq_Inr get_conn_run b)
  finally have run: "device_tcp_input dev th payload n w = \<dots>" .
  show thesis
  proof (cases "conn_tx_acked c = conn_tx_ack c + n")
    case True
    have kept: "link_kept dev w ?w1" using f(6) by (rule link_kept_same)
    have done_: "device_tcp_input dev th payload n w = Inr ((), ?w1)" using run True by simp
    have all: "conn_tx_acked ?b = conn_tx_ack ?b" using True by (simp add: buffered_fields)
    show thesis by (rule that(2) [OF done_, of ?b ?kc]) (use all kept in simp_all)
  next
    case False
    have w2: "conn_heap ?w1 conn = Some ?b" "can_send ?w1 (conn_dev ?b) v d" "ud_tx_thread d"
      "conn_client ?b = Some k" "client_heap ?w1 k = Some ?kc"
      using f by (simp_all add: can_send_def buffered_fields)
    show thesis
    proof (rule send_tcp_ack_run [OF w2])
      assume "send_tcp_ack conn ?w1 = Inl ProcessExit"
      then show thesis using that(1) run False by (simp add: seq_Inl)
    next
      fix t w' e1' e2'
      assume a: "send_tcp_ack conn ?w1 = Inr (0, w')" "conn_heap w' = (conn_heap ?w1)(conn := Some (refresh (acked t ?b)))"
        "client_heap w' = (client_heap ?w1)(k := Some (?kc\<lparr>cl_events := e1', cl_devents := e2'\<rparr>))"
        "transmitted (dev_usbdev v) (segment v ?b TH_ACK []) ?w1 w'" "link_kept (conn_dev ?b) ?w1 w'"
      have done_: "device_tcp_input dev th payload n w = Inr ((), w')" using run False a(1) by (simp add: seq_Inr)
      have kept: "link_kept dev w w'" using a(5) f(1) by (simp add: link_kept_def quiet_def usb_ready_def buffered_fields)
      have sent: "transmitted (dev_usbdev v) (segment v ?b TH_ACK []) w w'" using a(4) by (simp add: transmitted_def)
      show thesis
        by (rule that(2) [where kc' = "?kc\<lparr>cl_events := e1', cl_devents := e2'\<rparr>", OF done_ _ _ _ _ _ disjI2 [OF conjI [OF exI [of _ t] sent]] kept])
          (use a(2,3) in simp_all)
    qed
  qed
qed

text \<open>
  C7: Data from the device. A segment with data for an open connection whose buffer has room is buffered
  behind what is already there, and when the handler returns all data received so far is acknowledged:
  either nothing was outstanding, or an acknowledgement with the new number and the shrunken window was
  sent. The window shrinks by exactly the bytes that were buffered.
\<close>

theorem data_acknowledged:
  assumes "tcp_link w dev v d conn c k kc th" "conn_state c = CONN_CONNECTED" "th_flags th = TH_ACK"
    and "conn_ok c" "unat n \<le> length payload" "unat (conn_ib_size c) + unat n \<le> CONN_INBUF_SIZE"
  shows "case device_tcp_input dev th payload n w of
       Inl h \<Rightarrow> h = ProcessExit
     | Inr (_, w') \<Rightarrow> \<exists>c'. conn_heap w' conn = Some c' \<and> ib_pending c' = ib_pending c @ take (unat n) payload \<and>
         conn_tx_ack c' = conn_tx_ack c + n \<and> conn_tx_acked c' = conn_tx_ack c' \<and>
         unat (conn_tx_win c') = unat (conn_tx_win c) - unat n \<and> conn_state c' = CONN_CONNECTED \<and>
         (usb_out (sys w') = usb_out (sys w) \<or> transmitted (dev_usbdev v) (segment v c' TH_ACK []) w w')"
proof -
  note b = buffered_ok [OF assms(4-6), of th] and f = buffered_fields [of th n payload c]
  from assms show ?thesis
  proof (cases rule: data_run)
    case (2 w' c' kc')
    from 2(7) have "ib_pending c' = ib_pending c @ take (unat n) payload \<and> conn_tx_ack c' = conn_tx_ack c + n \<and>
        conn_tx_acked c' = conn_tx_ack c' \<and> unat (conn_tx_win c') = unat (conn_tx_win c) - unat n \<and> conn_state c' = CONN_CONNECTED \<and>
        (usb_out (sys w') = usb_out (sys w) \<or> transmitted (dev_usbdev v) (segment v c' TH_ACK []) w w')"
      using b f assms(2) by auto
    then show ?thesis using 2(1,2) by simp
  qed simp
qed

theorem data_acknowledged_witness:
  "case device_tcp_input 10 (link_header TH_ACK) [7, 8] 2
      (link_world (idle_device MUXDEV_ACTIVE [40]) (idle_conn CONN_CONNECTED [5]) (idle_client CLIENT_CONNECTED)) of
     Inl h \<Rightarrow> h = ProcessExit
   | Inr (_, w') \<Rightarrow> (\<exists>c'. conn_heap w' 40 = Some c' \<and> ib_pending c' = [5, 7, 8] \<and> conn_tx_acked c' = 3)"
proof -
  let ?c = "idle_conn CONN_CONNECTED [5]"
  have h: "conn_state ?c = CONN_CONNECTED" "th_flags (link_header TH_ACK) = TH_ACK" "conn_ok ?c"
    "unat (2 :: u32) \<le> length [7, 8 :: byte]" "unat (conn_ib_size ?c) + unat (2 :: u32) \<le> CONN_INBUF_SIZE"
    by (simp_all add: idle_conn_def link_header_def tcp_header_def conn_ok_def ib_ok_def CONN_INBUF_SIZE_def)
  have v: "ib_pending ?c @ take (unat (2 :: u32)) [7, 8] = [5, 7, 8]" "conn_tx_ack ?c + 2 = 3"
    by (simp_all add: ib_pending_def idle_conn_def)
  show ?thesis
    using data_acknowledged [OF link_ready(1) h] v by (fastforce split: sum.splits)
qed

text \<open>
  C8: Data from the client. What is read from a client, at most what \<open>update_connection\<close> has offered, is
  sent to the device as the payload of one acknowledging segment; the sequence number advances by its
  length, and the bytes in flight then stay within the window the device has announced.
\<close>

theorem client_data_sent:
  assumes "conn_heap w conn = Some c" "conn_client c = Some k" "client_heap w k = Some kc" "cl_state kc = CLIENT_CONNECTED"
    and "can_send w (conn_dev c) v d" "ud_tx_thread d"
    and "conn_sendable c = sendable_of c" "conn_max_payload c \<le> 32728"
    and "recvs (sys w) = Some (b # bs) # rs" "sendable_of c \<noteq> 0"
  defines "data \<equiv> take (unat (sendable_of c)) (b # bs)"
  shows "case process_from_client conn w of
       Inl h \<Rightarrow> h = ProcessExit
     | Inr (sent, w') \<Rightarrow> sent \<and> (\<exists>c'. conn_heap w' conn = Some c' \<and> conn_tx_seq c' = conn_tx_seq c + of_nat (length data) \<and>
         unat (conn_tx_seq c' - conn_rx_ack c') \<le> unat (conn_rx_win c') \<and> conn_rx_win c' = conn_rx_win c \<and>
         transmitted (dev_usbdev v) (segment v c TH_ACK data) w w')"
proof -
  let ?n = "unat (sendable_of c)" and ?w0 = "w\<lparr>sys := (sys w)\<lparr>recvs := rs\<rparr>\<rparr>"
  let ?c1 = "c\<lparr>conn_ob_buf := buf_put 0 data (conn_ob_buf c)\<rparr>"
  let ?w1 = "?w0\<lparr>conn_heap := (conn_heap w)(conn := Some ?c1)\<rparr>"
  have n: "0 < ?n" "?n \<le> unat (conn_ob_capacity c)" "?n \<le> 32728"
    using sendable_bounds [of c] assms(8,10) by (auto simp: word_le_nat_alt unat_gt_0)
  have data: "data \<noteq> []" "length data \<le> ?n" using n(1) by (simp_all add: data_def)
  have rd: "client_read k ?n w = Inr (Some data, ?w0)"
    using assms(3,4,9) by (simp add: client_read_def seq_Inr get_client_run sys_recv_def data_def)
  obtain x xs where x: "data = x # xs" using data(1) by (cases data) auto
  have run: "process_from_client conn w = seq (send_tcp conn TH_ACK data) (\<lambda>res.
         if res < 0 then seq (teardown conn) (\<lambda>_. ret False)
         else seq (upd_conn conn (\<lambda>c. c\<lparr>conn_tx_seq := conn_tx_seq c + of_nat (length data)\<rparr>)) (\<lambda>_. ret True)) ?w1"
    using assms(1,2,7) rd n(2) data(2) x
    by (simp add: process_from_client_def seq_Inr get_conn_run buf_write_def set_conn_def cong: if_cong)
  have w1: "conn_heap ?w1 conn = Some ?c1" "can_send ?w1 (conn_dev ?c1) v d" "ud_tx_thread d"
    "mux_header_size v + 20 + length data \<le> USB_MTU"
    using assms(5,6) mux_header_size_bound [of v] data(2) n(3) by (simp_all add: can_send_def USB_MTU_def)
  have window: "unat (conn_tx_seq c + of_nat (length data) - conn_rx_ack c) \<le> unat (conn_rx_win c)"
  proof -
    let ?f = "unat (conn_tx_seq c - conn_rx_ack c)"
    have "?f + ?n \<le> unat (conn_rx_win c)" using sendable_bounds(3) [of c] n(1) by linarith
    then have le: "?f + length data \<le> unat (conn_rx_win c)" using data(2) by linarith
    have l: "unat (of_nat (length data) :: u32) = length data" using data(2) n(3) by (simp add: unat_of_nat_small)
    have "?f + length data < 2 ^ 32" using le unsigned_less [of "conn_rx_win c", where ?'a = nat] by simp
    then have "unat (conn_tx_seq c - conn_rx_ack c + of_nat (length data)) = ?f + length data"
      using l by (simp add: unat_add_small)
    then show ?thesis using le by (simp add: algebra_simps)
  qed
  have seg: "segment v ?c1 = segment v c" by (simp add: segment_def conn_header_def fun_eq_iff)
  from w1 show ?thesis
  proof (cases rule: send_tcp_run [where flags = TH_ACK])
    case 1
    then show ?thesis by (simp add: run seq_Inl)
  next
    case (2 w2)
    then obtain t where "conn_heap w2 conn = Some (acked t ?c1)" "transmitted (dev_usbdev v) (segment v c TH_ACK data) w w2"
      by (auto simp: segment_sent_def transmitted_def seg)
    moreover from this 2(1) have "process_from_client conn w = Inr (True, w2\<lparr>conn_heap := (conn_heap w2)(conn :=
        Some ((acked t ?c1)\<lparr>conn_tx_seq := conn_tx_seq c + of_nat (length data)\<rparr>))\<rparr>)"
      by (simp add: run seq_Inr upd_conn_run)
    ultimately show ?thesis using window by (auto simp: transmitted_def)
  qed
qed

theorem client_data_sent_witness:
  "case process_from_client 40 ((link_world (idle_device MUXDEV_ACTIVE [40]) ((idle_conn CONN_CONNECTED [])\<lparr>conn_sendable := 32728\<rparr>)
       (idle_client CLIENT_CONNECTED))\<lparr>sys := idle_env\<lparr>recvs := [Some [7, 8]]\<rparr>\<rparr>) of
     Inl h \<Rightarrow> h = ProcessExit
   | Inr (sent, w') \<Rightarrow> sent \<and> (\<exists>c'. conn_heap w' 40 = Some c' \<and> conn_tx_seq c' = 3)"
proof -
  let ?v = "idle_device MUXDEV_ACTIVE [40]" and ?c = "(idle_conn CONN_CONNECTED [])\<lparr>conn_sendable := 32728\<rparr>" and ?k = "idle_client CLIENT_CONNECTED"
  let ?w = "(link_world ?v ?c ?k)\<lparr>sys := idle_env\<lparr>recvs := [Some [7, 8]]\<rparr>\<rparr>"
  have s: "sendable_of ?c = 32728" "conn_tx_seq ?c = 1" by (simp_all add: sendable_of_def idle_conn_def)
  have h: "conn_heap ?w 40 = Some ?c" "conn_client ?c = Some 20" "client_heap ?w 20 = Some ?k" "cl_state ?k = CLIENT_CONNECTED"
    "can_send ?w (conn_dev ?c) ?v idle_usb" "ud_tx_thread idle_usb" "conn_sendable ?c = sendable_of ?c" "conn_max_payload ?c \<le> 32728"
    "recvs (sys ?w) = Some [7, 8] # []" "sendable_of ?c \<noteq> 0"
    unfolding s by (simp_all add: can_send_def idle_defs)
  show ?thesis using client_data_sent [OF h] s by (auto split: sum.splits)
qed

subsection \<open>Opening a connection\<close>

lemma find_sport_next:
  assumes "dev_heap w dev = Some v" "dev_connections v = Some col" "conns_alive w col" "length (elems col) < 65535"
    and "dev_next_sport v \<notin> used_ports w col"
  shows "find_sport dev w = Inr (dev_next_sport v,
     w\<lparr>dev_heap := (dev_heap w)(dev := Some (v\<lparr>dev_next_sport := dev_next_sport v + 1\<rparr>))\<rparr>)"
  using find_sport_loop_run [OF assms(1-3), of 0 "Suc (length (elems col))"] assms
  by (simp add: find_sport_def seq_Inr get_connections_run)

text \<open>A connect request that can be served, as a run.\<close>

lemma start_connect_run:
  assumes "get_mux_device_for_id device_id w = Inr (Some dev, w)" "can_send w dev v d" "ud_tx_thread d"
    and "\<forall>e \<in> set (ud_tx_q d). te_buffer e \<noteq> Some (Suc (next_ptr w))"
    and "dev_connections v = Some col" "conns_alive w col" "length (elems col) < 65535"
    and "find_sport dev w = Inr (port, w0)" "port \<noteq> 0"
  shows "port \<notin> used_ports w col \<and> (case device_start_connect device_id dport client w of
       Inl h \<Rightarrow> h = ProcessExit
     | Inr (r, w') \<Rightarrow> r = 0 \<and> client_heap w' = client_heap w \<and>
         (\<exists>c v'. conn_heap w' = (conn_heap w)(next_ptr w := Some c) \<and>
           conn_state c = CONN_CONNECTING \<and> conn_client c = Some client \<and> conn_dev c = dev \<and>
           conn_sport c = port \<and> conn_dport c = dport \<and> conn_ok c \<and> unat (conn_tx_win c) = CONN_INBUF_SIZE \<and>
           dev_heap w' dev = Some v' \<and> dev_connections v' = Some (collection_add col (next_ptr w)) \<and>
           transmitted (dev_usbdev v) (segment v (new_connection dev client port dport) TH_SYN []) w w'))"
proof -
  let ?p = "next_ptr w" and ?c = "new_connection dev client port dport" and ?v = "v\<lparr>dev_next_sport := port + 1\<rparr>"
  have dev: "dev_heap w dev = Some v" using assms(2) by (simp add: can_send_def)
  obtain q where q: "find_sport dev w = Inr (q, w\<lparr>dev_heap := (dev_heap w)(dev := Some (v\<lparr>dev_next_sport := q + 1\<rparr>))\<rparr>)"
    "q \<notin> used_ports w col"
    using find_sport_fresh [OF dev assms(5-7)] by blast
  then have port: "q = port" "w0 = w\<lparr>dev_heap := (dev_heap w)(dev := Some ?v)\<rparr>" using assms(8) by auto
  let ?w1 = "w0\<lparr>next_ptr := Suc ?p, conn_heap := (conn_heap w)(?p := Some ?c)\<rparr>"
  have run: "device_start_connect device_id dport client w = seq (send_tcp ?p TH_SYN []) (\<lambda>res.
       if res < 0 then seq (free_conn ?p) (\<lambda>_. ret (- uint RESULT_CONNREFUSED))
       else seq (get_connections dev) (\<lambda>col.
         seq (upd_dev dev (\<lambda>d. d\<lparr>dev_connections := Some (collection_add col ?p)\<rparr>)) (\<lambda>_. ret 0))) ?w1"
    using assms(1,9) q(1) port
    by (simp add: device_start_connect_def seq_Inr new_ptr_def set_conn_def cong: if_cong)
  have w1: "conn_heap ?w1 ?p = Some ?c" "can_send ?w1 (conn_dev ?c) ?v d" "ud_tx_thread d"
    "mux_header_size ?v + 20 + length ([] :: bytes) \<le> USB_MTU"
    using assms(2,3,4) port mux_header_size_bound [of ?v] by (simp_all add: can_send_def new_connection_def USB_MTU_def)
  have seg: "segment ?v ?c = segment v ?c"
    by (simp add: segment_def packet_bytes_def packet_header_def mux_header_size_def reset_seq_def Let_def fun_eq_iff)
  have c: "conn_state ?c = CONN_CONNECTING" "conn_client ?c = Some client" "conn_dev ?c = dev" "conn_sport ?c = port"
    "conn_dport ?c = dport" "conn_ok ?c" "unat (conn_tx_win ?c) = CONN_INBUF_SIZE"
    by (simp_all add: new_connection_def conn_ok_def ib_ok_def CONN_INBUF_SIZE_def)
  have acked_ok: "conn_ok (acked t ?c)" for t using c(6) by (simp add: conn_ok_def ib_ok_def)
  from w1 show ?thesis
  proof (cases rule: send_tcp_run [where flags = TH_SYN])
    case 1
    then show ?thesis using q(2) port by (simp add: run seq_Inl)
  next
    case (2 w2)
    then obtain t where t: "conn_heap w2 = (conn_heap w)(?p := Some (acked t ?c))" "client_heap w2 = client_heap w"
      "transmitted (dev_usbdev v) (segment v ?c TH_SYN []) w w2"
      "\<exists>v2. dev_heap w2 dev = Some v2 \<and> dev_connections v2 = Some col"
      using assms(5) c(3) port(2) by (auto simp: segment_sent_def transmitted_def seg)
    then obtain v2 where v2: "dev_heap w2 dev = Some v2" "dev_connections v2 = Some col" by blast
    have "device_start_connect device_id dport client w = Inr (0, w2\<lparr>dev_heap := (dev_heap w2)(dev :=
        Some (v2\<lparr>dev_connections := Some (collection_add col ?p)\<rparr>))\<rparr>)"
      using 2(1) v2 by (simp add: run seq_Inr get_connections_run upd_dev_run)
    then show ?thesis
      using q(2) port t(1-3) c acked_ok by (auto simp: transmitted_def)
  qed
qed

text \<open>
  A connect request to a listed device with fewer than 65535 connections and a free non-zero port
  sends a \<open>SYN\<close> from a source port no other connection of the device uses, to the requested port, and
  leaves a connecting connection of the client that is listed in the device and offers its whole buffer
  as the window. The client itself is not touched.
\<close>

theorem connect_starts:
  assumes "get_mux_device_for_id device_id w = Inr (Some dev, w)" "can_send w dev v d" "ud_tx_thread d"
    and "\<forall>e \<in> set (ud_tx_q d). te_buffer e \<noteq> Some (Suc (next_ptr w))"
    and "dev_connections v = Some col" "conns_alive w col" "length (elems col) < 65535"
    and "find_sport dev w = Inr (port, w0)" "port \<noteq> 0"
  shows "port \<notin> used_ports w col \<and> (case device_start_connect device_id dport client w of
       Inl h \<Rightarrow> h = ProcessExit
     | Inr (r, w') \<Rightarrow> r = 0 \<and> client_heap w' = client_heap w \<and>
         (\<exists>c v'. conn_heap w' = (conn_heap w)(next_ptr w := Some c) \<and>
           conn_state c = CONN_CONNECTING \<and> conn_client c = Some client \<and> conn_dev c = dev \<and>
           conn_sport c = port \<and> conn_dport c = dport \<and> conn_ok c \<and> unat (conn_tx_win c) = CONN_INBUF_SIZE \<and>
           dev_heap w' dev = Some v' \<and> dev_connections v' = Some (collection_add col (next_ptr w)) \<and>
           transmitted (dev_usbdev v) (segment v (new_connection dev client port dport) TH_SYN []) w w'))"
  by (rule start_connect_run [OF assms])

theorem connect_starts_witness:
  "case device_start_connect 1 62078 20 (link_world ((idle_device MUXDEV_ACTIVE [40])\<lparr>dev_next_sport := 2\<rparr>)
      (idle_conn CONN_CONNECTED []) (idle_client CLIENT_COMMAND)) of
     Inl h \<Rightarrow> h = ProcessExit
   | Inr (r, w') \<Rightarrow> r = 0 \<and> (\<exists>c. conn_heap w' 100 = Some c \<and> conn_sport c = 2)"
proof -
  let ?v = "(idle_device MUXDEV_ACTIVE [40])\<lparr>dev_next_sport := 2\<rparr>"
  let ?w = "link_world ?v (idle_conn CONN_CONNECTED []) (idle_client CLIENT_COMMAND)"
  have conns: "dev_connections ?v = Some [Some 40, None]" by (simp add: idle_device_def)
  have alive: "conns_alive ?w [Some 40, None]" by (simp add: conns_alive_def link_world_def)
  have dev: "dev_heap ?w 10 = Some ?v" by (simp add: link_world_def)
  have free: "dev_next_sport ?v \<notin> used_ports ?w [Some 40, None]" by (auto simp: used_ports_def idle_defs)
  have few: "length (elems [Some (40 :: nat), None]) < 65535" by simp
  have port: "find_sport 10 ?w = Inr (2, ?w\<lparr>dev_heap := (dev_heap ?w)(10 := Some (?v\<lparr>dev_next_sport := 3\<rparr>))\<rparr>)"
    using find_sport_next [OF dev conns alive few free] by simp
  have h: "get_mux_device_for_id 1 ?w = Inr (Some 10, ?w)" "can_send ?w 10 ?v idle_usb" "ud_tx_thread idle_usb"
    "\<forall>e \<in> set (ud_tx_q idle_usb). te_buffer e \<noteq> Some (Suc (next_ptr ?w))"
    by (simp_all add: get_mux_device_for_id_run can_send_def idle_defs)
  have "next_ptr ?w = 100" by (simp add: idle_defs)
  with connect_starts [OF h conns alive few port, where dport = 62078 and client = 20] show ?thesis by (auto split: sum.splits)
qed

text \<open>
  The counter of source ports wraps through 0, which \<open>find_sport\<close> also uses to report that no port is
  free. When the counter stands at 0 a connect request is refused as a bad device, although the device is
  there and any other port may be free; only the next request succeeds.
\<close>

theorem connect_port_zero:
  assumes "get_mux_device_for_id device_id w = Inr (Some dev, w)" "dev_heap w dev = Some v" "dev_connections v = Some col"
    and "conns_alive w col" "length (elems col) < 65535" "dev_next_sport v = 0" "0 \<notin> used_ports w col"
  shows "device_start_connect device_id dport client w =
     Inr (- uint RESULT_BADDEV, w\<lparr>dev_heap := (dev_heap w)(dev := Some (v\<lparr>dev_next_sport := 1\<rparr>))\<rparr>)"
proof -
  have "find_sport dev w = Inr (0, w\<lparr>dev_heap := (dev_heap w)(dev := Some (v\<lparr>dev_next_sport := 1\<rparr>))\<rparr>)"
    using find_sport_next [OF assms(2-5)] assms(6,7) by simp
  then show ?thesis using assms(1) by (simp add: device_start_connect_def seq_Inr)
qed

theorem connect_port_zero_witness:
  "\<exists>w'. device_start_connect 1 62078 20 (link_world ((idle_device MUXDEV_ACTIVE [40])\<lparr>dev_next_sport := 0\<rparr>)
      (idle_conn CONN_CONNECTED []) (idle_client CLIENT_COMMAND)) = Inr (- uint RESULT_BADDEV, w')"
proof -
  let ?v = "(idle_device MUXDEV_ACTIVE [40])\<lparr>dev_next_sport := 0\<rparr>"
  let ?w = "link_world ?v (idle_conn CONN_CONNECTED []) (idle_client CLIENT_COMMAND)"
  have h: "get_mux_device_for_id 1 ?w = Inr (Some 10, ?w)" "dev_heap ?w 10 = Some ?v" "dev_connections ?v = Some [Some 40, None]"
    "conns_alive ?w [Some 40, None]" "length (elems [Some (40 :: nat), None]) < 65535" "dev_next_sport ?v = 0"
    "0 \<notin> used_ports ?w [Some 40, None]"
    by (auto simp: get_mux_device_for_id_run conns_alive_def used_ports_def idle_defs)
  show ?thesis using connect_port_zero [OF h] by blast
qed

end
