(* ===== verification/Ack_Timeout.thy ===== *)
theory Ack_Timeout
  imports Tcp
begin

text \<open>
  The deadline of acknowledgements. What a packet needs of its device is preserved by sending one (\<open>Usb_Ready\<close>), so a
  whole round of \<open>device_check_timeouts\<close> over all devices and connections can be followed: whatever has
  been pending for too long is acknowledged.
\<close>

subsection \<open>Overdue acknowledgements\<close>

text \<open>
  A connection in working order: its device and client are there and the device can send. \<open>acks_kept\<close>
  relates the state before the check with a state in which the connections of \<open>P\<close> were checked.
\<close>

definition linked :: "world \<Rightarrow> ptr \<Rightarrow> bool" where
  "linked w p \<longleftrightarrow> (\<exists>c v k. conn_heap w p = Some c \<and> dev_heap w (conn_dev c) = Some v \<and> usb_ready w (dev_usbdev v) \<and>
     conn_client c = Some k \<and> client_heap w k \<noteq> None)"

definition overdue :: "u64 \<Rightarrow> mux_connection \<Rightarrow> bool" where
  "overdue ct c \<longleftrightarrow> ack_pending c \<and> ct - conn_last_ack_time c > ACK_TIMEOUT"

definition acknowledged :: "world \<Rightarrow> world \<Rightarrow> mux_connection \<Rightarrow> mux_connection \<Rightarrow> bool" where
  "acknowledged w0 w c c' \<longleftrightarrow> (\<exists>t. c' = refresh (acked t c)) \<and>
     (\<exists>v v'. dev_heap w0 (conn_dev c) = Some v \<and> same_dev v v' \<and>
        (dev_usbdev v, segment v' c TH_ACK []) \<in> set (usb_out (sys w)))"

definition work_kept :: "world \<Rightarrow> world \<Rightarrow> bool" where
  "work_kept w w' \<longleftrightarrow> device_list w' = device_list w \<and>
     (\<forall>d v. dev_heap w d = Some v \<longrightarrow> (\<exists>v'. dev_heap w' d = Some v' \<and> same_dev v v')) \<and>
     (\<forall>u. usb_ready w u \<longrightarrow> usb_ready w' u) \<and> (\<forall>k. client_heap w k \<noteq> None \<longrightarrow> client_heap w' k \<noteq> None) \<and>
     set (usb_out (sys w)) \<subseteq> set (usb_out (sys w'))"

definition acks_kept :: "u64 \<Rightarrow> ptr set \<Rightarrow> world \<Rightarrow> world \<Rightarrow> bool" where
  "acks_kept ct P w0 w \<longleftrightarrow> work_kept w0 w \<and>
     (\<forall>p c. conn_heap w0 p = Some c \<longrightarrow> (\<exists>c'. conn_heap w p = Some c' \<and>
        (c' = c \<and> (p \<in> P \<longrightarrow> \<not> overdue ct c) \<or> overdue ct c \<and> acknowledged w0 w c c')))"

lemma work_kept_trans:
  assumes "work_kept u v" "work_kept v w"
  shows "work_kept u w"
proof -
  note a = assms(1) [unfolded work_kept_def] and b = assms(2) [unfolded work_kept_def]
  have "\<exists>v2. dev_heap w d = Some v2 \<and> same_dev v0 v2" if d: "dev_heap u d = Some v0" for d v0
  proof -
    obtain v1 where v1: "dev_heap v d = Some v1" "same_dev v0 v1" using a d by blast
    obtain v2 where "dev_heap w d = Some v2" "same_dev v1 v2" using b v1(1) by blast
    then show ?thesis using same_dev_trans [OF v1(2)] by blast
  qed
  moreover have "set (usb_out (sys u)) \<subseteq> set (usb_out (sys w))" using a b by (blast intro: subset_trans)
  ultimately show ?thesis using a b unfolding work_kept_def by simp
qed

lemma ack_sent:
  assumes "linked w p" "conn_heap w p = Some c"
  shows "send_tcp_ack p w = Inl ProcessExit \<or> (\<exists>w' t v. send_tcp_ack p w = Inr (0, w') \<and> work_kept w w' \<and>
     conn_heap w' = (conn_heap w)(p := Some (refresh (acked t c))) \<and> dev_heap w (conn_dev c) = Some v \<and>
     (dev_usbdev v, segment v c TH_ACK []) \<in> set (usb_out (sys w')))"
proof -
  obtain v k kc where v: "dev_heap w (conn_dev c) = Some v" "usb_ready w (dev_usbdev v)" "conn_client c = Some k" "client_heap w k = Some kc"
    using assms by (auto simp: linked_def)
  then obtain d where d: "can_send w (conn_dev c) v d" "ud_tx_thread d"
    by (auto simp: usb_ready_def can_send_def)
  have fits: "mux_header_size v + 20 + length ([] :: bytes) \<le> USB_MTU"
    using mux_header_size_bound [of v] by (simp add: USB_MTU_def)
  from assms(2) d fits show ?thesis
  proof (cases rule: send_tcp_run [where flags = TH_ACK])
    case 1
    then show ?thesis by (simp add: send_tcp_ack_def seq_Inl)
  next
    case (2 w1)
    then obtain t where t: "conn_heap w1 = (conn_heap w)(p := Some (acked t c))" "client_heap w1 = client_heap w"
      "device_list w1 = device_list w" "transmitted (dev_usbdev v) (segment v c TH_ACK []) w w1"
      by (auto simp: segment_sent_def)
    have devs: "\<forall>d v. dev_heap w d = Some v \<longrightarrow> (\<exists>v'. dev_heap w1 d = Some v' \<and> same_dev v v')"
      using send_tcp_effect [OF 2(1) assms(2)] by blast
    have w1: "conn_heap w1 p = Some (acked t c)" "conn_client (acked t c) = Some k" "client_heap w1 k = Some kc"
      using t v by simp_all
    obtain e1 e2 where h: "update_connection p w1 = Inr ((), w1\<lparr>conn_heap := (conn_heap w1)(p := Some (refresh (acked t c))),
        client_heap := (client_heap w1)(k := Some (kc\<lparr>cl_events := e1, cl_devents := e2\<rparr>))\<rparr>)"
      by (rule update_connection_run [OF w1])
    let ?w = "w1\<lparr>conn_heap := (conn_heap w1)(p := Some (refresh (acked t c))),
        client_heap := (client_heap w1)(k := Some (kc\<lparr>cl_events := e1, cl_devents := e2\<rparr>))\<rparr>"
    have clients: "\<forall>k. client_heap w k \<noteq> None \<longrightarrow> client_heap ?w k \<noteq> None" using t(2) by simp
    have ready: "usb_ready w u \<Longrightarrow> usb_ready ?w u" for u
      using send_tcp_ready [OF 2(1)] by (simp add: usb_ready_def)
    have out: "set (usb_out (sys w)) \<subseteq> set (usb_out (sys w1))" "(dev_usbdev v, segment v c TH_ACK []) \<in> set (usb_out (sys w1))"
      using t(4) by (auto simp: transmitted_def)
    have "send_tcp_ack p w = Inr (0, ?w)" using 2(1) h by (simp add: send_tcp_ack_def seq_Inr)
    moreover have "work_kept w ?w" unfolding work_kept_def using t(3) devs ready clients out(1) by simp
    ultimately show ?thesis using t(1) v(1) out(2) by (intro disjI2 exI [of _ ?w] exI [of _ t] exI [of _ v]) simp
  qed
qed

lemma not_pending_after: "\<not> ack_pending (refresh (acked t c))"
  using refresh_masks(3) [of "acked t c"] by (simp add: ack_pending_def)

lemma check_step:
  assumes "acks_kept ct P w0 w" "linked w0 p"
  shows "check_conn_timeout ct p w = Inl ProcessExit \<or>
     (\<exists>w'. check_conn_timeout ct p w = Inr ((), w') \<and> acks_kept ct (insert p P) w0 w')"
proof -
  obtain c v k where l: "conn_heap w0 p = Some c" "dev_heap w0 (conn_dev c) = Some v" "usb_ready w0 (dev_usbdev v)"
    "conn_client c = Some k" "client_heap w0 k \<noteq> None" using assms(2) by (auto simp: linked_def)
  note kept = assms(1) [unfolded acks_kept_def]
  obtain c' where c': "conn_heap w p = Some c'" "c' = c \<and> (p \<in> P \<longrightarrow> \<not> overdue ct c) \<or> overdue ct c \<and> acknowledged w0 w c c'"
    using kept l(1) by blast
  show ?thesis
  proof (cases "c' = c \<and> overdue ct c")
    case False
    then have no: "\<not> overdue ct c'" using c'(2) not_pending_after by (auto simp: acknowledged_def overdue_def)
    then have "check_conn_timeout ct p w = Inr ((), w)"
      using c'(1) by (auto simp: check_conn_timeout_def seq_Inr get_conn_run overdue_def)
    moreover have "acks_kept ct (insert p P) w0 w"
      unfolding acks_kept_def
    proof (intro conjI allI impI)
      show "work_kept w0 w" using kept by blast
      fix q b assume "conn_heap w0 q = Some b"
      then show "\<exists>b'. conn_heap w q = Some b' \<and>
          (b' = b \<and> (q \<in> insert p P \<longrightarrow> \<not> overdue ct b) \<or> overdue ct b \<and> acknowledged w0 w b b')"
        using kept l(1) c' no by (cases "q = p") auto
    qed
    ultimately show ?thesis by blast
  next
    case True
    have "linked w p"
      using l c'(1) True kept same_dev_fields(4) unfolding linked_def work_kept_def by (metis (no_types, lifting))
    from ack_sent [OF this c'(1)] True show ?thesis
    proof (elim disjE exE conjE)
      assume "send_tcp_ack p w = Inl ProcessExit"
      then show ?thesis using c'(1) True by (simp add: check_conn_timeout_def seq_Inr get_conn_run overdue_def seq_Inl)
    next
      fix w' t u
      assume s: "send_tcp_ack p w = Inr (0, w')" "work_kept w w'" "conn_heap w' = (conn_heap w)(p := Some (refresh (acked t c')))"
        "dev_heap w (conn_dev c') = Some u" "(dev_usbdev u, segment u c' TH_ACK []) \<in> set (usb_out (sys w'))"
      have run: "check_conn_timeout ct p w = Inr ((), w')"
        using s(1) c'(1) True by (simp add: check_conn_timeout_def seq_Inr get_conn_run overdue_def)
      have "same_dev v u" using kept l(2) s(4) True unfolding work_kept_def by fastforce
      then have this_one: "acknowledged w0 w' c (refresh (acked t c))"
        using s(5) l(2) True same_dev_fields(4) unfolding acknowledged_def by fastforce
      have mono: "acknowledged w0 w b b' \<Longrightarrow> acknowledged w0 w' b b'" for b b'
        using s(2) unfolding acknowledged_def work_kept_def by blast
      have "acks_kept ct (insert p P) w0 w'"
        unfolding acks_kept_def
      proof (intro conjI allI impI)
        show "work_kept w0 w'" using kept s(2) work_kept_trans by blast
        fix q b assume b: "conn_heap w0 q = Some b"
        show "\<exists>b'. conn_heap w' q = Some b' \<and>
            (b' = b \<and> (q \<in> insert p P \<longrightarrow> \<not> overdue ct b) \<or> overdue ct b \<and> acknowledged w0 w' b b')"
        proof (cases "q = p")
          case True
          then show ?thesis using b l(1) s(3) this_one \<open>c' = c \<and> overdue ct c\<close> by simp
        next
          case False
          then show ?thesis using kept b s(3) mono by fastforce
        qed
      qed
      with run show ?thesis by blast
    qed
  qed
qed

definition active_conns :: "world \<Rightarrow> ptr \<Rightarrow> ptr set" where
  "active_conns w dev = {p. \<exists>v col. dev_heap w dev = Some v \<and> dev_state v = MUXDEV_ACTIVE \<and>
     dev_connections v = Some col \<and> p \<in> set (elems col)}"

definition in_order :: "world \<Rightarrow> bool" where
  "in_order w \<longleftrightarrow> (\<forall>dev \<in> set (elems (device_list w)). \<exists>v. dev_heap w dev = Some v \<and>
     (dev_state v = MUXDEV_ACTIVE \<longrightarrow> dev_connections v \<noteq> None) \<and> (\<forall>p \<in> active_conns w dev. linked w p))"

lemma acks_kept_dev: "acks_kept ct P w0 w \<Longrightarrow> dev_heap w0 d = Some v \<Longrightarrow> \<exists>v'. dev_heap w d = Some v' \<and> same_dev v v'"
  by (simp add: acks_kept_def work_kept_def)

lemma check_device:
  assumes "acks_kept ct P w0 w" "in_order w0" "dev \<in> set (elems (device_list w0))"
  shows "(seq (get_dev dev) (\<lambda>d. if dev_state d = MUXDEV_ACTIVE
       then foreach (get_connections dev) (check_conn_timeout ct) else ret ())) w = Inl ProcessExit \<or>
     (\<exists>w'. (seq (get_dev dev) (\<lambda>d. if dev_state d = MUXDEV_ACTIVE
       then foreach (get_connections dev) (check_conn_timeout ct) else ret ())) w = Inr ((), w') \<and>
       acks_kept ct (P \<union> active_conns w0 dev) w0 w')"
proof -
  obtain v where v: "dev_heap w0 dev = Some v" "dev_state v = MUXDEV_ACTIVE \<longrightarrow> dev_connections v \<noteq> None"
    "\<forall>p \<in> active_conns w0 dev. linked w0 p" using assms(2,3) by (auto simp: in_order_def)
  obtain v1 where v1: "dev_heap w dev = Some v1" "same_dev v v1" using acks_kept_dev [OF assms(1) v(1)] by blast
  show ?thesis
  proof (cases "dev_state v = MUXDEV_ACTIVE")
    case False
    then have "active_conns w0 dev = {}" using v(1) by (simp add: active_conns_def)
    then show ?thesis using False v1 same_dev_fields(2) [OF v1(2)] assms(1) by (simp add: seq_Inr get_dev_run)
  next
    case True
    obtain col where col: "dev_connections v = Some col" using v(2) True by auto
    have ac: "active_conns w0 dev = set (elems col)" using v(1) True col by (auto simp: active_conns_def)
    let ?Inv = "\<lambda>Q. acks_kept ct (P \<union> Q) w0"
    have "get_connections dev u = Inr (col, u)" if "?Inv Q u" for Q u
      using acks_kept_dev [OF that v(1)] same_dev_fields(1) col by (fastforce simp: get_connections_run)
    moreover have "check_conn_timeout ct p u = Inl ProcessExit \<or> (\<exists>u'. check_conn_timeout ct p u = Inr ((), u') \<and> ?Inv (insert p Q) u')"
      if "p \<in> set (elems col)" "?Inv Q u" for Q p u
      using check_step [OF that(2)] that(1) v(3) ac by simp
    moreover have "?Inv {} w" using assms(1) by simp
    ultimately have "foreach (get_connections dev) (check_conn_timeout ct) w = Inl ProcessExit \<or>
       (\<exists>w'. foreach (get_connections dev) (check_conn_timeout ct) w = Inr ((), w') \<and> ?Inv (set (elems col)) w')"
      by (rule foreach_steps)
    then show ?thesis using v1(1) same_dev_fields(2) [OF v1(2)] True ac by (simp add: seq_Inr get_dev_run)
  qed
qed

text \<open>
  No acknowledgement stays overdue. When every active device and its connections are in order,
  \<open>device_check_timeouts\<close> either ends with the process (a transfer was refused by the driver) or returns,
  and then every connection whose acknowledgement had been pending for more than 30 milliseconds has
  acknowledged all it has received, by a segment that went out to its device; no connection is overdue by
  the same clock, and the others are exactly as before.
\<close>

lemma overdue_acks_sent:
  assumes "in_order w" "mstime64 w = Inr (ct, w1)"
  shows "device_check_timeouts w = Inl ProcessExit \<or> (\<exists>w'. device_check_timeouts w = Inr ((), w') \<and>
     (\<forall>dev \<in> set (elems (device_list w)). \<forall>p \<in> active_conns w dev. \<forall>c. conn_heap w p = Some c \<longrightarrow>
        (\<exists>c'. conn_heap w' p = Some c' \<and> \<not> overdue ct c' \<and>
          (if overdue ct c then conn_tx_acked c' = conn_tx_ack c \<and> acknowledged w w' c c' else c' = c))))"
proof -
  obtain s where s: "w1 = w\<lparr>sys := s\<rparr>" "usb_out s = usb_out (sys w)"
  proof (cases "ticks (sys w)")
    case Nil
    then show thesis using assms(2) that [of "sys w"] by (simp add: mstime64_def)
  next
    case (Cons t ts)
    then show thesis using assms(2) that [of "(sys w)\<lparr>now := ct, ticks := ts\<rparr>"] by (auto simp: mstime64_def)
  qed
  have same: "active_conns w1 = active_conns w" "linked w1 = linked w" "device_list w1 = device_list w" "conn_heap w1 = conn_heap w"
    by (simp_all add: s(1) active_conns_def linked_def usb_ready_def fun_eq_iff)
  have ord: "in_order w1" using assms(1) unfolding in_order_def same by (simp add: s(1))
  have "work_kept w1 w1" by (auto simp: work_kept_def)
  then have start: "acks_kept ct {} w1 w1" by (auto simp: acks_kept_def)
  let ?body = "\<lambda>dev. seq (get_dev dev) (\<lambda>d. if dev_state d = MUXDEV_ACTIVE
       then foreach (get_connections dev) (check_conn_timeout ct) else ret ())"
  let ?Inv = "\<lambda>D. acks_kept ct (\<Union>dev \<in> D. active_conns w1 dev) w1"
  have "gets device_list u = Inr (device_list w1, u)" if "?Inv D u" for D u
    using that by (simp add: acks_kept_def work_kept_def)
  moreover have "?body dev u = Inl ProcessExit \<or> (\<exists>u'. ?body dev u = Inr ((), u') \<and> ?Inv (insert dev D) u')"
    if "dev \<in> set (elems (device_list w1))" "?Inv D u" for D dev u
    using check_device [OF that(2) ord that(1)] by (simp add: Un_commute)
  moreover have "?Inv {} w1" using start by simp
  ultimately have "foreach (gets device_list) ?body w1 = Inl ProcessExit \<or>
     (\<exists>w'. foreach (gets device_list) ?body w1 = Inr ((), w') \<and> ?Inv (set (elems (device_list w1))) w')"
    by (rule foreach_steps)
  then show ?thesis
  proof (elim disjE exE conjE)
    assume "foreach (gets device_list) ?body w1 = Inl ProcessExit"
    then show ?thesis using assms(2) by (simp add: device_check_timeouts_def seq_Inr)
  next
    fix w' assume w': "foreach (gets device_list) ?body w1 = Inr ((), w')" "?Inv (set (elems (device_list w1))) w'"
    have run: "device_check_timeouts w = Inr ((), w')" using w'(1) assms(2) by (simp add: device_check_timeouts_def seq_Inr)
    have from_start: "acknowledged w1 w' c c' \<Longrightarrow> acknowledged w w' c c'" for c c' by (simp add: acknowledged_def s(1))
    have "\<exists>c'. conn_heap w' p = Some c' \<and> \<not> overdue ct c' \<and>
        (if overdue ct c then conn_tx_acked c' = conn_tx_ack c \<and> acknowledged w w' c c' else c' = c)"
      if "dev \<in> set (elems (device_list w))" "p \<in> active_conns w dev" "conn_heap w p = Some c" for dev p c
    proof -
      note c = that(3)
      have "p \<in> (\<Union>dev \<in> set (elems (device_list w1)). active_conns w1 dev)" using that(1,2) same by auto
      then obtain c' where c': "conn_heap w' p = Some c'" "c' = c \<and> \<not> overdue ct c \<or> overdue ct c \<and> acknowledged w1 w' c c'"
        using w'(2) c same unfolding acks_kept_def by metis
      show ?thesis
      proof (cases "overdue ct c")
        case False
        then show ?thesis using c' by simp
      next
        case True
        then have a: "acknowledged w w' c c'" using c'(2) from_start by blast
        then obtain t where "c' = refresh (acked t c)" by (auto simp: acknowledged_def)
        then have "conn_tx_acked c' = conn_tx_ack c" "\<not> overdue ct c'" using not_pending_after by (simp_all add: overdue_def)
        then show ?thesis using c'(1) True a by simp
      qed
    qed
    with run show ?thesis by blast
  qed
qed

end
