(* ===== verification/Main_Loop.thy ===== *)
theory Main_Loop
  imports Sockets Client Ack_Timeout
begin

text \<open>
  The entry points and the main thread of usbmuxd.cpp: starting and stopping the library, the calls that
  queue device commands, and the loop over \<open>select\<close> that drives clients, devices and the usb layer. The
  state puts the globals of the file beside the daemon's state and the sockets. What another thread or the
  system decides (how a wait ends, which sockets are ready) comes from scripts; exhausted ones mean that a
  wait goes by the state of the event, a thread ends in time, and \<open>select\<close> times out.
\<close>

datatype wait_result = WAIT_OBJECT_0 | WAIT_TIMEOUT | WAIT_FAILED

datatype select_result = SelectError | SelectTimeout | SelectReady "fd \<Rightarrow> bool" "fd \<Rightarrow> bool"

record daemon =
  g_hMainThread :: bool
  hReadyEvent :: "bool option"
  hShutdownEvent :: "bool option"
  wClientsPort :: u16
  wDevicesPort :: u16
  hClientsListenSocket :: "fd option"
  hDevicesListenSocket :: "fd option"
  usbmuxd_port :: u16
  waits :: "wait_result list"
  selects :: "select_result list"
  select_timeouts :: "(int \<times> int) list"
  d_world :: world
  d_net :: net

type_synonym 'a main = "(daemon, 'a) prog"

definition in_world :: "'a act \<Rightarrow> 'a main" where
  "in_world m d = (case m (d_world d) of Inl h \<Rightarrow> Inl h | Inr (x, w) \<Rightarrow> Inr (x, d\<lparr>d_world := w\<rparr>))"

definition in_net :: "'a net_act \<Rightarrow> 'a main" where
  "in_net m d = (case m (d_net d) of Inl h \<Rightarrow> Inl h | Inr (x, n) \<Rightarrow> Inr (x, d\<lparr>d_net := n\<rparr>))"

subsection \<open>Events and \<open>select\<close>\<close>

definition SOCKETS_SELECT_INTERVAL :: int where "SOCKETS_SELECT_INTERVAL = 200"

text \<open>Winsock's capacity of an \<open>fd_set\<close>; adding to a full one is ignored.\<close>

definition FD_SETSIZE :: nat where "FD_SETSIZE = 64"

definition FD_SET :: "fd \<Rightarrow> fd list \<Rightarrow> fd list" where
  "FD_SET s fds = (if s \<in> set fds \<or> FD_SETSIZE \<le> length fds then fds else fds @ [s])"

definition event_state :: "bool option \<Rightarrow> wait_result" where
  "event_state e = (case e of None \<Rightarrow> WAIT_FAILED | Some s \<Rightarrow> if s then WAIT_OBJECT_0 else WAIT_TIMEOUT)"

definition wait_for :: "(daemon \<Rightarrow> wait_result) \<Rightarrow> wait_result main" where
  "wait_for state d = (case waits d of [] \<Rightarrow> Inr (state d, d) | r # rs \<Rightarrow> Inr (r, d\<lparr>waits := rs\<rparr>))"

definition sys_select :: "fd list \<Rightarrow> fd list \<Rightarrow> int \<times> int \<Rightarrow> select_result main" where
  "sys_select rfds wfds timeout d =
     (let d' = d\<lparr>selects := tl (selects d), select_timeouts := select_timeouts d @ [timeout]\<rparr>
      in case selects d of
           SelectReady r w # _ \<Rightarrow> Inr (SelectReady (\<lambda>s. r s \<and> s \<in> set rfds) (\<lambda>s. w s \<and> s \<in> set wfds), d')
         | r # _ \<Rightarrow> Inr (r, d')
         | [] \<Rightarrow> Inr (SelectTimeout, d'))"

subsection \<open>The main thread\<close>

text \<open>The sets of sockets to wait on and how many there are.\<close>

definition CreateFdSets :: "(fd list \<times> fd list \<times> nat) main" where
  "CreateFdSets = seq (gets hClientsListenSocket) (\<lambda>l. seq (some_or UninitRead l) (\<lambda>lc.
     seq (gets hDevicesListenSocket) (\<lambda>l. seq (some_or UninitRead l) (\<lambda>ld.
     seq (in_world client_add_fds) (\<lambda>((cr, cw), clients).
     seq (in_world device_add_fds) (\<lambda>dr.
     ret (fold FD_SET ([lc, ld] @ cr @ dr) [], fold FD_SET cw [], 2 + clients + length dr)))))))"

text \<open>On failure the clients' socket, if any, is closed and the thread ends; it has not signalled then.\<close>

definition CreateListenSockets :: "bool main" where
  "CreateListenSockets = seq (gets wClientsPort) (\<lambda>cp.
     seq (in_net (CreateListenSocket cp)) (\<lambda>c.
     case c of
       None \<Rightarrow> ret False
     | Some (cs, cp) \<Rightarrow>
         seq (modify (\<lambda>d. d\<lparr>hClientsListenSocket := Some cs, wClientsPort := cp\<rparr>)) (\<lambda>_.
         seq (in_net (SocketSetNonBlocking cs True)) (\<lambda>_.
         seq (gets wDevicesPort) (\<lambda>dp.
         seq (in_net (CreateListenSocket dp)) (\<lambda>r.
         case r of
           None \<Rightarrow> seq (in_net (SAFE_CLOSE_SOCKET (Some cs))) (\<lambda>s.
                   seq (modify (\<lambda>d. d\<lparr>hClientsListenSocket := s\<rparr>)) (\<lambda>_. ret False))
         | Some (ds, dp) \<Rightarrow>
             seq (modify (\<lambda>d. d\<lparr>hDevicesListenSocket := Some ds, wDevicesPort := dp\<rparr>)) (\<lambda>_. ret True)))))))"

definition GetCurrentIterationTimeout :: "(int \<times> int) main" where
  "GetCurrentIterationTimeout = seq (in_world device_get_timeout) (\<lambda>t.
     ret (MS_TIMEOUT_TO_TIMEVAL (if t < SOCKETS_SELECT_INTERVAL then t else SOCKETS_SELECT_INTERVAL)))"

text \<open>The start of \<open>MainThreadProc\<close>, up to the signal that the thread is ready.\<close>

definition main_thread_init :: "bool main" where
  "main_thread_init = seq CreateListenSockets (\<lambda>ok.
     if \<not> ok then ret False
     else seq (modify (\<lambda>d. d\<lparr>usbmuxd_port := wClientsPort d,
                            hReadyEvent := map_option (\<lambda>_. True) (hReadyEvent d)\<rparr>)) (\<lambda>_. ret True))"

text \<open>Accepting on a listening socket, unless the sets are full.\<close>

definition accept_ready :: "(fd \<Rightarrow> bool) \<Rightarrow> fd option \<Rightarrow> nat \<Rightarrow> (bool \<Rightarrow> int act) \<Rightarrow> unit main" where
  "accept_ready readable l n_fds accept =
     (if (case l of None \<Rightarrow> False | Some s \<Rightarrow> readable s)
      then seq (in_world (accept (n_fds + 1 > FD_SETSIZE))) (\<lambda>_. ret ())
      else ret ())"

text \<open>What one round does with the sockets that are ready; \<open>fuel\<close> bounds the packets of one transfer.\<close>

definition handle_ready :: "nat \<Rightarrow> (fd \<Rightarrow> bool) \<Rightarrow> (fd \<Rightarrow> bool) \<Rightarrow> nat \<Rightarrow> unit main" where
  "handle_ready fuel readable writable n_fds =
     seq (gets hClientsListenSocket) (\<lambda>lc.
     seq (accept_ready readable lc n_fds client_accept) (\<lambda>_.
     seq (gets hDevicesListenSocket) (\<lambda>ld.
     seq (accept_ready readable ld n_fds device_accept_socket) (\<lambda>_.
     seq (in_world (device_process_sockets fuel readable)) (\<lambda>_.
     seq (in_world usb_process) (\<lambda>_.
     in_world (client_process readable writable)))))))"

definition handle_idle :: "unit main" where
  "handle_idle = seq (in_world usb_process) (\<lambda>_. in_world device_check_timeouts)"

text \<open>One round of the loop; the result says whether there is a next one.\<close>

definition main_iteration :: "nat \<Rightarrow> bool main" where
  "main_iteration fuel = seq (wait_for (\<lambda>d. event_state (hShutdownEvent d))) (\<lambda>r.
     if r \<noteq> WAIT_TIMEOUT then ret False
     else seq GetCurrentIterationTimeout (\<lambda>tv.
       seq CreateFdSets (\<lambda>(rfds, wfds, n_fds).
       seq (sys_select rfds wfds tv) (\<lambda>r.
       case r of
         SelectError \<Rightarrow> ret False
       | SelectTimeout \<Rightarrow> seq handle_idle (\<lambda>_. ret True)
       | SelectReady readable writable \<Rightarrow> seq (handle_ready fuel readable writable n_fds) (\<lambda>_. ret True)))))"

definition close_listener :: "fd option \<Rightarrow> unit main" where
  "close_listener l = (case l of None \<Rightarrow> ret () | Some s \<Rightarrow> in_net (net_close s))"

definition main_thread_end :: "unit main" where
  "main_thread_end = seq (gets hClientsListenSocket) (\<lambda>lc.
     seq (close_listener lc) (\<lambda>_.
     seq (gets hDevicesListenSocket) (\<lambda>ld.
     seq (close_listener ld) (\<lambda>_.
     modify (\<lambda>d. d\<lparr>hClientsListenSocket := None, hDevicesListenSocket := None\<rparr>)))))"

fun main_loop :: "nat \<Rightarrow> nat \<Rightarrow> unit main" where
  "main_loop 0 fuel = stop OutOfFuel"
| "main_loop (Suc n) fuel = seq (main_iteration fuel) (\<lambda>go. if go then main_loop n fuel else ret ())"

definition MainThreadProc :: "nat \<Rightarrow> nat \<Rightarrow> unit main" where
  "MainThreadProc n fuel = seq main_thread_init (\<lambda>ok.
     if ok then seq (main_loop n fuel) (\<lambda>_. main_thread_end) else ret ())"

subsection \<open>The entry points\<close>

text \<open>
  The wait for the main thread ends with \<open>WAIT_OBJECT_0\<close> when the thread has run to its end, so its last
  lines are part of that outcome.
\<close>

definition usbmuxd_Shutdown :: "bool main" where
  "usbmuxd_Shutdown = seq (gets id) (\<lambda>d.
     if \<not> g_hMainThread d then ret False
     else if hShutdownEvent d = None then ret False
     else seq (in_world api_ok) (\<lambda>ok. if \<not> ok then ret False
     else seq (modify (\<lambda>d. d\<lparr>hShutdownEvent := Some True\<rparr>)) (\<lambda>_.
     seq (wait_for (\<lambda>_. WAIT_OBJECT_0)) (\<lambda>r.
     if r = WAIT_FAILED then ret False
     else seq (if r = WAIT_OBJECT_0 then main_thread_end else in_world (seq api_ok (\<lambda>_. ret ()))) (\<lambda>_.
     seq (in_world device_kill_connections) (\<lambda>_.
     seq (in_world usb_shutdown) (\<lambda>_.
     seq (in_world device_shutdown) (\<lambda>_.
     seq (in_world client_shutdown) (\<lambda>_.
     seq (modify (\<lambda>d. d\<lparr>g_hMainThread := False, hReadyEvent := None, hShutdownEvent := None,
             wClientsPort := 0, wDevicesPort := 0\<rparr>)) (\<lambda>_. ret True))))))))))"

definition create_event :: "bool option main" where
  "create_event = seq (in_world api_ok) (\<lambda>ok. ret (if ok then Some False else None))"

text \<open>The main thread initialises itself while \<open>usbmuxd_Start\<close> waits for its signal.\<close>

definition usbmuxd_Start :: "u16 \<Rightarrow> bool main" where
  "usbmuxd_Start wPort = seq (gets g_hMainThread) (\<lambda>running.
     if running then ret False
     else seq (in_world api_ok) (\<lambda>wsa. if \<not> wsa then ret False
     else seq (in_world client_init) (\<lambda>_.
     seq (in_world device_init) (\<lambda>_.
     seq (in_world usb_init) (\<lambda>r. if r < 0 then ret False
     else seq create_event (\<lambda>shutdown.
     seq create_event (\<lambda>ready.
     seq (modify (\<lambda>d. d\<lparr>hShutdownEvent := shutdown, hReadyEvent := ready, wClientsPort := wPort, wDevicesPort := 0\<rparr>)) (\<lambda>_.
     let fail = seq usbmuxd_Shutdown (\<lambda>_. ret False) in
     if shutdown = None \<or> ready = None then fail
     else seq (in_world api_ok) (\<lambda>thread.
       seq (modify (\<lambda>d. d\<lparr>g_hMainThread := thread\<rparr>)) (\<lambda>_.
       if \<not> thread then fail
       else seq main_thread_init (\<lambda>_.
         seq (wait_for (\<lambda>d. event_state (hReadyEvent d))) (\<lambda>w.
         if w = WAIT_OBJECT_0 then ret True else fail))))))))))))"

definition usbmuxd_GetPort :: "u16 main" where
  "usbmuxd_GetPort = gets wClientsPort"

definition usbmuxd_GetDevicesPort :: "u16 main" where
  "usbmuxd_GetDevicesPort = gets wDevicesPort"

definition VERIFY_USBMUXD_IS_RUNNING :: "bool main \<Rightarrow> bool main" where
  "VERIFY_USBMUXD_IS_RUNNING m = seq (gets g_hMainThread) (\<lambda>running. if running then m else ret False)"

definition usbmuxd_AddDevice :: "string \<Rightarrow> ptr option \<Rightarrow> bool main" where
  "usbmuxd_AddDevice name event = VERIFY_USBMUXD_IS_RUNNING
     (seq (in_world (usb_add_device (parse_port_name name) event)) (\<lambda>r. ret (\<not> r < 0)))"

definition usbmuxd_RemoveDevice :: "string \<Rightarrow> ptr option \<Rightarrow> bool main" where
  "usbmuxd_RemoveDevice name event = VERIFY_USBMUXD_IS_RUNNING
     (seq (in_world (usb_remove_device (parse_port_name name) event)) (\<lambda>r. ret (\<not> r < 0)))"

definition SetDeviceMonitoring :: "string \<Rightarrow> device_monitor_state \<Rightarrow> bool main" where
  "SetDeviceMonitoring name monitor = VERIFY_USBMUXD_IS_RUNNING
     (seq (in_world (usb_set_device_monitoring (parse_port_name name) monitor)) (\<lambda>r. ret (\<not> r < 0)))"

definition usbmuxd_StartMonitoringDevice :: "string \<Rightarrow> bool main" where
  "usbmuxd_StartMonitoringDevice name = SetDeviceMonitoring name DEVICE_MONITOR_ALWAYS"

definition usbmuxd_StoptMonitoringDevice :: "string \<Rightarrow> bool main" where
  "usbmuxd_StoptMonitoringDevice name = SetDeviceMonitoring name DEVICE_MONITOR_DISABLE"

definition usbmuxd_HasDevices :: "bool main" where
  "usbmuxd_HasDevices = in_world usb_has_devices"

subsection \<open>Port names\<close>

lemma digit_char: "k < 10 \<Longrightarrow> is_digit (char_of (48 + k)) \<and> (of_char (char_of (48 + k) :: char) :: nat) = 48 + k"
  by (simp add: is_digit_def)

lemma digits_value_append: "digits_value acc (xs @ [c]) = 10 * digits_value acc xs + (of_char c - 48)"
  by (induction acc xs rule: digits_value.induct) auto

lemma dec_digits_value: "digits_value 0 (dec_digits n) = n \<and> (\<forall>c \<in> set (dec_digits n). is_digit c)"
proof (induction n rule: dec_digits.induct)
  case (1 n)
  show ?case
  proof (cases "n < 10")
    case True
    then show ?thesis using digit_char [of n] by (simp add: dec_digits.simps [of n])
  next
    case False
    have "digits_value 0 (dec_digits n) = 10 * digits_value 0 (dec_digits (n div 10)) + n mod 10"
      using False digit_char [of "n mod 10"] by (simp add: dec_digits.simps [of n] digits_value_append)
    then show ?thesis using 1 [OF False] False digit_char [of "n mod 10"] by (auto simp: dec_digits.simps [of n])
  qed
qed

lemma parse_port_name_inverse: "parse_port_name (port_name l) = l"
proof -
  have t: "takeWhile is_digit (dec_digits (unat l)) = dec_digits (unat l)"
    using dec_digits_value by (simp add: takeWhile_eq_all_conv)
  have "parse_port_name (port_name l) = of_nat (digits_value 0 (takeWhile is_digit (dec_digits (unat l))))"
    by (simp add: parse_port_name_def port_name_def)
  also have "\<dots> = of_nat (unat l)" unfolding t using dec_digits_value by simp
  finally show ?thesis by simp
qed

text \<open>
  The name of a port leads to that port. Adding or removing a device by the name the driver gives its
  port succeeds while the library runs and queues, behind what is pending already, exactly one command for
  the location the name was made from; when the library does not run, the calls refuse and change nothing.
\<close>

theorem named_port_queued:
  shows "usbmuxd_AddDevice (port_name l) event d =
      (if g_hMainThread d
       then Inr (True, d\<lparr>d_world := (d_world d)\<lparr>g_pending_devices := g_pending_devices (d_world d) @
             [\<lparr>pc_type = PENDING_DEVICE_COMMAND_ADD, pc_source = PENDING_DEVICE_COMMAND_SOURCE_MANUAL, pc_location = l,
               pc_event = event, pc_monitor = DEVICE_MONITOR_DISABLE\<rparr>]\<rparr>\<rparr>)
       else Inr (False, d)) \<and>
    usbmuxd_RemoveDevice (port_name l) event d =
      (if g_hMainThread d
       then Inr (True, d\<lparr>d_world := (d_world d)\<lparr>g_pending_devices := g_pending_devices (d_world d) @
             [\<lparr>pc_type = PENDING_DEVICE_COMMAND_REMOVE, pc_source = PENDING_DEVICE_COMMAND_SOURCE_MANUAL, pc_location = l,
               pc_event = event, pc_monitor = DEVICE_MONITOR_DISABLE\<rparr>]\<rparr>\<rparr>)
       else Inr (False, d))"
  by (simp add: usbmuxd_AddDevice_def usbmuxd_RemoveDevice_def VERIFY_USBMUXD_IS_RUNNING_def parse_port_name_inverse
      usb_add_device_def usb_remove_device_def usb_append_device_command_def in_world_def seq_Inr)

subsection \<open>Starting and stopping\<close>

lemma in_world_run [prog]:
  "m (d_world d) = Inr (x, w) \<Longrightarrow> in_world m d = Inr (x, d\<lparr>d_world := w\<rparr>)"
  "m (d_world d) = Inl h \<Longrightarrow> in_world m d = Inl h"
  by (simp_all add: in_world_def)

lemma in_net_run [prog]:
  "m (d_net d) = Inr (x, n) \<Longrightarrow> in_net m d = Inr (x, d\<lparr>d_net := n\<rparr>)"
  by (simp add: in_net_def)

text \<open>The daemon just after a start that succeeded, with the sockets \<open>a\<close> and \<open>b\<close>.\<close>

definition started_world :: "world \<Rightarrow> world" where
  "started_world w = w\<lparr>client_list := collection_init, device_list := collection_init, next_device_id := 1,
     notification_cookie := False, g_next_usb_device_id := 1, g_device_list := collection_init\<rparr>"

definition stopped_world :: "world \<Rightarrow> world" where
  "stopped_world w = w\<lparr>client_list := collection_free collection_init, device_list := collection_free collection_init,
     g_device_list := collection_free collection_init, g_pending_devices := [], notification_cookie := False\<rparr>"

lemma foreach_nothing: "elems (L w) = [] \<Longrightarrow> foreach (gets L) body w = Inr ((), w)"
proof -
  assume e: "elems (L w) = []"
  then have "None = L w ! i" if "i < length (L w)" for i
    using that set_elems [of _ "L w"] by (metis emptyE list.set(1) not_None_eq nth_mem)
  then have "foreach_from (gets L) body i n w = Inr ((), w)" for i n
    by (induction n arbitrary: i) (auto simp: seq_Inr split: option.splits)
  then show ?thesis by (simp add: foreach_def)
qed

definition started :: "u16 \<Rightarrow> fd \<Rightarrow> fd \<Rightarrow> daemon \<Rightarrow> daemon \<Rightarrow> bool" where
  "started port a b d d' \<longleftrightarrow> g_hMainThread d' \<and> hReadyEvent d' = Some True \<and> hShutdownEvent d' = Some False \<and>
     hClientsListenSocket d' = Some a \<and> hDevicesListenSocket d' = Some b \<and> d_world d' = started_world (d_world d) \<and>
     usbmuxd_port d' = wClientsPort d' \<and> (port \<noteq> 0 \<longrightarrow> wClientsPort d' = port) \<and>
     bound (d_net d') = bound (d_net d) @ [(a, wClientsPort d'), (b, wDevicesPort d')] \<and>
     closed (d_net d') = closed (d_net d) \<and> waits d' = waits d"

lemma create_listen_run:
  assumes "new_sockets n = Some s # ss" "call_results n = []"
  obtains p n' where "CreateListenSocket port n = Inr (Some (s, p), n')" "port \<noteq> 0 \<longrightarrow> p = port"
    "new_sockets n' = ss" "call_results n' = []" "bound n' = bound n @ [(s, p)]" "closed n' = closed n"
  using assms
  by (auto simp: CreateListenSocket_def net_socket_def net_bind_def net_call_def next_or_def seq_def Let_def split: if_splits)

lemma main_thread_init_run:
  assumes "new_sockets (d_net d) = Some a # Some b # ss" "call_results (d_net d) = []" "hReadyEvent d = Some False"
  obtains p q n' where "main_thread_init d = Inr (True, d\<lparr>d_net := n', hClientsListenSocket := Some a, hDevicesListenSocket := Some b,
      wClientsPort := p, wDevicesPort := q, usbmuxd_port := p, hReadyEvent := Some True\<rparr>)"
    "wClientsPort d \<noteq> 0 \<longrightarrow> p = wClientsPort d" "bound n' = bound (d_net d) @ [(a, p), (b, q)]" "closed n' = closed (d_net d)"
proof -
  obtain p n1 where 1: "CreateListenSocket (wClientsPort d) (d_net d) = Inr (Some (a, p), n1)" "wClientsPort d \<noteq> 0 \<longrightarrow> p = wClientsPort d"
    "new_sockets n1 = Some b # ss" "call_results n1 = []" "bound n1 = bound (d_net d) @ [(a, p)]" "closed n1 = closed (d_net d)"
    by (rule create_listen_run [OF assms(1,2)])
  obtain n2 where 2: "SocketSetNonBlocking a True n1 = Inr (True, n2)" "new_sockets n2 = new_sockets n1" "call_results n2 = []"
    "bound n2 = bound n1" "closed n2 = closed n1"
    using 1(4) by (simp add: SocketSetNonBlocking_def net_call_def next_or_def seq_Inr)
  obtain q n3 where 3: "CreateListenSocket (wDevicesPort d) n2 = Inr (Some (b, q), n3)" "bound n3 = bound n2 @ [(b, q)]" "closed n3 = closed n2"
    using create_listen_run [of n2 b ss "wDevicesPort d"] 1(3) 2(2,3) by metis
  show thesis
    by (rule that [of p q n3])
      (use 1 2 3 assms(3) in \<open>simp_all add: main_thread_init_def CreateListenSockets_def seq_Inr in_net_run\<close>)
qed

lemma start_run:
  assumes "\<not> g_hMainThread d" "oks (sys (d_world d)) = []" "waits d = []"
    and "new_sockets (d_net d) = Some a # Some b # ss" "call_results (d_net d) = []"
  shows "\<exists>d'. usbmuxd_Start port d = Inr (True, d') \<and> started port a b d d'"
proof -
  have ok: "api_ok w = Inr (True, w)" if "oks (sys w) = []" for w using that by (simp add: api_ok_def)
  let ?d = "d\<lparr>hShutdownEvent := Some False, hReadyEvent := Some False, wClientsPort := port, wDevicesPort := 0,
      d_world := started_world (d_world d), g_hMainThread := True\<rparr>"
  obtain p q n' where m: "main_thread_init ?d = Inr (True, ?d\<lparr>d_net := n', hClientsListenSocket := Some a, hDevicesListenSocket := Some b,
      wClientsPort := p, wDevicesPort := q, usbmuxd_port := p, hReadyEvent := Some True\<rparr>)"
    "port \<noteq> 0 \<longrightarrow> p = port" "bound n' = bound (d_net d) @ [(a, p), (b, q)]" "closed n' = closed (d_net d)"
    by (rule main_thread_init_run [of ?d a b ss]) (use assms in auto)
  have "usbmuxd_Start port d = seq main_thread_init (\<lambda>_. seq (wait_for (\<lambda>d. event_state (hReadyEvent d)))
      (\<lambda>w. if w = WAIT_OBJECT_0 then ret True else seq usbmuxd_Shutdown (\<lambda>_. ret False))) ?d"
    using assms(1,2) by (simp add: usbmuxd_Start_def create_event_def seq_Inr in_world_run ok client_init_def device_init_def
        usb_init_def started_world_def Let_def)
  then show ?thesis using m assms(3)
    by (simp add: seq_Inr wait_for_def event_state_def started_def)
qed

lemma shutdown_run:
  assumes "started port a b d d1" "oks (sys (d_world d)) = []" "waits d = []"
  shows "\<exists>d2. usbmuxd_Shutdown d1 = Inr (True, d2) \<and> \<not> g_hMainThread d2 \<and> hShutdownEvent d2 = None \<and> hReadyEvent d2 = None \<and>
     closed (d_net d2) = closed (d_net d) @ [a, b] \<and> g_pending_devices (d_world d2) = [] \<and>
     device_list (d_world d2) = [] \<and> client_list (d_world d2) = [] \<and> g_device_list (d_world d2) = []"
proof -
  note st = assms(1) [unfolded started_def started_world_def]
  have ok: "api_ok w = Inr (True, w)" if "oks (sys w) = []" for w using that by (simp add: api_ok_def)
  define n2 where "n2 = (d_net d1)\<lparr>closed := closed (d_net d1) @ [a, b]\<rparr>"
  have e: "main_thread_end v = Inr ((), v\<lparr>d_net := n2, hClientsListenSocket := None, hDevicesListenSocket := None\<rparr>)"
    if "hClientsListenSocket v = Some a" "hDevicesListenSocket v = Some b" "d_net v = d_net d1" for v
    using that by (simp add: main_thread_end_def close_listener_def seq_Inr in_net_run net_close_def n2_def)
  let ?w = "d_world d1"
  let ?w1 = "?w\<lparr>g_pending_devices := [], notification_cookie := False, g_device_list := []\<rparr>"
  have k: "device_kill_connections ?w = Inr ((), ?w)"
    unfolding device_kill_connections_def by (rule foreach_nothing) (simp add: st)
  have u: "usb_shutdown ?w = Inr ((), ?w1)"
    using st foreach_nothing [of g_device_list ?w "\<lambda>dev. seq (device_remove dev) (\<lambda>_. usb_disconnect dev True)"]
    by (simp add: usb_shutdown_def seq_Inr collection_free_def)
  have dv: "device_shutdown ?w1 = Inr ((), ?w1\<lparr>device_list := []\<rparr>)"
    using st foreach_nothing [of device_list ?w1] by (simp add: device_shutdown_def seq_Inr collection_free_def)
  have cl: "client_shutdown (?w1\<lparr>device_list := []\<rparr>) = Inr ((), ?w1\<lparr>device_list := [], client_list := []\<rparr>)"
    using st foreach_nothing [of client_list "?w1\<lparr>device_list := []\<rparr>" close_client]
    by (simp add: client_shutdown_def seq_Inr collection_free_def)
  have f: "g_hMainThread d1" "hShutdownEvent d1 = Some False" "hClientsListenSocket d1 = Some a" "hDevicesListenSocket d1 = Some b"
    "oks (sys ?w) = []" "waits d1 = []" using st assms(2,3) by simp_all
  let ?d = "d1\<lparr>hShutdownEvent := Some True\<rparr>"
  have "usbmuxd_Shutdown d1 = Inr (True, ?d\<lparr>d_net := n2, hClientsListenSocket := None, hDevicesListenSocket := None,
      d_world := ?w1\<lparr>device_list := [], client_list := []\<rparr>, g_hMainThread := False, hReadyEvent := None, hShutdownEvent := None,
      wClientsPort := 0, wDevicesPort := 0\<rparr>)"
    using f k u dv cl e [of ?d]
    by (simp add: usbmuxd_Shutdown_def seq_Inr in_world_run ok wait_for_def)
  then show ?thesis using st by (simp add: n2_def)
qed

text \<open>
  C34: Starting and stopping. From rest, when the system grants what is asked for, \<open>usbmuxd_Start\<close>
  succeeds with both listening sockets bound (the clients' one to the port asked for, or to the system's
  choice for port 0) and fresh lists; a second start is refused and changes nothing; \<open>usbmuxd_Shutdown\<close>
  then closes both sockets, empties every list and the queue of commands, and leaves the library at rest, so
  that a further shutdown is refused.
\<close>

theorem start_and_stop:
  assumes "\<not> g_hMainThread d" "oks (sys (d_world d)) = []" "waits d = []"
    and "new_sockets (d_net d) = Some a # Some b # ss" "call_results (d_net d) = []"
  shows "\<exists>d1 d2. usbmuxd_Start port d = Inr (True, d1) \<and> started port a b d d1 \<and>
     usbmuxd_Start port' d1 = Inr (False, d1) \<and>
     usbmuxd_Shutdown d1 = Inr (True, d2) \<and> \<not> g_hMainThread d2 \<and> closed (d_net d2) = closed (d_net d) @ [a, b] \<and>
     g_pending_devices (d_world d2) = [] \<and> device_list (d_world d2) = [] \<and> client_list (d_world d2) = [] \<and>
     g_device_list (d_world d2) = [] \<and> usbmuxd_Shutdown d2 = Inr (False, d2)"
proof -
  obtain d1 where d1: "usbmuxd_Start port d = Inr (True, d1)" "started port a b d d1"
    using start_run [OF assms] by blast
  obtain d2 where d2: "usbmuxd_Shutdown d1 = Inr (True, d2)" "\<not> g_hMainThread d2" "closed (d_net d2) = closed (d_net d) @ [a, b]"
     "g_pending_devices (d_world d2) = []" "device_list (d_world d2) = []" "client_list (d_world d2) = []" "g_device_list (d_world d2) = []"
    using shutdown_run [OF d1(2) assms(2,3)] by blast
  have "usbmuxd_Start port' d1 = Inr (False, d1)" using d1(2) by (simp add: started_def usbmuxd_Start_def)
  moreover have "usbmuxd_Shutdown d2 = Inr (False, d2)" using d2(2) by (simp add: usbmuxd_Shutdown_def)
  ultimately show ?thesis using d1 d2 by (intro exI [of _ d1] exI [of _ d2]) simp
qed

definition idle_daemon :: "world \<Rightarrow> daemon" where
  "idle_daemon w = \<lparr>g_hMainThread = False, hReadyEvent = None, hShutdownEvent = None, wClientsPort = 0, wDevicesPort = 0,
     hClientsListenSocket = None, hDevicesListenSocket = None, usbmuxd_port = 0, waits = [], selects = [],
     select_timeouts = [], d_world = w, d_net = idle_net\<lparr>new_sockets := [Some 3, Some 4]\<rparr>\<rparr>"

theorem start_and_stop_witness:
  "\<exists>d1 d2. usbmuxd_Start 37015 (idle_daemon idle_world) = Inr (True, d1) \<and> wClientsPort d1 = 37015 \<and>
     usbmuxd_Shutdown d1 = Inr (True, d2) \<and> closed (d_net d2) = [3, 4]"
proof -
  have h: "\<not> g_hMainThread (idle_daemon idle_world)" "oks (sys (d_world (idle_daemon idle_world))) = []"
    "waits (idle_daemon idle_world) = []" "new_sockets (d_net (idle_daemon idle_world)) = [Some 3, Some 4]"
    "call_results (d_net (idle_daemon idle_world)) = []" "closed (d_net (idle_daemon idle_world)) = []"
    by (simp_all add: idle_daemon_def idle_defs idle_net_def)
  show ?thesis using start_and_stop [OF h(1-5), of 37015 0] h(6) by (auto simp: started_def)
qed

text \<open>
  A start whose thread cannot be created reports failure and cleans nothing up: the shutdown it
  calls finds no running thread and refuses, so both events stay open and the modules initialised.
\<close>

theorem failed_start_leaks:
  assumes "\<not> g_hMainThread d" "oks (sys (d_world d)) = [True, True, True, True, True, False]"
  shows "\<exists>d'. usbmuxd_Start port d = Inr (False, d') \<and> \<not> g_hMainThread d' \<and>
     hShutdownEvent d' = Some False \<and> hReadyEvent d' = Some False \<and>
     client_list (d_world d') = collection_init \<and> device_list (d_world d') = collection_init \<and>
     usbmuxd_Shutdown d' = Inr (False, d')"
proof -
  have ok: "api_ok w = Inr (b, w\<lparr>sys := (sys w)\<lparr>oks := bs\<rparr>\<rparr>)" if "oks (sys w) = b # bs" for w b bs
    using that by (simp add: api_ok_def)
  show ?thesis using assms
    by (simp add: usbmuxd_Start_def create_event_def seq_Inr in_world_run ok client_init_def device_init_def
        usb_init_def Let_def usbmuxd_Shutdown_def)
qed

theorem failed_start_leaks_witness:
  "\<exists>d'. usbmuxd_Start 37015 (idle_daemon (idle_world\<lparr>sys := idle_env\<lparr>oks := [True, True, True, True, True, False]\<rparr>\<rparr>)) = Inr (False, d') \<and>
     hShutdownEvent d' = Some False"
  using failed_start_leaks [of "idle_daemon (idle_world\<lparr>sys := idle_env\<lparr>oks := [True, True, True, True, True, False]\<rparr>\<rparr>)" 37015]
  by (auto simp: idle_daemon_def)
subsection \<open>An idle round\<close>

text \<open>How long the oldest pending acknowledgement can still wait; 100000 when there is none.\<close>

definition time_left :: "world \<Rightarrow> u64 \<Rightarrow> int" where
  "time_left w ct = (let oldest = Min (insert (- 1) (set (pending_acks w))) in
     if oldest = - 1 then 100000 else if ct - oldest > 30 then 0 else uint (30 - (ct - oldest)))"

lemma time_left_nonneg: "0 \<le> time_left w ct"
  by (simp add: time_left_def Let_def)

lemma iteration_timeout_run:
  assumes "lists_alive (d_world d)" "mstime64 (d_world d) = Inr (ct, w')"
  shows "GetCurrentIterationTimeout d = Inr ((0, 1000 * min 200 (time_left (d_world d) ct)), d\<lparr>d_world := w'\<rparr>)"
proof -
  have "device_get_timeout (d_world d) = Inr (time_left (d_world d) ct, w')"
    using device_get_timeout_run [OF assms] by (simp add: time_left_def Let_def)
  then have run: "in_world device_get_timeout d = Inr (time_left (d_world d) ct, d\<lparr>d_world := w'\<rparr>)" by (rule in_world_run)
  have conv: "MS_TIMEOUT_TO_TIMEVAL (if t < 200 then t else 200) = (0, 1000 * min 200 t)" if "0 \<le> t" for t
    using that by (auto simp: MS_TIMEOUT_TO_TIMEVAL_def Let_def)
  show ?thesis
    unfolding GetCurrentIterationTimeout_def seq_Inr [where m = "in_world device_get_timeout", OF run] SOCKETS_SELECT_INTERVAL_def conv [OF time_left_nonneg] ret_run
    by (rule refl)
qed

lemma get_clients_run:
  "\<forall>k \<in> set ks. client_heap w k \<noteq> None \<Longrightarrow> \<exists>cs. map_m get_client ks w = Inr (cs, w)"
  by (induction ks) (auto simp: seq_Inr get_client_run)

lemma fd_sets_run:
  assumes "hClientsListenSocket d = Some a" "hDevicesListenSocket d = Some b"
    and "\<forall>k \<in> set (elems (client_list (d_world d))). client_heap (d_world d) k \<noteq> None"
    and "\<forall>p \<in> set (elems (device_list (d_world d))). dev_heap (d_world d) p \<noteq> None"
  shows "\<exists>r w n. CreateFdSets d = Inr ((r, w, n), d)"
proof -
  obtain cs where "map_m get_client (elems (client_list (d_world d))) (d_world d) = Inr (cs, d_world d)"
    using get_clients_run [OF assms(3)] by blast
  moreover obtain ds where "map_m get_dev (elems (device_list (d_world d))) (d_world d) = Inr (ds, d_world d)"
    using get_devs_run [OF assms(4)] by blast
  ultimately show ?thesis using assms(1,2)
    by (simp add: CreateFdSets_def client_add_fds_def device_add_fds_def in_world_def seq_Inr)
qed

lemma in_order_alive: "in_order w \<Longrightarrow> lists_alive w"
  unfolding in_order_def lists_alive_def conns_alive_def active_conns_def linked_def by fastforce

lemma in_order_clock:
  assumes "mstime64 w = Inr (ct, w1)"
  shows "in_order w1 = in_order w" "conn_heap w1 = conn_heap w" "device_list w1 = device_list w" "client_list w1 = client_list w"
    "client_heap w1 = client_heap w" "dev_heap w1 = dev_heap w" "g_pending_devices w1 = g_pending_devices w"
    "active_conns w1 = active_conns w"
proof -
  obtain s where s: "w1 = w\<lparr>sys := s\<rparr>"
  proof (cases "ticks (sys w)")
    case Nil
    then show thesis using assms that [of "sys w"] by (simp add: mstime64_def)
  next
    case (Cons t ts)
    then show thesis using assms that [of "(sys w)\<lparr>now := ct, ticks := ts\<rparr>"] by (auto simp: mstime64_def)
  qed
  show "in_order w1 = in_order w" by (simp add: s in_order_def active_conns_def linked_def usb_ready_def)
  show "conn_heap w1 = conn_heap w" "device_list w1 = device_list w" "client_list w1 = client_list w"
    "client_heap w1 = client_heap w" "dev_heap w1 = dev_heap w" "g_pending_devices w1 = g_pending_devices w"
    "active_conns w1 = active_conns w" by (simp_all add: s active_conns_def fun_eq_iff)
qed

text \<open>
  C30: A quiet round of the main loop. While no shutdown is signalled, no socket becomes ready and no
  command is pending, a round waits in \<open>select\<close> for at most 200 milliseconds and no longer than the oldest
  pending acknowledgement may still wait; then it goes on to the next round (unless the driver refuses a
  transfer, which ends the process), and no acknowledgement is overdue: every connection of an active
  device that was has sent one for all it has received, and the others are as before.
\<close>

theorem quiet_round:
  assumes "waits d = []" "hShutdownEvent d = Some False" "selects d = []"
    and "hClientsListenSocket d = Some a" "hDevicesListenSocket d = Some b"
    and "in_order (d_world d)" "\<forall>k \<in> set (elems (client_list (d_world d))). client_heap (d_world d) k \<noteq> None"
    and "g_pending_devices (d_world d) = []"
    and "mstime64 (d_world d) = Inr (ct1, w1)" "mstime64 w1 = Inr (ct2, w2)"
  shows "main_iteration fuel d = Inl ProcessExit \<or> (\<exists>d'. main_iteration fuel d = Inr (True, d') \<and>
     select_timeouts d' = select_timeouts d @ [(0, 1000 * min 200 (time_left (d_world d) ct1))] \<and>
     (\<forall>dev \<in> set (elems (device_list (d_world d))). \<forall>p \<in> active_conns (d_world d) dev. \<forall>c. conn_heap (d_world d) p = Some c \<longrightarrow>
        (\<exists>c'. conn_heap (d_world d') p = Some c' \<and> \<not> overdue ct2 c' \<and>
          (if overdue ct2 c then conn_tx_acked c' = conn_tx_ack c else c' = c))))"
proof -
  note f = in_order_clock [OF assms(9)]
  have ord: "in_order w1" using assms(6) f by simp
  let ?d1 = "d\<lparr>d_world := w1\<rparr>"
  have devs: "\<forall>p \<in> set (elems (device_list w1)). dev_heap w1 p \<noteq> None" using ord by (fastforce simp: in_order_def)
  obtain r w n where sets: "CreateFdSets ?d1 = Inr ((r, w, n), ?d1)"
    using fd_sets_run [of ?d1 a b] assms(4,5,7) f devs by auto
  let ?tv = "(0, 1000 * min 200 (time_left (d_world d) ct1))"
  let ?d2 = "d\<lparr>select_timeouts := select_timeouts d @ [?tv], d_world := w1\<rparr>"
  have sel: "sys_select r w ?tv ?d1 = Inr (SelectTimeout, ?d2)"
    using assms(3) by (simp add: sys_select_def)
  have usb: "usb_process w1 = Inr (0, w1)" using f(7) assms(8) by (simp add: usb_process_def)
  have run: "main_iteration fuel d = seq (in_world device_check_timeouts) (\<lambda>_. ret True) ?d2"
    using assms(1,2) iteration_timeout_run [OF in_order_alive [OF assms(6)] assms(9)] sets sel usb
    by (simp add: main_iteration_def wait_for_def event_state_def seq_Inr handle_idle_def in_world_run seq_assoc)
  from overdue_acks_sent [OF ord assms(10)] show ?thesis
  proof (elim disjE exE conjE)
    assume "device_check_timeouts w1 = Inl ProcessExit"
    then show ?thesis unfolding run by (simp add: seq_Inl in_world_run)
  next
    fix w' assume w': "device_check_timeouts w1 = Inr ((), w')"
      "\<forall>dev \<in> set (elems (device_list w1)). \<forall>p \<in> active_conns w1 dev. \<forall>c. conn_heap w1 p = Some c \<longrightarrow>
        (\<exists>c'. conn_heap w' p = Some c' \<and> \<not> overdue ct2 c' \<and>
          (if overdue ct2 c then conn_tx_acked c' = conn_tx_ack c \<and> acknowledged w1 w' c c' else c' = c))"
    have "main_iteration fuel d = Inr (True, ?d2\<lparr>d_world := w'\<rparr>)"
      unfolding run using w'(1) by (simp add: seq_Inr in_world_run)
    with w'(2) show ?thesis unfolding f by (intro disjI2 exI [of _ "?d2\<lparr>d_world := w'\<rparr>"]) (simp split: if_splits, metis)
  qed
qed

theorem quiet_round_witness:
  "let d = (idle_daemon ((link_world (idle_device MUXDEV_ACTIVE [40])
        ((idle_conn CONN_CONNECTED [])\<lparr>conn_flags := 1, conn_last_ack_time := 100, conn_tx_ack := 5\<rparr>)
        (idle_client CLIENT_CONNECTED))\<lparr>sys := idle_env\<lparr>now := 110, ticks := [120, 140]\<rparr>\<rparr>))
      \<lparr>hShutdownEvent := Some False, hClientsListenSocket := Some 3, hDevicesListenSocket := Some 4\<rparr> in
   main_iteration 10 d = Inl ProcessExit \<or> (\<exists>d' c'. main_iteration 10 d = Inr (True, d') \<and>
     select_timeouts d' = [(0, 10000)] \<and> conn_heap (d_world d') 40 = Some c' \<and> conn_tx_acked c' = 5)"
proof -
  let ?c = "(idle_conn CONN_CONNECTED [])\<lparr>conn_flags := 1, conn_last_ack_time := 100, conn_tx_ack := 5\<rparr>"
  let ?l = "link_world (idle_device MUXDEV_ACTIVE [40]) ?c (idle_client CLIENT_CONNECTED)"
  let ?w = "?l\<lparr>sys := idle_env\<lparr>now := 110, ticks := [120, 140]\<rparr>\<rparr>"
  let ?d = "(idle_daemon ?w)\<lparr>hShutdownEvent := Some False, hClientsListenSocket := Some 3, hDevicesListenSocket := Some 4\<rparr>"
  let ?w1 = "?l\<lparr>sys := idle_env\<lparr>now := 120, ticks := [140]\<rparr>\<rparr>" and ?w2 = "?l\<lparr>sys := idle_env\<lparr>now := 140, ticks := []\<rparr>\<rparr>"
  have w: "d_world ?d = ?w" by (simp add: idle_daemon_def)
  have ac: "active_conns ?w 10 = {40}" by (auto simp: active_conns_def idle_defs)
  have dev: "set (elems (device_list ?w)) = {10}" "dev_heap ?w 10 = Some (idle_device MUXDEV_ACTIVE [40])" by (simp_all add: link_world_def)
  have "linked ?w 40" by (simp add: linked_def usb_ready_def idle_defs)
  moreover have "dev_connections (idle_device MUXDEV_ACTIVE [40]) \<noteq> None" by (simp add: idle_device_def)
  ultimately have ord: "in_order (d_world ?d)" unfolding w in_order_def dev(1) using dev(2) by (simp add: ac)
  have clk: "mstime64 (d_world ?d) = Inr (120, ?w1)" "mstime64 ?w1 = Inr (140, ?w2)" unfolding w by (simp_all add: mstime64_def)
  have rest: "waits ?d = []" "hShutdownEvent ?d = Some False" "selects ?d = []" "hClientsListenSocket ?d = Some 3"
    "hDevicesListenSocket ?d = Some 4" "\<forall>k \<in> set (elems (client_list (d_world ?d))). client_heap (d_world ?d) k \<noteq> None"
    "g_pending_devices (d_world ?d) = []" "select_timeouts ?d = []"
    by (simp_all add: idle_daemon_def idle_defs)
  have "pending_acks ?w = [100]"
    by (simp add: pending_acks_def acks_of_def ack_pending_def CONN_ACK_PENDING_def idle_defs)
  then have left: "time_left (d_world ?d) 120 = 10" unfolding w by (simp add: time_left_def)
  have p: "10 \<in> set (elems (device_list (d_world ?d)))" "40 \<in> active_conns (d_world ?d) 10" "conn_heap (d_world ?d) 40 = Some ?c" "overdue 140 ?c" "conn_tx_ack ?c = 5"
    unfolding w ac by (simp_all add: idle_defs overdue_def ack_pending_def CONN_ACK_PENDING_def ACK_TIMEOUT_def)
  from quiet_round [OF rest(1-5) ord rest(6,7) clk, of 10] show ?thesis unfolding Let_def left rest(8)
  proof (elim disjE exE conjE)
    fix d' assume d': "main_iteration 10 ?d = Inr (True, d')" "select_timeouts d' = [] @ [(0, 1000 * min 200 10)]"
      "\<forall>dev \<in> set (elems (device_list (d_world ?d))). \<forall>p \<in> active_conns (d_world ?d) dev. \<forall>c. conn_heap (d_world ?d) p = Some c \<longrightarrow>
        (\<exists>c'. conn_heap (d_world d') p = Some c' \<and> \<not> overdue 140 c' \<and>
          (if overdue 140 c then conn_tx_acked c' = conn_tx_ack c else c' = c))"
    obtain c' where "conn_heap (d_world d') 40 = Some c'" "conn_tx_acked c' = 5"
      using bspec [OF bspec [OF d'(3) p(1)] p(2)] p(3-5) by auto
    with d'(1,2) show "main_iteration 10 ?d = Inl ProcessExit \<or> (\<exists>d' c'. main_iteration 10 ?d = Inr (True, d') \<and>
     select_timeouts d' = [(0, 10000)] \<and> conn_heap (d_world d') 40 = Some c' \<and> conn_tx_acked c' = 5)" by auto
  qed simp
qed

end
