(* ===== verification/Rw_Queue.thy ===== *)
theory Rw_Queue
  imports Base
begin

text \<open>
  The single-producer single-consumer queue of readerwriterqueue.h, which carries the transmit elements of
  a usb device between the main thread and the writer thread. It is a ring of blocks, each a ring of slots:
  elements are taken from the front block and put into the tail block, and a block is added when the next
  one is the front block. Each side keeps a shadow of the other's index (\<open>localTail\<close>, \<open>localFront\<close>) and
  reads the shared one only when the shadow says that the block is empty or full.

  Blocks are never freed, so a block is named by its place in the list of all of them. An index is below the
  size of its block, so the masked sums and differences of \<open>size_t\<close> are those of integers. A slot without
  an object is \<open>None\<close>; reading it is an error of the model. A failed \<open>assert\<close> leaves the process.
\<close>

record 'a block =
  front :: nat
  localTail :: nat
  tail :: nat
  localFront :: nat
  next_block :: nat
  slots :: "'a option list"
  sizeMask :: nat

record 'a rwq =
  blocks :: "'a block list"
  frontBlock :: nat
  tailBlock :: nat
  largestBlockSize :: nat
  allocs :: "bool list"

type_synonym ('a, 'b) qact = "('a rwq, 'b) prog"

definition MAX_BLOCK_SIZE :: nat where "MAX_BLOCK_SIZE = 512"

subsection \<open>Blocks\<close>

definition new_block :: "nat \<Rightarrow> 'a block" where
  "new_block cap = \<lparr>front = 0, localTail = 0, tail = 0, localFront = 0, next_block = 0,
     slots = replicate cap None, sizeMask = cap - 1\<rparr>"

text \<open>\<open>malloc\<close> succeeds as its script says, and once that is used up. The new block has the next address.\<close>

definition make_block :: "nat \<Rightarrow> ('a, nat option) qact" where
  "make_block capacity q = (case allocs q of
       False # as \<Rightarrow> Inr (None, q\<lparr>allocs := as\<rparr>)
     | as \<Rightarrow> Inr (Some (length (blocks q)), q\<lparr>allocs := tl as, blocks := blocks q @ [new_block capacity]\<rparr>))"

definition get_block :: "nat \<Rightarrow> ('a, 'a block) qact" where
  "get_block i q = (if i < length (blocks q) then Inr (blocks q ! i, q) else Inl UseAfterFree)"

definition upd_block :: "nat \<Rightarrow> ('a block \<Rightarrow> 'a block) \<Rightarrow> ('a, unit) qact" where
  "upd_block i f = seq (get_block i) (\<lambda>b. modify (\<lambda>q. q\<lparr>blocks := (blocks q)[i := f b]\<rparr>))"

definition assert_that :: "bool \<Rightarrow> ('a, unit) qact" where
  "assert_that b = (if b then ret () else stop ProcessExit)"

definition construct :: "nat \<Rightarrow> nat \<Rightarrow> 'a \<Rightarrow> ('a, unit) qact" where
  "construct i pos x = seq (get_block i) (\<lambda>b.
     if pos < length (slots b) then upd_block i (\<lambda>b. b\<lparr>slots := (slots b)[pos := Some x]\<rparr>) else stop OutOfBounds)"

definition element_at :: "nat \<Rightarrow> nat \<Rightarrow> ('a, 'a) qact" where
  "element_at i pos = seq (get_block i) (\<lambda>b.
     if pos < length (slots b) then some_or UninitRead (slots b ! pos) else stop OutOfBounds)"

definition destroy :: "nat \<Rightarrow> nat \<Rightarrow> ('a, unit) qact" where
  "destroy i pos = upd_block i (\<lambda>b. b\<lparr>slots := (slots b)[pos := None]\<rparr>)"

subsection \<open>Construction\<close>

definition ceilToPow2 :: "u64 \<Rightarrow> u64" where
  "ceilToPow2 x =
     (let x = x - 1; x = x OR drop_bit 1 x; x = x OR drop_bit 2 x; x = x OR drop_bit 4 x;
          x = x OR drop_bit 8 x; x = x OR drop_bit 16 x; x = x OR drop_bit 32 x
      in x + 1)"

text \<open>The loop that links \<open>n\<close> more blocks behind \<open>last\<close>, the last one to the first.\<close>

fun add_blocks :: "nat \<Rightarrow> nat option \<Rightarrow> nat \<Rightarrow> ('a, nat) qact" where
  "add_blocks first lst 0 = ret first"
| "add_blocks first lst (Suc n) = seq (make_block MAX_BLOCK_SIZE) (\<lambda>r.
     case r of
       None \<Rightarrow> stop ProcessExit
     | Some b \<Rightarrow>
         let first = (if lst = None then b else first) in
         seq (case lst of None \<Rightarrow> ret () | Some l \<Rightarrow> upd_block l (\<lambda>x. x\<lparr>next_block := b\<rparr>)) (\<lambda>_.
         seq (upd_block b (\<lambda>x. x\<lparr>next_block := first\<rparr>)) (\<lambda>_. add_blocks first (Some b) n)))"

definition ReaderWriterQueue :: "nat \<Rightarrow> ('a, unit) qact" where
  "ReaderWriterQueue maxSize = seq (assert_that (maxSize > 0)) (\<lambda>_.
     let cap = unat (ceilToPow2 (of_nat (maxSize + 1))) in
     if cap > MAX_BLOCK_SIZE * 2
     then seq (add_blocks 0 None ((maxSize + MAX_BLOCK_SIZE * 2 - 3) div (MAX_BLOCK_SIZE - 1))) (\<lambda>first.
          modify (\<lambda>q. q\<lparr>largestBlockSize := MAX_BLOCK_SIZE, frontBlock := first, tailBlock := first\<rparr>))
     else seq (make_block cap) (\<lambda>r.
          case r of
            None \<Rightarrow> stop ProcessExit
          | Some b \<Rightarrow> seq (upd_block b (\<lambda>x. x\<lparr>next_block := b\<rparr>)) (\<lambda>_.
              modify (\<lambda>q. q\<lparr>largestBlockSize := cap, frontBlock := b, tailBlock := b\<rparr>))))"

subsection \<open>Enqueueing\<close>

text \<open>The three ways of \<open>inner_enqueue\<close>: into the tail block, into the free block behind it, into a new one.\<close>

definition enqueue_here :: "nat \<Rightarrow> nat \<Rightarrow> nat \<Rightarrow> 'a \<Rightarrow> ('a, bool) qact" where
  "enqueue_here tb blockTail nextBlockTail x = seq (construct tb blockTail x) (\<lambda>_.
     seq (upd_block tb (\<lambda>b. b\<lparr>tail := nextBlockTail\<rparr>)) (\<lambda>_. ret True))"

definition enqueue_ahead :: "nat \<Rightarrow> 'a \<Rightarrow> ('a, bool) qact" where
  "enqueue_ahead nb x =
     seq (upd_block nb (\<lambda>b. b\<lparr>localFront := front b\<rparr>)) (\<lambda>_.
     seq (get_block nb) (\<lambda>b.
     seq (assert_that (localFront b = tail b)) (\<lambda>_.
     seq (construct nb (tail b) x) (\<lambda>_.
     seq (upd_block nb (\<lambda>c. c\<lparr>tail := (tail b + 1) AND sizeMask b\<rparr>)) (\<lambda>_.
     seq (modify (\<lambda>q. q\<lparr>tailBlock := nb\<rparr>)) (\<lambda>_. ret True))))))"

definition enqueue_new :: "nat \<Rightarrow> 'a \<Rightarrow> ('a, bool) qact" where
  "enqueue_new tb x = seq (gets largestBlockSize) (\<lambda>largest.
     let cap = (if largest \<ge> MAX_BLOCK_SIZE then largest else largest * 2) in
     seq (make_block cap) (\<lambda>r.
     case r of
       None \<Rightarrow> ret False
     | Some nb \<Rightarrow>
         seq (modify (\<lambda>q. q\<lparr>largestBlockSize := cap\<rparr>)) (\<lambda>_.
         seq (construct nb 0 x) (\<lambda>_.
         seq (get_block nb) (\<lambda>b. seq (assert_that (front b = 0)) (\<lambda>_.
         seq (get_block tb) (\<lambda>t.
         seq (upd_block nb (\<lambda>b. b\<lparr>tail := 1, localTail := 1, next_block := next_block t\<rparr>)) (\<lambda>_.
         seq (upd_block tb (\<lambda>b. b\<lparr>next_block := nb\<rparr>)) (\<lambda>_.
         seq (modify (\<lambda>q. q\<lparr>tailBlock := nb\<rparr>)) (\<lambda>_. ret True))))))))))"

definition inner_enqueue :: "bool \<Rightarrow> 'a \<Rightarrow> ('a, bool) qact" where
  "inner_enqueue canAlloc x = seq (gets tailBlock) (\<lambda>tb.
     seq (get_block tb) (\<lambda>b.
     let nextBlockTail = (tail b + 1) AND sizeMask b in
     if nextBlockTail \<noteq> localFront b then enqueue_here tb (tail b) nextBlockTail x
     else seq (upd_block tb (\<lambda>b. b\<lparr>localFront := front b\<rparr>)) (\<lambda>_.
       if nextBlockTail \<noteq> front b then enqueue_here tb (tail b) nextBlockTail x
       else seq (gets frontBlock) (\<lambda>fb.
         if next_block b \<noteq> fb then enqueue_ahead (next_block b) x
         else if canAlloc then enqueue_new tb x
         else ret False))))"

definition enqueue :: "'a \<Rightarrow> ('a, bool) qact" where
  "enqueue x = inner_enqueue True x"

definition try_enqueue :: "'a \<Rightarrow> ('a, bool) qact" where
  "try_enqueue x = inner_enqueue False x"

subsection \<open>Dequeueing\<close>

text \<open>
  Where the front element is: in the front block, in the block behind it (which then becomes the front
  block), or nowhere. The three operations of the consumer share this search.
\<close>

datatype place = Nowhere | Here nat nat | Ahead nat nat

definition front_place :: "('a, place) qact" where
  "front_place = seq (gets frontBlock) (\<lambda>fb.
     seq (get_block fb) (\<lambda>b.
     if front b \<noteq> localTail b then ret (Here fb (front b))
     else seq (upd_block fb (\<lambda>b. b\<lparr>localTail := tail b\<rparr>)) (\<lambda>_.
       if front b \<noteq> tail b then ret (Here fb (front b))
       else seq (gets tailBlock) (\<lambda>tb.
         if fb = tb then ret Nowhere
         else seq (gets frontBlock) (\<lambda>fb.
           seq (upd_block fb (\<lambda>b. b\<lparr>localTail := tail b\<rparr>)) (\<lambda>_.
           seq (get_block fb) (\<lambda>b.
           if front b \<noteq> localTail b then ret (Here fb (front b))
           else seq (get_block (next_block b)) (\<lambda>n. ret (Ahead (next_block b) (front n))))))))))"

definition take_from :: "nat \<Rightarrow> nat \<Rightarrow> ('a, 'a) qact" where
  "take_from i pos = seq (element_at i pos) (\<lambda>x.
     seq (destroy i pos) (\<lambda>_.
     seq (upd_block i (\<lambda>b. b\<lparr>front := (pos + 1) AND sizeMask b\<rparr>)) (\<lambda>_. ret x)))"

definition advance_to :: "nat \<Rightarrow> ('a, unit) qact" where
  "advance_to i = seq (upd_block i (\<lambda>b. b\<lparr>localTail := tail b\<rparr>)) (\<lambda>_.
     seq (get_block i) (\<lambda>b. seq (assert_that (front b \<noteq> localTail b)) (\<lambda>_.
     modify (\<lambda>q. q\<lparr>frontBlock := i\<rparr>))))"

definition try_dequeue :: "('a, 'a option) qact" where
  "try_dequeue = seq front_place (\<lambda>p.
     case p of
       Nowhere \<Rightarrow> ret None
     | Here i pos \<Rightarrow> seq (take_from i pos) (\<lambda>x. ret (Some x))
     | Ahead i pos \<Rightarrow> seq (advance_to i) (\<lambda>_. seq (take_from i pos) (\<lambda>x. ret (Some x))))"

definition peek :: "('a, 'a option) qact" where
  "peek = seq front_place (\<lambda>p.
     case p of
       Nowhere \<Rightarrow> ret None
     | Here i pos \<Rightarrow> seq (element_at i pos) (\<lambda>x. ret (Some x))
     | Ahead i pos \<Rightarrow> seq (get_block i) (\<lambda>b. seq (assert_that (pos \<noteq> tail b)) (\<lambda>_.
         seq (element_at i pos) (\<lambda>x. ret (Some x)))))"

definition pop :: "('a, bool) qact" where
  "pop = seq front_place (\<lambda>p.
     case p of
       Nowhere \<Rightarrow> ret False
     | Here i pos \<Rightarrow> seq (take_from i pos) (\<lambda>_. ret True)
     | Ahead i pos \<Rightarrow> seq (advance_to i) (\<lambda>_. seq (take_from i pos) (\<lambda>_. ret True)))"

text \<open>The walk over all blocks; there are as many rounds as blocks.\<close>

fun size_loop :: "nat \<Rightarrow> nat \<Rightarrow> nat \<Rightarrow> nat \<Rightarrow> ('a, nat) qact" where
  "size_loop 0 start i acc = stop OutOfFuel"
| "size_loop (Suc f) start i acc = seq (get_block i) (\<lambda>b.
     let acc = acc + nat ((int (tail b) - int (front b)) AND int (sizeMask b)) in
     if next_block b = start then ret acc else size_loop f start (next_block b) acc)"

definition size_approx :: "('a, nat) qact" where
  "size_approx = seq (gets (\<lambda>q. length (blocks q))) (\<lambda>n. seq (gets frontBlock) (\<lambda>fb. size_loop n fb fb 0))"

end
