(* ===== verification/Rw_Spec.thy ===== *)
theory Rw_Spec
  imports Rw_Queue
begin

text \<open>
  The block queue implements a queue. What the ring of blocks holds is a list (\<open>queue_rel\<close>); every
  operation acts on it as on a queue and keeps the shape of the ring, whatever the shadows of the indices
  say. The interface \<open>fifo\<close> states the two laws a client needs and what follows for any run of operations.
\<close>

subsection \<open>The contents of a block\<close>

lemma and_mask_mod: "Suc m = 2 ^ k \<Longrightarrow> (n::nat) AND m = n mod Suc m"
  by (metis One_nat_def diff_Suc_1 mask_eq_exp_minus_1 take_bit_eq_mask take_bit_eq_mod)

text \<open>
  \<open>blk_holds b xs\<close>: the slots from \<open>front\<close> on hold \<open>xs\<close>. The consumer's shadow of \<open>tail\<close> lies between
  \<open>front\<close> and \<open>tail\<close>; the producer's shadow of \<open>front\<close> lies behind it by no more than there is room.
\<close>

definition blk_holds :: "'a block \<Rightarrow> 'a list \<Rightarrow> bool" where
  "blk_holds b xs \<longleftrightarrow> (let c = Suc (sizeMask b) in
     (\<exists>k \<ge> 1. c = 2 ^ k) \<and> length (slots b) = c \<and> front b < c \<and> localFront b < c \<and> length xs < c \<and>
     tail b = (front b + length xs) mod c \<and>
     (\<exists>t \<le> length xs. localTail b = (front b + t) mod c) \<and>
     (\<exists>a. front b = (localFront b + a) mod c \<and> a + length xs < c) \<and>
     (\<forall>j < length xs. slots b ! ((front b + j) mod c) = Some (xs ! j)))"

lemma holdsI:
  assumes "1 \<le> k" "Suc (sizeMask b) = 2 ^ k" "length (slots b) = Suc (sizeMask b)" "front b < Suc (sizeMask b)"
    and "localFront b < Suc (sizeMask b)" "tail b = (front b + length xs) mod Suc (sizeMask b)"
    and "t \<le> length xs" "localTail b = (front b + t) mod Suc (sizeMask b)"
    and "front b = (localFront b + a) mod Suc (sizeMask b)" "a + length xs < Suc (sizeMask b)"
    and "\<And>j. j < length xs \<Longrightarrow> slots b ! ((front b + j) mod Suc (sizeMask b)) = Some (xs ! j)"
  shows "blk_holds b xs"
  unfolding blk_holds_def Let_def using assms by (auto intro: exI [of _ k] exI [of _ t] exI [of _ a])

definition put :: "'a \<Rightarrow> 'a block \<Rightarrow> 'a block" where
  "put x b = b\<lparr>slots := (slots b)[tail b := Some x], tail := (tail b + 1) AND sizeMask b\<rparr>"

definition drop_front :: "'a block \<Rightarrow> 'a block" where
  "drop_front b = b\<lparr>slots := (slots b)[front b := None], front := (front b + 1) AND sizeMask b\<rparr>"

lemma mod_offset_less:
  fixes i j :: nat
  assumes "(f + i) mod c = (f + j) mod c" "i \<le> j" "j < c"
  shows "i = j"
proof -
  have "c dvd (f + j) - (f + i)" using assms(1,2) mod_eq_dvd_iff_nat [of "f + i" "f + j" c] by simp
  then show ?thesis using assms(2,3) by (auto dest: dvd_imp_le)
qed

lemma mod_offset_inj:
  fixes i j :: nat
  assumes "(f + i) mod c = (f + j) mod c" "i < c" "j < c"
  shows "i = j"
  using mod_offset_less [of f i c j] mod_offset_less [of f j c i] assms by (cases "i \<le> j") auto

lemma holds_mask: "blk_holds b xs \<Longrightarrow> n AND sizeMask b = n mod Suc (sizeMask b)"
  by (auto simp: blk_holds_def Let_def intro: and_mask_mod)


lemma holds_put:
  assumes "blk_holds b xs" "(tail b + 1) mod Suc (sizeMask b) \<noteq> localFront b"
  shows "blk_holds (put x b) (xs @ [x])"
proof -
  let ?c = "Suc (sizeMask b)" and ?n = "length xs"
  obtain k a t where k: "1 \<le> k" and h: "?c = 2 ^ k" "length (slots b) = ?c" "front b < ?c" "localFront b < ?c" "?n < ?c"
    "tail b = (front b + ?n) mod ?c" "t \<le> ?n" "localTail b = (front b + t) mod ?c"
    "front b = (localFront b + a) mod ?c" "a + ?n < ?c" "\<forall>j < ?n. slots b ! ((front b + j) mod ?c) = Some (xs ! j)"
    using assms(1) unfolding blk_holds_def Let_def by blast
  have "a + ?n + 1 \<noteq> ?c"
  proof
    assume full: "a + ?n + 1 = ?c"
    have "(tail b + 1) mod ?c = (front b + ?n + 1) mod ?c" unfolding h(6) by (rule mod_add_left_eq)
    also have "\<dots> = (localFront b + a + (?n + 1)) mod ?c"
      using mod_add_left_eq [of "localFront b + a" ?c "?n + 1", folded h(9)] by (simp only: add.assoc)
    also have "\<dots> = (localFront b + ?c) mod ?c" using full by (simp only: add.assoc)
    also have "\<dots> = localFront b" using h(4) by (simp only: mod_add_self2 mod_less)
    finally show False using assms(2) by simp
  qed
  then have room: "a + (?n + 1) < ?c" using h(10) by simp
  have tl: "(tail b + 1) AND sizeMask b = (front b + length (xs @ [x])) mod ?c"
    unfolding holds_mask [OF assms(1)] unfolding h(6) by (simp add: mod_simps)
  have pos: "tail b < length (slots b)" unfolding h(6) h(2) by simp
  have new: "(slots b)[tail b := Some x] ! ((front b + j) mod ?c) = Some ((xs @ [x]) ! j)" if "j < length (xs @ [x])" for j
  proof (cases "j = ?n")
    case True
    then show ?thesis using pos h(6) by simp
  next
    case False
    then have j: "j < ?n" using that by simp
    have "(front b + j) mod ?c \<noteq> tail b"
    proof
      assume "(front b + j) mod ?c = tail b"
      then have "j = ?n" unfolding h(6) by (rule mod_offset_inj) (use j h(5) in auto)
      then show False using j by simp
    qed
    then show ?thesis using j h(11) by (simp add: nth_append)
  qed
  show ?thesis
    unfolding blk_holds_def Let_def put_def
    using k h(1-4) room tl new h(7-9)
    by (simp del: length_append, intro conjI exI [of _ k] exI [of _ t] exI [of _ a]) auto
qed

lemma holds_drop:
  assumes "blk_holds b (x # xs)" "front b \<noteq> localTail b"
  shows "slots b ! front b = Some x" "front b < length (slots b)" "blk_holds (drop_front b) xs"
proof -
  let ?c = "Suc (sizeMask b)" and ?n = "length xs"
  obtain k a t where k: "1 \<le> k" and h: "?c = 2 ^ k" "length (slots b) = ?c" "front b < ?c" "localFront b < ?c" "Suc ?n < ?c"
    "tail b = (front b + Suc ?n) mod ?c" "t \<le> Suc ?n" "localTail b = (front b + t) mod ?c"
    "front b = (localFront b + a) mod ?c" "a + Suc ?n < ?c" "\<forall>j < Suc ?n. slots b ! ((front b + j) mod ?c) = Some ((x # xs) ! j)"
    using assms(1) unfolding blk_holds_def Let_def by auto
  show "slots b ! front b = Some x" using h(11) [rule_format, of 0] h(3) by simp
  show "front b < length (slots b)" using h(2,3) by simp
  obtain t' where t: "t = Suc t'" using assms(2) h(3,8) by (cases t) auto
  have fr: "(front b + 1) AND sizeMask b = (front b + 1) mod ?c" by (rule holds_mask [OF assms(1)])
  have step: "((front b + 1) mod ?c + j) mod ?c = (front b + Suc j) mod ?c" for j
    using mod_add_left_eq [of "front b + 1" ?c j] by (simp only: add.assoc plus_1_eq_Suc)
  have slot: "(slots b)[front b := None] ! ((front b + Suc j) mod ?c) = Some (xs ! j)" if "j < ?n" for j
  proof -
    have "front b \<noteq> (front b + Suc j) mod ?c"
    proof
      assume "front b = (front b + Suc j) mod ?c"
      then have "(front b + 0) mod ?c = (front b + Suc j) mod ?c" using h(3) by simp
      then have "0 = Suc j" by (rule mod_offset_inj) (use that h(5) in auto)
      then show False by simp
    qed
    then show ?thesis using h(11) [rule_format, of "Suc j"] that by simp
  qed
  have back_off: "(front b + 1) mod ?c = (localFront b + Suc a) mod ?c"
    using mod_add_left_eq [of "localFront b + a" ?c 1, folded h(9)] by simp
  have fields: "sizeMask (drop_front b) = sizeMask b" "slots (drop_front b) = (slots b)[front b := None]" "tail (drop_front b) = tail b"
    "localTail (drop_front b) = localTail b" "localFront (drop_front b) = localFront b" "front (drop_front b) = (front b + 1) mod ?c"
    using fr by (simp_all add: drop_front_def)
  show "blk_holds (drop_front b) xs"
  proof (rule holdsI [where k = k and t = t' and a = "Suc a"])
    show "tail (drop_front b) = (front (drop_front b) + length xs) mod Suc (sizeMask (drop_front b))"
      unfolding fields step by (rule h(6))
    show "localTail (drop_front b) = (front (drop_front b) + t') mod Suc (sizeMask (drop_front b))"
      unfolding fields step using h(8) t by simp
    show "front (drop_front b) = (localFront (drop_front b) + Suc a) mod Suc (sizeMask (drop_front b))"
      unfolding fields by (rule back_off)
    show "slots (drop_front b) ! ((front (drop_front b) + j) mod Suc (sizeMask (drop_front b))) = Some (xs ! j)"
      if "j < length xs" for j unfolding fields step by (rule slot [OF that])
    show "front (drop_front b) < Suc (sizeMask (drop_front b))" unfolding fields by (rule mod_less_divisor) simp
  qed (use k h(1,2,4,5,7,10) t in \<open>simp_all add: fields\<close>)
qed

lemma holds_localTail: "blk_holds b xs \<Longrightarrow> blk_holds (b\<lparr>localTail := tail b\<rparr>) xs"
  unfolding blk_holds_def Let_def by auto

lemma holds_localFront: "blk_holds b xs \<Longrightarrow> blk_holds (b\<lparr>localFront := front b\<rparr>) xs"
  unfolding blk_holds_def Let_def by (auto intro!: exI [of _ 0])

lemma holds_next: "blk_holds b xs \<Longrightarrow> blk_holds (b\<lparr>next_block := n\<rparr>) xs"
  unfolding blk_holds_def Let_def by simp

text \<open>Emptiness as the code tests it.\<close>

lemma holds_empty: "blk_holds b xs \<Longrightarrow> front b = tail b \<longleftrightarrow> xs = []"
proof -
  assume h: "blk_holds b xs"
  let ?c = "Suc (sizeMask b)"
  have f: "front b < ?c" "length xs < ?c" "tail b = (front b + length xs) mod ?c" using h by (auto simp: blk_holds_def Let_def)
  show "front b = tail b \<longleftrightarrow> xs = []"
  proof
    assume "front b = tail b"
    then have "(front b + 0) mod ?c = (front b + length xs) mod ?c" using f by simp
    then have "0 = length xs" by (rule mod_offset_inj) (use f in auto)
    then show "xs = []" by simp
  next
    assume "xs = []"
    then show "front b = tail b" using f by simp
  qed
qed

lemma holds_shadow: "blk_holds b [] \<Longrightarrow> localTail b = front b"
  by (auto simp: blk_holds_def Let_def)

lemma holds_new: "1 \<le> k \<Longrightarrow> blk_holds (new_block (2 ^ k)) []"
  by (auto simp: blk_holds_def new_block_def Let_def intro!: exI [of _ 0])

lemma holds_count: "blk_holds b xs \<Longrightarrow> nat ((int (tail b) - int (front b)) AND int (sizeMask b)) = length xs"
proof -
  assume h: "blk_holds b xs"
  let ?c = "Suc (sizeMask b)"
  obtain k where f: "?c = 2 ^ k" "front b < ?c" "length xs < ?c" "tail b = (front b + length xs) mod ?c"
    using h by (auto simp: blk_holds_def Let_def)
  have m: "int (sizeMask b) = mask k" using f(1) by (simp add: mask_eq_exp_minus_1) (metis diff_Suc_1 of_nat_1 of_nat_diff of_nat_numeral of_nat_power one_le_numeral one_le_power)
  have c: "int ?c = 2 ^ k" using f(1) by (metis of_nat_numeral of_nat_power)
  have "(int (tail b) - int (front b)) mod int ?c = (int (front b + length xs) - int (front b)) mod int ?c"
    unfolding f(4) by (simp only: of_nat_mod mod_diff_left_eq)
  also have "\<dots> = int (length xs)" using f(3) by simp
  finally show "nat ((int (tail b) - int (front b)) AND int (sizeMask b)) = length xs"
    unfolding m take_bit_eq_mask [symmetric] take_bit_eq_mod c by simp
qed

subsection \<open>The ring of blocks\<close>

lemma block_runs [prog]:
  "i < length (blocks q) \<Longrightarrow> get_block i q = Inr (blocks q ! i, q)"
  "i < length (blocks q) \<Longrightarrow> upd_block i f q = Inr ((), q\<lparr>blocks := (blocks q)[i := f (blocks q ! i)]\<rparr>)"
  by (simp_all add: get_block_def upd_block_def seq_Inr)

text \<open>
  The addresses of the blocks in the order of their links, from the front block on, and what each of them
  holds; \<open>t\<close> is the place of the tail block. Only the front block among those up to the tail block may be
  empty, and all blocks behind it are.
\<close>

definition cells :: "'a rwq \<Rightarrow> nat list \<Rightarrow> 'a list list \<Rightarrow> bool" where
  "cells q r xss \<longleftrightarrow> distinct r \<and> set r = {..<length (blocks q)} \<and> length xss = length r \<and>
     (\<forall>i < length r. next_block (blocks q ! (r ! i)) = r ! (Suc i mod length r) \<and> blk_holds (blocks q ! (r ! i)) (xss ! i))"

definition layout :: "'a rwq \<Rightarrow> nat list \<Rightarrow> 'a list list \<Rightarrow> nat \<Rightarrow> bool" where
  "layout q r xss t \<longleftrightarrow> cells q r xss \<and> t < length r \<and> frontBlock q = r ! 0 \<and> tailBlock q = r ! t \<and>
     (\<forall>i. 0 < i \<and> i \<le> t \<longrightarrow> xss ! i \<noteq> []) \<and> (\<forall>i. t < i \<and> i < length r \<longrightarrow> xss ! i = []) \<and>
     (\<exists>k. 1 \<le> k \<and> largestBlockSize q = 2 ^ k)"

definition queue_rel :: "'a rwq \<Rightarrow> 'a list \<Rightarrow> bool" where
  "queue_rel q xs \<longleftrightarrow> (\<exists>r xss t. layout q r xss t \<and> xs = concat xss)"

lemma cells_block:
  assumes "cells q r xss" "i < length r"
  shows "r ! i < length (blocks q)" "blk_holds (blocks q ! (r ! i)) (xss ! i)" "length xss = length r"
    "next_block (blocks q ! (r ! i)) = r ! (Suc i mod length r)"
  using assms nth_mem [of i r] by (auto simp: cells_def)

lemma cells_update:
  assumes "cells q r xss" "i < length r" "blk_holds b ys" "next_block b = next_block (blocks q ! (r ! i))"
    and "blocks q' = (blocks q)[r ! i := b]"
  shows "cells q' r (xss[i := ys])"
proof -
  have d: "distinct r" "set r = {..<length (blocks q)}" "length xss = length r" using assms(1) by (auto simp: cells_def)
  have i: "r ! i < length (blocks q)" using cells_block(1) [OF assms(1,2)] .
  have "next_block (blocks q' ! (r ! j)) = r ! (Suc j mod length r) \<and> blk_holds (blocks q' ! (r ! j)) (xss[i := ys] ! j)"
    if j: "j < length r" for j
  proof (cases "j = i")
    case True
    then show ?thesis using assms(3-5) i j cells_block(4) [OF assms(1,2)] d(3) by simp
  next
    case False
    then have "r ! j \<noteq> r ! i" using d(1) j assms(2) by (simp add: nth_eq_iff_index_eq)
    then show ?thesis using False assms(5) cells_block(2,4) [OF assms(1) j] by simp
  qed
  then show ?thesis using d assms(5) by (simp add: cells_def)
qed

lemma cells_cong: "cells q r xss \<Longrightarrow> blocks q' = blocks q \<Longrightarrow> cells q' r xss"
  by (simp add: cells_def)

lemma construct_run [prog]:
  assumes "i < length (blocks q)" "pos < length (slots (blocks q ! i))"
  shows "construct i pos x q = Inr ((), q\<lparr>blocks := (blocks q)[i := (blocks q ! i)\<lparr>slots := (slots (blocks q ! i))[pos := Some x]\<rparr>]\<rparr>)"
  using assms by (simp add: construct_def seq_Inr block_runs)

lemma enqueue_here_run:
  assumes "i < length (blocks q)" "tail (blocks q ! i) < length (slots (blocks q ! i))"
  shows "enqueue_here i (tail (blocks q ! i)) ((tail (blocks q ! i) + 1) AND sizeMask (blocks q ! i)) x q =
    Inr (True, q\<lparr>blocks := (blocks q)[i := put x (blocks q ! i)]\<rparr>)"
  using assms by (simp add: enqueue_here_def seq_Inr construct_run block_runs put_def)

lemma take_from_run:
  assumes "i < length (blocks q)" "slots (blocks q ! i) ! front (blocks q ! i) = Some x"
    and "front (blocks q ! i) < length (slots (blocks q ! i))"
  shows "take_from i (front (blocks q ! i)) q = Inr (x, q\<lparr>blocks := (blocks q)[i := drop_front (blocks q ! i)]\<rparr>)"
  using assms by (simp add: take_from_def element_at_def destroy_def seq_Inr block_runs drop_front_def)

lemma holds_tail_slot: "blk_holds b xs \<Longrightarrow> tail b < length (slots b)"
  by (auto simp: blk_holds_def Let_def)

subsection \<open>Enqueueing\<close>

lemma concat_at_end:
  "t < length xss \<Longrightarrow> \<forall>i. t < i \<and> i < length xss \<longrightarrow> xss ! i = [] \<Longrightarrow> concat (xss[t := xss ! t @ [x]]) = concat xss @ [x]"
proof (induction xss arbitrary: t)
  case Nil
  then show ?case by simp
next
  case (Cons ys xss)
  show ?case
  proof (cases t)
    case 0
    have "xss ! i = []" if "i < length xss" for i using Cons.prems(2) [rule_format, of "Suc i"] 0 that by simp
    then have "\<forall>zs \<in> set xss. zs = []" by (auto simp: in_set_conv_nth)
    then have none: "concat xss = []" by simp
    show ?thesis using 0 by (simp add: none)
  next
    case (Suc u)
    then have "\<forall>i. u < i \<and> i < length xss \<longrightarrow> xss ! i = []" using Cons.prems(2) by auto
    then show ?thesis using Cons.IH [of u] Cons.prems(1) Suc by simp
  qed
qed

lemma layout_put:
  assumes "layout q r xss t" "blocks q' = (blocks q)[r ! t := put x b]" "blk_holds b (xss ! t)"
    and "next_block b = next_block (blocks q ! (r ! t))" "(tail b + 1) mod Suc (sizeMask b) \<noteq> localFront b"
    and "frontBlock q' = frontBlock q" "tailBlock q' = tailBlock q" "largestBlockSize q' = largestBlockSize q"
  shows "queue_rel q' (concat xss @ [x])"
proof -
  note l = assms(1) [unfolded layout_def]
  have c: "cells q' r (xss[t := xss ! t @ [x]])"
    by (rule cells_update [OF _ _ holds_put [OF assms(3,5)] _ assms(2)]) (use l assms(4) in \<open>simp_all add: put_def\<close>)
  have len: "length xss = length r" using l by (simp add: cells_def)
  have "layout q' r (xss[t := xss ! t @ [x]]) t"
    unfolding layout_def using c l assms(6-8) len by (auto simp: nth_list_update)
  moreover have "concat (xss[t := xss ! t @ [x]]) = concat xss @ [x]"
    by (rule concat_at_end) (use l len in auto)
  ultimately show ?thesis unfolding queue_rel_def by metis
qed

lemma enqueue_ahead_run:
  assumes "layout q r xss t" "Suc t < length r"
  shows "\<exists>q'. enqueue_ahead (r ! Suc t) x q = Inr (True, q') \<and> queue_rel q' (concat xss @ [x])"
proof -
  note l = assms(1) [unfolded layout_def]
  have c: "cells q r xss" using l by blast
  let ?i = "r ! Suc t"
  let ?b = "(blocks q ! ?i)\<lparr>localFront := front (blocks q ! ?i)\<rparr>"
  have e: "xss ! Suc t = []" using l assms(2) by auto
  note blk = cells_block [OF c assms(2), unfolded e]
  have h: "blk_holds ?b []" by (rule holds_localFront [OF blk(2)])
  have ft: "front (blocks q ! ?i) = tail (blocks q ! ?i)" using holds_empty [OF blk(2)] by simp
  have room: "(tail ?b + 1) mod Suc (sizeMask ?b) \<noteq> localFront ?b"
  proof -
    obtain k where k: "1 \<le> k" "Suc (sizeMask ?b) = 2 ^ k" using h by (auto simp: blk_holds_def Let_def)
    then have "2 \<le> Suc (sizeMask ?b)" by (cases k) auto
    then have f: "front ?b < Suc (sizeMask ?b)" "0 < sizeMask ?b" "tail ?b = front ?b"
      using h ft by (auto simp: blk_holds_def Let_def)
    have "(front ?b + 1) mod Suc (sizeMask ?b) \<noteq> front ?b"
    proof
      assume "(front ?b + 1) mod Suc (sizeMask ?b) = front ?b"
      then have "(front ?b + 1) mod Suc (sizeMask ?b) = (front ?b + 0) mod Suc (sizeMask ?b)" using f(1) by simp
      then have "1 = (0::nat)" by (rule mod_offset_inj) (use f in auto)
      then show False by simp
    qed
    then show ?thesis using f(3) by simp
  qed
  let ?q = "q\<lparr>blocks := (blocks q)[?i := put x ?b], tailBlock := ?i\<rparr>"
  have run: "enqueue_ahead ?i x q = Inr (True, ?q)"
    using blk(1) ft holds_tail_slot [OF h]
    by (simp add: enqueue_ahead_def seq_Inr block_runs assert_that_def construct_run put_def)
  have "cells ?q r (xss[Suc t := [] @ [x]])"
    by (rule cells_update [OF c assms(2) holds_put [OF h room]]) (simp_all add: put_def)
  then have cc: "cells ?q r (xss[Suc t := [x]])" by simp
  have len: "length xss = length r" using blk(3) .
  have "layout ?q r (xss[Suc t := [x]]) (Suc t)"
    unfolding layout_def using cc l assms(2) len by (auto simp: nth_list_update le_Suc_eq)
  moreover have "concat (xss[Suc t := [x]]) = concat xss @ [x]"
  proof -
    have "concat (xss[Suc t := xss ! Suc t @ [x]]) = concat xss @ [x]"
      by (rule concat_at_end) (use l len assms(2) in auto)
    then show ?thesis using e by simp
  qed
  ultimately show ?thesis using run unfolding queue_rel_def by metis
qed

text \<open>A block behind the last one, which linked to the first.\<close>

lemma cells_append:
  assumes "cells q r xss" "Suc t = length r" "blk_holds nb ys" "next_block nb = r ! 0"
    and "blocks q' = (blocks q @ [nb])[r ! t := (blocks q ! (r ! t))\<lparr>next_block := length (blocks q)\<rparr>]"
  shows "cells q' (r @ [length (blocks q)]) (xss @ [ys])"
proof -
  let ?n = "length (blocks q)" and ?tb = "r ! t"
  have d: "distinct r" "set r = {..<?n}" "length xss = length r" using assms(1) by (auto simp: cells_def)
  have t: "t < length r" using assms(2) by simp
  note blk = cells_block [OF assms(1) t]
  have fresh: "?n \<notin> set r" using d(2) by simp
  have old: "blocks q' ! (r ! i) = (if i = t then (blocks q ! ?tb)\<lparr>next_block := ?n\<rparr> else blocks q ! (r ! i))" if "i < length r" for i
  proof (cases "i = t")
    case True
    then show ?thesis using blk(1) assms(5) by simp
  next
    case False
    then have "r ! t \<noteq> r ! i" using d(1) that t by (simp add: nth_eq_iff_index_eq)
    then show ?thesis using False cells_block(1) [OF assms(1) that] assms(5) by (simp add: nth_append)
  qed
  have new: "blocks q' ! ?n = nb" using assms(5) blk(1) by simp
  show ?thesis
    unfolding cells_def
  proof (intro conjI allI impI)
    show "distinct (r @ [?n])" using d(1) fresh by simp
    have "length (blocks q') = Suc ?n" using assms(5) by simp
    then show "set (r @ [?n]) = {..<length (blocks q')}" by (simp add: d(2) lessThan_Suc)
    show "length (xss @ [ys]) = length (r @ [?n])" using d(3) by simp
    fix i assume "i < length (r @ [?n])"
    then consider "i < length r" "i \<noteq> t" | "i = t" | "i = length r" using t assms(2) by fastforce
    then have "next_block (blocks q' ! ((r @ [?n]) ! i)) = (r @ [?n]) ! (Suc i mod length (r @ [?n])) \<and>
      blk_holds (blocks q' ! ((r @ [?n]) ! i)) ((xss @ [ys]) ! i)"
    proof cases
      case 1
      then have "Suc i < length r" using assms(2) by simp
      then show ?thesis using 1 old [OF 1(1)] cells_block(2,4) [OF assms(1) 1(1)] d(3) by (simp add: nth_append)
    next
      case 2
      then show ?thesis using old [OF t] t d(3) assms(2) holds_next [OF blk(2)] by (simp add: nth_append)
    next
      case 3
      have "(r @ [?n]) ! 0 = r ! 0" using t by (cases r) auto
      then show ?thesis using 3 new assms(3,4) d(3) by (simp add: nth_append)
    qed
    then show "next_block (blocks q' ! ((r @ [?n]) ! i)) = (r @ [?n]) ! (Suc i mod length (r @ [?n]))"
      "blk_holds (blocks q' ! ((r @ [?n]) ! i)) ((xss @ [ys]) ! i)" by blast+
  qed
qed

lemma holds_first:
  assumes "1 \<le> k"
  shows "blk_holds ((new_block (2 ^ k))\<lparr>slots := (slots (new_block (2 ^ k)))[0 := Some x], tail := 1, localTail := 1, next_block := n\<rparr>) [x]"
proof -
  have "1 < (2::nat) ^ k" by (rule one_less_power) (use assms in auto)
  then show ?thesis using assms
    by (intro holdsI [where k = k and t = 1 and a = 0]) (simp_all add: new_block_def)
qed

lemma enqueue_new_run:
  assumes "layout q r xss t" "Suc t = length r" "allocs q \<noteq> [] \<longrightarrow> hd (allocs q)"
  shows "\<exists>q'. enqueue_new (r ! t) x q = Inr (True, q') \<and> queue_rel q' (concat xss @ [x])"
proof -
  note l = assms(1) [unfolded layout_def]
  have c: "cells q r xss" using l by blast
  have d: "distinct r" "set r = {..<length (blocks q)}" "length xss = length r" using c by (auto simp: cells_def)
  have t: "t < length r" using assms(2) by simp
  note blk = cells_block [OF c t]
  let ?cap = "if largestBlockSize q \<ge> MAX_BLOCK_SIZE then largestBlockSize q else largestBlockSize q * 2"
  obtain k where k: "1 \<le> k" "?cap = 2 ^ k"
  proof -
    obtain k where k: "1 \<le> k" "largestBlockSize q = 2 ^ k" using l by blast
    show thesis
    proof (cases "largestBlockSize q \<ge> MAX_BLOCK_SIZE")
      case True
      show thesis by (rule that [OF k(1)]) (use True k(2) in simp)
    next
      case False
      show thesis by (rule that [of "Suc k"]) (use False k(2) in simp_all)
    qed
  qed
  let ?n = "length (blocks q)" and ?tb = "r ! t"
  let ?nb = "(new_block ?cap)\<lparr>slots := (slots (new_block ?cap))[0 := Some x], tail := 1, localTail := 1, next_block := r ! 0\<rparr>"
  let ?q = "q\<lparr>allocs := tl (allocs q), largestBlockSize := ?cap,
      blocks := ((blocks q) @ [?nb])[?tb := (blocks q ! ?tb)\<lparr>next_block := ?n\<rparr>], tailBlock := ?n\<rparr>"
  have nx: "next_block (blocks q ! ?tb) = r ! 0" using blk(4) assms(2) by simp
  have cap: "0 < ?cap" "Suc (?cap - 1) = ?cap" using k(2) by (simp_all del: if_split)
  have mk: "make_block ?cap q = Inr (Some ?n, q\<lparr>allocs := tl (allocs q), blocks := blocks q @ [new_block ?cap]\<rparr>)"
    using assms(3) by (auto simp: make_block_def split: list.splits bool.splits)
  have run: "enqueue_new ?tb x q = Inr (True, ?q)"
    using mk blk(1) nx cap
    by (simp add: enqueue_new_def seq_Inr block_runs construct_run assert_that_def new_block_def nth_append list_update_append Let_def
        del: if_split)
  have "blk_holds ?nb [x]" unfolding k(2) by (rule holds_first [OF k(1)])
  then have "cells ?q (r @ [?n]) (xss @ [[x]])" by (rule cells_append [OF c assms(2)]) simp_all
  then have "layout ?q (r @ [?n]) (xss @ [[x]]) (Suc t)"
    unfolding layout_def using l k assms(2) d(3) by (auto simp: nth_append le_Suc_eq simp del: if_split)
  then show ?thesis using run unfolding queue_rel_def by (intro exI [of _ ?q]) fastforce
qed

lemma layout_touch:
  assumes "layout q r xss t" "i < length r" "blk_holds b (xss ! i)" "next_block b = next_block (blocks q ! (r ! i))"
  shows "layout (q\<lparr>blocks := (blocks q)[r ! i := b]\<rparr>) r xss t"
proof -
  have c: "cells q r xss" using assms(1) by (simp add: layout_def)
  have "cells (q\<lparr>blocks := (blocks q)[r ! i := b]\<rparr>) r (xss[i := xss ! i])"
    by (rule cells_update [OF c assms(2,3,4)]) simp
  then show ?thesis using assms(1) by (simp add: layout_def)
qed

lemma no_room: "allocs q \<noteq> [] \<Longrightarrow> \<not> hd (allocs q) \<Longrightarrow> enqueue_new i x q = Inr (False, q\<lparr>allocs := tl (allocs q)\<rparr>)"
  by (cases "allocs q") (auto simp: enqueue_new_def make_block_def seq_Inr Let_def)

lemma layout_allocs: "layout q r xss t \<Longrightarrow> layout (q\<lparr>allocs := as\<rparr>) r xss t"
  by (simp add: layout_def cells_def)

lemma inner_enqueue_law:
  assumes "queue_rel q xs"
  shows "\<exists>q'. inner_enqueue can x q = Inr (True, q') \<and> queue_rel q' (xs @ [x]) \<or>
    inner_enqueue can x q = Inr (False, q') \<and> queue_rel q' xs \<and> \<not> (can \<and> (allocs q \<noteq> [] \<longrightarrow> hd (allocs q)))"
proof -
  obtain r xss t where l: "layout q r xss t" and xs: "xs = concat xss" using assms by (auto simp: queue_rel_def)
  note ll = l [unfolded layout_def]
  have c: "cells q r xss" and t: "t < length r" and tb: "tailBlock q = r ! t" and fb: "frontBlock q = r ! 0" using ll by blast+
  let ?i = "r ! t" let ?b = "blocks q ! ?i"
  note blk = cells_block [OF c t]
  note mask = holds_mask [OF blk(2)]
  let ?nt = "(tail ?b + 1) AND sizeMask ?b"
  show ?thesis
  proof (cases "?nt = localFront ?b")
    case False
    let ?q = "q\<lparr>blocks := (blocks q)[?i := put x ?b]\<rparr>"
    have "inner_enqueue can x q = Inr (True, ?q)"
      using enqueue_here_run [OF blk(1) holds_tail_slot [OF blk(2)], of x] False tb blk(1)
      by (simp add: inner_enqueue_def seq_Inr block_runs Let_def)
    moreover have "queue_rel ?q (concat xss @ [x])"
      by (rule layout_put [OF l _ blk(2)]) (use False mask in simp_all)
    ultimately show ?thesis using xs by blast
  next
    case True
    let ?c = "?b\<lparr>localFront := front ?b\<rparr>"
    let ?q = "q\<lparr>blocks := (blocks q)[?i := ?c]\<rparr>"
    have h: "blk_holds ?c (xss ! t)" by (rule holds_localFront [OF blk(2)])
    have at: "blocks ?q ! ?i = ?c" using blk(1) by simp
    have l1: "layout ?q r xss t" by (rule layout_touch [OF l t h]) simp
    have run: "inner_enqueue can x q = (if ?nt \<noteq> front ?b then enqueue_here ?i (tail ?b) ?nt x
       else seq (gets frontBlock) (\<lambda>fb. if next_block ?b \<noteq> fb then enqueue_ahead (next_block ?b) x
         else if can then enqueue_new ?i x else ret False)) ?q"
      using True tb blk(1) by (simp add: inner_enqueue_def seq_Inr block_runs Let_def)
    show ?thesis
    proof (cases "?nt = front ?b")
      case False
      let ?q' = "q\<lparr>blocks := (blocks q)[?i := put x ?c]\<rparr>"
      have "enqueue_here ?i (tail ?b) ?nt x ?q = Inr (True, ?q')"
        using enqueue_here_run [of ?i ?q x] blk(1) holds_tail_slot [OF blk(2)] at by simp
      moreover have "queue_rel ?q' (concat xss @ [x])"
        by (rule layout_put [OF l _ h]) (use False mask in simp_all)
      ultimately show ?thesis using run False xs by (intro exI [of _ ?q'] disjI1) simp
    next
      case full: True
      show ?thesis
      proof (cases "Suc t < length r")
        case True
        have ne: "r \<noteq> []" using t by auto
        have "next_block ?b = r ! Suc t" "r ! Suc t \<noteq> r ! 0"
          using blk(4) True c ne nth_eq_iff_index_eq [of r "Suc t" 0] by (auto simp: cells_def)
        then have "inner_enqueue can x q = enqueue_ahead (r ! Suc t) x ?q" using run full fb by simp
        then show ?thesis using enqueue_ahead_run [OF l1 True, of x] xs by auto
      next
        case False
        then have last: "Suc t = length r" using t by simp
        then have nx: "next_block ?b = r ! 0" using blk(4) by simp
        have r1: "inner_enqueue can x q = (if can then enqueue_new ?i x ?q else Inr (False, ?q))"
          using run full fb nx by simp
        have rel: "queue_rel ?q xs" "queue_rel (?q\<lparr>allocs := tl (allocs q)\<rparr>) xs"
          using l1 layout_allocs [OF l1] xs unfolding queue_rel_def by blast+
        show ?thesis
        proof (cases "can \<and> (allocs q \<noteq> [] \<longrightarrow> hd (allocs q))")
          case True
          then show ?thesis using enqueue_new_run [OF l1 last, of x] r1 xs by auto
        next
          case False
          then show ?thesis using r1 rel no_room [of ?q ?i x] by (cases can) auto
        qed
      qed
    qed
  qed
qed

subsection \<open>Dequeueing\<close>

lemma layout_rotate:
  assumes "layout q r xss t" "xss ! 0 = []" "0 < t" "blocks q' = blocks q" "frontBlock q' = r ! 1" "tailBlock q' = tailBlock q"
    and "largestBlockSize q' = largestBlockSize q"
  shows "layout q' (rotate1 r) (rotate1 xss) (t - 1)"
proof -
  note l = assms(1) [unfolded layout_def]
  have c: "cells q r xss" using l by blast
  have d: "distinct r" "set r = {..<length (blocks q)}" "length xss = length r" using c by (auto simp: cells_def)
  have n: "Suc t' < length r" if "t = Suc t'" for t' using l that by simp
  have len: "0 < length r" "t < length r" using l by auto
  have rot: "rotate1 r ! i = r ! (Suc i mod length r)" "rotate1 xss ! i = xss ! (Suc i mod length r)" if "i < length r" for i
    using that d(3) by (simp_all add: nth_rotate1)
  have cells': "cells q' (rotate1 r) (rotate1 xss)"
    unfolding cells_def
  proof (intro conjI allI impI)
    show "distinct (rotate1 r)" "set (rotate1 r) = {..<length (blocks q')}" "length (rotate1 xss) = length (rotate1 r)"
      using d assms(4) by simp_all
    fix i assume "i < length (rotate1 r)"
    then have i: "i < length r" by simp
    then have j: "Suc i mod length r < length r" using len by simp
    show "next_block (blocks q' ! (rotate1 r ! i)) = rotate1 r ! (Suc i mod length (rotate1 r))"
      "blk_holds (blocks q' ! (rotate1 r ! i)) (rotate1 xss ! i)"
      using cells_block(2,4) [OF c j] rot [OF i] rot [OF j] assms(4) by simp_all
  qed
  have nonempty: "rotate1 xss ! i \<noteq> []" if "0 < i" "i \<le> t - 1" for i
  proof -
    have "i < length r" "Suc i < length r" "Suc i \<le> t" using that len(2) assms(3) by linarith+
    then show ?thesis using l rot(2) [of i] by simp
  qed
  have empty: "rotate1 xss ! i = []" if "t - 1 < i" "i < length r" for i
  proof (cases "Suc i = length r")
    case True
    then show ?thesis using rot(2) [OF that(2)] assms(2) by simp
  next
    case False
    then show ?thesis using l rot(2) [OF that(2)] that assms(3) by auto
  qed
  have "rotate1 r ! 0 = r ! 1" "rotate1 r ! (t - 1) = r ! t" using rot(1) [of 0] rot(1) [of "t - 1"] len assms(3) by auto
  then show ?thesis unfolding layout_def using cells' nonempty empty l assms(3,5-7) by auto
qed

lemma concat_rotate: "xss ! 0 = [] \<Longrightarrow> concat (rotate1 xss) = concat xss"
  by (cases xss) auto

lemma concat_front: "xss \<noteq> [] \<Longrightarrow> xss ! 0 = y # ys \<Longrightarrow> concat xss = y # concat (xss[0 := ys])"
  by (cases xss) auto

text \<open>The search for the front element.\<close>

lemma front_place_law:
  assumes "layout q r xss t"
  shows "\<exists>q' b. layout q' r xss t \<and> allocs q' = allocs q \<and> b = blocks q' ! (r ! 0) \<and>
    ((\<exists>y ys. xss ! 0 = y # ys \<and> front b \<noteq> localTail b \<and> front_place q = Inr (Here (r ! 0) (front b), q')) \<or>
     (xss ! 0 = [] \<and> t = 0 \<and> front_place q = Inr (Nowhere, q')) \<or>
     (xss ! 0 = [] \<and> 0 < t \<and> front_place q = Inr (Ahead (r ! 1) (front (blocks q' ! (r ! 1))), q')))"
proof -
  note l = assms [unfolded layout_def]
  have c: "cells q r xss" and len: "0 < length r" "t < length r" and tb: "tailBlock q = r ! t" and fb: "frontBlock q = r ! 0"
    using l by auto
  let ?i = "r ! 0" let ?b = "blocks q ! ?i"
  note blk = cells_block [OF c len(1)]
  show ?thesis
  proof (cases "front ?b = localTail ?b")
    case False
    then obtain y ys where "xss ! 0 = y # ys" using holds_shadow blk(2) by (cases "xss ! 0") fastforce+
    then show ?thesis using False assms fb blk(1)
      by (intro exI [of _ q] exI [of _ ?b]) (simp add: front_place_def seq_Inr block_runs)
  next
    case True
    let ?c = "?b\<lparr>localTail := tail ?b\<rparr>"
    let ?q = "q\<lparr>blocks := (blocks q)[?i := ?c]\<rparr>"
    have l1: "layout ?q r xss t" by (rule layout_touch [OF assms len(1) holds_localTail [OF blk(2)]]) simp
    have at: "blocks ?q ! ?i = ?c" using blk(1) by simp
    show ?thesis
    proof (cases "xss ! 0")
      case (Cons y ys)
      then have "front ?b \<noteq> tail ?b" using holds_empty [OF blk(2)] by simp
      then show ?thesis using l1 Cons True fb blk(1) at
        by (intro exI [of _ ?q] exI [of _ ?c]) (simp add: front_place_def seq_Inr block_runs)
    next
      case Nil
      then have ft: "front ?b = tail ?b" using holds_empty [OF blk(2)] by simp
      show ?thesis
      proof (cases "t = 0")
        case True
        then show ?thesis using l1 Nil \<open>front ?b = localTail ?b\<close> ft fb tb blk(1)
          by (intro exI [of _ ?q] exI [of _ ?c]) (simp add: front_place_def seq_Inr block_runs)
      next
        case False
        then have one: "1 < length r" using len by simp
        have ne: "r ! 0 \<noteq> r ! t" using c False len by (simp add: cells_def nth_eq_iff_index_eq)
        have nx: "next_block ?b = r ! 1" using blk(4) one by simp
        have r1: "r ! 1 < length (blocks q)" using cells_block(1) [OF c one] .
        then show ?thesis using l1 Nil \<open>front ?b = localTail ?b\<close> ft fb tb blk(1) ne False nx
          by (intro exI [of _ ?q] exI [of _ ?c]) (simp add: front_place_def seq_Inr block_runs)
      qed
    qed
  qed
qed

lemma take_front:
  assumes "layout q r xss t" "xss ! 0 = y # ys" "front (blocks q ! (r ! 0)) \<noteq> localTail (blocks q ! (r ! 0))"
  shows "element_at (r ! 0) (front (blocks q ! (r ! 0))) q = Inr (y, q)"
    "\<exists>q'. take_from (r ! 0) (front (blocks q ! (r ! 0))) q = Inr (y, q') \<and> queue_rel q' (concat (xss[0 := ys]))"
proof -
  note l = assms(1) [unfolded layout_def]
  have c: "cells q r xss" and len: "0 < length r" using l by auto
  note blk = cells_block [OF c len, unfolded assms(2)]
  note h = holds_drop [OF blk(2) assms(3)]
  show "element_at (r ! 0) (front (blocks q ! (r ! 0))) q = Inr (y, q)"
    using blk(1) h(1,2) by (simp add: element_at_def seq_Inr block_runs)
  let ?q = "q\<lparr>blocks := (blocks q)[r ! 0 := drop_front (blocks q ! (r ! 0))]\<rparr>"
  have "cells ?q r (xss[0 := ys])"
    by (rule cells_update [OF c len h(3)]) (simp_all add: drop_front_def)
  then have "layout ?q r (xss[0 := ys]) t" using l unfolding layout_def by auto
  then have "queue_rel ?q (concat (xss[0 := ys]))" unfolding queue_rel_def by blast
  then show "\<exists>q'. take_from (r ! 0) (front (blocks q ! (r ! 0))) q = Inr (y, q') \<and> queue_rel q' (concat (xss[0 := ys]))"
    using take_from_run [OF blk(1) h(1,2)] by blast
qed

lemma advance_law:
  assumes "layout q r xss t" "xss ! 0 = []" "0 < t"
  shows "\<exists>q' y ys. advance_to (r ! 1) q = Inr ((), q') \<and> layout q' (rotate1 r) (rotate1 xss) (t - 1) \<and>
     rotate1 xss ! 0 = y # ys \<and> rotate1 r ! 0 = r ! 1 \<and> r ! 1 < length (blocks q) \<and>
     blocks q' ! (r ! 1) = (blocks q ! (r ! 1))\<lparr>localTail := tail (blocks q ! (r ! 1))\<rparr> \<and>
     front (blocks q ! (r ! 1)) \<noteq> tail (blocks q ! (r ! 1)) \<and> element_at (r ! 1) (front (blocks q ! (r ! 1))) q = Inr (y, q)"
proof -
  note l = assms(1) [unfolded layout_def]
  have c: "cells q r xss" and one: "1 < length r" using l assms(3) by auto
  note blk = cells_block [OF c one]
  have "xss ! 1 \<noteq> []" using l assms(3) by simp
  then obtain y ys where y: "xss ! 1 = y # ys" by (cases "xss ! 1") auto
  let ?b = "blocks q ! (r ! 1)"
  let ?c = "?b\<lparr>localTail := tail ?b\<rparr>"
  have ne: "front ?b \<noteq> tail ?b" using holds_empty [OF blk(2)] y by simp
  have h: "blk_holds ?c (xss ! 1)" by (rule holds_localTail [OF blk(2)])
  let ?q1 = "q\<lparr>blocks := (blocks q)[r ! 1 := ?c]\<rparr>"
  have l1: "layout ?q1 r xss t" by (rule layout_touch [OF assms(1) one h]) simp
  let ?q2 = "?q1\<lparr>frontBlock := r ! 1\<rparr>"
  have run: "advance_to (r ! 1) q = Inr ((), ?q2)"
    using blk(1) ne by (simp add: advance_to_def seq_Inr block_runs assert_that_def)
  have "layout ?q2 (rotate1 r) (rotate1 xss) (t - 1)"
    by (rule layout_rotate [OF l1 assms(2,3)]) simp_all
  moreover have "r \<noteq> []" "xss \<noteq> []" using one blk(3) by auto
  then have "rotate1 xss ! 0 = y # ys" "rotate1 r ! 0 = r ! 1"
    using y one blk(3) nth_rotate1 [of 0 xss] nth_rotate1 [of 0 r] by auto
  moreover have "element_at (r ! 1) (front ?b) q = Inr (y, q)"
    using holds_drop(1,2) [of ?c y ys] h ne y blk(1) by (simp add: element_at_def seq_Inr block_runs)
  ultimately show ?thesis using run blk(1) ne by (intro exI [of _ ?q2] exI [of _ y] exI [of _ ys]) simp
qed

lemma front_place_cases:
  assumes "queue_rel q xs"
  obtains (none) q1 where "xs = []" "front_place q = Inr (Nowhere, q1)" "queue_rel q1 xs"
  | (here) y ys i pos q1 q2 where "xs = y # ys" "front_place q = Inr (Here i pos, q1)" "queue_rel q1 xs"
      "element_at i pos q1 = Inr (y, q1)" "take_from i pos q1 = Inr (y, q2)" "queue_rel q2 ys"
  | (ahead) y ys i pos q1 b q2 q3 where "xs = y # ys" "front_place q = Inr (Ahead i pos, q1)" "queue_rel q1 xs"
      "get_block i q1 = Inr (b, q1)" "pos \<noteq> tail b" "element_at i pos q1 = Inr (y, q1)"
      "advance_to i q1 = Inr ((), q2)" "take_from i pos q2 = Inr (y, q3)" "queue_rel q3 ys"
proof -
  obtain r xss t where l: "layout q r xss t" and xs: "xs = concat xss" using assms by (auto simp: queue_rel_def)
  obtain q1 where l1: "layout q1 r xss t" and p:
    "(\<exists>y ys. xss ! 0 = y # ys \<and> front (blocks q1 ! (r ! 0)) \<noteq> localTail (blocks q1 ! (r ! 0)) \<and>
        front_place q = Inr (Here (r ! 0) (front (blocks q1 ! (r ! 0))), q1)) \<or>
     (xss ! 0 = [] \<and> t = 0 \<and> front_place q = Inr (Nowhere, q1)) \<or>
     (xss ! 0 = [] \<and> 0 < t \<and> front_place q = Inr (Ahead (r ! 1) (front (blocks q1 ! (r ! 1))), q1))"
    using front_place_law [OF l] by blast
  have rel: "queue_rel q1 xs" using l1 xs by (auto simp: queue_rel_def)
  have len: "length xss = length r" "t < length r" using l1 by (auto simp: layout_def cells_def)
  from p show thesis
  proof (elim disjE exE conjE)
    fix y ys assume y: "xss ! 0 = y # ys" "front (blocks q1 ! (r ! 0)) \<noteq> localTail (blocks q1 ! (r ! 0))"
      "front_place q = Inr (Here (r ! 0) (front (blocks q1 ! (r ! 0))), q1)"
    note tf = take_front [OF l1 y(1,2)]
    have "xs = y # concat (xss[0 := ys])" unfolding xs by (rule concat_front [OF _ y(1)]) (use len in auto)
    then show thesis using here y(3) rel tf by blast
  next
    assume e: "xss ! 0 = []" "t = 0" "front_place q = Inr (Nowhere, q1)"
    have "xss ! i = []" if "i < length xss" for i using l1 e(1,2) that len(1) by (cases i) (auto simp: layout_def)
    then have "xs = []" unfolding xs by (auto simp: in_set_conv_nth)
    then show thesis using none e(3) rel by blast
  next
    assume e: "xss ! 0 = []" "0 < t" "front_place q = Inr (Ahead (r ! 1) (front (blocks q1 ! (r ! 1))), q1)"
    obtain q2 y ys where a: "advance_to (r ! 1) q1 = Inr ((), q2)" "layout q2 (rotate1 r) (rotate1 xss) (t - 1)"
      "rotate1 xss ! 0 = y # ys" "rotate1 r ! 0 = r ! 1" "r ! 1 < length (blocks q1)"
      "blocks q2 ! (r ! 1) = (blocks q1 ! (r ! 1))\<lparr>localTail := tail (blocks q1 ! (r ! 1))\<rparr>"
      "front (blocks q1 ! (r ! 1)) \<noteq> tail (blocks q1 ! (r ! 1))"
      "element_at (r ! 1) (front (blocks q1 ! (r ! 1))) q1 = Inr (y, q1)"
      using advance_law [OF l1 e(1,2)] by blast
    obtain q3 where q3: "take_from (r ! 1) (front (blocks q1 ! (r ! 1))) q2 = Inr (y, q3)" "queue_rel q3 (concat ((rotate1 xss)[0 := ys]))"
      using take_front(2) [OF a(2,3)] a(4,6,7) by auto
    have "concat (rotate1 xss) = y # concat ((rotate1 xss)[0 := ys])"
      by (rule concat_front [OF _ a(3)]) (use len in auto)
    then have "xs = y # concat ((rotate1 xss)[0 := ys])" using concat_rotate [OF e(1)] xs by simp
    then show thesis using ahead [OF _ e(3) rel block_runs(1) [OF a(5)] a(7,8,1) q3] by blast
  qed
qed

lemma try_dequeue_law:
  assumes "queue_rel q xs"
  shows "\<exists>q'. try_dequeue q = Inr (case xs of [] \<Rightarrow> None | y # _ \<Rightarrow> Some y, q') \<and> queue_rel q' (tl xs)"
  using assms
proof (cases rule: front_place_cases)
  case none
  then show ?thesis by (auto simp: try_dequeue_def seq_Inr)
next
  case here
  then show ?thesis by (auto simp: try_dequeue_def seq_Inr)
next
  case ahead
  then show ?thesis by (auto simp: try_dequeue_def seq_Inr)
qed

lemma pop_law:
  assumes "queue_rel q xs"
  shows "\<exists>q'. pop q = Inr (xs \<noteq> [], q') \<and> queue_rel q' (tl xs)"
  using assms
proof (cases rule: front_place_cases)
  case none
  then show ?thesis by (auto simp: pop_def seq_Inr)
next
  case here
  then show ?thesis by (auto simp: pop_def seq_Inr)
next
  case ahead
  then show ?thesis by (auto simp: pop_def seq_Inr)
qed

lemma peek_law:
  assumes "queue_rel q xs"
  shows "\<exists>q'. peek q = Inr (case xs of [] \<Rightarrow> None | y # _ \<Rightarrow> Some y, q') \<and> queue_rel q' xs"
  using assms
proof (cases rule: front_place_cases)
  case none
  then show ?thesis by (auto simp: peek_def seq_Inr)
next
  case here
  then show ?thesis by (auto simp: peek_def seq_Inr)
next
  case ahead
  then show ?thesis by (auto simp: peek_def seq_Inr assert_that_def)
qed

subsection \<open>Counting\<close>

lemma size_loop_run:
  assumes "cells q r xss" "i < length r" "length r - i \<le> f"
  shows "size_loop f (r ! 0) (r ! i) acc q = Inr (acc + length (concat (drop i xss)), q)"
  using assms(2,3)
proof (induction f arbitrary: i acc)
  case 0
  then show ?case by simp
next
  case (Suc f)
  note blk = cells_block [OF assms(1) Suc.prems(1)]
  have here: "drop i xss = xss ! i # drop (Suc i) xss" using Suc.prems(1) blk(3) by (simp add: Cons_nth_drop_Suc)
  show ?case
  proof (cases "Suc i = length r")
    case True
    then show ?thesis using blk holds_count [OF blk(2)] here by (simp add: seq_Inr block_runs Let_def)
  next
    case False
    then have j: "Suc i < length r" using Suc.prems(1) by simp
    have "r \<noteq> []" using j by auto
    then have "r ! Suc i \<noteq> r ! 0" using assms(1) j nth_eq_iff_index_eq [of r "Suc i" 0] by (auto simp: cells_def)
    then show ?thesis using blk holds_count [OF blk(2)] here Suc.IH [OF j, of "acc + length (xss ! i)"] Suc.prems(2) j
      by (simp add: seq_Inr block_runs Let_def)
  qed
qed

lemma size_approx_law:
  assumes "queue_rel q xs"
  shows "size_approx q = Inr (length xs, q)"
proof -
  obtain r xss t where l: "layout q r xss t" and xs: "xs = concat xss" using assms by (auto simp: queue_rel_def)
  have c: "cells q r xss" and len: "0 < length r" and fb: "frontBlock q = r ! 0" using l by (auto simp: layout_def)
  have "length (blocks q) = length r"
    using c distinct_card [of r] by (auto simp: cells_def)
  then show ?thesis using size_loop_run [OF c len, of "length r" 0] fb xs by (simp add: size_approx_def)
qed

subsection \<open>Rounding up to a power of two\<close>

lemma smear:
  fixes x y :: u64
  assumes "\<And>n. bit y n \<longleftrightarrow> (\<exists>k < m. bit x (n + k))"
  shows "bit (y OR drop_bit m y) n \<longleftrightarrow> (\<exists>k < 2 * m. bit x (n + k))"
proof
  assume "bit (y OR drop_bit m y) n"
  then consider k where "k < m" "bit x (n + k)" | k where "k < m" "bit x (m + n + k)"
    by (auto simp: bit_or_iff bit_drop_bit_eq assms)
  then show "\<exists>k < 2 * m. bit x (n + k)"
  proof cases
    case (1 k)
    then show ?thesis by (intro exI [of _ k]) simp
  next
    case (2 k)
    then show ?thesis by (intro exI [of _ "m + k"]) (simp add: ac_simps)
  qed
next
  assume "\<exists>k < 2 * m. bit x (n + k)"
  then obtain k where k: "k < 2 * m" "bit x (n + k)" by blast
  show "bit (y OR drop_bit m y) n"
  proof (cases "k < m")
    case True
    then show ?thesis using k by (auto simp: bit_or_iff assms)
  next
    case False
    then have "k - m < m" "bit x (m + n + (k - m))" using k by (simp_all add: ac_simps)
    then show ?thesis by (auto simp: bit_or_iff bit_drop_bit_eq assms)
  qed
qed

lemma ceil_power:
  assumes "1 \<le> x" "x \<le> 2 ^ 63"
  obtains k where "unat (ceilToPow2 (of_nat x)) = 2 ^ k" "x \<le> 2 ^ k" "\<And>j. x \<le> 2 ^ j \<Longrightarrow> k \<le> j" "k \<le> 63"
proof -
  define y :: u64 where "y = of_nat x - 1"
  have y: "unat y = x - 1"
    using assms by (simp add: y_def unat_sub_if' unat_of_nat_small word_le_nat_alt)
  define s where "s = ceilToPow2 (of_nat x) - 1"
  have s: "bit s n \<longleftrightarrow> (\<exists>k < 64. bit y (n + k))" for n
  proof -
    have 0: "bit y n \<longleftrightarrow> (\<exists>k < 1. bit y (n + k))" for n by simp
    note 1 = smear [OF 0]
    note 2 = smear [OF 1] note 3 = smear [OF 2] note 4 = smear [OF 3] note 5 = smear [OF 4] note 6 = smear [OF 5]
    show ?thesis using 6 [of n] by (simp add: s_def ceilToPow2_def Let_def y_def)
  qed
  show thesis
  proof (cases "x = 1")
    case True
    then have "y = 0" by (simp add: y_def)
    then have "s = 0" using s by (intro bit_word_eqI) simp
    then have "ceilToPow2 (of_nat x) = 1" by (simp add: s_def)
    then show thesis using that [of 0] True by simp
  next
    case False
    then have "1 \<le> x - 1" using assms(1) by simp
    then obtain m where m: "2 ^ m \<le> x - 1" "x - 1 < 2 ^ (m + 1)" using ex_power_ivl1 [of 2 "x - 1"] by auto
    have bity: "bit y i \<longleftrightarrow> odd ((x - 1) div 2 ^ i)" for i
    proof -
      have "bit y i \<longleftrightarrow> bit (unat y) i" by (simp add: bit_unsigned_iff)
      then show ?thesis unfolding y by (simp only: bit_iff_odd)
    qed
    have top: "bit y m"
    proof -
      have "(x - 1) div 2 ^ m = 1" by (rule div_nat_eqI) (use m in simp_all)
      then show ?thesis by (simp add: bity)
    qed
    have above: "\<not> bit y i" if "m < i" for i
    proof -
      have "(2::nat) ^ (m + 1) \<le> 2 ^ i" using that by (intro power_increasing) auto
      then have "(x - 1) div 2 ^ i = 0" using m(2) by (intro div_less) linarith
      then show ?thesis by (simp add: bity)
    qed
    have m62: "m \<le> 62"
    proof (rule ccontr)
      assume "\<not> m \<le> 62"
      then have "(2::nat) ^ 63 \<le> 2 ^ m" by (intro power_increasing) auto
      then show False using m(1) assms by linarith
    qed
    have "bit s n \<longleftrightarrow> bit (mask (m + 1) :: u64) n" if "n < 64" for n
    proof -
      have "bit s n \<longleftrightarrow> n \<le> m"
      proof
        assume "bit s n"
        then obtain k where "bit y (n + k)" using s by blast
        then show "n \<le> m" using above [of "n + k"] by (cases "m < n + k") auto
      next
        assume "n \<le> m"
        then have "bit y (n + (m - n))" "m - n < 64" using top m62 by simp_all
        then show "bit s n" using s by blast
      qed
      then show ?thesis using that by (auto simp: bit_mask_iff)
    qed
    then have "s = mask (m + 1)" by (intro bit_word_eqI) simp
    then have c: "ceilToPow2 (of_nat x) = 2 ^ (m + 1)" by (simp add: s_def mask_eq_exp_minus_1 diff_eq_eq)
    have "(2::nat) ^ (m + 1) < 2 ^ 64" using m62 by (intro power_strict_increasing) auto
    then have "unat (of_nat (2 ^ (m + 1)) :: u64) = 2 ^ (m + 1)" by (intro unat_of_nat_small) simp
    then have "unat (2 ^ (m + 1) :: u64) = 2 ^ (m + 1)" by simp
    then show thesis
    proof (intro that [of "m + 1"])
      show "x \<le> 2 ^ (m + 1)" using m(2) by linarith
      fix j assume j: "x \<le> 2 ^ j"
      show "m + 1 \<le> j"
      proof (rule ccontr)
        assume "\<not> m + 1 \<le> j"
        then have "(2::nat) ^ j \<le> 2 ^ m" by (intro power_increasing) auto
        then show False using m(1) j assms(1) by linarith
      qed
    qed (use c m62 in simp_all)
  qed
qed

subsection \<open>A new queue\<close>

lemma make_block_run:
  assumes "False \<notin> set (allocs q)"
  shows "make_block c q = Inr (Some (length (blocks q)), q\<lparr>allocs := tl (allocs q), blocks := blocks q @ [new_block c]\<rparr>)"
  using assms by (cases "allocs q") (auto simp: make_block_def split: bool.splits)

lemma block_512: "blk_holds (new_block MAX_BLOCK_SIZE) []"
  using holds_new [of 9] by (simp add: MAX_BLOCK_SIZE_def)

lemma set_tl: "x \<notin> set xs \<Longrightarrow> x \<notin> set (tl xs)"
  by (cases xs) auto

lemma add_blocks_run:
  assumes "cells q [0..<Suc m] (replicate (Suc m) [])" "False \<notin> set (allocs q)"
  shows "\<exists>q'. add_blocks 0 (Some m) n q = Inr (0, q') \<and> cells q' [0..<Suc (m + n)] (replicate (Suc (m + n)) [])"
  using assms
proof (induction n arbitrary: q m)
  case 0
  then show ?case by auto
next
  case (Suc n)
  have len: "length (blocks q) = Suc m"
  proof -
    have "{..<length (blocks q)} = set [0..<Suc m]" using Suc.prems(1) unfolding cells_def by blast
    then have "{..<length (blocks q)} = {..<Suc m}" by (simp only: set_upt atLeast0LessThan)
    then show ?thesis by (simp only: lessThan_eq_iff)
  qed
  let ?nb = "(new_block MAX_BLOCK_SIZE)\<lparr>next_block := 0\<rparr>"
  let ?q = "q\<lparr>allocs := tl (allocs q), blocks := (blocks q @ [?nb])[m := (blocks q ! m)\<lparr>next_block := Suc m\<rparr>]\<rparr>"
  have up: "((blocks q @ [new_block MAX_BLOCK_SIZE])[m := (blocks q ! m)\<lparr>next_block := Suc m\<rparr>])[Suc m := ?nb] =
      (blocks q @ [?nb])[m := (blocks q ! m)\<lparr>next_block := Suc m\<rparr>]"
    using len by (simp add: list_update_append)
  have "add_blocks 0 (Some m) (Suc n) q = add_blocks 0 (Some (Suc m)) n ?q"
    using make_block_run [OF Suc.prems(2), of MAX_BLOCK_SIZE] len up
    by (simp add: seq_Inr block_runs nth_append Let_def)
  moreover have "cells ?q ([0..<Suc m] @ [length (blocks q)]) (replicate (Suc m) [] @ [[]])"
    by (rule cells_append [OF Suc.prems(1), of m ?nb]) (use len holds_next [OF block_512] in \<open>simp_all del: upt_Suc add: nth_append\<close>)
  then have "cells ?q [0..<Suc (Suc m)] (replicate (Suc (Suc m)) [])"
    using len by (simp add: replicate_append_same)
  ultimately show ?case using Suc.IH [of ?q "Suc m"] set_tl [OF Suc.prems(2)] by simp
qed

lemma ReaderWriterQueue_law:
  fixes q :: "'a rwq"
  assumes "blocks q = []" "False \<notin> set (allocs q)" "0 < n" "n < 2 ^ 63"
  shows "\<exists>q'. ReaderWriterQueue n q = Inr ((), q') \<and> queue_rel q' []"
proof -
  obtain k where k: "unat (ceilToPow2 (of_nat (n + 1))) = 2 ^ k" "n + 1 \<le> 2 ^ k"
    using ceil_power [of "n + 1"] assms(3,4) by (metis Suc_eq_plus1 Suc_leI le_add2)
  have k1: "1 \<le> k" using k(2) assms(3) by (cases k) auto
  have one: "cells (q1\<lparr>blocks := [(new_block c)\<lparr>next_block := 0\<rparr>]\<rparr>) [0] [[]]" if "blk_holds (new_block c :: 'a block) []" for c and q1 :: "'a rwq"
    using holds_next [OF that] by (simp add: cells_def lessThan_Suc)
  show ?thesis
  proof (cases "2 ^ k > MAX_BLOCK_SIZE * 2")
    case False
    let ?q = "q\<lparr>allocs := tl (allocs q), blocks := [(new_block (2 ^ k))\<lparr>next_block := 0\<rparr>], largestBlockSize := 2 ^ k, frontBlock := 0, tailBlock := 0\<rparr>"
    have "ReaderWriterQueue n q = Inr ((), ?q)"
      using make_block_run [OF assms(2), of "2 ^ k"] assms(1,3) k(1) False
      by (simp add: ReaderWriterQueue_def assert_that_def seq_Inr block_runs Let_def)
    moreover have "cells ?q [0] [[]]" using cells_cong [OF one [OF holds_new [OF k1], of q], of ?q] by simp
    then have "layout ?q [0] [[]] 0" using k1 by (auto simp: layout_def)
    then have "queue_rel ?q []" unfolding queue_rel_def by (metis concat.simps append_Nil)
    ultimately show ?thesis by blast
  next
    case True
    have "0 < (n + MAX_BLOCK_SIZE * 2 - 3) div (MAX_BLOCK_SIZE - 1)"
      using assms(3) by (simp add: MAX_BLOCK_SIZE_def div_greater_zero_iff)
    then obtain j where j: "(n + MAX_BLOCK_SIZE * 2 - 3) div (MAX_BLOCK_SIZE - 1) = Suc j" by (auto dest: gr0_implies_Suc)
    let ?q1 = "q\<lparr>allocs := tl (allocs q), blocks := [(new_block MAX_BLOCK_SIZE)\<lparr>next_block := 0\<rparr>]\<rparr>"
    have first: "add_blocks 0 None (Suc j) q = add_blocks 0 (Some 0) j ?q1"
      using make_block_run [OF assms(2), of MAX_BLOCK_SIZE] assms(1) by (simp add: seq_Inr block_runs Let_def)
    have "cells ?q1 [0..<Suc 0] (replicate (Suc 0) [])" using one [OF block_512, of "q\<lparr>allocs := tl (allocs q)\<rparr>"] by simp
    from add_blocks_run [OF this, of j] obtain q2 where q2: "add_blocks 0 (Some 0) j ?q1 = Inr (0, q2)"
      "cells q2 [0..<Suc j] (replicate (Suc j) [])" using set_tl [OF assms(2)] by auto
    let ?q = "q2\<lparr>largestBlockSize := MAX_BLOCK_SIZE, frontBlock := 0, tailBlock := 0\<rparr>"
    have "ReaderWriterQueue n q = Inr ((), ?q)"
      using assms(3) k(1) True j first q2(1)
      by (simp add: ReaderWriterQueue_def assert_that_def seq_Inr Let_def del: add_blocks.simps)
    moreover have "layout ?q [0..<Suc j] (replicate (Suc j) []) 0"
      unfolding layout_def using cells_cong [OF q2(2), of ?q]
      by (auto simp: MAX_BLOCK_SIZE_def nth_append intro!: exI [of _ 9] simp del: upt_Suc)
    then have "queue_rel ?q []" unfolding queue_rel_def by (metis concat_replicate_trivial)
    ultimately show ?thesis by blast
  qed
qed

subsection \<open>The interface: a queue\<close>

text \<open>A run of operations: \<open>Some x\<close> enqueues \<open>x\<close>, \<open>None\<close> dequeues; what was accepted and what came out.\<close>

fun operate :: "('a \<Rightarrow> ('q, bool) prog) \<Rightarrow> ('q, 'a option) prog \<Rightarrow> 'a option list \<Rightarrow> ('q, 'a list \<times> 'a list) prog" where
  "operate enq deq [] = ret ([], [])"
| "operate enq deq (Some x # ops) = seq (enq x) (\<lambda>b.
     seq (operate enq deq ops) (\<lambda>(ins, outs). ret (if b then x # ins else ins, outs)))"
| "operate enq deq (None # ops) = seq deq (\<lambda>y.
     seq (operate enq deq ops) (\<lambda>(ins, outs). ret (ins, case y of None \<Rightarrow> outs | Some y \<Rightarrow> y # outs)))"

locale fifo =
  fixes rel :: "'q \<Rightarrow> 'a list \<Rightarrow> bool"
    and enq :: "'a \<Rightarrow> ('q, bool) prog"
    and deq :: "('q, 'a option) prog"
  assumes enq_law: "rel q xs \<Longrightarrow> \<exists>b q'. enq x q = Inr (b, q') \<and> rel q' (if b then xs @ [x] else xs)"
    and deq_law: "rel q xs \<Longrightarrow> \<exists>q'. deq q = Inr (case xs of [] \<Rightarrow> None | y # _ \<Rightarrow> Some y, q') \<and> rel q' (tl xs)"
begin

lemma in_order_out:
  assumes "rel q xs"
  shows "\<exists>ins outs q' ys. operate enq deq ops q = Inr ((ins, outs), q') \<and> rel q' ys \<and> xs @ ins = outs @ ys"
  using assms
proof (induction ops arbitrary: q xs)
  case Nil
  then show ?case by auto
next
  case (Cons op ops)
  show ?case
  proof (cases op)
    case (Some x)
    obtain b q1 where b: "enq x q = Inr (b, q1)" "rel q1 (if b then xs @ [x] else xs)" using enq_law [OF Cons.prems] by blast
    obtain ins outs q' ys where r: "operate enq deq ops q1 = Inr ((ins, outs), q')" "rel q' ys" "(if b then xs @ [x] else xs) @ ins = outs @ ys"
      using Cons.IH [OF b(2)] by blast
    show ?thesis using Some b(1) r by (auto simp: seq_Inr intro!: exI [of _ ys])
  next
    case None
    obtain q1 where d: "deq q = Inr (case xs of [] \<Rightarrow> None | y # _ \<Rightarrow> Some y, q1)" "rel q1 (tl xs)" using deq_law [OF Cons.prems] by blast
    obtain ins outs q' ys where r: "operate enq deq ops q1 = Inr ((ins, outs), q')" "rel q' ys" "tl xs @ ins = outs @ ys"
      using Cons.IH [OF d(2)] by blast
    show ?thesis using None d(1) r by (cases xs) (auto simp: seq_Inr intro!: exI [of _ ys])
  qed
qed

end

text \<open>A queue that never refuses an element.\<close>

locale lossless_fifo = fifo +
  assumes enq_accepts: "rel q xs \<Longrightarrow> \<exists>q'. enq x q = Inr (True, q')"
begin

lemma all_accepted:
  assumes "rel q xs" "operate enq deq ops q = Inr ((ins, outs), q')"
  shows "ins = map the (filter (\<lambda>op. op \<noteq> None) ops)"
  using assms
proof (induction ops arbitrary: q xs ins outs q')
  case (Cons op ops)
  show ?case
  proof (cases op)
    case (Some x)
    obtain q1 where q1: "enq x q = Inr (True, q1)" using enq_accepts [OF Cons.prems(1)] by blast
    with enq_law [OF Cons.prems(1), of x] have q2: "rel q1 (xs @ [x])" by auto
    obtain ys os where "operate enq deq ops q1 = Inr ((ys, os), q')" "ins = x # ys"
      using Cons.prems(2) Some q1 by (auto simp: seq_def split: sum.splits)
    then show ?thesis using Cons.IH [OF q2] Some by simp
  next
    case None
    obtain y q1 where q1: "deq q = Inr (y, q1)" "rel q1 (tl xs)" using deq_law [OF Cons.prems(1)] by blast
    then obtain os where "operate enq deq ops q1 = Inr ((ins, os), q')"
      using Cons.prems(2) None by (auto simp: seq_def split: sum.splits)
    then show ?thesis using Cons.IH [OF q1(2)] None by simp
  qed
qed simp

end

text \<open>No operation makes an allocation fail that would not.\<close>

definition plenty :: "'a rwq \<Rightarrow> 'a rwq \<Rightarrow> bool" where
  "plenty q q' \<longleftrightarrow> (allocs q = [] \<longrightarrow> allocs q' = [])"

interpretation plenty: frame_rel plenty
  by unfold_locales (auto simp: plenty_def)

lemma plenty_prims:
  "keeps plenty (get_block i)" "keeps plenty (upd_block i f)" "keeps plenty (make_block c)" "keeps plenty (assert_that b)"
  "keeps plenty (construct i j x)" "keeps plenty (element_at i j)" "keeps plenty (destroy i j)"
  "keeps plenty (modify (\<lambda>q. q\<lparr>tailBlock := j\<rparr>))" "keeps plenty (modify (\<lambda>q. q\<lparr>frontBlock := j\<rparr>))"
  "keeps plenty (modify (\<lambda>q. q\<lparr>largestBlockSize := j\<rparr>))"
proof -
  show g: "keeps plenty (get_block i)" for i by (simp add: keeps_def get_block_def plenty_def)
  show u: "keeps plenty (upd_block i f)" for i f
    unfolding upd_block_def by (intro plenty.keeps_rules g) (simp add: keeps_def plenty_def)
  show "keeps plenty (make_block c)"
    by (auto simp: keeps_def make_block_def plenty_def split: list.splits bool.splits)
  show "keeps plenty (assert_that b)" by (simp add: assert_that_def plenty.keeps_rules)
  show "keeps plenty (construct i j x)" "keeps plenty (element_at i j)" "keeps plenty (destroy i j)"
    unfolding construct_def element_at_def destroy_def by (intro plenty.keeps_rules g u)+
qed (simp_all add: keeps_def plenty_def)

lemma enqueue_plenty: "keeps plenty (enqueue x)"
  unfolding enqueue_def inner_enqueue_def enqueue_here_def enqueue_ahead_def enqueue_new_def Let_def
  by (intro plenty.keeps_rules plenty_prims)

lemma new_queue_plenty: "keeps plenty (ReaderWriterQueue n)"
proof -
  have a: "keeps plenty (add_blocks first lst k)" for first lst k
  proof (induction k arbitrary: first lst)
    case (Suc k)
    then show ?case by (auto simp: Let_def intro!: plenty.keeps_rules plenty_prims)
  qed (simp add: plenty.keeps_rules)
  have m: "keeps plenty (modify (\<lambda>q. q\<lparr>largestBlockSize := i, frontBlock := j, tailBlock := k\<rparr>))" for i j k
    by (simp add: keeps_def plenty_def)
  show ?thesis unfolding ReaderWriterQueue_def Let_def by (intro plenty.keeps_rules plenty_prims a m)
qed

lemma dequeue_plenty: "keeps plenty try_dequeue"
proof -
  have p: "keeps plenty (case pl of Nowhere \<Rightarrow> m | Here i j \<Rightarrow> f i j | Ahead i j \<Rightarrow> g i j)"
    if "keeps plenty m" "\<And>i j. keeps plenty (f i j)" "\<And>i j. keeps plenty (g i j)" for pl m f g
    using that by (cases pl) auto
  show ?thesis
    unfolding try_dequeue_def front_place_def take_from_def advance_to_def
    by (intro plenty.keeps_rules plenty_prims p)
qed

interpretation rwq: fifo queue_rel enqueue try_dequeue
proof
  fix q :: "'a rwq" and xs and x :: 'a
  assume "queue_rel q xs"
  then show "\<exists>b q'. enqueue x q = Inr (b, q') \<and> queue_rel q' (if b then xs @ [x] else xs)"
    using inner_enqueue_law [of q xs True x] by (auto simp: enqueue_def)
  show "\<exists>q'. try_dequeue q = Inr (case xs of [] \<Rightarrow> None | y # _ \<Rightarrow> Some y, q') \<and> queue_rel q' (tl xs)"
    by (rule try_dequeue_law) fact
qed

interpretation rwq_plenty: lossless_fifo "\<lambda>q xs. queue_rel q xs \<and> allocs q = []" enqueue try_dequeue
proof
  fix q :: "'a rwq" and xs and x :: 'a
  assume q: "queue_rel q xs \<and> allocs q = []"
  obtain b q' where e: "enqueue x q = Inr (b, q')" "queue_rel q' (if b then xs @ [x] else xs)"
    using rwq.enq_law [of q xs x] q by (elim conjE) blast
  have "allocs q' = []" using keepsD [OF enqueue_plenty e(1)] q by (simp add: plenty_def)
  with e show "\<exists>b q'. enqueue x q = Inr (b, q') \<and> queue_rel q' (if b then xs @ [x] else xs) \<and> allocs q' = []"
    by (intro exI [of _ b] exI [of _ q'] conjI)
  obtain q1 where d: "try_dequeue q = Inr (case xs of [] \<Rightarrow> None | y # _ \<Rightarrow> Some y, q1)" "queue_rel q1 (tl xs)"
    using rwq.deq_law [of q xs] q by (elim conjE) blast
  have "allocs q1 = []" using keepsD [OF dequeue_plenty d(1)] q by (simp add: plenty_def)
  with d show "\<exists>q'. try_dequeue q = Inr (case xs of [] \<Rightarrow> None | y # _ \<Rightarrow> Some y, q') \<and> queue_rel q' (tl xs) \<and> allocs q' = []"
    by (intro exI [of _ q1] conjI)
  show "\<exists>q'. enqueue x q = Inr (True, q')"
    using inner_enqueue_law [of q xs True x] q by (auto simp: enqueue_def)
qed

text \<open>
  C31: The block queue is a queue. From a new one, for any number of elements it was made for (whether that
  takes one block or several), any run of \<open>enqueue\<close> and \<open>try_dequeue\<close> executes without error: no slot
  without an object is read, no block is mistaken for another, no assertion fails; if no allocation fails, every element is accepted. What comes out is what
  went in, in order and without loss; what is left is what \<open>size_approx\<close> counts, its first element is what
  \<open>peek\<close> shows, and \<open>pop\<close> removes it.
\<close>

theorem queue_is_fifo:
  assumes "blocks q0 = []" "False \<notin> set (allocs q0)" "0 < n" "n < 2 ^ 63"
  shows "\<exists>q ins outs q' ys. ReaderWriterQueue n q0 = Inr ((), q) \<and>
    operate enqueue try_dequeue ops q = Inr ((ins, outs), q') \<and> ins = outs @ ys \<and>
    (allocs q0 = [] \<longrightarrow> ins = map the (filter (\<lambda>op. op \<noteq> None) ops)) \<and>
    size_approx q' = Inr (length ys, q') \<and>
    (\<exists>q''. peek q' = Inr (case ys of [] \<Rightarrow> None | y # _ \<Rightarrow> Some y, q'')) \<and>
    (\<exists>q'' q3. pop q' = Inr (ys \<noteq> [], q'') \<and> size_approx q'' = Inr (length (tl ys), q3))"
proof -
  obtain q where q: "ReaderWriterQueue n q0 = Inr ((), q)" "queue_rel q []"
    using ReaderWriterQueue_law [OF assms] by blast
  obtain ins outs q' ys where r: "operate enqueue try_dequeue ops q = Inr ((ins, outs), q')" "queue_rel q' ys" "ins = outs @ ys"
    using rwq.in_order_out [OF q(2), of ops] by auto
  have all: "allocs q0 = [] \<longrightarrow> ins = map the (filter (\<lambda>op. op \<noteq> None) ops)"
    using keepsD [OF new_queue_plenty q(1)] rwq_plenty.all_accepted [OF _ r(1)] q(2) by (auto simp: plenty_def)
  obtain q'' where q'': "pop q' = Inr (ys \<noteq> [], q'')" "queue_rel q'' (tl ys)" using pop_law [OF r(2)] by blast
  obtain q3 where "size_approx q'' = Inr (length (tl ys), q3)" using size_approx_law [OF q''(2)] by blast
  moreover obtain p where "peek q' = Inr (case ys of [] \<Rightarrow> None | y # _ \<Rightarrow> Some y, p)" using peek_law [OF r(2)] by blast
  ultimately show ?thesis using q(1) r all q''(1) size_approx_law [OF r(2)]
    by (intro exI [of _ q] exI [of _ ins] exI [of _ outs] exI [of _ q'] exI [of _ ys]) blast
qed

theorem queue_is_fifo_witness:
  "\<exists>q ins outs q' ys. ReaderWriterQueue 1 \<lparr>blocks = [], frontBlock = 0, tailBlock = 0, largestBlockSize = 0, allocs = []\<rparr> = Inr ((), q) \<and>
    operate enqueue try_dequeue [Some CHR ''a'', Some CHR ''b'', Some CHR ''c'', None, Some CHR ''d''] q = Inr ((ins, outs), q') \<and>
    ins = outs @ ys \<and> ins = ''abcd''"
proof -
  let ?q0 = "\<lparr>blocks = [], frontBlock = 0, tailBlock = 0, largestBlockSize = 0, allocs = []\<rparr>"
  let ?ops = "[Some CHR ''a'', Some CHR ''b'', Some CHR ''c'', None, Some CHR ''d'']"
  have a: "blocks ?q0 = []" "False \<notin> set (allocs ?q0)" "(0::nat) < 1" "(1::nat) < 2 ^ 63" by simp_all
  from queue_is_fifo [OF a, of ?ops] show ?thesis
    by (elim exE conjE, intro exI conjI) (assumption | simp only: select_convs simp_thms filter.simps list.map option.sel option.distinct if_True if_False)+
qed

end
