(* ===== verification/Rw_Destroy.thy ===== *)
theory Rw_Destroy
  imports Rw_Spec
begin

text \<open>
  The destructor of the queue in readerwriterqueue.h: from the front block on, it destroys the elements of each block
  from \<open>front\<close> to \<open>tail\<close> and frees the block, until it is back at the block it began with. Both loops carry fuel:
  a block has fewer elements than slots, and there are as many rounds as blocks. The result lists the elements that
  were destroyed and the blocks that were freed; a block that was freed must not be touched again.
\<close>

fun destroy_elements :: "nat \<Rightarrow> nat \<Rightarrow> nat \<Rightarrow> nat \<Rightarrow> 'a list \<Rightarrow> ('a, 'a list) qact" where
  "destroy_elements 0 b i blockTail acc = stop OutOfFuel"
| "destroy_elements (Suc f) b i blockTail acc =
     (if i = blockTail then ret acc
      else seq (element_at b i) (\<lambda>x.
        seq (destroy b i) (\<lambda>_.
        seq (get_block b) (\<lambda>k.
        destroy_elements f b ((i + 1) AND sizeMask k) blockTail (acc @ [x])))))"

fun destroy_blocks :: "nat \<Rightarrow> nat \<Rightarrow> nat \<Rightarrow> nat list \<Rightarrow> 'a list \<Rightarrow> ('a, 'a list \<times> nat list) qact" where
  "destroy_blocks 0 start b freed acc = stop OutOfFuel"
| "destroy_blocks (Suc f) start b freed acc =
     (if b \<in> set freed then stop UseAfterFree
      else seq (get_block b) (\<lambda>k.
        seq (destroy_elements (length (slots k)) b (front k) (tail k) []) (\<lambda>xs.
        if next_block k = start then ret (acc @ xs, freed @ [b])
        else destroy_blocks f start (next_block k) (freed @ [b]) (acc @ xs))))"

definition destroy_queue :: "('a, 'a list \<times> nat list) qact" where
  "destroy_queue = seq (gets (\<lambda>q. length (blocks q))) (\<lambda>n. seq (gets frontBlock) (\<lambda>fb. destroy_blocks n fb fb [] []))"

subsection \<open>One block\<close>

lemma destroy_elements_run:
  fixes xs :: "'a list"
  assumes "blk_holds k xs" "j \<le> length xs" "length xs - j < f" "b < length (blocks q)"
    and "blocks q ! b = k\<lparr>slots := s\<rparr>" "length s = length (slots k)"
    and "\<forall>i. j \<le> i \<and> i < length xs \<longrightarrow> s ! ((front k + i) mod Suc (sizeMask k)) = Some (xs ! i)"
  shows "\<exists>s'. destroy_elements f b ((front k + j) mod Suc (sizeMask k)) (tail k) acc q =
    Inr (acc @ drop j xs, q\<lparr>blocks := (blocks q)[b := k\<lparr>slots := s'\<rparr>]\<rparr>)"
  using assms(2-7)
proof (induction f arbitrary: j q s acc)
  case 0
  then show ?case by simp
next
  case (Suc f)
  let ?c = "Suc (sizeMask k)" and ?pos = "(front k + j) mod Suc (sizeMask k)"
  have wf: "length xs < ?c" "tail k = (front k + length xs) mod ?c" "length (slots k) = ?c"
    using assms(1) by (auto simp: blk_holds_def Let_def)
  show ?case
  proof (cases "j = length xs")
    case True
    have "q\<lparr>blocks := (blocks q)[b := k\<lparr>slots := s\<rparr>]\<rparr> = q" using Suc.prems(4) list_update_id [of "blocks q" b] by simp
    then show ?thesis using True wf(2) by (intro exI [of _ s]) simp
  next
    case False
    then have j: "j < length xs" using Suc.prems(1) by simp
    have ne: "?pos \<noteq> tail k" using mod_offset_inj [of "front k" j ?c "length xs"] j wf(1,2) by auto
    have pos: "?pos < length s" using wf(3) Suc.prems(5) by simp
    have x: "s ! ?pos = Some (xs ! j)" using Suc.prems(6) j by simp
    let ?q = "q\<lparr>blocks := (blocks q)[b := k\<lparr>slots := s[?pos := None]\<rparr>]\<rparr>"
    have step: "destroy_elements (Suc f) b ?pos (tail k) acc q =
        destroy_elements f b ((?pos + 1) AND sizeMask k) (tail k) (acc @ [xs ! j]) ?q"
      using ne pos x Suc.prems(3,4) by (simp add: element_at_def destroy_def seq_Inr block_runs)
    have nxt: "(?pos + 1) AND sizeMask k = (front k + Suc j) mod ?c"
      using holds_mask [OF assms(1), of "?pos + 1"] by (simp add: mod_Suc_eq)
    have keep: "\<forall>i. Suc j \<le> i \<and> i < length xs \<longrightarrow> s[?pos := None] ! ((front k + i) mod ?c) = Some (xs ! i)"
    proof (intro allI impI)
      fix i
      assume i: "Suc j \<le> i \<and> i < length xs"
      have "(front k + i) mod ?c \<noteq> ?pos" using mod_offset_inj [of "front k" i ?c j] i j wf(1) by auto
      then show "s[?pos := None] ! ((front k + i) mod ?c) = Some (xs ! i)" using Suc.prems(6) i by simp
    qed
    obtain s' where "destroy_elements f b ((front k + Suc j) mod ?c) (tail k) (acc @ [xs ! j]) ?q =
        Inr ((acc @ [xs ! j]) @ drop (Suc j) xs, ?q\<lparr>blocks := (blocks ?q)[b := k\<lparr>slots := s'\<rparr>]\<rparr>)"
    proof -
      have "Suc j \<le> length xs" "length xs - Suc j < f" "b < length (blocks ?q)" "blocks ?q ! b = k\<lparr>slots := s[?pos := None]\<rparr>"
        "length (s[?pos := None]) = length (slots k)" using j Suc.prems(2,3,5) by auto
      from Suc.IH [OF this keep, of "acc @ [xs ! j]"] show ?thesis using that by blast
    qed
    then show ?thesis using step nxt j by (intro exI [of _ s']) (simp add: Cons_nth_drop_Suc)
  qed
qed

subsection \<open>All blocks\<close>

lemma destroy_blocks_run:
  assumes "cells q r xss" "i < length r" "length r - i \<le> f"
    and "length (blocks p) = length (blocks q)" "\<forall>j. i \<le> j \<and> j < length r \<longrightarrow> blocks p ! (r ! j) = blocks q ! (r ! j)"
  shows "\<exists>p'. destroy_blocks f (r ! 0) (r ! i) (take i r) (concat (take i xss)) p = Inr ((concat xss, r), p')"
  using assms(2-5)
proof (induction f arbitrary: i p)
  case 0
  then show ?case by simp
next
  case (Suc f)
  note blk = cells_block [OF assms(1) Suc.prems(1)]
  let ?k = "blocks q ! (r ! i)"
  have d: "distinct r" using assms(1) by (simp add: cells_def)
  have fresh: "r ! i \<notin> set (take i r)" using d Suc.prems(1) by (simp add: distinct_conv_nth in_set_conv_nth)
  have wf: "length (xss ! i) < length (slots ?k)" "front ?k mod Suc (sizeMask ?k) = front ?k"
    "\<forall>j. 0 \<le> j \<and> j < length (xss ! i) \<longrightarrow> slots ?k ! ((front ?k + j) mod Suc (sizeMask ?k)) = Some (xss ! i ! j)"
    using blk(2) by (auto simp: blk_holds_def Let_def)
  have p: "blocks p ! (r ! i) = ?k" "r ! i < length (blocks p)" using Suc.prems blk(1) by auto
  obtain s' where el: "destroy_elements (length (slots ?k)) (r ! i) (front ?k) (tail ?k) [] p =
      Inr (xss ! i, p\<lparr>blocks := (blocks p)[r ! i := ?k\<lparr>slots := s'\<rparr>]\<rparr>)"
    using destroy_elements_run [OF blk(2), of 0 "length (slots ?k)" "r ! i" p "slots ?k" "[]"] wf p by auto
  let ?p = "p\<lparr>blocks := (blocks p)[r ! i := ?k\<lparr>slots := s'\<rparr>]\<rparr>"
  have xs: "take (Suc i) xss = take i xss @ [xss ! i]" "take (Suc i) r = take i r @ [r ! i]"
    using Suc.prems(1) blk(3) by (simp_all add: take_Suc_conv_app_nth)
  show ?case
  proof (cases "Suc i = length r")
    case True
    then have "concat xss = concat (take i xss) @ xss ! i" "r = take i r @ [r ! i]"
      using xs blk(3) by (simp_all flip: concat_append) (metis concat_append concat.simps append_Nil2 take_all order_refl)
    moreover have "next_block ?k = r ! 0" using blk(4) True by simp
    ultimately show ?thesis using fresh p el by (simp add: seq_Inr block_runs)
  next
    case False
    then have j: "Suc i < length r" using Suc.prems(1) by simp
    have nx: "next_block ?k = r ! Suc i" using blk(4) j by simp
    have "r \<noteq> []" using j by auto
    then have "r ! Suc i \<noteq> r ! 0" using d j nth_eq_iff_index_eq [of r "Suc i" 0] by auto
    then have step: "destroy_blocks (Suc f) (r ! 0) (r ! i) (take i r) (concat (take i xss)) p =
        destroy_blocks f (r ! 0) (r ! Suc i) (take (Suc i) r) (concat (take (Suc i) xss)) ?p"
      using fresh p el nx by (simp add: seq_Inr block_runs xs)
    have same: "\<forall>l. Suc i \<le> l \<and> l < length r \<longrightarrow> blocks ?p ! (r ! l) = blocks q ! (r ! l)"
    proof (intro allI impI)
      fix l
      assume l: "Suc i \<le> l \<and> l < length r"
      then have "r ! l \<noteq> r ! i" using d Suc.prems(1) by (simp add: nth_eq_iff_index_eq)
      then show "blocks ?p ! (r ! l) = blocks q ! (r ! l)" using Suc.prems(4) l by simp
    qed
    show ?thesis unfolding step by (rule Suc.IH [OF j]) (use Suc.prems(2,3) same in auto)
  qed
qed

lemma destroy_queue_law:
  assumes "queue_rel q xs"
  shows "\<exists>freed q'. destroy_queue q = Inr ((xs, freed), q') \<and> distinct freed \<and> set freed = {..<length (blocks q)}"
proof -
  obtain r xss t where l: "layout q r xss t" and xs: "xs = concat xss" using assms by (auto simp: queue_rel_def)
  have c: "cells q r xss" and n: "0 < length r" and fb: "frontBlock q = r ! 0" using l by (auto simp: layout_def)
  have r: "distinct r" "set r = {..<length (blocks q)}" using c by (auto simp: cells_def)
  then have len: "length (blocks q) = length r" using distinct_card [of r] by simp
  obtain p' where "destroy_blocks (length r) (r ! 0) (r ! 0) [] [] q = Inr ((concat xss, r), p')"
    using destroy_blocks_run [OF c n, of "length r" q] by auto
  then show ?thesis using r fb len xs by (intro exI [of _ r] exI [of _ p']) (simp add: destroy_queue_def)
qed

text \<open>
  C32: destroying a queue after any run of \<open>enqueue\<close> and \<open>try_dequeue\<close> destroys exactly the elements that are still
  in it, each once and in order, and frees every block exactly once; it touches no freed block and no empty slot.
\<close>

theorem queue_destroyed:
  assumes "blocks q0 = []" "False \<notin> set (allocs q0)" "0 < n" "n < 2 ^ 63"
  shows "\<exists>q ins outs q' ys freed q''. ReaderWriterQueue n q0 = Inr ((), q) \<and>
    operate enqueue try_dequeue ops q = Inr ((ins, outs), q') \<and> ins = outs @ ys \<and>
    destroy_queue q' = Inr ((ys, freed), q'') \<and> distinct freed \<and> set freed = {..<length (blocks q')}"
proof -
  obtain q where q: "ReaderWriterQueue n q0 = Inr ((), q)" "queue_rel q []"
    using ReaderWriterQueue_law [OF assms] by blast
  obtain ins outs q' ys where "operate enqueue try_dequeue ops q = Inr ((ins, outs), q')" "queue_rel q' ys" "ins = outs @ ys"
    using rwq.in_order_out [OF q(2), of ops] by auto
  with q(1) destroy_queue_law [OF this(2)] show ?thesis by blast
qed

theorem queue_destroyed_witness:
  "\<exists>q ins outs q' ys freed q''. ReaderWriterQueue 1 \<lparr>blocks = [], frontBlock = 0, tailBlock = 0, largestBlockSize = 0, allocs = []\<rparr> = Inr ((), q) \<and>
    operate enqueue try_dequeue [Some CHR ''a'', Some CHR ''b'', None] q = Inr ((ins, outs), q') \<and> ins = outs @ ys \<and>
    destroy_queue q' = Inr ((ys, freed), q'') \<and> distinct freed \<and> set freed = {..<length (blocks q')}"
  by (rule queue_destroyed) simp_all

end
