(* ===== verification/Preflight.thy ===== *)
theory Preflight
  imports Usb_Mce
begin

text \<open>
  The preflight worker of preflight.cpp: a thread started for every new device, which talks to the
  lockdown daemon of the device and makes the device visible to the clients once the device trusts this host.

  What libimobiledevice answers is read from scripts, one per kind of call (an exhausted script goes on with
  success); the calls that decide about trust are also logged, in order. While the worker waits for the user,
  other threads run: the notification proxy delivers notifications to \<open>np_callback\<close>, and the main thread may do
  anything to the daemon, such as removing the device. Both are given by a script with an entry per wait.
\<close>

subsection \<open>The worker's state\<close>

datatype lockdownd_error =
  LOCKDOWN_E_SUCCESS | LOCKDOWN_E_INVALID_HOST_ID | LOCKDOWN_E_SSL_ERROR | LOCKDOWN_E_USER_DENIED_PAIRING
  | LOCKDOWN_E_PASSWORD_PROTECTED | LOCKDOWN_E_MUX_ERROR | LOCKDOWN_E_OTHER

datatype event =
  TypeIs string | SessionStarted lockdownd_error | PairTried lockdownd_error | TrustNotified | Shown

text \<open>
  \<open>struct cb_data\<close> lives on the worker's stack: its address is \<open>cb_addr\<close>, \<open>cb_np\<close> says whether its \<open>np\<close> is
  set, and its flag \<open>is_device_connected\<close> is cleared when the address is in \<open>preflight_gone\<close> of the daemon.
\<close>

record preflight =
  cb_addr :: ptr
  cb_np :: bool
  version_major :: int
  is_paired_signal :: bool
  ld_open :: "ptr list"
  np_open :: bool
  ld_new :: "lockdownd_error list"
  ld_types :: "string option list"
  ld_validations :: "lockdownd_error list"
  ld_sessions :: "lockdownd_error list"
  ld_pairs :: "lockdownd_error list"
  ld_services :: "lockdownd_error list"
  ld_versions :: "(lockdownd_error \<times> string option) list"
  ld_setups :: "bool option list"
  np_news :: "bool list"
  meantime :: "(string list \<times> unit act) list"
  untrusted_buids :: "string list"
  events :: "event list"
  pf_world :: world

type_synonym 'a pact = "(preflight, 'a) prog"

definition on_world :: "'a act \<Rightarrow> 'a pact" where
  "on_world m s = (case m (pf_world s) of Inl h \<Rightarrow> Inl h | Inr (x, w) \<Rightarrow> Inr (x, s\<lparr>pf_world := w\<rparr>))"

definition log_event :: "event \<Rightarrow> unit pact" where
  "log_event e = modify (\<lambda>s. s\<lparr>events := events s @ [e]\<rparr>)"

definition ask :: "(preflight \<Rightarrow> 'a list) \<Rightarrow> (('a list \<Rightarrow> 'a list) \<Rightarrow> preflight \<Rightarrow> preflight) \<Rightarrow> 'a \<Rightarrow> 'a pact" where
  "ask script upd dflt s = Inr (next_or dflt (script s), upd tl s)"

subsection \<open>libimobiledevice\<close>

text \<open>A call through a null client is refused.\<close>

definition lockdownd_client_new :: "(lockdownd_error \<times> ptr option) pact" where
  "lockdownd_client_new = seq (ask ld_new ld_new_update LOCKDOWN_E_SUCCESS) (\<lambda>e.
     if e = LOCKDOWN_E_SUCCESS
     then seq (on_world new_ptr) (\<lambda>c. seq (modify (\<lambda>s. s\<lparr>ld_open := c # ld_open s\<rparr>)) (\<lambda>_. ret (e, Some c)))
     else ret (e, None))"

definition lockdownd_client_free :: "ptr option \<Rightarrow> unit pact" where
  "lockdownd_client_free c = (case c of
       None \<Rightarrow> ret ()
     | Some c \<Rightarrow> seq (gets ld_open) (\<lambda>cs.
         if c \<in> set cs then modify (\<lambda>s. s\<lparr>ld_open := remove1 c (ld_open s)\<rparr>) else stop DoubleFree))"

definition lockdownd_query_type :: "string option pact" where
  "lockdownd_query_type = seq (ask ld_types ld_types_update None) (\<lambda>t.
     case t of None \<Rightarrow> ret None | Some t \<Rightarrow> seq (log_event (TypeIs t)) (\<lambda>_. ret (Some t)))"

definition lockdownd_start_session :: "string option \<Rightarrow> lockdownd_error pact" where
  "lockdownd_start_session host_id = seq (ask ld_sessions ld_sessions_update LOCKDOWN_E_SUCCESS) (\<lambda>e.
     seq (log_event (SessionStarted e)) (\<lambda>_. ret e))"

definition lockdownd_pair :: "ptr option \<Rightarrow> lockdownd_error pact" where
  "lockdownd_pair c =
     (if c = None then ret LOCKDOWN_E_OTHER
      else seq (ask ld_pairs ld_pairs_update LOCKDOWN_E_SUCCESS) (\<lambda>e. seq (log_event (PairTried e)) (\<lambda>_. ret e)))"

subsection \<open>Notifications\<close>

definition lockdownd_set_untrusted_host_buid :: "unit pact" where
  "lockdownd_set_untrusted_host_buid = seq (on_world (in_conf config_get_system_buid)) (\<lambda>buid.
     modify (\<lambda>s. s\<lparr>untrusted_buids := untrusted_buids s @ [buid]\<rparr>))"

definition IOS_8_SIGNAL_IS_PAIRED :: "unit pact" where
  "IOS_8_SIGNAL_IS_PAIRED = seq (gets version_major) (\<lambda>v.
     whenM (8 \<le> v) (modify (\<lambda>s. s\<lparr>is_paired_signal := True\<rparr>)))"

definition np_callback :: "string \<Rightarrow> unit pact" where
  "np_callback notification =
     (if notification = [] then modify (\<lambda>s. s\<lparr>cb_np := False\<rparr>)
      else if notification = ''com.apple.mobile.lockdown.request_pair''
      then seq (log_event TrustNotified) (\<lambda>_. seq lockdownd_client_new (\<lambda>r.
           if snd r = None then IOS_8_SIGNAL_IS_PAIRED
           else seq (lockdownd_pair (snd r)) (\<lambda>_. seq (lockdownd_client_free (snd r)) (\<lambda>_. IOS_8_SIGNAL_IS_PAIRED))))
      else if notification = ''com.apple.mobile.lockdown.request_host_buid''
      then seq lockdownd_client_new (\<lambda>r.
           if snd r = None then ret ()
           else seq lockdownd_set_untrusted_host_buid (\<lambda>_. lockdownd_client_free (snd r)))
      else ret ())"

definition itunes_setup_has_completed :: "bool pact" where
  "itunes_setup_has_completed = seq (ask ld_setups ld_setups_update None) (\<lambda>v. ret (v = Some True))"

text \<open>One second of waiting: what the other threads do in it.\<close>

definition other_threads :: "unit pact" where
  "other_threads = seq (ask meantime meantime_update ([], ret ())) (\<lambda>m.
     seq (for_list (fst m) np_callback) (\<lambda>_. on_world (snd m)))"

definition is_device_connected :: "bool pact" where
  "is_device_connected = gets (\<lambda>s. cb_addr s \<notin> set (preflight_gone (pf_world s)))"

subsection \<open>The start of the session\<close>

definition show_device :: "device_info \<Rightarrow> unit pact" where
  "show_device info = seq (log_event Shown) (\<lambda>_. on_world (client_device_add info))"

text \<open>What the first part ends with: the worker leaves, starts again, or goes on with a client.\<close>

datatype stage = Leave "ptr option" | Retry | Continue ptr bool

text \<open>The switch over the error of the validation or of the session.\<close>

definition after_error :: "string \<Rightarrow> ptr \<Rightarrow> lockdownd_error \<Rightarrow> stage pact" where
  "after_error udid c e = (case e of
       LOCKDOWN_E_INVALID_HOST_ID \<Rightarrow> ret (Continue c False)
     | LOCKDOWN_E_SSL_ERROR \<Rightarrow> seq (on_world (in_conf (config_remove_device_record udid))) (\<lambda>r.
         if r = 0 then seq (lockdownd_client_free (Some c)) (\<lambda>_. ret Retry) else ret (Continue c False))
     | _ \<Rightarrow> ret (Continue c True))"

definition validate_record :: "string \<Rightarrow> lockdownd_error pact" where
  "validate_record udid = seq (on_world (in_conf config_has_local_config)) (\<lambda>local.
     if local then ask ld_validations ld_validations_update LOCKDOWN_E_SUCCESS
     else seq (on_world (in_conf (config_has_device_record (Some udid)))) (\<lambda>has.
       ret (if has then LOCKDOWN_E_SUCCESS else LOCKDOWN_E_INVALID_HOST_ID)))"

definition start_with_record :: "string \<Rightarrow> device_info \<Rightarrow> ptr \<Rightarrow> stage pact" where
  "start_with_record udid info c = seq (validate_record udid) (\<lambda>e.
     if e = LOCKDOWN_E_SUCCESS
     then seq (on_world (in_conf (config_device_record_get_host_id udid))) (\<lambda>host_id.
          seq (lockdownd_start_session host_id) (\<lambda>e.
          if e = LOCKDOWN_E_SUCCESS then seq (show_device info) (\<lambda>_. ret (Leave (Some c)))
          else after_error udid c e))
     else seq (on_world (in_conf (config_has_device_record (Some udid)))) (\<lambda>has.
          seq (if has then on_world (in_conf (config_remove_device_record udid)) else ret 0) (\<lambda>_.
          after_error udid c e)))"

definition first_contact :: "string \<Rightarrow> device_info \<Rightarrow> stage pact" where
  "first_contact udid info = seq lockdownd_client_new (\<lambda>r.
     case snd r of
       None \<Rightarrow> ret (Leave None)
     | Some c \<Rightarrow> seq lockdownd_query_type (\<lambda>t.
         case t of
           None \<Rightarrow> ret (Leave (Some c))
         | Some t \<Rightarrow> if t \<noteq> ''com.apple.mobile.lockdown''
             then seq (show_device info) (\<lambda>_. ret (Leave (Some c)))
             else start_with_record udid info c))"

text \<open>The label \<open>retry\<close>. It may be reached again as long as there is a record to remove, hence the fuel.\<close>

fun contact :: "nat \<Rightarrow> string \<Rightarrow> device_info \<Rightarrow> stage pact" where
  "contact 0 udid info = stop OutOfFuel"
| "contact (Suc n) udid info = seq (first_contact udid info) (\<lambda>st.
     case st of Retry \<Rightarrow> contact n udid info | _ \<Rightarrow> ret st)"

subsection \<open>The product version\<close>

text \<open>Major and minor number; without a dot, \<open>strchr\<close> returns a null pointer and what follows reads behind it.\<close>

definition parse_version :: "string \<Rightarrow> (int \<times> int) pact" where
  "parse_version v = (case dropWhile (\<lambda>c. c \<noteq> CHR ''.'') v of
       [] \<Rightarrow> stop NullDeref
     | _ # minor \<Rightarrow> ret (strtol10 v, strtol10 minor))"

subsection \<open>iOS 7 and later\<close>

definition set_monitoring :: "device_info \<Rightarrow> device_monitor_state \<Rightarrow> int pact" where
  "set_monitoring info m = on_world (usb_set_device_monitoring (di_location info) m)"

text \<open>The first attempt to pair; the result tells whether preflight stops here, and how pairing ended.\<close>

definition trigger_pairing :: "device_info \<Rightarrow> ptr \<Rightarrow> int \<Rightarrow> int \<Rightarrow> (bool \<times> lockdownd_error) pact" where
  "trigger_pairing info c major minor = seq (lockdownd_pair (Some c)) (\<lambda>e.
     if e = LOCKDOWN_E_SUCCESS then seq (show_device info) (\<lambda>_. ret (True, e))
     else if e = LOCKDOWN_E_USER_DENIED_PAIRING
     then seq (on_world (client_device_user_denied_pairing info)) (\<lambda>_. ret (True, e))
     else if e = LOCKDOWN_E_PASSWORD_PROTECTED \<and> major \<le> 7 \<and> minor < 1
     then seq itunes_setup_has_completed (\<lambda>completed.
          if completed then ret (False, e)
          else seq (on_world (client_device_password_protected info)) (\<lambda>_. ret (True, e)))
     else ret (False, e))"

definition LOCKDOWN_RECREATION_ATTEMPTS :: int where "LOCKDOWN_RECREATION_ATTEMPTS = 3"

text \<open>What a round does with the answer of the device; \<open>again\<close> is the next round.\<close>

definition poll_answer ::
    "(int \<Rightarrow> ptr option \<Rightarrow> ptr option pact) \<Rightarrow> device_info \<Rightarrow> int \<Rightarrow> ptr option \<Rightarrow> lockdownd_error \<Rightarrow> ptr option pact" where
  "poll_answer again info attempts c e =
     (if e = LOCKDOWN_E_USER_DENIED_PAIRING
      then seq (on_world (client_device_user_denied_pairing info)) (\<lambda>_.
           seq (set_monitoring info DEVICE_MONITOR_DISABLE) (\<lambda>_. ret c))
      else if e = LOCKDOWN_E_MUX_ERROR
      then seq (lockdownd_client_free c) (\<lambda>_. seq lockdownd_client_new (\<lambda>r. again (attempts - 1) (snd r)))
      else if e = LOCKDOWN_E_SUCCESS then seq IOS_8_SIGNAL_IS_PAIRED (\<lambda>_. again attempts c)
      else again attempts c)"

text \<open>
  The loop that waits for the user's answer, polling the device once a second. It goes on for as long as
  the device stays connected and gives neither answer, hence the fuel. The result is the client that is
  still open.
\<close>

fun wait_for_trust :: "nat \<Rightarrow> device_info \<Rightarrow> int \<Rightarrow> ptr option \<Rightarrow> ptr option pact" where
  "wait_for_trust n info attempts c = seq is_device_connected (\<lambda>conn. seq (gets cb_np) (\<lambda>np. seq (gets is_paired_signal) (\<lambda>paired.
     if \<not> (np \<and> conn \<and> \<not> paired \<and> attempts \<ge> 0) then ret c
     else (case n of
       0 \<Rightarrow> stop OutOfFuel
     | Suc n \<Rightarrow> seq other_threads (\<lambda>_. seq (gets (\<lambda>s. 8 \<le> version_major s \<and> is_paired_signal s)) (\<lambda>paired.
         if paired then ret c
         else seq (lockdownd_pair c) (poll_answer (\<lambda>k c. wait_for_trust n info k c) info attempts c)))))))"

declare wait_for_trust.simps [simp del]

definition end_of_wait :: "device_info \<Rightarrow> unit pact" where
  "end_of_wait info =
     seq (on_world (device_set_preflight_cb_data (di_id info) None)) (\<lambda>_.
     seq (gets cb_np) (\<lambda>np.
     seq (whenM np (modify (\<lambda>s. s\<lparr>np_open := False\<rparr>))) (\<lambda>_.
     seq (gets (\<lambda>s. 8 \<le> version_major s \<and> is_paired_signal s)) (\<lambda>paired.
     if paired then seq (show_device info) (\<lambda>_. seq (set_monitoring info DEVICE_MONITOR_DISABLE) (\<lambda>_. ret ()))
     else ret ()))))"

text \<open>The label \<open>leave\<close> frees the client that is still open, which is the result of what follows.\<close>

definition await_trust :: "nat \<Rightarrow> device_info \<Rightarrow> ptr \<Rightarrow> int \<Rightarrow> ptr option pact" where
  "await_trust n info c major =
     seq (ask np_news np_news_update True) (\<lambda>np.
     seq (modify (\<lambda>s. s\<lparr>np_open := np\<rparr>)) (\<lambda>_.
     seq (on_world (client_device_trust_pending info)) (\<lambda>_.
     seq (on_world new_ptr) (\<lambda>addr.
     seq (modify (\<lambda>s. s\<lparr>cb_addr := addr, cb_np := np, version_major := major, is_paired_signal := False\<rparr>)) (\<lambda>_.
     seq (on_world api_ok) (\<lambda>created.
     if \<not> created then ret (Some c)
     else
       seq (on_world (device_set_preflight_cb_data (di_id info) (Some addr))) (\<lambda>_.
       seq (wait_for_trust n info LOCKDOWN_RECREATION_ATTEMPTS (Some c)) (\<lambda>c.
       seq (lockdownd_client_free c) (\<lambda>_.
       seq (end_of_wait info) (\<lambda>_. ret None))))))))))"

definition watch_device :: "nat \<Rightarrow> device_info \<Rightarrow> ptr \<Rightarrow> int \<Rightarrow> lockdownd_error \<Rightarrow> ptr option pact" where
  "watch_device n info c major pair_err = seq (ask ld_services ld_services_update LOCKDOWN_E_SUCCESS) (\<lambda>e.
     if e = LOCKDOWN_E_SUCCESS then await_trust n info c major
     else seq (on_world (if pair_err = LOCKDOWN_E_PASSWORD_PROTECTED then client_device_password_protected info else ret ())) (\<lambda>_.
          seq (set_monitoring info DEVICE_MONITOR_DISABLE) (\<lambda>_. ret (Some c))))"

definition preflight_ios7 :: "nat \<Rightarrow> device_info \<Rightarrow> ptr \<Rightarrow> bool \<Rightarrow> int \<Rightarrow> int \<Rightarrow> ptr option pact" where
  "preflight_ios7 n info c is_device_paired major minor =
     seq (if major = 7 then set_monitoring info DEVICE_MONITOR_ONCE else ret 0) (\<lambda>r.
     if r < 0 then ret (Some c)
     else seq lockdownd_set_untrusted_host_buid (\<lambda>_.
       if is_device_paired then watch_device n info c major LOCKDOWN_E_SUCCESS
       else seq (trigger_pairing info c major minor) (\<lambda>p.
         if fst p then ret (Some c) else watch_device n info c major (snd p))))"

subsection \<open>iOS 6 and earlier\<close>

definition preflight_ios6 :: "string \<Rightarrow> device_info \<Rightarrow> ptr \<Rightarrow> ptr option pact" where
  "preflight_ios6 udid info c = seq (lockdownd_pair (Some c)) (\<lambda>e.
     if e \<noteq> LOCKDOWN_E_SUCCESS
     then seq (on_world (if e = LOCKDOWN_E_PASSWORD_PROTECTED then client_device_password_protected info else ret ())) (\<lambda>_.
          ret (Some c))
     else seq (on_world (in_conf (config_device_record_get_host_id udid))) (\<lambda>host_id.
       seq (lockdownd_start_session host_id) (\<lambda>e.
       if e \<noteq> LOCKDOWN_E_SUCCESS then ret (Some c)
       else seq (ask ld_validations ld_validations_update LOCKDOWN_E_SUCCESS) (\<lambda>e.
         if e \<noteq> LOCKDOWN_E_SUCCESS then ret (Some c)
         else seq (show_device info) (\<lambda>_. ret (Some c))))))"

subsection \<open>The worker\<close>

definition preflight_version :: "nat \<Rightarrow> string \<Rightarrow> device_info \<Rightarrow> ptr \<Rightarrow> bool \<Rightarrow> ptr option pact" where
  "preflight_version n udid info c is_device_paired =
     seq (ask ld_versions ld_versions_update (LOCKDOWN_E_SUCCESS, None)) (\<lambda>r.
     if fst r \<noteq> LOCKDOWN_E_SUCCESS then ret (Some c)
     else case snd r of
       None \<Rightarrow> ret (Some c)
     | Some v \<Rightarrow> seq (parse_version v) (\<lambda>ver.
         if fst ver \<ge> 7 then preflight_ios7 n info c is_device_paired (fst ver) (snd ver)
         else preflight_ios6 udid info c))"

definition preflight_worker_handle_device_add :: "nat \<Rightarrow> nat \<Rightarrow> device_info \<Rightarrow> unit pact" where
  "preflight_worker_handle_device_add m n info =
     seq (on_world (read_serial (di_serial info))) (\<lambda>udid.
     seq (contact m udid info) (\<lambda>st.
     seq (case st of
            Continue c is_device_paired \<Rightarrow> preflight_version n udid info c is_device_paired
          | Leave c \<Rightarrow> ret c
          | Retry \<Rightarrow> ret None) (\<lambda>c.
     seq (lockdownd_client_free c) (\<lambda>_.
     on_world (device_preflight_finished (di_id info))))))"

end
