(* ===== verification/Preflight_Spec.thy ===== *)
theory Preflight_Spec
  imports Preflight Fuel
begin

text \<open>
  What the preflight worker promises: a device becomes visible only with a reason, every lockdownd client is
  closed, and the wait for the user ends when the device is removed; and where trust is taken for pairing. The
  proofs walk over the worker with an invariant that is \<open>calm\<close> before the device is shown and \<open>over\<close> after it.
\<close>

subsection \<open>What makes a device visible\<close>

fun grants :: "event \<Rightarrow> bool" where
  "grants (TypeIs t) = (t \<noteq> ''com.apple.mobile.lockdown'')"
| "grants (SessionStarted e) = (e = LOCKDOWN_E_SUCCESS)"
| "grants (PairTried e) = (e = LOCKDOWN_E_SUCCESS)"
| "grants TrustNotified = True"
| "grants Shown = False"

definition quiet_log :: "event list \<Rightarrow> bool" where
  "quiet_log es \<longleftrightarrow> Shown \<notin> set es"

definition shown_rightly :: "event list \<Rightarrow> bool" where
  "shown_rightly es \<longleftrightarrow> es \<noteq> [] \<and> last es = Shown \<and> quiet_log (butlast es) \<and> list_ex grants (butlast es)"

definition log_ok :: "event list \<Rightarrow> bool" where
  "log_ok es \<longleftrightarrow> quiet_log es \<or> shown_rightly es"

lemma quiet_log_append [simp]: "quiet_log (es @ [e]) \<longleftrightarrow> quiet_log es \<and> e \<noteq> Shown"
  by (auto simp: quiet_log_def)

lemma shown_append [simp]: "shown_rightly (es @ [Shown]) \<longleftrightarrow> quiet_log es \<and> list_ex grants es"
  by (simp add: shown_rightly_def)

lemma quiet_ok [simp]: "quiet_log es \<Longrightarrow> log_ok es"
  by (simp add: log_ok_def)

text \<open>The clients that are open: those from before, and the one the worker holds.\<close>

definition holds :: "ptr multiset \<Rightarrow> ptr option \<Rightarrow> preflight \<Rightarrow> bool" where
  "holds cs c s \<longleftrightarrow> mset (ld_open s) = cs + (case c of None \<Rightarrow> {#} | Some c \<Rightarrow> {#c#})"

lemma wlp_on_world: "(\<And>x w. Q x (s\<lparr>pf_world := w\<rparr>)) \<Longrightarrow> wlp (on_world m) Q s"
  by (simp add: wlp_def on_world_def split: sum.splits)

lemma wlp_ask [wlp]: "wlp (ask sel upd d) Q s = Q (next_or d (sel s)) (upd tl s)"
  by (simp add: wlp_def ask_def)

lemma wlp_log [wlp]: "wlp (log_event e) Q s = Q () (s\<lparr>events := events s @ [e]\<rparr>)"
  by (simp add: log_event_def wlp)

lemma wlp_client_new:
  assumes "\<And>c w. Q (LOCKDOWN_E_SUCCESS, Some c) (ld_new_update tl s\<lparr>pf_world := w, ld_open := c # ld_open s\<rparr>)"
    and "\<And>e. e \<noteq> LOCKDOWN_E_SUCCESS \<Longrightarrow> Q (e, None) (ld_new_update tl s)"
  shows "wlp lockdownd_client_new Q s"
  unfolding lockdownd_client_new_def using assms
  by (auto simp: wlp intro!: wlp_on_world)

lemma wlp_query [wlp]:
  "wlp lockdownd_query_type Q s = (case next_or None (ld_types s) of
      None \<Rightarrow> Q None (ld_types_update tl s)
    | Some t \<Rightarrow> Q (Some t) (ld_types_update tl s\<lparr>events := events s @ [TypeIs t]\<rparr>))"
  by (simp add: lockdownd_query_type_def wlp split: option.splits)

lemma wlp_session [wlp]:
  "wlp (lockdownd_start_session h) Q s = (let e = next_or LOCKDOWN_E_SUCCESS (ld_sessions s) in
     Q e (ld_sessions_update tl s\<lparr>events := events s @ [SessionStarted e]\<rparr>))"
  by (simp add: lockdownd_start_session_def wlp Let_def)

lemma wlp_pair [wlp]:
  "wlp (lockdownd_pair c) Q s = (if c = None then Q LOCKDOWN_E_OTHER s
     else let e = next_or LOCKDOWN_E_SUCCESS (ld_pairs s) in
       Q e (ld_pairs_update tl s\<lparr>events := events s @ [PairTried e]\<rparr>))"
  by (simp add: lockdownd_pair_def wlp Let_def)

text \<open>
  The invariant of the worker before the device is shown; \<open>g\<close> says whether trust is known to be granted.
\<close>

definition calm :: "bool \<Rightarrow> ptr multiset \<Rightarrow> ptr option \<Rightarrow> preflight \<Rightarrow> bool" where
  "calm g cs c s \<longleftrightarrow> holds cs c s \<and> quiet_log (events s) \<and> (g \<or> is_paired_signal s \<longrightarrow> list_ex grants (events s))"

lemma calm_move: "calm g cs (Some c) s \<longleftrightarrow> calm g (add_mset c cs) None s"
  by (simp add: calm_def holds_def)

lemma calm_weaken: "calm True cs c s \<Longrightarrow> calm g cs c s"
  by (simp add: calm_def)

lemma calm_granted: "calm g cs c s \<Longrightarrow> is_paired_signal s \<Longrightarrow> calm True cs c s"
  by (simp add: calm_def)

lemma calm_world [simp]: "calm g cs c (s\<lparr>pf_world := w\<rparr>) = calm g cs c s"
  by (simp add: calm_def holds_def)

lemma calm_on_world: "calm g cs c s \<Longrightarrow> wlp (on_world m) (\<lambda>_. calm g cs c) s"
  by (simp add: wlp_on_world)

lemma calm_new: "calm g cs None s \<Longrightarrow> wlp lockdownd_client_new (\<lambda>r. calm g cs (snd r)) s"
  by (rule wlp_client_new) (simp_all add: calm_def holds_def)

lemma calm_free: "calm g cs c s \<Longrightarrow> wlp (lockdownd_client_free c) (\<lambda>_. calm g cs None) s"
  by (auto simp: lockdownd_client_free_def calm_def holds_def wlp split: option.splits)

lemma calm_pair:
  "calm g cs c s \<Longrightarrow> wlp (lockdownd_pair c) (\<lambda>e. calm (g \<or> e = LOCKDOWN_E_SUCCESS) cs c) s"
  by (simp add: wlp Let_def calm_def holds_def)

lemma calm_signal: "calm True cs c s \<Longrightarrow> wlp IOS_8_SIGNAL_IS_PAIRED (\<lambda>_. calm True cs c) s"
  by (simp add: IOS_8_SIGNAL_IS_PAIRED_def wlp calm_def holds_def)

lemma calm_buid: "calm g cs c s \<Longrightarrow> wlp lockdownd_set_untrusted_host_buid (\<lambda>_. calm g cs c) s"
  unfolding lockdownd_set_untrusted_host_buid_def wlp_seq
  by (rule wlp_on_world) (simp add: wlp calm_def holds_def)

lemma calm_callback_None:
  assumes "calm g cs None s"
  shows "wlp (np_callback n) (\<lambda>_. calm g cs None) s"
proof -
  have trust: "wlp (seq (log_event TrustNotified) (\<lambda>_. seq lockdownd_client_new (\<lambda>r.
           if snd r = None then IOS_8_SIGNAL_IS_PAIRED
           else seq (lockdownd_pair (snd r)) (\<lambda>_. seq (lockdownd_client_free (snd r)) (\<lambda>_. IOS_8_SIGNAL_IS_PAIRED)))))
         (\<lambda>_. calm True cs None) s" (is "wlp (seq _ ?f) _ _")
  proof (rule wlp_then)
    show "wlp (log_event TrustNotified) (\<lambda>_. calm True cs None) s" using assms by (simp add: wlp calm_def holds_def)
    fix x s' assume "calm True cs None s'"
    then show "wlp (?f x) (\<lambda>_. calm True cs None) s'"
      by (intro wlp_then [OF calm_new]) (auto intro!: calm_signal wlp_then [OF calm_pair] wlp_then [OF calm_free])
  qed
  have buid: "wlp (seq lockdownd_client_new (\<lambda>r. if snd r = None then ret ()
           else seq lockdownd_set_untrusted_host_buid (\<lambda>_. lockdownd_client_free (snd r)))) (\<lambda>_. calm g cs None) s"
    using assms by (intro wlp_then [OF calm_new]) (auto simp: wlp_ret intro!: wlp_then [OF calm_buid] calm_free)
  have trust': "wlp (seq (log_event TrustNotified) ?f) (\<lambda>_. calm g cs None) s"
    by (rule wlp_mono [OF trust]) (rule calm_weaken)
  have closed: "wlp (modify (\<lambda>s. s\<lparr>cb_np := False\<rparr>)) (\<lambda>_. calm g cs None) s"
    using assms by (simp add: wlp_modify calm_def holds_def)
  show ?thesis
    unfolding np_callback_def using assms trust' buid closed by (simp add: wlp_ret)
qed

lemma calm_callback: "calm g cs c s \<Longrightarrow> wlp (np_callback n) (\<lambda>_. calm g cs c) s"
proof (cases c)
  case (Some p)
  have e: "calm g cs (Some p) = calm g (add_mset p cs) None" by (simp add: calm_move fun_eq_iff)
  assume "calm g cs c s"
  then show ?thesis unfolding Some e by (rule calm_callback_None)
qed (simp add: calm_callback_None)

lemma calm_threads:
  assumes "calm g cs c s"
  shows "wlp other_threads (\<lambda>_. calm g cs c) s"
  unfolding other_threads_def wlp_seq wlp_ask
proof (rule wlp_mono)
  show "wlp (for_list (fst (next_or ([], ret ()) (meantime s))) np_callback) (\<lambda>_. calm g cs c) (meantime_update tl s)"
    using assms by (intro wlp_for_list calm_callback) (auto simp: calm_def holds_def)
qed (rule calm_on_world)
text \<open>The invariant from then on.\<close>

definition over :: "ptr multiset \<Rightarrow> ptr option \<Rightarrow> preflight \<Rightarrow> bool" where
  "over cs c s \<longleftrightarrow> holds cs c s \<and> log_ok (events s)"

definition stage_ok :: "ptr multiset \<Rightarrow> stage \<Rightarrow> preflight \<Rightarrow> bool" where
  "stage_ok cs st s = (case st of Leave c \<Rightarrow> over cs c s | Retry \<Rightarrow> calm False cs None s | Continue c p \<Rightarrow> calm False cs (Some c) s)"

lemma calm_over: "calm False cs c s \<Longrightarrow> over cs c s"
  by (simp add: calm_def over_def)

lemma over_world [simp]: "over cs c (s\<lparr>pf_world := w\<rparr>) = over cs c s"
  by (simp add: over_def holds_def)

lemma over_on_world: "over cs c s \<Longrightarrow> wlp (on_world m) (\<lambda>_. over cs c) s"
  by (simp add: wlp_on_world)

lemma over_show: "calm True cs c s \<Longrightarrow> wlp (show_device info) (\<lambda>_. over cs c) s"
  unfolding show_device_def wlp_seq wlp_log
  by (rule over_on_world) (simp add: calm_def over_def holds_def log_ok_def)

lemma calm_session:
  "calm g cs c s \<Longrightarrow> wlp (lockdownd_start_session h) (\<lambda>e. calm (e = LOCKDOWN_E_SUCCESS) cs c) s"
  by (simp add: wlp Let_def calm_def holds_def)

lemma stage_error: "calm False cs (Some c) s \<Longrightarrow> wlp (after_error udid c e) (stage_ok cs) s"
  unfolding after_error_def
  by (cases e)
    (auto simp: wlp_ret wlp_if stage_ok_def intro!: wlp_then [OF calm_on_world] wlp_then [OF calm_free])

lemma calm_validate: "calm g cs c s \<Longrightarrow> wlp (validate_record udid) (\<lambda>_. calm g cs c) s"
  unfolding validate_record_def
  by (intro wlp_then [OF calm_on_world]) (auto simp: wlp calm_def holds_def intro!: wlp_on_world)

lemma stage_record:
  assumes "calm False cs (Some c) s"
  shows "wlp (start_with_record udid info c) (stage_ok cs) s"
proof -
  have session: "wlp (seq (lockdownd_start_session h) (\<lambda>e. if e = LOCKDOWN_E_SUCCESS
       then seq (show_device info) (\<lambda>_. ret (Leave (Some c))) else after_error udid c e)) (stage_ok cs) s'"
    if "calm False cs (Some c) s'" for h s'
    using that by (intro wlp_then [OF calm_session])
      (auto simp: wlp_ret stage_ok_def intro!: wlp_then [OF over_show] stage_error)
  show ?thesis
    unfolding start_with_record_def
    by (intro wlp_then [OF calm_validate [OF assms]])
      (auto simp: wlp_ret intro!: wlp_then [OF calm_on_world] session stage_error)
qed

lemma calm_query:
  assumes "calm False cs c s"
  shows "wlp lockdownd_query_type (\<lambda>t. calm (t \<noteq> None \<and> t \<noteq> Some ''com.apple.mobile.lockdown'') cs c) s"
  using assms by (auto simp: wlp calm_def holds_def split: option.splits)

lemma stage_first: "calm False cs None s \<Longrightarrow> wlp (first_contact udid info) (stage_ok cs) s"
  unfolding first_contact_def
  by (rule wlp_then [OF calm_new], assumption)
    (auto simp: wlp_ret stage_ok_def calm_over split: option.splits
      intro!: wlp_then [OF calm_query] wlp_then [OF over_show] stage_record)

lemma stage_ok_simps:
  "stage_ok cs (Leave c) s = over cs c s" "stage_ok cs Retry s = calm False cs None s"
  "stage_ok cs (Continue p b) s = calm False cs (Some p) s"
  by (simp_all add: stage_ok_def)

lemma stage_contact: "calm False cs None s \<Longrightarrow> wlp (contact n udid info) (\<lambda>st s. st \<noteq> Retry \<and> stage_ok cs st s) s"
proof (induction n arbitrary: s)
  case (Suc n)
  show ?case unfolding contact.simps
  proof (rule wlp_then [OF stage_first [OF Suc.prems]])
    fix st s' assume "stage_ok cs st s'"
    then show "wlp (case st of Retry \<Rightarrow> contact n udid info | _ \<Rightarrow> ret st) (\<lambda>st s. st \<noteq> Retry \<and> stage_ok cs st s) s'"
      using Suc.IH by (cases st) (simp_all add: wlp_ret stage_ok_simps)
  qed
qed (simp add: wlp_stop)

text \<open>After pairing was triggered, either nothing was shown or preflight stops.\<close>

definition pairing_ok :: "ptr multiset \<Rightarrow> ptr \<Rightarrow> bool \<times> lockdownd_error \<Rightarrow> preflight \<Rightarrow> bool" where
  "pairing_ok cs c r s = (if fst r then over cs (Some c) s else calm False cs (Some c) s)"

lemma pairing_ok_simps:
  "pairing_ok cs c (True, e) s = over cs (Some c) s" "pairing_ok cs c (False, e) s = calm False cs (Some c) s"
  by (simp_all add: pairing_ok_def)

lemma calm_False: "calm g cs c s \<Longrightarrow> calm False cs c s"
  by (simp add: calm_def)

lemma calm_setup: "calm g cs c s \<Longrightarrow> wlp itunes_setup_has_completed (\<lambda>_. calm g cs c) s"
  by (simp add: itunes_setup_has_completed_def wlp calm_def holds_def)

lemma calm_trigger:
  assumes "calm False cs (Some c) s"
  shows "wlp (trigger_pairing info c major minor) (pairing_ok cs c) s"
  unfolding trigger_pairing_def
  by (rule wlp_then [OF calm_pair [OF assms]])
    (auto simp: wlp_ret wlp_if pairing_ok_simps calm_over
      intro!: wlp_then [OF over_show] wlp_then [OF calm_on_world] wlp_then [OF calm_setup])

lemma over_monitor: "over cs c s \<Longrightarrow> wlp (set_monitoring info m) (\<lambda>_. over cs c) s"
  unfolding set_monitoring_def by (rule over_on_world)

lemma calm_monitor: "calm g cs c s \<Longrightarrow> wlp (set_monitoring info m) (\<lambda>_. calm g cs c) s"
  unfolding set_monitoring_def by (rule calm_on_world)

lemma calm_poll:
  assumes "\<And>s k c. calm False cs c s \<Longrightarrow> wlp (again k c) (\<lambda>c. calm False cs c) s"
    and "calm (e = LOCKDOWN_E_SUCCESS) cs c s"
  shows "wlp (poll_answer again info k c e) (\<lambda>c. calm False cs c) s"
proof -
  have f: "calm False cs c s" using assms(2) by (rule calm_False)
  have "wlp (seq (lockdownd_client_free c) (\<lambda>_. seq lockdownd_client_new (\<lambda>r. again (k - 1) (snd r))))
      (\<lambda>c. calm False cs c) s"
    by (intro wlp_then [OF calm_free [OF f]] wlp_then [OF calm_new]) (auto intro: assms(1))
  moreover have "wlp (seq (on_world (client_device_user_denied_pairing info))
      (\<lambda>_. seq (set_monitoring info DEVICE_MONITOR_DISABLE) (\<lambda>_. ret c))) (\<lambda>c. calm False cs c) s"
    by (intro wlp_then [OF calm_on_world [OF f]] wlp_then [OF calm_monitor]) (auto simp: wlp_ret)
  moreover have "wlp (seq IOS_8_SIGNAL_IS_PAIRED (\<lambda>_. again k c)) (\<lambda>c. calm False cs c) s" if "e = LOCKDOWN_E_SUCCESS"
    using assms(2) that by (intro wlp_then [OF calm_signal]) (auto intro: assms(1) calm_False)
  ultimately show ?thesis using assms(1) [OF f] by (simp add: poll_answer_def)
qed

lemma calm_wait: "calm False cs c s \<Longrightarrow> wlp (wait_for_trust n info k c) (\<lambda>c. calm False cs c) s"
proof (induction n arbitrary: s k c)
  case 0
  then show ?case by (subst wait_for_trust.simps) (simp add: wlp is_device_connected_def)
next
  case (Suc n)
  have "wlp (seq (lockdownd_pair c) (poll_answer (\<lambda>k c. wait_for_trust n info k c) info k c)) (\<lambda>c. calm False cs c) s'"
    if "calm False cs c s'" for s'
    by (rule wlp_then [OF calm_pair [OF that]]) (auto intro: calm_poll Suc.IH)
  then show ?case
    by (subst wait_for_trust.simps)
      (use Suc.prems in \<open>auto simp: wlp_gets wlp_ret is_device_connected_def wlp_seq [of "gets _"]
         intro!: wlp_then [OF calm_threads]\<close>)
qed

lemma calm_flags [simp]:
  "calm g cs c (s\<lparr>np_open := b\<rparr>) = calm g cs c s" "calm g cs c (np_news_update f s) = calm g cs c s"
  "calm g cs c (ld_services_update h s) = calm g cs c s" "calm g cs c (ld_versions_update k s) = calm g cs c s"
  "calm g cs c (ld_validations_update l s) = calm g cs c s"
  "over cs c (ld_validations_update l s) = over cs c s" "over cs c (s\<lparr>np_open := b\<rparr>) = over cs c s"
  by (simp_all add: calm_def over_def holds_def)

lemma wlp_Inr: "wlp (\<lambda>s. Inr (x, s)) Q s = Q x s"
  by (simp add: wlp_def)

lemma calm_start: "calm False cs c s \<Longrightarrow>
    calm False cs c (s\<lparr>cb_addr := a, cb_np := b, version_major := v, is_paired_signal := False\<rparr>)"
  by (simp add: calm_def holds_def)

lemma over_end: "calm False cs None s \<Longrightarrow> wlp (end_of_wait info) (\<lambda>_. over cs None) s"
  unfolding end_of_wait_def
  by (rule wlp_then [OF calm_on_world], assumption)
    (auto simp: wlp_seq [of "gets _"] wlp_gets wlp_seq [of "whenM _ _"] wlp_whenM wlp_modify wlp_ret calm_over
      dest: calm_granted intro!: wlp_then [OF over_show] wlp_then [OF over_monitor])

lemma over_await:
  assumes "calm False cs (Some c) s"
  shows "wlp (await_trust n info c major) (over cs) s"
  unfolding await_trust_def
  using assms
  by (auto simp: wlp_seq [of "ask _ _ _"] wlp_ask wlp_seq [of "modify _"] wlp_modify wlp_ret calm_over calm_start
    intro!: wlp_then [OF calm_on_world [of False cs "Some c"]] wlp_then [OF calm_wait [of cs]]
      wlp_then [OF calm_free [of False cs]] wlp_then [OF over_end [of cs]])

lemma over_watch:
  assumes "calm False cs (Some c) s"
  shows "wlp (watch_device n info c major pair_err) (over cs) s"
  unfolding watch_device_def
  using assms by (auto simp: wlp_seq [of "ask _ _ _"] wlp_ask wlp_ret calm_over over_await
      intro!: wlp_then [OF calm_on_world] wlp_then [OF calm_monitor])

lemma over_ios7:
  assumes "calm False cs (Some c) s"
  shows "wlp (preflight_ios7 n info c is_device_paired major minor) (over cs) s"
proof -
  have monitor: "wlp (if major = 7 then set_monitoring info DEVICE_MONITOR_ONCE else ret 0) (\<lambda>_. calm False cs (Some c)) s"
    using assms by (simp add: wlp_ret calm_monitor)
  show ?thesis
    unfolding preflight_ios7_def
    by (rule wlp_then [OF monitor])
      (auto simp: wlp_ret calm_over pairing_ok_def split: if_splits
        intro!: wlp_then [OF calm_buid] wlp_then [OF calm_trigger] over_watch)
qed

lemma over_ios6:
  assumes "calm False cs (Some c) s"
  shows "wlp (preflight_ios6 udid info c) (over cs) s"
  unfolding preflight_ios6_def
  by (rule wlp_then [OF calm_pair [OF assms]])
    (auto simp: wlp_ret wlp_Inr wlp_seq [of "ask _ _ _"] wlp_ask calm_over calm_False
      intro!: wlp_then [OF calm_on_world] wlp_then [OF calm_session] wlp_then [OF over_show])

lemma over_version:
  assumes "calm False cs (Some c) s"
  shows "wlp (preflight_version n udid info c p) (over cs) s"
  unfolding preflight_version_def parse_version_def
  using assms
  by (auto simp: wlp_ret wlp_stop wlp_seq [of "ask _ _ _"] wlp_ask calm_over over_ios7 over_ios6 split: option.splits list.splits)

lemma over_free: "over cs c s \<Longrightarrow> wlp (lockdownd_client_free c) (\<lambda>_. over cs None) s"
  by (auto simp: lockdownd_client_free_def over_def holds_def wlp split: option.splits)

lemma worker_over:
  assumes "calm False cs None s"
  shows "wlp (preflight_worker_handle_device_add m n info) (\<lambda>_. over cs None) s"
proof -
  have part: "wlp (case st of Continue c p \<Rightarrow> preflight_version n udid info c p | Leave c \<Rightarrow> ret c | Retry \<Rightarrow> ret None) (over cs) s'"
    if "st \<noteq> Retry \<and> stage_ok cs st s'" for st s' udid
    using that by (cases st) (simp_all add: wlp_ret stage_ok_simps over_version)
  show ?thesis
    unfolding preflight_worker_handle_device_add_def
    by (intro wlp_then [OF calm_on_world [OF assms]] wlp_then [OF stage_contact] wlp_then [OF part] wlp_then [OF over_free]
        over_on_world) assumption+
qed
text \<open>
  C38: A device is made visible only if it may be. In any run of the preflight worker, whatever lockdownd
  answers, whatever notifications arrive and whatever the other threads do meanwhile: the device is shown to
  the clients at most once, as the last step that counts, and only after it turned out to be in restore mode, a
  session started with the stored record, a pairing succeeded, or the device notified that the user trusts this
  host; and every lockdownd client the worker and its callback opened is closed. The worker ends by marking
  preflight as finished.
\<close>

theorem shown_only_if_trusted:
  assumes "preflight_worker_handle_device_add m n info s = Inr ((), s')"
    and "events s = []" "\<not> is_paired_signal s"
  shows "(Shown \<notin> set (events s') \<or>
       (\<exists>before. events s' = before @ [Shown] \<and> Shown \<notin> set before \<and> list_ex grants before)) \<and>
     mset (ld_open s') = mset (ld_open s) \<and>
     (\<exists>w. device_preflight_finished (di_id info) w = Inr ((), pf_world s'))"
proof (intro conjI)
  have "calm False (mset (ld_open s)) None s" using assms by (simp add: calm_def holds_def quiet_log_def)
  from wlp_run [OF worker_over [OF this] assms(1)]
  have o: "over (mset (ld_open s)) None s'" .
  then show "mset (ld_open s') = mset (ld_open s)" by (simp add: over_def holds_def)
  show "Shown \<notin> set (events s') \<or>
       (\<exists>before. events s' = before @ [Shown] \<and> Shown \<notin> set before \<and> list_ex grants before)"
  proof (cases "quiet_log (events s')")
    case False
    then have r: "shown_rightly (events s')" using o by (simp add: over_def log_ok_def)
    then have "events s' = butlast (events s') @ [Shown]" by (metis shown_rightly_def append_butlast_last_id)
    then show ?thesis using r by (auto simp: shown_rightly_def quiet_log_def)
  qed (simp add: quiet_log_def)
  show "\<exists>w. device_preflight_finished (di_id info) w = Inr ((), pf_world s')"
    using assms(1) unfolding preflight_worker_handle_device_add_def seq_eq_Inr
    by (fastforce simp: on_world_def split: sum.splits)
qed

definition worker_on :: "world \<Rightarrow> preflight" where
  "worker_on w = \<lparr>cb_addr = 0, cb_np = False, version_major = 0, is_paired_signal = False, ld_open = [], np_open = False,
     ld_new = [], ld_types = [Some ''com.apple.mobile.lockdown''], ld_validations = [], ld_sessions = [], ld_pairs = [],
     ld_services = [], ld_versions = [], ld_setups = [], np_news = [], meantime = [], untrusted_buids = [], events = [],
     pf_world = w\<rparr>"

definition new_phone :: world where
  "new_phone = link_world ((idle_device MUXDEV_ACTIVE [])\<lparr>dev_visible := False, dev_is_preflight_worker_running := True\<rparr>)
     (idle_conn CONN_DEAD []) (idle_client CLIENT_COMMAND)"

definition phone_info :: device_info where
  "phone_info = \<lparr>di_id = 1, di_serial = Some 30, di_location = 6, di_pid = 0x12a8\<rparr>"

text \<open>A device in restore mode is shown at once.\<close>

theorem shown_only_if_trusted_witness:
  "\<exists>s'. preflight_worker_handle_device_add 1 0 phone_info
      ((worker_on new_phone)\<lparr>ld_types := [Some ''com.apple.mobile.restored'']\<rparr>) = Inr ((), s') \<and>
    events s' = [TypeIs ''com.apple.mobile.restored'', Shown] \<and> mset (ld_open s') = {#}"
proof -
  let ?s = "(worker_on new_phone)\<lparr>ld_types := [Some ''com.apple.mobile.restored'']\<rparr>"
  obtain s' where r: "preflight_worker_handle_device_add 1 0 phone_info ?s = Inr ((), s')"
    and e: "events s' = [TypeIs ''com.apple.mobile.restored'', Shown]"
    by (simp add: preflight_worker_handle_device_add_def first_contact_def lockdownd_client_new_def lockdownd_query_type_def
        lockdownd_client_free_def show_device_def log_event_def on_world_def ask_def next_or_def seq_Inr
        new_ptr_def read_serial_def device_preflight_finished_def
        client_device_add_def device_set_visible_def with_device_def get_mux_device_for_id_def find_in_def
        new_phone_def phone_info_def worker_on_def idle_defs upd_dev_run get_dev_run usb_set_device_ready_def get_usb_run upd_usb_run
        for_clients_def foreach_def get_client_run)
  have "events ?s = []" "\<not> is_paired_signal ?s" by (simp_all add: worker_on_def)
  from shown_only_if_trusted [OF r this] r e show ?thesis by (auto simp: worker_on_def)
qed

lemma set_monitoring_returns: "\<exists>r w'. usb_set_device_monitoring l m w = Inr (r, w')"
proof -
  have ok: "\<exists>b w'. api_ok w = Inr (b, w')" for w
    by (cases "oks (sys w)") (auto simp: api_ok_def)
  have app: "\<exists>n w'. usb_append_device_command ty src l ev m w = Inr (n, w')" for ty src ev w
    by (simp add: usb_append_device_command_def)
  obtain b w1 where b: "api_ok w = Inr (b, w1)" using ok by blast
  show ?thesis
  proof (cases b)
    case True
    obtain e w2 where e: "new_ptr w1 = Inr (e, w2)" by (simp add: new_ptr_def)
    obtain n w3 where a: "usb_append_device_command PENDING_DEVICE_COMMAND_SET_MONITOR PENDING_DEVICE_COMMAND_SOURCE_MANUAL l (Some e) m w2 = Inr (n, w3)"
      using app by blast
    obtain b' w4 where "api_ok w3 = Inr (b', w4)" using ok by blast
    then show ?thesis using b e a True by (simp add: usb_set_device_monitoring_def seq_Inr)
  qed (use b in \<open>simp add: usb_set_device_monitoring_def seq_Inr\<close>)
qed

text \<open>
  A failed pairing can still make the device visible. While the worker waits for the user of a device with
  iOS 8 or later, the notification that the user trusts this host ends the wait as a success even if the
  callback cannot connect to the lockdown daemon of the device: the device is shown to the clients although
  no pairing was even tried.
\<close>

theorem unpaired_device_shown:
  assumes "cb_np s" "cb_addr s \<notin> set (preflight_gone (pf_world s))" "\<not> is_paired_signal s" "0 \<le> k" "8 \<le> version_major s"
    and "meantime s = ([''com.apple.mobile.lockdown.request_pair''], ret ()) # ms"
    and "ld_new s = e # es" "e \<noteq> LOCKDOWN_E_SUCCESS"
    and "device_set_preflight_cb_data (di_id info) None (pf_world s) = Inr ((), w1)" "client_device_add info w1 = Inr ((), w2)"
  shows "\<exists>s'. seq (wait_for_trust (Suc n) info k c) (\<lambda>_. end_of_wait info) s = Inr ((), s') \<and>
     events s' = events s @ [TrustNotified, Shown]"
proof -
  let ?s1 = "s\<lparr>meantime := ms, events := events s @ [TrustNotified], ld_new := es, is_paired_signal := True\<rparr>"
  have m: "meantime_update tl s = s\<lparr>meantime := ms\<rparr>" using assms(6) by (cases s) simp
  have "np_callback ''com.apple.mobile.lockdown.request_pair'' (meantime_update tl s) = Inr ((), ?s1)"
    unfolding m using assms
    by (simp add: np_callback_def log_event_def lockdownd_client_new_def ask_def next_or_def seq_def IOS_8_SIGNAL_IS_PAIRED_def)
  then have "other_threads s = Inr ((), ?s1)"
    using assms by (simp add: other_threads_def ask_def next_or_def seq_def on_world_def)
  then have "wait_for_trust (Suc n) info k c s = Inr (c, ?s1)"
    using assms by (subst wait_for_trust.simps) (simp add: is_device_connected_def seq_Inr)
  moreover obtain r w3 where "usb_set_device_monitoring (di_location info) DEVICE_MONITOR_DISABLE w2 = Inr (r, w3)"
    using set_monitoring_returns by blast
  ultimately show ?thesis
    using assms by (cases "cb_np s")
      (simp_all add: end_of_wait_def seq_def on_world_def show_device_def log_event_def set_monitoring_def)
qed

theorem unpaired_device_shown_witness:
  "\<exists>s'. seq (wait_for_trust 1 phone_info 3 None) (\<lambda>_. end_of_wait phone_info)
     ((worker_on new_phone)\<lparr>cb_np := True, version_major := 9, ld_new := [LOCKDOWN_E_OTHER],
        meantime := [([''com.apple.mobile.lockdown.request_pair''], ret ())]\<rparr>) = Inr ((), s') \<and>
     events s' = [TrustNotified, Shown]"
proof -
  let ?s = "(worker_on new_phone)\<lparr>cb_np := True, version_major := 9, ld_new := [LOCKDOWN_E_OTHER],
        meantime := [([''com.apple.mobile.lockdown.request_pair''], ret ())]\<rparr>"
  have w1: "device_set_preflight_cb_data (di_id phone_info) None (pf_world ?s) = Inr ((), new_phone)"
    by (simp add: device_set_preflight_cb_data_def with_device_def get_mux_device_for_id_def find_in_def new_phone_def phone_info_def
        worker_on_def idle_defs seq_Inr upd_dev_run fun_upd_idem)
  obtain w2 where w2: "client_device_add phone_info new_phone = Inr ((), w2)"
    by (simp add: client_device_add_def device_set_visible_def with_device_def get_mux_device_for_id_def find_in_def
        new_phone_def phone_info_def idle_defs seq_Inr upd_dev_run get_dev_run usb_set_device_ready_def get_usb_run upd_usb_run
        for_clients_def foreach_def get_client_run)
  show ?thesis
    using unpaired_device_shown [where s = ?s and k = 3 and ms = "[]" and e = LOCKDOWN_E_OTHER and es = "[]" and
        info = phone_info and n = 0 and c = None, OF _ _ _ _ _ _ _ _ w1 w2]
    by (simp add: worker_on_def new_phone_def idle_defs)
qed
subsection \<open>The wait ends\<close>

text \<open>What the worker itself does leaves the script of the waits, its own address and the list of removals alone.\<close>

definition steady :: "preflight \<Rightarrow> preflight \<Rightarrow> bool" where
  "steady s s' \<longleftrightarrow> meantime s' = meantime s \<and> cb_addr s' = cb_addr s \<and>
     preflight_gone (pf_world s') = preflight_gone (pf_world s)"

interpretation steady: frame_rel steady
  by unfold_locales (auto simp: steady_def)

lemma steady_new_ptr: "keeps steady (on_world new_ptr)"
  by (simp add: keeps_def on_world_def new_ptr_def steady_def)

lemma steady_prims:
  "keeps steady (log_event e)" "keeps steady lockdownd_client_new" "keeps steady (lockdownd_client_free c)"
  "keeps steady (lockdownd_pair c)" "keeps steady IOS_8_SIGNAL_IS_PAIRED"
proof -
  show l: "keeps steady (log_event e)" for e
    by (simp add: keeps_def log_event_def steady_def)
  have a: "keeps steady (ask ld_new ld_new_update LOCKDOWN_E_SUCCESS)" "keeps steady (ask ld_pairs ld_pairs_update LOCKDOWN_E_SUCCESS)"
    by (simp_all add: keeps_def ask_def steady_def)
  have m: "keeps steady (modify (\<lambda>s. s\<lparr>ld_open := f s\<rparr>))" "keeps steady (modify (\<lambda>s. s\<lparr>is_paired_signal := True\<rparr>))" for f
    by (simp_all add: keeps_def steady_def)
  show "keeps steady lockdownd_client_new" "keeps steady (lockdownd_client_free c)"
    "keeps steady (lockdownd_pair c)" "keeps steady IOS_8_SIGNAL_IS_PAIRED"
    unfolding lockdownd_client_new_def lockdownd_client_free_def lockdownd_pair_def IOS_8_SIGNAL_IS_PAIRED_def
    by (intro steady.keeps_rules steady_new_ptr l a m)+
qed

lemma fueled_lockdown:
  "fueled (log_event e)" "fueled lockdownd_client_new" "fueled (lockdownd_client_free c)"
  "fueled (lockdownd_pair c)" "fueled IOS_8_SIGNAL_IS_PAIRED"
proof -
  have w: "fueled m \<Longrightarrow> fueled (on_world m)" for m :: "'a act"
    by (auto simp: fueled_def on_world_def split: sum.splits)
  have a: "fueled (ask sc upd d)" for sc upd and d :: 'b
    by (simp add: fueled_def ask_def)
  have m: "fueled (whenM b (modify f))" for b and f :: "preflight \<Rightarrow> preflight"
    by (simp add: fueled_def)
  show "fueled (log_event e)" "fueled lockdownd_client_new" "fueled (lockdownd_client_free c)"
    "fueled (lockdownd_pair c)" "fueled IOS_8_SIGNAL_IS_PAIRED"
    unfolding log_event_def lockdownd_client_new_def lockdownd_client_free_def lockdownd_pair_def IOS_8_SIGNAL_IS_PAIRED_def
    by (intro fueled_rules w a m)+
qed

lemma fueled_world: "fueled m \<Longrightarrow> fueled (on_world m)"
  by (auto simp: fueled_def on_world_def split: sum.splits)

lemma fueled_callback:
  assumes "n \<noteq> ''com.apple.mobile.lockdown.request_host_buid''"
  shows "fueled (np_callback n)"
  unfolding np_callback_def using assms by (auto intro!: fueled_rules fueled_lockdown)

lemma steady_callback:
  assumes "n \<noteq> ''com.apple.mobile.lockdown.request_host_buid''"
  shows "keeps steady (np_callback n)"
proof -
  have m: "keeps steady (modify (\<lambda>s. s\<lparr>cb_np := False\<rparr>))"
    by (simp add: keeps_def steady_def)
  show ?thesis
    unfolding np_callback_def using assms by (auto intro!: steady.keeps_rules steady_prims m)
qed

text \<open>A wait in which no untrusted-host notification arrives and the other threads do not hang.\<close>

definition tame :: "string list \<times> unit act \<Rightarrow> bool" where
  "tame m \<longleftrightarrow> ''com.apple.mobile.lockdown.request_host_buid'' \<notin> set (fst m) \<and> fueled (snd m)"

lemma callbacks_tame:
  assumes "''com.apple.mobile.lockdown.request_host_buid'' \<notin> set ns"
  shows "fueled (for_list ns np_callback)" "keeps steady (for_list ns np_callback)"
  using assms
  by (induction ns) (auto intro!: fueled_seq fueled_basic fueled_callback steady.keeps_rules steady_callback)

lemma threads_tame:
  assumes "meantime s = m # ms" "tame m"
  shows "other_threads s \<noteq> Inl OutOfFuel"
    and "other_threads s = Inr ((), s') \<Longrightarrow> meantime s' = ms \<and> cb_addr s' = cb_addr s \<and>
       (\<exists>w. snd m w = Inr ((), pf_world s'))"
proof -
  have ns: "''com.apple.mobile.lockdown.request_host_buid'' \<notin> set (fst m)" and f: "fueled (snd m)"
    using assms(2) by (simp_all add: tame_def)
  have run: "other_threads s = seq (for_list (fst m) np_callback) (\<lambda>_. on_world (snd m)) (meantime_update tl s)"
    using assms(1) by (simp add: other_threads_def ask_def next_or_def seq_def)
  have "fueled (seq (for_list (fst m) np_callback) (\<lambda>_. on_world (snd m)))"
    by (intro fueled_seq callbacks_tame(1) ns fueled_world f)
  then show "other_threads s \<noteq> Inl OutOfFuel" unfolding run by (simp add: fueled_def)
  assume r: "other_threads s = Inr ((), s')"
  then obtain s1 where s1: "for_list (fst m) np_callback (meantime_update tl s) = Inr ((), s1)" "on_world (snd m) s1 = Inr ((), s')"
    unfolding run by (auto simp: seq_eq_Inr)
  have "steady (meantime_update tl s) s1" by (rule keepsD [OF callbacks_tame(2) [OF ns] s1(1)])
  then show "meantime s' = ms \<and> cb_addr s' = cb_addr s \<and> (\<exists>w. snd m w = Inr ((), pf_world s'))"
    using s1(2) assms(1) by (auto simp: steady_def on_world_def split: sum.splits)
qed

text \<open>The device is gone, or will be after fewer than \<open>n\<close> waits.\<close>

definition goes_away :: "nat \<Rightarrow> preflight \<Rightarrow> bool" where
  "goes_away n s \<longleftrightarrow> cb_addr s \<in> set (preflight_gone (pf_world s)) \<or>
     (\<exists>before m after. meantime s = before @ m # after \<and> length before < n \<and> list_all tame (before @ [m]) \<and>
        (\<forall>w w'. snd m w = Inr ((), w') \<longrightarrow> cb_addr s \<in> set (preflight_gone w')))"

lemma goes_away_steady: "steady s s' \<Longrightarrow> goes_away n s \<Longrightarrow> goes_away n s'"
  by (simp add: steady_def goes_away_def)

lemma goes_away_round:
  assumes "goes_away (Suc n) s" "cb_addr s \<notin> set (preflight_gone (pf_world s))"
  shows "other_threads s \<noteq> Inl OutOfFuel" "other_threads s = Inr ((), s') \<Longrightarrow> goes_away n s'"
proof -
  obtain before m after where m: "meantime s = before @ m # after" "length before < Suc n" "list_all tame (before @ [m])"
    "\<forall>w w'. snd m w = Inr ((), w') \<longrightarrow> cb_addr s \<in> set (preflight_gone w')"
    using assms unfolding goes_away_def by blast
  obtain x xs where x: "meantime s = x # xs" "tame x" using m(1,3) by (cases before) auto
  show "other_threads s \<noteq> Inl OutOfFuel" using threads_tame(1) [OF x] .
  assume "other_threads s = Inr ((), s')"
  from threads_tame(2) [OF x this]
  have s': "meantime s' = xs" "cb_addr s' = cb_addr s" "\<exists>w. snd x w = Inr ((), pf_world s')" by auto
  show "goes_away n s'"
  proof (cases before)
    case Nil
    then have "x = m" using m(1) x(1) by simp
    then show ?thesis using s' m(4) by (auto simp: goes_away_def)
  next
    case (Cons y ys)
    then have "xs = ys @ m # after" "length ys < n" "list_all tame (ys @ [m])" using m x(1) by auto
    then show ?thesis using s' m(4) unfolding goes_away_def by (intro disjI2 exI [of _ ys] exI [of _ m] exI [of _ after]) simp
  qed
qed

lemma steady_step:
  assumes "fueled m" "keeps steady m" "goes_away n s" "\<And>x s'. goes_away n s' \<Longrightarrow> f x s' \<noteq> Inl OutOfFuel"
  shows "seq m f s \<noteq> Inl OutOfFuel"
proof (rule seq_fuel)
  fix x s' assume "m s = Inr (x, s')"
  then have "goes_away n s'" using keepsD [OF assms(2)] goes_away_steady assms(3) by blast
  then show "f x s' \<noteq> Inl OutOfFuel" by (rule assms(4))
qed (use assms(1) in \<open>simp add: fueled_def\<close>)

lemma fueled_denied:
  "fueled (seq (on_world (client_device_user_denied_pairing info))
     (\<lambda>_. seq (set_monitoring info DEVICE_MONITOR_DISABLE) (\<lambda>_. ret c)))"
proof -
  have "fueled (usb_set_device_monitoring l m)" for l m
    using set_monitoring_returns [of l m] by (metis fueled_def sum.distinct(1))
  then show ?thesis
    unfolding client_device_user_denied_pairing_def set_monitoring_def
    by (intro fueled_rules fueled_world fueled_pairing_event)
qed

lemma poll_fueled:
  assumes "\<And>s k c. goes_away n s \<Longrightarrow> again k c s \<noteq> Inl OutOfFuel" "goes_away n s"
  shows "poll_answer again info k c e s \<noteq> Inl OutOfFuel"
proof -
  have "seq (lockdownd_client_free c) (\<lambda>_. seq lockdownd_client_new (\<lambda>r. again (k - 1) (snd r))) s \<noteq> Inl OutOfFuel"
    by (intro steady_step [OF _ _ assms(2)] steady_step [of lockdownd_client_new n] fueled_lockdown steady_prims assms(1))
  moreover have "seq IOS_8_SIGNAL_IS_PAIRED (\<lambda>_. again k c) s \<noteq> Inl OutOfFuel"
    by (intro steady_step [OF _ _ assms(2)] fueled_lockdown steady_prims assms(1))
  moreover have "seq (on_world (client_device_user_denied_pairing info)) (\<lambda>_.
      seq (set_monitoring info DEVICE_MONITOR_DISABLE) (\<lambda>_. ret c)) s \<noteq> Inl OutOfFuel"
    by (rule fueled_denied [unfolded fueled_def, rule_format])
  ultimately show ?thesis using assms(1) [OF assms(2)] unfolding poll_answer_def by presburger
qed

lemma wait_fueled: "goes_away n s \<Longrightarrow> wait_for_trust n info k c s \<noteq> Inl OutOfFuel"
proof (induction n arbitrary: s k c)
  case 0
  then have "cb_addr s \<in> set (preflight_gone (pf_world s))" by (simp add: goes_away_def)
  then show ?case by (subst wait_for_trust.simps) (simp add: is_device_connected_def)
next
  case (Suc n)
  have rest: "seq (lockdownd_pair c) (poll_answer (\<lambda>k c. wait_for_trust n info k c) info k c) s1 \<noteq> Inl OutOfFuel"
    if "goes_away n s1" for s1
    by (intro steady_step [OF _ _ that] fueled_lockdown steady_prims poll_fueled [where n = n] Suc.IH)
  show ?case
    using goes_away_round [OF Suc.prems] rest
    by (subst wait_for_trust.simps) (auto simp: is_device_connected_def seq_def split: sum.splits)
qed

text \<open>
  The wait for the user ends when the device goes. If the device is removed during one of the first
  \<open>n\<close> seconds (so that \<open>preflight_device_remove_cb\<close> clears the flag of the waiting worker), the loop makes at
  most \<open>n\<close> rounds, whatever the device answers and whichever notifications of the user's trust arrive.
\<close>

theorem wait_ends_with_device:
  assumes "meantime s = before @ (notes, act) # after" "length before < n" "list_all tame (before @ [(notes, act)])"
    and "\<And>w w'. act w = Inr ((), w') \<Longrightarrow> cb_addr s \<in> set (preflight_gone w')"
  shows "wait_for_trust n info k c s \<noteq> Inl OutOfFuel"
proof (rule wait_fueled)
  show "goes_away n s"
    unfolding goes_away_def using assms
    by (intro disjI2 exI [of _ before] exI [of _ "(notes, act)"] exI [of _ after]) simp
qed

theorem wait_ends_with_device_witness:
  "wait_for_trust 2 phone_info 3 None ((worker_on new_phone)\<lparr>cb_np := True, version_major := 9, cb_addr := 50,
     meantime := [([], ret ()), ([], preflight_device_remove_cb 50)]\<rparr>) \<noteq> Inl OutOfFuel"
  by (rule wait_ends_with_device [where before = "[([], ret ())]" and after = "[]"])
    (auto simp: tame_def fueled_def preflight_device_remove_cb_def worker_on_def)

end
