(* ===== verification/Host.thy ===== *)
theory Host
  imports Main_Loop
begin

text \<open>
  The process around the library, usbmuxdHost.cpp: it makes sure that only one instance runs for a port, starts
  usbmuxd, and then waits until it is told to shut down or, if it was asked to, until no device has been
  attached for a while.

  Handles are numbered; \<open>open_handles\<close> lists those that are open. Whether an API call succeeds is read from
  a script (an exhausted script succeeds). A round of the waiting loop is given by what the wait returned, the
  state the main thread has brought the daemon to by then, and the reading of the tick counter; when the rounds
  are used up, the process is still waiting.
\<close>

datatype host_wait = HostShutdown | HostKeepAlive | HostTimeout | HostError

record host_round =
  hr_wait :: host_wait
  hr_world :: world
  hr_tick :: u32

record host =
  h_oks :: "bool list"
  h_already_exists :: bool
  open_handles :: nat
  ready_signalled :: bool
  keepalive_signalled :: bool
  h_rounds :: "host_round list"
  h_daemon :: daemon

type_synonym 'a hact = "(host, 'a) prog"

definition NO_DEVICES_SHUTDOWN_TIMEOUT :: u32 where "NO_DEVICES_SHUTDOWN_TIMEOUT = 5000"
definition CMD_ARGC :: nat where "CMD_ARGC = 7"

definition on_daemon :: "'a main \<Rightarrow> 'a hact" where
  "on_daemon m h = (case m (h_daemon h) of Inl e \<Rightarrow> Inl e | Inr (x, d) \<Rightarrow> Inr (x, h\<lparr>h_daemon := d\<rparr>))"

definition win_ok :: "bool hact" where
  "win_ok h = Inr (next_or True (h_oks h), h\<lparr>h_oks := tl (h_oks h)\<rparr>)"

subsection \<open>Handles\<close>

text \<open>A call that opens or creates an object: whether there is a handle now.\<close>

definition open_handle :: "bool hact" where
  "open_handle = seq win_ok (\<lambda>ok. seq (whenM ok (modify (\<lambda>h. h\<lparr>open_handles := open_handles h + 1\<rparr>))) (\<lambda>_. ret ok))"

definition open_or_create :: "bool hact" where
  "open_or_create = seq open_handle (\<lambda>ok. if ok then ret True else open_handle)"

definition SAFE_CLOSE_HANDLE :: "bool \<Rightarrow> unit hact" where
  "SAFE_CLOSE_HANDLE valid = whenM valid (modify (\<lambda>h. h\<lparr>open_handles := open_handles h - 1\<rparr>))"

definition signal_ready :: "bool hact" where
  "signal_ready = seq win_ok (\<lambda>ok. seq (whenM ok (modify (\<lambda>h. h\<lparr>ready_signalled := True\<rparr>))) (\<lambda>_. ret ok))"

subsection \<open>The waiting loop\<close>

text \<open>A wait that timed out: the new time stamp, and whether the process shuts down.\<close>

definition check_devices :: "bool \<Rightarrow> u32 \<Rightarrow> u32 \<Rightarrow> (u32 \<times> bool) hact" where
  "check_devices auto since tick = seq (if auto then on_daemon usbmuxd_HasDevices else ret False) (\<lambda>has.
     if \<not> auto \<or> has then ret (0, False)
     else if since = 0 then ret (tick, False)
     else ret (since, tick - since \<ge> NO_DEVICES_SHUTDOWN_TIMEOUT))"

fun host_loop :: "host_round list \<Rightarrow> bool \<Rightarrow> u32 \<Rightarrow> unit hact" where
  "host_loop [] auto since = stop OutOfFuel"
| "host_loop (r # rs) auto since =
     seq (modify (\<lambda>h. h\<lparr>h_rounds := rs, h_daemon := (h_daemon h)\<lparr>d_world := hr_world r\<rparr>\<rparr>)) (\<lambda>_.
     case hr_wait r of
       HostShutdown \<Rightarrow> ret ()
     | HostKeepAlive \<Rightarrow> host_loop rs auto 0
     | HostTimeout \<Rightarrow> seq (check_devices auto since (hr_tick r)) (\<lambda>p.
         if snd p then ret () else host_loop rs auto (fst p))
     | HostError \<Rightarrow> ret ())"

subsection \<open>The process\<close>

text \<open>\<open>CompareNoCase\<close> on ASCII.\<close>

definition to_lower :: "char \<Rightarrow> char" where
  "to_lower c = (let n = of_char c :: nat in if 65 \<le> n \<and> n \<le> 90 then char_of (n + 32) else c)"

definition is_auto_shutdown :: "string \<Rightarrow> bool" where
  "is_auto_shutdown s \<longleftrightarrow> map to_lower s = map to_lower ''AutoShutdownTRUE''"

text \<open>Another instance runs: its shutdown timer is reset, and the caller may work with it.\<close>

definition other_instance :: "bool hact" where
  "other_instance = seq open_handle (\<lambda>keepalive.
     seq (if keepalive
          then seq win_ok (\<lambda>ok. seq (whenM ok (modify (\<lambda>h. h\<lparr>keepalive_signalled := True\<rparr>))) (\<lambda>_.
               SAFE_CLOSE_HANDLE True))
          else ret ()) (\<lambda>_. signal_ready))"

text \<open>This instance runs usbmuxd until its loop ends; the result says whether all went well.\<close>

definition run_instance :: "u16 \<Rightarrow> bool \<Rightarrow> bool hact" where
  "run_instance port auto = seq (on_daemon (usbmuxd_Start port)) (\<lambda>started.
     if \<not> started then ret False
     else seq signal_ready (\<lambda>_.
       seq (gets h_rounds) (\<lambda>rs.
       seq (host_loop rs auto 0) (\<lambda>_. on_daemon usbmuxd_Shutdown))))"

text \<open>
  The part behind the mutex: whether all went well, and which of the handles of the mutex and of the keep-alive
  event are open.
\<close>

definition run_single_instance :: "u16 \<Rightarrow> string \<Rightarrow> (bool \<times> bool \<times> bool) hact" where
  "run_single_instance port mode = seq open_handle (\<lambda>mutex.
     if \<not> mutex then ret (False, False, False)
     else seq (gets h_already_exists) (\<lambda>exists.
       if exists then seq other_instance (\<lambda>r. ret (r, True, False))
       else seq open_handle (\<lambda>keepalive.
         if \<not> keepalive then ret (False, True, False)
         else seq (run_instance port (is_auto_shutdown mode)) (\<lambda>r. ret (r, True, True)))))"

definition RunUsbmuxdHost :: "u16 \<Rightarrow> string \<Rightarrow> bool hact" where
  "RunUsbmuxdHost port mode =
     seq open_or_create (\<lambda>ready.
     seq open_or_create (\<lambda>shutdown.
     seq (if \<not> ready \<or> \<not> shutdown then ret (False, False, False) else run_single_instance port mode) (\<lambda>p.
     seq (SAFE_CLOSE_HANDLE ready) (\<lambda>_.
     seq (SAFE_CLOSE_HANDLE shutdown) (\<lambda>_.
     seq (SAFE_CLOSE_HANDLE (fst (snd p))) (\<lambda>_.
     seq (SAFE_CLOSE_HANDLE (snd (snd p))) (\<lambda>_. ret (fst p))))))))"

text \<open>The command line: program, port, hub address, the two events, plugin path and the shutdown mode.\<close>

definition InternalWinMain :: "string list option \<Rightarrow> bool hact" where
  "InternalWinMain argv = (case argv of
       None \<Rightarrow> ret False
     | Some argv \<Rightarrow>
         if length argv \<noteq> CMD_ARGC then ret False
         else RunUsbmuxdHost (word_of_int (strtol10 (argv ! 1))) (argv ! 6))"

subsection \<open>When the process ends\<close>

definition idle_round :: "host_round \<Rightarrow> bool" where
  "idle_round r \<longleftrightarrow> hr_wait r = HostTimeout \<and> collection_count (g_device_list (hr_world r)) = 0"

definition told_to_stop :: "host_round \<Rightarrow> bool" where
  "told_to_stop r \<longleftrightarrow> hr_wait r = HostShutdown \<or> hr_wait r = HostError"

text \<open>The rounds \<open>used\<close> and \<open>r\<close> end with at least five seconds without a device.\<close>

definition idle_for_long :: "host_round list \<Rightarrow> host_round \<Rightarrow> bool" where
  "idle_for_long used r \<longleftrightarrow> (\<exists>before first mid. used = before @ first # mid \<and> list_all idle_round (first # mid @ [r]) \<and>
     hr_tick r - hr_tick first \<ge> NO_DEVICES_SHUTDOWN_TIMEOUT)"

lemma check_devices_run:
  "check_devices auto since tick h = Inr ((if \<not> auto \<or> collection_count (g_device_list (d_world (h_daemon h))) > 0 then (0, False)
     else if since = 0 then (tick, False) else (since, tick - since \<ge> NO_DEVICES_SHUTDOWN_TIMEOUT)), h)"
  by (simp add: check_devices_def on_daemon_def usbmuxd_HasDevices_def in_world_def usb_has_devices_def seq_def)

lemma idle_for_long_Cons: "idle_for_long used r \<Longrightarrow> idle_for_long (x # used) r"
  unfolding idle_for_long_def by (metis append_Cons)

lemma host_loop_end:
  assumes "host_loop rs auto since h = Inr ((), h')"
  shows "\<exists>used r. rs = used @ r # h_rounds h' \<and>
    (told_to_stop r \<or> auto \<and> (idle_for_long used r \<or>
       since \<noteq> 0 \<and> list_all idle_round (used @ [r]) \<and> hr_tick r - since \<ge> NO_DEVICES_SHUTDOWN_TIMEOUT))"
  using assms
proof (induction rs arbitrary: since h)
  case Nil
  then show ?case by simp
next
  case (Cons r rs)
  let ?h = "h\<lparr>h_rounds := rs, h_daemon := (h_daemon h)\<lparr>d_world := hr_world r\<rparr>\<rparr>"
  have later: ?case if run: "host_loop rs auto since' ?h = Inr ((), h')"
    and since: "since' \<noteq> 0 \<Longrightarrow> idle_round r \<and> (since' = hr_tick r \<or> since' = since)" for since'
  proof -
    obtain used x where u: "rs = used @ x # h_rounds h'" "told_to_stop x \<or> auto \<and> (idle_for_long used x \<or>
       since' \<noteq> 0 \<and> list_all idle_round (used @ [x]) \<and> hr_tick x - since' \<ge> NO_DEVICES_SHUTDOWN_TIMEOUT)"
      using Cons.IH [OF run] by blast
    have "idle_for_long (r # used) x \<or> since \<noteq> 0 \<and> list_all idle_round ((r # used) @ [x]) \<and> hr_tick x - since \<ge> NO_DEVICES_SHUTDOWN_TIMEOUT"
      if s: "since' \<noteq> 0" "list_all idle_round (used @ [x])" "hr_tick x - since' \<ge> NO_DEVICES_SHUTDOWN_TIMEOUT"
    proof (cases "since' = hr_tick r")
      case True
      then have "idle_for_long (r # used) x"
        unfolding idle_for_long_def using s since [OF s(1)] by (intro exI [of _ "[]"] exI [of _ r] exI [of _ used]) simp
      then show ?thesis ..
    qed (use s since in auto)
    then show ?thesis using u by (intro exI [of _ "r # used"] exI [of _ x]) (auto dest: idle_for_long_Cons)
  qed
  show ?case
  proof (cases "hr_wait r")
    case HostTimeout
    show ?thesis
    proof (cases "\<not> auto \<or> collection_count (g_device_list (hr_world r)) > 0")
      case True
      then have "host_loop rs auto 0 ?h = Inr ((), h')"
        using Cons.prems HostTimeout by (simp add: seq_Inr [OF check_devices_run])
      then show ?thesis by (rule later) simp
    next
      case False
      then have i: "idle_round r" using HostTimeout by (simp add: idle_round_def)
      show ?thesis
      proof (cases "since \<noteq> 0 \<and> hr_tick r - since \<ge> NO_DEVICES_SHUTDOWN_TIMEOUT")
        case True
        then have "h' = ?h" using Cons.prems HostTimeout False by (simp add: seq_Inr [OF check_devices_run])
        then show ?thesis using True i False by (intro exI [of _ "[]"] exI [of _ r]) simp
      next
        case nt: False
        then have "host_loop rs auto (if since = 0 then hr_tick r else since) ?h = Inr ((), h')"
          using Cons.prems HostTimeout False by (auto simp: seq_Inr [OF check_devices_run])
        then show ?thesis by (rule later) (use i in auto)
      qed
    qed
  next
    case HostKeepAlive
    then show ?thesis using Cons.prems later [of 0] by simp
  next
    case HostShutdown
    then show ?thesis using Cons.prems by (intro exI [of _ "[]"] exI [of _ r]) (auto simp: told_to_stop_def)
  next
    case HostError
    then show ?thesis using Cons.prems by (intro exI [of _ "[]"] exI [of _ r]) (auto simp: told_to_stop_def)
  qed
qed

text \<open>The loop does not run on: with a stamp taken, or at a fresh start, five idle seconds end it.\<close>

lemma host_loop_idle:
  assumes "list_all idle_round (mid @ [r])" "since \<noteq> 0" "hr_tick r - since \<ge> NO_DEVICES_SHUTDOWN_TIMEOUT"
  shows "\<exists>h'. host_loop (mid @ r # rest) True since h = Inr ((), h')"
  using assms(1)
proof (induction mid arbitrary: h)
  case Nil
  then show ?case using assms(2,3) by (simp add: idle_round_def seq_Inr [OF check_devices_run])
next
  case (Cons x mid)
  then show ?case using assms(2) by (simp add: idle_round_def seq_Inr [OF check_devices_run])
qed

text \<open>A round after which the time stamp is clear.\<close>

definition resets :: "host_round \<Rightarrow> bool" where
  "resets r \<longleftrightarrow> hr_wait r = HostKeepAlive \<or> hr_wait r = HostTimeout \<and> \<not> idle_round r"

lemma host_loop_returns:
  assumes "list_all idle_round (first # mid @ [r])" "hr_tick first \<noteq> 0" "hr_tick r - hr_tick first \<ge> NO_DEVICES_SHUTDOWN_TIMEOUT"
    and "before = [] \<and> since = 0 \<or> before \<noteq> [] \<and> resets (last before)"
  shows "\<exists>h'. host_loop (before @ first # mid @ r # rest) True since h = Inr ((), h')"
  using assms(4)
proof (induction before arbitrary: since h)
  case Nil
  have "idle_round first" "list_all idle_round (mid @ [r])" using assms(1) by simp_all
  then show ?case using host_loop_idle [OF _ assms(2,3)] Nil by (simp add: idle_round_def seq_Inr [OF check_devices_run])
next
  case (Cons x before)
  have step: "\<exists>h'. host_loop (before @ first # mid @ r # rest) True since' h = Inr ((), h')"
    if "before = [] \<longrightarrow> since' = 0" for since' h
    using Cons that by (cases before) auto
  show ?case
  proof (cases "hr_wait x")
    case HostTimeout
    have "before = [] \<longrightarrow> \<not> idle_round x" using Cons.prems by (auto simp: resets_def idle_round_def)
    then show ?thesis using step HostTimeout by (auto simp: idle_round_def seq_Inr [OF check_devices_run])
  qed (use step in auto)
qed


text \<open>The tick counter wraps around between the two readings.\<close>

definition round_at :: "u32 \<Rightarrow> host_round" where
  "round_at t = \<lparr>hr_wait = HostTimeout, hr_world = idle_world, hr_tick = t\<rparr>"

definition idle_host :: "host_round list \<Rightarrow> host" where
  "idle_host rs = \<lparr>h_oks = [], h_already_exists = False, open_handles = 0, ready_signalled = False,
     keepalive_signalled = False, h_rounds = rs, h_daemon = idle_daemon idle_world\<rparr>"


subsection \<open>One instance\<close>

text \<open>The open handles, and, when another instance exists, that the library was not touched.\<close>

definition has_open :: "nat \<Rightarrow> bool \<Rightarrow> daemon \<Rightarrow> host \<Rightarrow> bool" where
  "has_open n other d h \<longleftrightarrow> open_handles h = n \<and> h_already_exists h = other \<and> (other \<longrightarrow> h_daemon h = d)"

lemma open_on_daemon: "has_open n False d h \<Longrightarrow> wlp (on_daemon m) (\<lambda>_. has_open n False d) h"
  by (auto simp: wlp_def on_daemon_def has_open_def split: sum.splits)

lemma open_handle_wlp: "has_open n e d h \<Longrightarrow> wlp open_handle (\<lambda>ok. has_open (n + of_bool ok) e d) h"
  by (simp add: open_handle_def win_ok_def wlp_def seq_def has_open_def)

lemma open_or_create_wlp: "has_open n e d h \<Longrightarrow> wlp open_or_create (\<lambda>ok. has_open (n + of_bool ok) e d) h"
  unfolding open_or_create_def wlp_seq
  by (rule wlp_mono [OF open_handle_wlp]) (auto simp: wlp_ret intro: open_handle_wlp)

lemma signal_wlp: "has_open n e d h \<Longrightarrow> wlp signal_ready (\<lambda>ok. has_open n e d) h"
  by (simp add: signal_ready_def win_ok_def wlp_def seq_def has_open_def)

lemma host_loop_wlp: "has_open n False d h \<Longrightarrow> wlp (host_loop rs auto since) (\<lambda>_. has_open n False d) h"
proof (induction rs arbitrary: since h)
  case (Cons r rs)
  let ?h = "h\<lparr>h_rounds := rs, h_daemon := (h_daemon h)\<lparr>d_world := hr_world r\<rparr>\<rparr>"
  have o: "has_open n False d ?h" using Cons.prems by (simp add: has_open_def)
  have "wlp (check_devices auto since t) (\<lambda>_. has_open n False d) ?h" for t
    using o by (simp add: wlp_def check_devices_run)
  then have t: "wlp (seq (check_devices auto since t) (\<lambda>p. if snd p then ret () else host_loop rs auto (fst p)))
      (\<lambda>_. has_open n False d) ?h" for t
    unfolding wlp_seq by (rule wlp_mono) (simp add: wlp_ret Cons.IH)
  have "wlp (case hr_wait r of HostShutdown \<Rightarrow> ret () | HostKeepAlive \<Rightarrow> host_loop rs auto 0
       | HostTimeout \<Rightarrow> seq (check_devices auto since (hr_tick r)) (\<lambda>p. if snd p then ret () else host_loop rs auto (fst p))
       | HostError \<Rightarrow> ret ()) (\<lambda>_. has_open n False d) ?h"
    using t o by (cases "hr_wait r") (simp_all add: wlp_ret Cons.IH)
  then show ?case unfolding host_loop.simps wlp_seq wlp_modify .
qed (simp add: wlp_stop)

text \<open>Starting usbmuxd, telling the caller, a loop, and stopping usbmuxd.\<close>

lemma serving_wlp:
  assumes "has_open n False d h" and "\<And>rs h'. has_open n False d h' \<Longrightarrow> wlp (loop rs) (\<lambda>_. has_open n False d) h'"
  shows "wlp (seq (on_daemon start) (\<lambda>started. if \<not> started then ret False
     else seq signal_ready (\<lambda>_. seq (gets h_rounds) (\<lambda>rs. seq (loop rs) (\<lambda>_. on_daemon usbmuxd_Shutdown)))))
     (\<lambda>_. has_open n False d) h"
proof -
  have run: "wlp (seq signal_ready (\<lambda>_. seq (gets h_rounds) (\<lambda>rs. seq (loop rs) (\<lambda>_. on_daemon usbmuxd_Shutdown))))
      (\<lambda>_. has_open n False d) h'" if "has_open n False d h'" for h'
    unfolding wlp_seq wlp_gets
    by (rule wlp_mono [OF signal_wlp [OF that]]) (auto intro: wlp_mono [OF assms(2)] open_on_daemon)
  show ?thesis unfolding wlp_seq
    by (rule wlp_mono [OF open_on_daemon [OF assms(1)]]) (simp add: run wlp_ret)
qed

lemma run_instance_wlp: "has_open n False d h \<Longrightarrow> wlp (run_instance port auto) (\<lambda>_. has_open n False d) h"
  unfolding run_instance_def by (rule serving_wlp) (auto intro: host_loop_wlp)

lemma other_instance_wlp:
  assumes "has_open n e d h"
  shows "wlp other_instance (\<lambda>ok h'. has_open n e d h' \<and> (ok \<longrightarrow> ready_signalled h')) h"
  using assms
  by (simp add: other_instance_def open_handle_def SAFE_CLOSE_HANDLE_def signal_ready_def win_ok_def wlp_def seq_def has_open_def
      split: sum.splits)

text \<open>When the part behind the mutex may report success.\<close>

definition middle_ok :: "nat \<Rightarrow> bool \<Rightarrow> daemon \<Rightarrow> bool \<times> bool \<times> bool \<Rightarrow> host \<Rightarrow> bool" where
  "middle_ok n e d p h \<longleftrightarrow> has_open (n + of_bool (snd (snd p)) + of_bool (fst (snd p))) e d h \<and>
     (e \<and> fst p \<longrightarrow> ready_signalled h)"

lemma alone_wlp:
  assumes "has_open n e d h" and "\<And>k h'. has_open k False d h' \<Longrightarrow> wlp run (\<lambda>_. has_open k False d) h'"
  shows "wlp (seq open_handle (\<lambda>mutex. if \<not> mutex then ret (False, False, False)
     else seq (gets h_already_exists) (\<lambda>exists.
       if exists then seq other_instance (\<lambda>r. ret (r, True, False))
       else seq open_handle (\<lambda>keepalive. if \<not> keepalive then ret (False, True, False)
         else seq run (\<lambda>r. ret (r, True, True)))))) (middle_ok n e d) h"
proof -
  have first: "wlp (seq run (\<lambda>r. ret (r, True, True))) (middle_ok n False d) h'"
    if "has_open (Suc (Suc n)) False d h'" for h'
    unfolding wlp_seq wlp_ret using assms(2) [OF that] by (rule wlp_mono) (simp add: middle_ok_def)
  have second: "wlp (seq other_instance (\<lambda>r. ret (r, True, False))) (middle_ok n e d) h'" if "has_open (Suc n) e d h'" for h'
    unfolding wlp_seq wlp_ret using other_instance_wlp [OF that] by (rule wlp_mono) (simp add: middle_ok_def)
  have third: "wlp (seq open_handle (\<lambda>keepalive. if \<not> keepalive then ret (False, True, False)
         else seq run (\<lambda>r. ret (r, True, True)))) (middle_ok n False d) h'" if "has_open (Suc n) False d h'" for h'
    unfolding wlp_seq [of open_handle] using open_handle_wlp [OF that]
    by (rule wlp_mono) (auto simp: wlp_ret middle_ok_def intro: first)
  have fourth: "wlp (seq (gets h_already_exists) (\<lambda>exists.
       if exists then seq other_instance (\<lambda>r. ret (r, True, False))
       else seq open_handle (\<lambda>keepalive. if \<not> keepalive then ret (False, True, False)
         else seq run (\<lambda>r. ret (r, True, True))))) (middle_ok n e d) h'" if "has_open (Suc n) e d h'" for h'
    using that second [OF that] third [of h'] unfolding wlp_seq [of "gets _"] wlp_gets by (cases e) (simp_all add: has_open_def)
  show ?thesis unfolding wlp_seq [of open_handle] using open_handle_wlp [OF assms(1)]
    by (rule wlp_mono) (auto simp: wlp_ret middle_ok_def intro: fourth)
qed

lemma middle_wlp: "has_open n e d h \<Longrightarrow> wlp (run_single_instance port mode) (middle_ok n e d) h"
  unfolding run_single_instance_def by (rule alone_wlp) (auto intro: run_instance_wlp)

lemma closing_wlp:
  assumes "middle_ok (n + of_bool ready + of_bool shutdown) e d p h"
  shows "wlp (seq (SAFE_CLOSE_HANDLE ready) (\<lambda>_. seq (SAFE_CLOSE_HANDLE shutdown) (\<lambda>_.
      seq (SAFE_CLOSE_HANDLE (fst (snd p))) (\<lambda>_. seq (SAFE_CLOSE_HANDLE (snd (snd p))) (\<lambda>_. ret (fst p))))))
      (\<lambda>ok h'. has_open n e d h' \<and> (e \<and> ok \<longrightarrow> ready_signalled h')) h"
  using assms by (cases ready; cases shutdown; cases "fst (snd p)"; cases "snd (snd p)")
    (simp_all add: SAFE_CLOSE_HANDLE_def wlp has_open_def middle_ok_def)

lemma host_wlp:
  assumes "has_open n e d h"
  shows "wlp (RunUsbmuxdHost port mode) (\<lambda>ok h'. has_open n e d h' \<and> (e \<and> ok \<longrightarrow> ready_signalled h')) h"
proof -
  have part: "wlp (if \<not> ready \<or> \<not> shutdown then ret (False, False, False) else run_single_instance port mode)
      (middle_ok k e d) h'" if "has_open k e d h'" for ready shutdown k h'
    using that middle_wlp by (auto simp: wlp_ret middle_ok_def)
  have "wlp (seq open_or_create (\<lambda>shutdown.
     seq (if \<not> ready \<or> \<not> shutdown then ret (False, False, False) else run_single_instance port mode) (\<lambda>p.
     seq (SAFE_CLOSE_HANDLE ready) (\<lambda>_. seq (SAFE_CLOSE_HANDLE shutdown) (\<lambda>_.
     seq (SAFE_CLOSE_HANDLE (fst (snd p))) (\<lambda>_. seq (SAFE_CLOSE_HANDLE (snd (snd p))) (\<lambda>_. ret (fst p))))))))
     (\<lambda>ok h'. has_open n e d h' \<and> (e \<and> ok \<longrightarrow> ready_signalled h')) h'" if "has_open (n + of_bool ready) e d h'" for ready h'
    by (rule wlp_then [OF open_or_create_wlp [OF that]], rule wlp_then [OF part closing_wlp])
  then show ?thesis
    unfolding RunUsbmuxdHost_def by (rule wlp_then [OF open_or_create_wlp [OF assms]])
qed

text \<open>
  C40: One instance for a port. Whatever happens, the host process closes every handle it opened. If another
  instance already runs, it never starts usbmuxd, and it reports success only when it has told its caller that
  usbmuxd is ready; if all calls succeed it does so, and has reset the shutdown timer of the other instance.
\<close>

theorem one_instance:
  shows "(RunUsbmuxdHost port mode h = Inr (ok, h') \<longrightarrow> open_handles h' = open_handles h \<and>
      (h_already_exists h \<longrightarrow> h_daemon h' = h_daemon h \<and> (ok \<longrightarrow> ready_signalled h'))) \<and>
    (h_already_exists h \<and> h_oks h = [] \<longrightarrow>
      RunUsbmuxdHost port mode h = Inr (True, h\<lparr>ready_signalled := True, keepalive_signalled := True\<rparr>))"
proof (intro conjI impI)
  have "has_open (open_handles h) (h_already_exists h) (h_daemon h) h" by (simp add: has_open_def)
  note w = host_wlp [OF this]
  assume "RunUsbmuxdHost port mode h = Inr (ok, h')"
  from wlp_run [OF w this]
  show "open_handles h' = open_handles h"
    and "h_already_exists h \<Longrightarrow> h_daemon h' = h_daemon h" and "h_already_exists h \<Longrightarrow> ok \<Longrightarrow> ready_signalled h'"
    by (simp_all add: has_open_def)
next
  assume "h_already_exists h \<and> h_oks h = []"
  then show "RunUsbmuxdHost port mode h = Inr (True, h\<lparr>ready_signalled := True, keepalive_signalled := True\<rparr>)"
    by (cases h) (simp add: RunUsbmuxdHost_def open_or_create_def open_handle_def run_single_instance_def other_instance_def
        SAFE_CLOSE_HANDLE_def signal_ready_def win_ok_def next_or_def seq_def)
qed

theorem one_instance_witness:
  "\<exists>h'. RunUsbmuxdHost 37015 ''AutoShutdownTRUE'' ((idle_host [])\<lparr>h_already_exists := True\<rparr>) = Inr (True, h') \<and>
     ready_signalled h' \<and> h_daemon h' = idle_daemon idle_world \<and> open_handles h' = 0"
proof -
  let ?h = "(idle_host [])\<lparr>h_already_exists := True\<rparr>"
  have "RunUsbmuxdHost 37015 ''AutoShutdownTRUE'' ?h = Inr (True, ?h\<lparr>ready_signalled := True, keepalive_signalled := True\<rparr>)"
    using one_instance [of 37015 "''AutoShutdownTRUE''" ?h] by (simp add: idle_host_def)
  then show ?thesis
    using one_instance [of 37015 "''AutoShutdownTRUE''" ?h True] by (simp add: idle_host_def)
qed

end
