(* ===== verification/Host_Main.thy ===== *)
theory Host_Main
  imports Host
begin

text \<open>
  The older main program of the host process, usbmuxdMain.cpp with the constants of the usbmuxdHost_internal.h beside it.
  It differs from usbmuxdHost.cpp in that both events must exist, that it always shuts down by itself, after fifty idle
  seconds, and that it starts usbmuxd by a function of the port and the hub address. The present library has no such
  function (its \<open>usbmuxd_Start\<close> has three parameters), so the call is an argument of the model.
\<close>

definition MAIN_SHUTDOWN_TIMEOUT :: u32 where "MAIN_SHUTDOWN_TIMEOUT = 50000"
definition MAIN_ARGC :: nat where "MAIN_ARGC = 5"

subsection \<open>The program\<close>

definition check_idle :: "u32 \<Rightarrow> u32 \<Rightarrow> (u32 \<times> bool) hact" where
  "check_idle since tick = seq (on_daemon usbmuxd_HasDevices) (\<lambda>has.
     if has then ret (0, False)
     else if since = 0 then ret (tick, False)
     else ret (since, tick - since \<ge> MAIN_SHUTDOWN_TIMEOUT))"

fun wait_loop :: "host_round list \<Rightarrow> u32 \<Rightarrow> unit hact" where
  "wait_loop [] since = stop OutOfFuel"
| "wait_loop (r # rs) since =
     seq (modify (\<lambda>h. h\<lparr>h_rounds := rs, h_daemon := (h_daemon h)\<lparr>d_world := hr_world r\<rparr>\<rparr>)) (\<lambda>_.
     case hr_wait r of
       HostShutdown \<Rightarrow> ret ()
     | HostKeepAlive \<Rightarrow> wait_loop rs 0
     | HostTimeout \<Rightarrow> seq (check_idle since (hr_tick r)) (\<lambda>p. if snd p then ret () else wait_loop rs (fst p))
     | HostError \<Rightarrow> ret ())"

definition serve :: "bool main \<Rightarrow> bool hact" where
  "serve start = seq (on_daemon start) (\<lambda>started.
     if \<not> started then ret False
     else seq signal_ready (\<lambda>_.
       seq (gets h_rounds) (\<lambda>rs.
       seq (wait_loop rs 0) (\<lambda>_. on_daemon usbmuxd_Shutdown))))"

definition serve_alone :: "bool main \<Rightarrow> (bool \<times> bool \<times> bool) hact" where
  "serve_alone start = seq open_handle (\<lambda>mutex.
     if \<not> mutex then ret (False, False, False)
     else seq (gets h_already_exists) (\<lambda>exists.
       if exists then seq other_instance (\<lambda>r. ret (r, True, False))
       else seq open_handle (\<lambda>keepalive.
         if \<not> keepalive then ret (False, True, False)
         else seq (serve start) (\<lambda>r. ret (r, True, True)))))"

definition main_RunUsbmuxdHost :: "(u16 \<Rightarrow> u32 \<Rightarrow> bool main) \<Rightarrow> u16 \<Rightarrow> u32 \<Rightarrow> bool hact" where
  "main_RunUsbmuxdHost start port hub =
     seq open_handle (\<lambda>ready.
     seq open_handle (\<lambda>shutdown.
     seq (if \<not> ready \<or> \<not> shutdown then ret (False, False, False) else serve_alone (start port hub)) (\<lambda>p.
     seq (SAFE_CLOSE_HANDLE ready) (\<lambda>_.
     seq (SAFE_CLOSE_HANDLE shutdown) (\<lambda>_.
     seq (SAFE_CLOSE_HANDLE (fst (snd p))) (\<lambda>_.
     seq (SAFE_CLOSE_HANDLE (snd (snd p))) (\<lambda>_. ret (fst p))))))))"

text \<open>\<open>wcstoul\<close> to the base 10: a number that does not fit gives the largest; a minus sign negates modulo \<open>2 ^ 32\<close>.\<close>

definition strtoul10 :: "string \<Rightarrow> u32" where
  "strtoul10 s =
     (let t = dropWhile is_space s;
          u = (if take 1 t = ''-'' \<or> take 1 t = ''+'' then drop 1 t else t);
          n = digits_value 0 (takeWhile is_digit u)
      in if n \<ge> 2 ^ 32 then - 1 else if take 1 t = ''-'' then - of_nat n else of_nat n)"

definition main_InternalWinMain :: "(u16 \<Rightarrow> u32 \<Rightarrow> bool main) \<Rightarrow> string list option \<Rightarrow> bool hact" where
  "main_InternalWinMain start argv = (case argv of
       None \<Rightarrow> ret False
     | Some argv \<Rightarrow>
         if length argv \<noteq> MAIN_ARGC then ret False
         else main_RunUsbmuxdHost start (word_of_int (strtol10 (argv ! 1))) (strtoul10 (argv ! 2)))"

subsection \<open>Its waiting loop\<close>

lemma check_idle_run:
  "check_idle since tick h = Inr ((if collection_count (g_device_list (d_world (h_daemon h))) > 0 then (0, False)
     else if since = 0 then (tick, False) else (since, tick - since \<ge> MAIN_SHUTDOWN_TIMEOUT)), h)"
  by (simp add: check_idle_def on_daemon_def usbmuxd_HasDevices_def in_world_def usb_has_devices_def seq_def)

lemma wait_loop_left: "wait_loop rs since h = Inr ((), h') \<Longrightarrow> \<exists>used. rs = used @ h_rounds h'"
proof (induction rs arbitrary: since h)
  case (Cons x rs)
  let ?h = "h\<lparr>h_rounds := rs, h_daemon := (h_daemon h)\<lparr>d_world := hr_world x\<rparr>\<rparr>"
  have "h' = ?h \<or> (\<exists>since'. wait_loop rs since' ?h = Inr ((), h'))"
    using Cons.prems by (cases "hr_wait x") (auto simp: seq_Inr [OF check_idle_run] split: if_splits)
  then show ?case
  proof
    assume "h' = ?h"
    then show ?thesis by simp
  next
    assume "\<exists>since'. wait_loop rs since' ?h = Inr ((), h')"
    then obtain used where "rs = used @ h_rounds h'" using Cons.IH by blast
    then have "x # rs = (x # used) @ h_rounds h'" by simp
    then show ?thesis by blast
  qed
qed simp

text \<open>
  In the same rounds, the present host process that was told to shut down by itself ends no later than the older one,
  which waits ten times as long: when the older loop has returned, the present one has, and has left at least as many
  rounds unused.
\<close>

theorem host_ends_no_later:
  assumes "wait_loop rs since h = Inr ((), h')"
  shows "\<exists>h'' more. host_loop rs True since h = Inr ((), h'') \<and> h_rounds h'' = more @ h_rounds h'"
  using assms
proof (induction rs arbitrary: since h)
  case Nil
  then show ?case by simp
next
  case (Cons r rs)
  let ?h = "h\<lparr>h_rounds := rs, h_daemon := (h_daemon h)\<lparr>d_world := hr_world r\<rparr>\<rparr>"
  show ?case
  proof (cases "hr_wait r")
    case HostTimeout
    show ?thesis
    proof (cases "collection_count (g_device_list (hr_world r)) > 0")
      case True
      then have "wait_loop rs 0 ?h = Inr ((), h')" using Cons.prems HostTimeout by (simp add: seq_Inr [OF check_idle_run])
      from Cons.IH [OF this] show ?thesis using True HostTimeout by (simp add: seq_Inr [OF check_devices_run])
    next
      case idle: False
      show ?thesis
      proof (cases "since \<noteq> 0 \<and> hr_tick r - since \<ge> NO_DEVICES_SHUTDOWN_TIMEOUT")
        case True
        then have "host_loop (r # rs) True since h = Inr ((), ?h)"
          using idle HostTimeout by (simp add: seq_Inr [OF check_devices_run])
        moreover have "\<exists>used. rs = used @ h_rounds h'"
        proof (cases "hr_tick r - since \<ge> MAIN_SHUTDOWN_TIMEOUT")
          case stop: True
          then have "h' = ?h" using Cons.prems HostTimeout idle True by (simp add: seq_Inr [OF check_idle_run])
          then show ?thesis by simp
        next
          case False
          then have "wait_loop rs since ?h = Inr ((), h')"
            using Cons.prems HostTimeout idle True by (simp add: seq_Inr [OF check_idle_run])
          then show ?thesis by (rule wait_loop_left)
        qed
        ultimately show ?thesis by auto
      next
        case False
        have "\<not> (since \<noteq> 0 \<and> hr_tick r - since \<ge> MAIN_SHUTDOWN_TIMEOUT)"
          using False by (auto simp: NO_DEVICES_SHUTDOWN_TIMEOUT_def MAIN_SHUTDOWN_TIMEOUT_def word_le_nat_alt)
        then have "wait_loop rs (if since = 0 then hr_tick r else since) ?h = Inr ((), h')"
          using Cons.prems HostTimeout idle by (auto simp: seq_Inr [OF check_idle_run])
        from Cons.IH [OF this] show ?thesis using False idle HostTimeout by (auto simp: seq_Inr [OF check_devices_run])
      qed
    qed
  next
    case HostKeepAlive
    then show ?thesis using Cons.prems Cons.IH [of 0 ?h] by simp
  qed (use Cons.prems in auto)
qed

theorem host_ends_no_later_witness:
  "\<exists>h'. host_loop [round_at 1000, round_at 61000] True 0 (idle_host []) = Inr ((), h')"
proof -
  have "\<exists>h'. wait_loop [round_at 1000, round_at 61000] 0 (idle_host []) = Inr ((), h')"
    by (simp add: seq_Inr [OF check_idle_run] round_at_def idle_defs MAIN_SHUTDOWN_TIMEOUT_def)
  then obtain h' where "wait_loop [round_at 1000, round_at 61000] 0 (idle_host []) = Inr ((), h')" ..
  from host_ends_no_later [OF this] show ?thesis by blast
qed

subsection \<open>Its handles\<close>

lemma wait_loop_wlp: "has_open n False d h \<Longrightarrow> wlp (wait_loop rs since) (\<lambda>_. has_open n False d) h"
proof (induction rs arbitrary: since h)
  case (Cons r rs)
  let ?h = "h\<lparr>h_rounds := rs, h_daemon := (h_daemon h)\<lparr>d_world := hr_world r\<rparr>\<rparr>"
  have o: "has_open n False d ?h" using Cons.prems by (simp add: has_open_def)
  have "wlp (check_idle since t) (\<lambda>_. has_open n False d) ?h" for t
    using o by (simp add: wlp_def check_idle_run)
  then have t: "wlp (seq (check_idle since t) (\<lambda>p. if snd p then ret () else wait_loop rs (fst p)))
      (\<lambda>_. has_open n False d) ?h" for t
    unfolding wlp_seq by (rule wlp_mono) (simp add: wlp_ret Cons.IH)
  have "wlp (case hr_wait r of HostShutdown \<Rightarrow> ret () | HostKeepAlive \<Rightarrow> wait_loop rs 0
       | HostTimeout \<Rightarrow> seq (check_idle since (hr_tick r)) (\<lambda>p. if snd p then ret () else wait_loop rs (fst p))
       | HostError \<Rightarrow> ret ()) (\<lambda>_. has_open n False d) ?h"
    using t o by (cases "hr_wait r") (simp_all add: wlp_ret Cons.IH)
  then show ?case unfolding wait_loop.simps wlp_seq wlp_modify .
qed (simp add: wlp_stop)

lemma serve_wlp: "has_open n False d h \<Longrightarrow> wlp (serve start) (\<lambda>_. has_open n False d) h"
  unfolding serve_def by (rule serving_wlp) (auto intro: wait_loop_wlp)

lemma serve_alone_wlp: "has_open n e d h \<Longrightarrow> wlp (serve_alone start) (middle_ok n e d) h"
  unfolding serve_alone_def by (rule alone_wlp) (auto intro: serve_wlp)

text \<open>The older program closes its handles too, and does not start usbmuxd beside another instance.\<close>

theorem main_one_instance:
  "main_RunUsbmuxdHost start port hub h = Inr (ok, h') \<longrightarrow> open_handles h' = open_handles h \<and>
     (h_already_exists h \<longrightarrow> h_daemon h' = h_daemon h \<and> (ok \<longrightarrow> ready_signalled h'))"
proof
  let ?n = "open_handles h" and ?e = "h_already_exists h" and ?d = "h_daemon h"
  have h: "has_open ?n ?e ?d h" by (simp add: has_open_def)
  have part: "wlp (if \<not> ready \<or> \<not> shutdown then ret (False, False, False) else serve_alone (start port hub))
      (middle_ok k ?e ?d) h1" if "has_open k ?e ?d h1" for ready shutdown k h1
    using that serve_alone_wlp by (auto simp: wlp_ret middle_ok_def)
  have "wlp (main_RunUsbmuxdHost start port hub)
      (\<lambda>ok h'. has_open ?n ?e ?d h' \<and> (?e \<and> ok \<longrightarrow> ready_signalled h')) h"
    unfolding main_RunUsbmuxdHost_def
    by (rule wlp_then [OF open_handle_wlp [OF h]], rule wlp_then [OF open_handle_wlp], assumption)
      (rule wlp_then [OF part closing_wlp])
  moreover assume "main_RunUsbmuxdHost start port hub h = Inr (ok, h')"
  ultimately have "has_open ?n ?e ?d h' \<and> (?e \<and> ok \<longrightarrow> ready_signalled h')" by (rule wlp_run)
  then show "open_handles h' = ?n \<and> (?e \<longrightarrow> h_daemon h' = ?d \<and> (ok \<longrightarrow> ready_signalled h'))"
    by (simp add: has_open_def)
qed

end
