(* ===== verification/Semaphore.thy ===== *)
theory Semaphore
  imports Rw_Spec
begin

text \<open>
  The blocking queue between the main thread and the writer thread of a usb device: the block queue together
  with a counting semaphore that spins before it sleeps (\<open>LightweightSemaphore\<close> of atomicops.h over the
  semaphore of Windows, \<open>BlockingReaderWriterQueue\<close> of readerwriterqueue.h).

  The two threads are interleaved. A step is one atomic access to the counter, one call on the Windows
  semaphore, or one whole operation on the block queue (which Rw_Spec shows to act on a list). \<open>prod_at\<close> and
  \<open>cons_at\<close> say where each thread stands between its steps; \<open>given\<close> and \<open>got\<close> record what has been enqueued and
  what the consumer has received. The counter is an integer: it never exceeds the number of elements.
\<close>

text \<open>
  The producer is outside, before the increment of \<open>signal\<close>, or before the release. The consumer has read a
  positive count, spins with some rounds left, is asleep, or is on the way back from a timeout; the number is
  the time limit in microseconds, negative for none.
\<close>

datatype prod_pc = P_Idle | P_Signal | P_Release

datatype cons_pc =
  C_Idle | C_Claim | C_Spin nat int | C_Asleep int | C_Restore int | C_Undo int | C_Retry int | C_Take

record 'a chan =
  inner :: "'a rwq"
  m_count :: int
  m_sema :: nat
  prod_at :: prod_pc
  cons_at :: cons_pc
  given :: "'a list"
  got :: "'a list"

type_synonym ('a, 'b) chact = "('a chan, 'b) prog"

definition BlockingReaderWriterQueue :: "'a rwq \<Rightarrow> 'a chan" where
  "BlockingReaderWriterQueue q = \<lparr>inner = q, m_count = 0, m_sema = 0, prod_at = P_Idle, cons_at = C_Idle, given = [], got = []\<rparr>"

subsection \<open>The counter and the semaphore of Windows\<close>

definition fetch_add :: "int \<Rightarrow> ('a, int) chact" where
  "fetch_add k c = Inr (m_count c, c\<lparr>m_count := m_count c + k\<rparr>)"

definition Semaphore_signal :: "('a, unit) chact" where
  "Semaphore_signal = modify (\<lambda>c. if m_sema c < 0x7fffffff then c\<lparr>m_sema := m_sema c + 1\<rparr> else c)"

definition Semaphore_try_wait :: "('a, bool) chact" where
  "Semaphore_try_wait c = (if m_sema c > 0 then Inr (True, c\<lparr>m_sema := m_sema c - 1\<rparr>) else Inr (False, c))"

text \<open>A wait: \<open>None\<close> while it lasts; \<open>expired\<close> says that the time is over.\<close>

definition Semaphore_timed_wait :: "bool \<Rightarrow> ('a, bool option) chact" where
  "Semaphore_timed_wait expired = seq Semaphore_try_wait (\<lambda>b.
     ret (if b then Some True else if expired then Some False else None))"

definition goto_prod :: "prod_pc \<Rightarrow> ('a, unit) chact" where
  "goto_prod pc = modify (\<lambda>c. c\<lparr>prod_at := pc\<rparr>)"

definition goto_cons :: "cons_pc \<Rightarrow> ('a, unit) chact" where
  "goto_cons pc = modify (\<lambda>c. c\<lparr>cons_at := pc\<rparr>)"

definition on_inner :: "('a, 'b) qact \<Rightarrow> ('a, 'b) chact" where
  "on_inner m c = (case m (inner c) of Inl h \<Rightarrow> Inl h | Inr (x, q) \<Rightarrow> Inr (x, c\<lparr>inner := q\<rparr>))"

subsection \<open>The producer\<close>

text \<open>\<open>enqueue\<close> (\<open>canAlloc\<close>) and \<open>try_enqueue\<close> up to the call of \<open>signal\<close>.\<close>

definition start_enqueue :: "bool \<Rightarrow> 'a \<Rightarrow> ('a, unit) chact" where
  "start_enqueue canAlloc x = seq (on_inner (if canAlloc then enqueue x else try_enqueue x)) (\<lambda>ok.
     whenM ok (seq (modify (\<lambda>c. c\<lparr>given := given c @ [x]\<rparr>)) (\<lambda>_. goto_prod P_Signal)))"

text \<open>The rest of the call, step by step; \<open>False\<close> when there is nothing to do.\<close>

definition signal_next :: "('a, bool) chact" where
  "signal_next = seq (gets prod_at) (\<lambda>pc. case pc of
       P_Idle \<Rightarrow> ret False
     | P_Signal \<Rightarrow> seq (fetch_add 1) (\<lambda>oldCount.
         if oldCount < -1 then stop ProcessExit
         else seq (goto_prod (if oldCount < 0 then P_Release else P_Idle)) (\<lambda>_. ret True))
     | P_Release \<Rightarrow> seq Semaphore_signal (\<lambda>_. seq (goto_prod P_Idle) (\<lambda>_. ret True)))"

subsection \<open>The consumer\<close>

text \<open>\<open>try_dequeue\<close>, or \<open>wait_dequeue\<close> with a time limit, up to the test of \<open>tryWait\<close>.\<close>

datatype cons_op = TryDequeue | WaitDequeue int

definition start_dequeue :: "cons_op \<Rightarrow> ('a, unit) chact" where
  "start_dequeue op = seq (gets m_count) (\<lambda>count.
     goto_cons (if count > 0 then C_Claim else case op of TryDequeue \<Rightarrow> C_Idle | WaitDequeue t \<Rightarrow> C_Spin 10000 t))"

definition take_element :: "('a, bool) chact" where
  "take_element = seq (on_inner try_dequeue) (\<lambda>x. case x of
       None \<Rightarrow> stop ProcessExit
     | Some x \<Rightarrow> seq (modify (\<lambda>c. c\<lparr>got := got c @ [x]\<rparr>)) (\<lambda>_. seq (goto_cons C_Idle) (\<lambda>_. ret True)))"

text \<open>The next step of \<open>waitWithPartialSpinning\<close> and of its callers; \<open>False\<close> when the thread cannot go on.\<close>

definition wait_next :: "bool \<Rightarrow> ('a, bool) chact" where
  "wait_next expired = seq (gets cons_at) (\<lambda>pc. case pc of
       C_Idle \<Rightarrow> ret False
     | C_Claim \<Rightarrow> seq (fetch_add (-1)) (\<lambda>_. seq (goto_cons C_Take) (\<lambda>_. ret True))
     | C_Spin spin t \<Rightarrow> (case spin of
         Suc spin \<Rightarrow> seq (gets m_count) (\<lambda>count. seq (goto_cons (if count > 0 then C_Claim else C_Spin spin t)) (\<lambda>_. ret True))
       | 0 \<Rightarrow> seq (fetch_add (-1)) (\<lambda>oldCount. seq (goto_cons (if oldCount > 0 then C_Take else C_Asleep t)) (\<lambda>_. ret True)))
     | C_Asleep t \<Rightarrow> seq (Semaphore_timed_wait (expired \<and> 0 \<le> t)) (\<lambda>r. case r of
         None \<Rightarrow> ret False
       | Some woken \<Rightarrow> seq (goto_cons (if woken then C_Take else C_Restore t)) (\<lambda>_. ret True))
     | C_Restore t \<Rightarrow> seq (fetch_add 1) (\<lambda>oldCount. seq (goto_cons (if oldCount < 0 then C_Idle else C_Undo t)) (\<lambda>_. ret True))
     | C_Undo t \<Rightarrow> seq (fetch_add (-1)) (\<lambda>oldCount. seq (goto_cons (if oldCount > 0 then C_Retry t else C_Restore t)) (\<lambda>_. ret True))
     | C_Retry t \<Rightarrow> seq Semaphore_try_wait (\<lambda>b. seq (goto_cons (if b then C_Take else C_Restore t)) (\<lambda>_. ret True))
     | C_Take \<Rightarrow> take_element)"

definition availableApprox :: "('a, int) chact" where
  "availableApprox = gets (\<lambda>c. max 0 (m_count c))"

subsection \<open>The two threads\<close>

inductive chan_step :: "'a chan \<Rightarrow> 'a chan \<Rightarrow> bool" where
  give: "prod_at c = P_Idle \<Longrightarrow> start_enqueue canAlloc x c = Inr ((), c') \<Longrightarrow> chan_step c c'"
| signal: "signal_next c = Inr (True, c') \<Longrightarrow> chan_step c c'"
| ask_for: "cons_at c = C_Idle \<Longrightarrow> start_dequeue op c = Inr ((), c') \<Longrightarrow> chan_step c c'"
| wait: "wait_next expired c = Inr (True, c') \<Longrightarrow> chan_step c c'"

inductive_cases chan_stepE: "chan_step c c'"

text \<open>The consumer runs alone until its operation is over; whether the time is up at each step is given.\<close>

fun run_consumer :: "bool list \<Rightarrow> ('a, unit) chact" where
  "run_consumer [] = ret ()"
| "run_consumer (e # es) = seq (gets cons_at) (\<lambda>pc. if pc = C_Idle then ret () else seq (wait_next e) (\<lambda>_. run_consumer es))"

subsection \<open>The invariant\<close>

text \<open>
  The counter is the number of elements, less the one whose signal is outstanding and the one the consumer has
  already claimed. Beyond that, what is known of the counter and of the tokens (given or about to be given)
  depends on where the consumer stands.
\<close>

fun claimed :: "cons_pc \<Rightarrow> bool" where
  "claimed (C_Asleep t) = True"
| "claimed (C_Restore t) = True"
| "claimed (C_Retry t) = True"
| "claimed C_Take = True"
| "claimed pc = False"

fun tokens_ok :: "cons_pc \<Rightarrow> int \<Rightarrow> nat \<Rightarrow> bool" where
  "tokens_ok C_Claim n k = (1 \<le> n \<and> k = 0)"
| "tokens_ok (C_Undo t) n k = (1 \<le> n \<and> k = 1)"
| "tokens_ok (C_Asleep t) n k = (-1 \<le> n \<and> k = (if 0 \<le> n then 1 else 0))"
| "tokens_ok (C_Restore t) n k = (-1 \<le> n \<and> k = (if 0 \<le> n then 1 else 0))"
| "tokens_ok (C_Retry t) n k = (-1 \<le> n \<and> k = (if 0 \<le> n then 1 else 0))"
| "tokens_ok pc n k = (0 \<le> n \<and> k = 0)"

definition holds_pending :: "'a chan \<Rightarrow> 'a list \<Rightarrow> bool" where
  "holds_pending c xs \<longleftrightarrow> queue_rel (inner c) xs \<and> given c = got c @ xs \<and>
     m_count c = int (length xs) - of_bool (prod_at c = P_Signal) - of_bool (claimed (cons_at c)) \<and>
     tokens_ok (cons_at c) (m_count c) (m_sema c + of_bool (prod_at c = P_Release))"

lemmas chan_defs = holds_pending_def fetch_add_def goto_prod_def goto_cons_def Semaphore_signal_def Semaphore_try_wait_def
  Semaphore_timed_wait_def on_inner_def

lemma enqueues: "(if canAlloc then enqueue x else try_enqueue x) = inner_enqueue canAlloc x"
  by (simp add: enqueue_def try_enqueue_def)

lemma give_pending:
  assumes "holds_pending c xs" "prod_at c = P_Idle"
  shows "\<exists>c' ys. start_enqueue canAlloc x c = Inr ((), c') \<and> holds_pending c' ys"
proof -
  have r: "queue_rel (inner c) xs" using assms(1) by (simp add: holds_pending_def)
  obtain b q where q: "(if canAlloc then enqueue x else try_enqueue x) (inner c) = Inr (b, q)" "queue_rel q (if b then xs @ [x] else xs)"
    using inner_enqueue_law [OF r, of canAlloc x] unfolding enqueues by (metis (full_types))
  show ?thesis
  proof (cases b)
    case True
    then show ?thesis using q assms by (intro exI [of _ "xs @ [x]"] exI conjI) (auto simp: start_enqueue_def chan_defs seq_def)
  next
    case False
    then show ?thesis using q assms by (intro exI [of _ xs] exI conjI) (auto simp: start_enqueue_def chan_defs seq_def)
  qed
qed

lemma signal_pending:
  assumes "holds_pending c xs"
  shows "\<exists>b c'. signal_next c = Inr (b, c') \<and> holds_pending c' xs"
proof (cases "prod_at c")
  case P_Idle
  then show ?thesis using assms by (auto simp: signal_next_def)
next
  case P_Signal
  then show ?thesis using assms
    by (cases "cons_at c") (auto simp: signal_next_def chan_defs seq_def split: if_splits)
next
  case P_Release
  then show ?thesis using assms
    by (cases "cons_at c") (auto simp: signal_next_def chan_defs seq_def split: if_splits)
qed

lemma ask_pending:
  assumes "holds_pending c xs" "cons_at c = C_Idle"
  shows "\<exists>c'. start_dequeue op c = Inr ((), c') \<and> holds_pending c' xs"
  using assms by (cases op) (auto simp: start_dequeue_def chan_defs)

lemma take_pending:
  assumes "holds_pending c xs" "cons_at c = C_Take"
  shows "\<exists>x ys q. xs = x # ys \<and> take_element c = Inr (True, c\<lparr>inner := q, got := got c @ [x], cons_at := C_Idle\<rparr>) \<and> queue_rel q ys"
proof -
  have r: "queue_rel (inner c) xs" and n: "0 \<le> m_count c" "m_count c = int (length xs) - of_bool (prod_at c = P_Signal) - 1"
    using assms by (auto simp: holds_pending_def)
  from n obtain x ys where xs: "xs = x # ys" by (cases xs) (auto simp: of_bool_def split: if_splits)
  obtain q where "try_dequeue (inner c) = Inr (Some x, q)" "queue_rel q ys" using rwq.deq_law [OF r] xs by auto
  then show ?thesis using xs by (intro exI [of _ x] exI [of _ ys] exI [of _ q]) (simp add: take_element_def chan_defs seq_def)
qed

lemma wait_pending:
  assumes "holds_pending c xs"
  shows "\<exists>b c' ys. wait_next e c = Inr (b, c') \<and> holds_pending c' ys"
proof (cases "cons_at c")
  case C_Take
  obtain x ys q where t: "xs = x # ys" "take_element c = Inr (True, c\<lparr>inner := q, got := got c @ [x], cons_at := C_Idle\<rparr>)" "queue_rel q ys"
    using take_pending [OF assms C_Take] by blast
  then show ?thesis using assms C_Take by (intro exI [of _ ys] exI conjI) (auto simp: wait_next_def holds_pending_def)
next
  case (C_Spin n t)
  then show ?thesis using assms by (cases n) (auto simp: wait_next_def chan_defs seq_def split: if_splits)
next
  case (C_Asleep t)
  then show ?thesis using assms by (auto simp: wait_next_def chan_defs seq_def split: if_splits)
qed (use assms in \<open>auto simp: wait_next_def chan_defs seq_def split: if_splits\<close>)

lemma step_pending:
  assumes "chan_step c c'" "holds_pending c xs"
  shows "\<exists>ys. holds_pending c' ys"
  using assms
proof cases
  case (give canAlloc x)
  then show ?thesis using give_pending [OF assms(2), of canAlloc x] by auto
next
  case signal
  then show ?thesis using signal_pending [OF assms(2)] by auto
next
  case (ask_for op)
  then show ?thesis using ask_pending [OF assms(2), of op] by auto
next
  case (wait expired)
  then show ?thesis using wait_pending [OF assms(2), of expired] by auto
qed

lemma reach_pending:
  assumes "chan_step\<^sup>*\<^sup>* (BlockingReaderWriterQueue q) c" "queue_rel q []"
  shows "\<exists>xs. holds_pending c xs"
  using assms(1)
proof induction
  case base
  show ?case using assms(2) by (intro exI [of _ "[]"]) (simp add: holds_pending_def BlockingReaderWriterQueue_def)
next
  case (step c c')
  then show ?case using step_pending by blast
qed

text \<open>
  C36: The blocking queue, whatever the interleaving of the two threads. In every state they can reach from a new
  queue: no step of either thread fails (no assertion, and no slot without an object is read; in particular
  the element a waiting consumer was promised is there); what the consumer has received, followed by what is
  still pending, is what was enqueued, in order; between two calls of each side the approximate size is exact; and no
  wake-up is lost: when the consumer sleeps while something is pending and the producer is between two calls,
  the semaphore has been released for it.
\<close>

theorem blocking_queue_safe:
  fixes q0 :: "'a rwq"
  assumes "blocks q0 = []" "False \<notin> set (allocs q0)" "0 < n" "n < 2 ^ 63"
    and "ReaderWriterQueue n q0 = Inr ((), q)" "chan_step\<^sup>*\<^sup>* (BlockingReaderWriterQueue q) c"
  shows "\<exists>pending. given c = got c @ pending \<and>
    (prod_at c = P_Idle \<longrightarrow> (\<exists>c'. start_enqueue canAlloc x c = Inr ((), c'))) \<and> (\<exists>b c'. signal_next c = Inr (b, c')) \<and>
    (\<exists>b c'. wait_next expired c = Inr (b, c')) \<and>
    (prod_at c = P_Idle \<and> cons_at c = C_Idle \<longrightarrow> availableApprox c = Inr (int (length pending), c)) \<and>
    (prod_at c = P_Idle \<and> cons_at c = C_Asleep t \<longrightarrow> m_sema c = (if pending = [] then 0 else 1))"
proof -
  have "queue_rel q []" using ReaderWriterQueue_law [OF assms(1-4)] assms(5) by auto
  then obtain xs where p: "holds_pending c xs" using reach_pending [OF assms(6)] by blast
  have e: "\<exists>c'. start_enqueue canAlloc x c = Inr ((), c')" if "prod_at c = P_Idle" using give_pending [OF p that] by blast
  show ?thesis
    using signal_pending [OF p] wait_pending [OF p, of expired] e p
    by (intro exI [of _ xs]) (cases xs; auto simp: holds_pending_def availableApprox_def)
qed

subsection \<open>A waiting consumer is served\<close>

fun steps_left :: "cons_pc \<Rightarrow> nat" where
  "steps_left C_Idle = 0"
| "steps_left (C_Restore t) = 4"
| "steps_left (C_Undo t) = 3"
| "steps_left (C_Spin (Suc n) t) = 3"
| "steps_left C_Take = 1"
| "steps_left pc = 2"

lemma steps_left_pos: "pc \<noteq> C_Idle \<Longrightarrow> 0 < steps_left pc"
  by (cases pc rule: steps_left.cases) auto

lemma steps_left_max: "steps_left pc \<le> 4"
  by (cases pc rule: steps_left.cases) auto

lemma served_step:
  assumes "holds_pending c (x # xs)" "prod_at c = P_Idle" "cons_at c \<noteq> C_Idle" "cons_at c \<noteq> C_Take"
  shows "\<exists>c'. wait_next e c = Inr (True, c') \<and> holds_pending c' (x # xs) \<and> prod_at c' = P_Idle \<and>
    cons_at c' \<noteq> C_Idle \<and> got c' = got c \<and> steps_left (cons_at c) = Suc (steps_left (cons_at c'))"
proof (cases "cons_at c")
  case (C_Spin n t)
  then show ?thesis using assms by (cases n) (auto simp: wait_next_def chan_defs seq_def split: if_splits)
qed (use assms in \<open>auto simp: wait_next_def chan_defs seq_def split: if_splits\<close>)

lemma served:
  assumes "holds_pending c (x # xs)" "prod_at c = P_Idle" "cons_at c \<noteq> C_Idle" "steps_left (cons_at c) \<le> length es"
  shows "\<exists>c'. run_consumer es c = Inr ((), c') \<and> cons_at c' = C_Idle \<and> got c' = got c @ [x]"
  using assms
proof (induction es arbitrary: c)
  case Nil
  then show ?case using steps_left_pos [OF Nil.prems(3)] by simp
next
  case (Cons e es)
  show ?case
  proof (cases "cons_at c = C_Take")
    case True
    obtain q where "take_element c = Inr (True, c\<lparr>inner := q, got := got c @ [x], cons_at := C_Idle\<rparr>)"
      using take_pending [OF Cons.prems(1) True] by auto
    then show ?thesis using True by (cases es) (simp_all add: wait_next_def seq_Inr)
  next
    case False
    obtain c' where c': "wait_next e c = Inr (True, c')" "holds_pending c' (x # xs)" "prod_at c' = P_Idle" "cons_at c' \<noteq> C_Idle"
      "got c' = got c" "steps_left (cons_at c) = Suc (steps_left (cons_at c'))"
      using served_step [OF Cons.prems(1-3) False, of e] by blast
    then show ?thesis using Cons.IH [OF c'(2-4)] Cons.prems(3,4) by (simp add: seq_Inr)
  qed
qed

text \<open>
  C37: A waiting consumer is served. When something is pending and the producer is between two calls, a consumer
  that is inside an operation, wherever it stands and whether or not its time runs out, has the first pending
  element after at most four steps of its own.
\<close>

theorem consumer_served:
  fixes q0 :: "'a rwq"
  assumes "blocks q0 = []" "False \<notin> set (allocs q0)" "0 < n" "n < 2 ^ 63"
    and "ReaderWriterQueue n q0 = Inr ((), q)" "chan_step\<^sup>*\<^sup>* (BlockingReaderWriterQueue q) c"
    and "prod_at c = P_Idle" "cons_at c \<noteq> C_Idle" "given c = got c @ x # rest" "4 \<le> length timers"
  shows "\<exists>c'. run_consumer timers c = Inr ((), c') \<and> cons_at c' = C_Idle \<and> got c' = got c @ [x]"
proof -
  have "queue_rel q []" using ReaderWriterQueue_law [OF assms(1-4)] assms(5) by auto
  then obtain xs where p: "holds_pending c xs" using reach_pending [OF assms(6)] by blast
  then have "xs = x # rest" using assms(9) by (simp add: holds_pending_def)
  then show ?thesis using served [OF _ assms(7,8), of x rest timers] p steps_left_max [of "cons_at c"] assms(10) by simp
qed

text \<open>
  The consumer asks for an element with a limit of one millisecond and falls asleep; the producer enqueues one
  and has not yet signalled when the time is over. The state where the consumer is on its way back, the count
  already restored by the signal of the producer.
\<close>

definition empty_rwq :: "char rwq" where
  "empty_rwq = \<lparr>blocks = [], frontBlock = 0, tailBlock = 0, largestBlockSize = 0, allocs = []\<rparr>"

definition new_rwq :: "char rwq" where
  "new_rwq = \<lparr>blocks = [(new_block 2)\<lparr>next_block := 0\<rparr>], frontBlock = 0, tailBlock = 0, largestBlockSize = 2, allocs = []\<rparr>"

definition filled_rwq :: "char rwq" where
  "filled_rwq = \<lparr>blocks = [\<lparr>front = 0, localTail = 0, tail = 1, localFront = 0, next_block = 0,
      slots = [Some CHR ''a'', None], sizeMask = 1\<rparr>],
    frontBlock = 0, tailBlock = 0, largestBlockSize = 2, allocs = []\<rparr>"

definition late_chan :: "char chan" where
  "late_chan = \<lparr>inner = filled_rwq, m_count = 1, m_sema = 1, prod_at = P_Idle, cons_at = C_Undo 1000, given = ''a'', got = []\<rparr>"

lemma new_rwq: "ReaderWriterQueue 1 empty_rwq = Inr ((), new_rwq)"
  by (simp add: ReaderWriterQueue_def assert_that_def make_block_def empty_rwq_def new_rwq_def ceilToPow2_def upd_block_def
      get_block_def seq_def MAX_BLOCK_SIZE_def Let_def)

lemma new_filled: "inner_enqueue True CHR ''a'' new_rwq = Inr (True, filled_rwq)"
  by (simp add: inner_enqueue_def enqueue_here_def construct_def upd_block_def get_block_def new_rwq_def filled_rwq_def
      new_block_def seq_def Let_def numeral_2_eq_2)

lemma spins:
  assumes "m_count c \<le> 0"
  shows "chan_step\<^sup>*\<^sup>* (c\<lparr>cons_at := C_Spin n t\<rparr>) (c\<lparr>cons_at := C_Spin 0 t\<rparr>)"
proof (induction n)
  case (Suc n)
  have "chan_step (c\<lparr>cons_at := C_Spin (Suc n) t\<rparr>) (c\<lparr>cons_at := C_Spin n t\<rparr>)"
    by (rule chan_step.wait [where expired = False]) (use assms in \<open>simp add: wait_next_def goto_cons_def\<close>)
  then show ?case using Suc by (rule converse_rtranclp_into_rtranclp)
qed simp

lemma late_reached: "chan_step\<^sup>*\<^sup>* (BlockingReaderWriterQueue new_rwq) late_chan"
proof -
  let ?c = "BlockingReaderWriterQueue new_rwq"
  note run = rtranclp.rtrancl_into_rtrancl
  have "chan_step ?c (?c\<lparr>cons_at := C_Spin 10000 1000\<rparr>)"
    by (rule chan_step.ask_for [where op = "WaitDequeue 1000"]) (simp_all add: BlockingReaderWriterQueue_def start_dequeue_def goto_cons_def)
  then have "chan_step\<^sup>*\<^sup>* ?c (?c\<lparr>cons_at := C_Spin 0 1000\<rparr>)"
    using spins [of ?c 10000 1000] by (simp add: converse_rtranclp_into_rtranclp BlockingReaderWriterQueue_def)
  then have "chan_step\<^sup>*\<^sup>* ?c (?c\<lparr>cons_at := C_Asleep 1000, m_count := -1\<rparr>)"
    by (rule run) (rule chan_step.wait [where expired = False],
      simp add: BlockingReaderWriterQueue_def wait_next_def goto_cons_def fetch_add_def seq_def)
  then have "chan_step\<^sup>*\<^sup>* ?c (?c\<lparr>cons_at := C_Asleep 1000, m_count := -1, inner := filled_rwq, given := ''a'', prod_at := P_Signal\<rparr>)"
    by (rule run) (rule chan_step.give [where canAlloc = True and x = "CHR ''a''"],
      simp_all add: BlockingReaderWriterQueue_def start_enqueue_def goto_prod_def on_inner_def enqueue_def new_filled seq_def)
  then have "chan_step\<^sup>*\<^sup>* ?c (?c\<lparr>cons_at := C_Restore 1000, m_count := -1, inner := filled_rwq, given := ''a'', prod_at := P_Signal\<rparr>)"
    by (rule run) (rule chan_step.wait [where expired = True],
      simp add: BlockingReaderWriterQueue_def wait_next_def goto_cons_def Semaphore_timed_wait_def Semaphore_try_wait_def seq_def)
  then have "chan_step\<^sup>*\<^sup>* ?c (?c\<lparr>cons_at := C_Restore 1000, m_count := 0, inner := filled_rwq, given := ''a'', prod_at := P_Release\<rparr>)"
    by (rule run) (rule chan_step.signal,
      simp add: BlockingReaderWriterQueue_def signal_next_def goto_prod_def fetch_add_def seq_def)
  then have "chan_step\<^sup>*\<^sup>* ?c (?c\<lparr>cons_at := C_Undo 1000, m_count := 1, inner := filled_rwq, given := ''a'', prod_at := P_Release\<rparr>)"
    by (rule run) (rule chan_step.wait [where expired = False],
      simp add: BlockingReaderWriterQueue_def wait_next_def goto_cons_def fetch_add_def seq_def)
  then show ?thesis
    by (rule run) (rule chan_step.signal,
      simp add: BlockingReaderWriterQueue_def late_chan_def signal_next_def goto_prod_def Semaphore_signal_def seq_def)
qed

theorem consumer_served_witness:
  "\<exists>c'. run_consumer [False, True, False, False] late_chan = Inr ((), c') \<and> cons_at c' = C_Idle \<and> got c' = ''a''"
  using consumer_served [OF _ _ _ _ new_rwq late_reached, of "CHR ''a''" "[]" "[False, True, False, False]"]
  by (simp add: empty_rwq_def late_chan_def)

theorem blocking_queue_safe_witness:
  "given late_chan = ''a'' \<and> (\<exists>pending. given late_chan = got late_chan @ pending \<and>
    (\<exists>c'. start_enqueue True CHR ''b'' late_chan = Inr ((), c')) \<and> (\<exists>b c'. wait_next True late_chan = Inr (b, c')))"
  using blocking_queue_safe [OF _ _ _ _ new_rwq late_reached, of True "CHR ''b''" True 0]
  by (auto simp: empty_rwq_def late_chan_def)

end
