(* ===== verification/Scenarios.thy ===== *)
theory Scenarios
  imports Client_Events Framing Tcp
begin

text \<open>
  The components together: what a client asks for, followed through the socket, the command handler, the
  connection layer and the link to the device, and what comes back.
\<close>

subsection \<open>A connect request\<close>

text \<open>\<open>struct usbmuxd_connect_request\<close> as a client sends it.\<close>

definition connect_request :: "u32 \<Rightarrow> u32 \<Rightarrow> u16 \<Rightarrow> bytes" where
  "connect_request tag device_id port =
     usbmuxd_header_bytes \<lparr>uh_length = 24, uh_version = 0, uh_message = MESSAGE_CONNECT, uh_tag = tag\<rparr> @
     le32 device_id @ be16 port @ [0, 0]"

lemma connect_request_length [simp]: "length (connect_request tag device_id port) = 24"
  by (simp add: connect_request_def)

lemma prefix_field:
  assumes "take n b = msg" "off + m \<le> length msg" "length msg = n"
  shows "take m (drop off b) = take m (drop off msg)"
proof -
  have "take m (drop off msg) = take m (take (n - off) (drop off b))"
    using assms(1) by (auto simp: drop_take)
  also have "\<dots> = take m (drop off b)" using assms(2,3) by (simp add: min_absorb1)
  finally show ?thesis ..
qed

lemma connect_request_fields:
  assumes "take 24 b = connect_request tag device_id port"
  shows "le32_at 16 b = Some device_id" "be16_at 20 b = Some port"
proof -
  have b: "take 4 (drop 16 b) = le32 device_id" "take 2 (drop 20 b) = be16 port"
    using prefix_field [OF assms, of 16 4] prefix_field [OF assms, of 20 2] by (simp_all add: connect_request_def)
  show "le32_at 16 b = Some device_id" "be16_at 20 b = Some port"
    by (simp_all add: le32_at_def be16_at_def field_def b)
qed

text \<open>The request when it is complete: the command handler runs on it.\<close>

lemma connect_request_framed: "24 \<le> unat (cl_ib_capacity c) \<Longrightarrow>
    framed (connect_request tag device_id port) \<lparr>uh_length = 24, uh_version = 0, uh_message = MESSAGE_CONNECT, uh_tag = tag\<rparr> c"
  by (simp add: framed_def connect_request_def)

text \<open>A client that can ask, and a device that can serve it from the next source port.\<close>

definition can_ask :: "world \<Rightarrow> ptr \<Rightarrow> mux_client \<Rightarrow> bool" where
  "can_ask w k c \<longleftrightarrow> client_heap w k = Some c \<and> cl_state c = CLIENT_COMMAND \<and> cl_ib_size c = 0 \<and> cl_ib_buf c \<noteq> None \<and>
     24 \<le> unat (cl_ib_capacity c)"

definition can_serve :: "world \<Rightarrow> u32 \<Rightarrow> ptr \<Rightarrow> mux_device \<Rightarrow> usb_device \<Rightarrow> ptr collection \<Rightarrow> bool" where
  "can_serve w device_id dev v d col \<longleftrightarrow>
     find_slot (dev_heap w) (\<lambda>d. dev_id d = device_id) (elems (device_list w)) = Inr (Some dev) \<and>
     can_send w dev v d \<and> ud_tx_thread d \<and> (\<forall>e \<in> set (ud_tx_q d). te_buffer e \<noteq> Some (Suc (next_ptr w))) \<and>
     dev_connections v = Some col \<and> conns_alive w col \<and> length (elems col) < 65535 \<and>
     dev_next_sport v \<noteq> 0 \<and> dev_next_sport v \<notin> used_ports w col"

lemma can_serve_at_client: "can_serve w i dev v d col \<Longrightarrow> can_serve (at_client w k c rs) i dev v d col"
  by (simp add: can_serve_def can_send_def conns_alive_def used_ports_def)

lemma serve_run:
  assumes "can_serve w device_id dev v d col" "client_heap w k = Some c"
  shows "case connect_client k tag device_id port w of
       Inl h \<Rightarrow> h = ProcessExit
     | Inr (r, w') \<Rightarrow> r = 0 \<and>
         client_heap w' = (client_heap w)(k := Some (c\<lparr>cl_connect_tag := tag, cl_connect_device := device_id, cl_state := CLIENT_CONNECTING1\<rparr>)) \<and>
         (\<exists>cn v'. conn_heap w' = (conn_heap w)(next_ptr w := Some cn) \<and>
           conn_state cn = CONN_CONNECTING \<and> conn_client cn = Some k \<and> conn_dev cn = dev \<and>
           conn_sport cn = dev_next_sport v \<and> conn_dport cn = port \<and>
           dev_heap w' dev = Some v' \<and> dev_connections v' = Some (collection_add col (next_ptr w)) \<and>
           transmitted (dev_usbdev v) (segment v (new_connection dev k (dev_next_sport v) port) TH_SYN []) w w')"
proof -
  have h: "get_mux_device_for_id device_id w = Inr (Some dev, w)" "can_send w dev v d" "ud_tx_thread d"
    "\<forall>e \<in> set (ud_tx_q d). te_buffer e \<noteq> Some (Suc (next_ptr w))"
    "dev_connections v = Some col" "conns_alive w col" "length (elems col) < 65535"
    using assms(1) by (simp_all add: can_serve_def get_mux_device_for_id_run)
  have port: "dev_next_sport v \<noteq> 0" "dev_next_sport v \<notin> used_ports w col" using assms(1) by (simp_all add: can_serve_def)
  have dev: "dev_heap w dev = Some v" using h(2) by (simp add: can_send_def)
  note start = start_connect_run [OF h find_sport_next [OF dev h(5-7) port(2)] port(1), where dport = port and client = k]
  show ?thesis
  proof (cases "device_start_connect device_id port k w")
    case (Inl e)
    then show ?thesis using start by (simp add: connect_client_def seq_Inl)
  next
    case (Inr rw)
    then obtain r w1 where r: "device_start_connect device_id port k w = Inr (r, w1)" by (cases rw) auto
    then have w1: "r = 0" "client_heap w1 = client_heap w" using start by auto
    let ?c = "c\<lparr>cl_connect_tag := tag, cl_connect_device := device_id, cl_state := CLIENT_CONNECTING1\<rparr>"
    have "connect_client k tag device_id port w = Inr (0, w1\<lparr>client_heap := (client_heap w1)(k := Some ?c)\<rparr>)"
      using r w1 assms(2) by (simp add: connect_client_def seq_Inr upd_client_run)
    then show ?thesis using start w1 by (auto simp: r transmitted_def)
  qed
qed

text \<open>
  C3: A connect request, from the client's socket to the device. However the socket cuts the request into pieces, when
  its last byte has arrived a \<open>SYN\<close> for the requested port has been sent to the requested device from a source
  port that no other connection of the device uses, a connecting connection of this client is listed in the
  device, and the client waits for the answer to the tag of its request with an empty input buffer; nothing has
  been queued for it, and no other client or connection has changed.
\<close>

theorem connect_request_served:
  assumes "can_ask w k c" "can_serve w device_id dev v d col"
    and "hs \<noteq> []" "length (concat hs) = 16" "\<forall>x \<in> set (hs @ bs). x \<noteq> []"
    and "concat (hs @ bs) = connect_request tag device_id port" "recvs (sys w) = map Some (hs @ bs) @ rs"
  shows "case recv_rounds (length (hs @ bs)) k w of
       Inl h \<Rightarrow> h = ProcessExit
     | Inr (_, w') \<Rightarrow> \<exists>c' cn v'. client_heap w' = (client_heap w)(k := Some c') \<and> cl_state c' = CLIENT_CONNECTING1 \<and>
         cl_connect_tag c' = tag \<and> cl_connect_device c' = device_id \<and> cl_ib_size c' = 0 \<and> queued c' = queued c \<and>
         conn_heap w' = (conn_heap w)(next_ptr w := Some cn) \<and> conn_state cn = CONN_CONNECTING \<and> conn_client cn = Some k \<and>
         conn_dev cn = dev \<and> conn_dport cn = port \<and> conn_sport cn \<notin> used_ports w col \<and>
         dev_heap w' dev = Some v' \<and> dev_connections v' = Some (collection_add col (next_ptr w)) \<and>
         transmitted (dev_usbdev v) (segment v (new_connection dev k (conn_sport cn) port) TH_SYN []) w w'"
proof -
  let ?hdr = "\<lparr>uh_length = 24, uh_version = 0, uh_message = MESSAGE_CONNECT, uh_tag = tag\<rparr>"
  let ?msg = "connect_request tag device_id port"
  have c: "client_heap w k = Some c" "cl_state c = CLIENT_COMMAND" "24 \<le> unat (cl_ib_capacity c)" "cl_ib_size c = 0"
    using assms(1) by (simp_all add: can_ask_def)
  obtain b0 where "cl_ib_buf c = Some b0" using assms(1) by (auto simp: can_ask_def)
  then have "received_so_far c []" using received_empty c(4) by blast
  from header_rounds [OF c(1) this _ assms(3) _ assms(5) connect_request_framed [OF c(3)] assms(7)] assms(4,6)
  have "runs_message (length (hs @ bs)) k c ?msg ?hdr rs w" by simp
  then obtain c1 b where c1: "same_but_input c c1" "take 24 b = ?msg"
    "recv_rounds (length (hs @ bs)) k w = run_command k ?hdr b (at_client w k c1 rs)"
    by (auto simp: runs_message_def)
  let ?w1 = "at_client w k c1 rs"
  have same: "cl_state c1 = CLIENT_COMMAND" "queued c1 = queued c"
    using c1(1) c(2) by (cases c; cases c1; simp add: same_but_input_def queued_def)+
  have "client_command k ?hdr b ?w1 = connect_client k tag device_id port ?w1"
    using same(1) connect_request_fields [OF c1(2)]
    by (simp add: client_command_def seq_Inr get_client_run MESSAGE_CONNECT_def MESSAGE_PLIST_def MESSAGE_LISTEN_def)
  then have run: "recv_rounds (length (hs @ bs)) k w =
      seq (connect_client k tag device_id port) (\<lambda>_. upd_client k (\<lambda>c. c\<lparr>cl_ib_size := 0\<rparr>)) ?w1"
    unfolding c1(3) by (simp add: run_command_def seq_def)
  have w1: "client_heap ?w1 k = Some c1" by simp
  note serve = serve_run [OF can_serve_at_client [OF assms(2)] w1, of tag port]
  show ?thesis
  proof (cases "connect_client k tag device_id port ?w1")
    case (Inl e)
    then show ?thesis using serve run by (simp add: seq_Inl)
  next
    case (Inr rw)
    then obtain r w2 where r: "connect_client k tag device_id port ?w1 = Inr (r, w2)" by (cases rw) auto
    let ?c = "c1\<lparr>cl_connect_tag := tag, cl_connect_device := device_id, cl_state := CLIENT_CONNECTING1, cl_ib_size := 0\<rparr>"
    have w2: "client_heap w2 = (client_heap w)(k := Some (c1\<lparr>cl_connect_tag := tag, cl_connect_device := device_id, cl_state := CLIENT_CONNECTING1\<rparr>))"
      using serve by (simp add: r)
    have "recv_rounds (length (hs @ bs)) k w = Inr ((), w2\<lparr>client_heap := (client_heap w)(k := Some ?c)\<rparr>)"
      using run r w2 by (simp add: seq_Inr upd_client_run)
    moreover have "queued ?c = queued c" using same(2) by (simp add: queued_def)
    moreover have "dev_next_sport v \<notin> used_ports w col" using assms(2) by (simp add: can_serve_def)
    ultimately show ?thesis using serve by (auto simp: r transmitted_def intro!: exI [of _ ?c])
  qed
qed

subsection \<open>A packet from the device\<close>

text \<open>A device that gathers nothing at the moment and speaks version 2; its usb device leads to it.\<close>

definition can_hear :: "world \<Rightarrow> ptr \<Rightarrow> mux_device \<Rightarrow> bool" where
  "can_hear w dev v \<longleftrightarrow> finds_dev w (dev_usbdev v) dev v \<and> dev_pktlen v = 0 \<and> dev_version v \<ge> 2"

text \<open>The packet of a peer \<open>p\<close>, its state of the numbering being what \<open>dev_tx_seq\<close> and \<open>dev_rx_seq\<close> say.\<close>

definition tcp_packet :: "mux_device \<Rightarrow> tcphdr \<Rightarrow> bytes \<Rightarrow> bytes" where
  "tcp_packet p th data = packet_bytes MUX_PROTO_TCP p (tcphdr_bytes th) data"

definition hear :: "mux_device \<Rightarrow> ptr \<Rightarrow> mux_device \<Rightarrow> world \<Rightarrow> world" where
  "hear p dev v w = w\<lparr>dev_heap := (dev_heap w)(dev := Some (v\<lparr>dev_rx_seq := dev_rx_seq p\<rparr>))\<rparr>"

lemma packet_arrives:
  assumes "can_hear w dev v" "dev_version p \<ge> 2" "length data + 36 \<le> DEV_MRU"
  shows "device_data_input (dev_usbdev v) (tcp_packet p th data) (of_nat (length data + 36)) w =
     seq (device_tcp_input dev th data (of_nat (length data))) (\<lambda>_. ret (of_nat (length data + 36))) (hear p dev v w)"
proof -
  have v: "finds_dev w (dev_usbdev v) dev v" "dev_heap w dev = Some v" "dev_pktlen v = 0" "dev_version v \<ge> 2"
    using assms(1) by (simp_all add: can_hear_def finds_dev_def)
  let ?pkt = "tcp_packet p th data" and ?n = "length data + 36"
  have nv: "\<not> dev_version p < 2" using assms(2) by (simp add: not_less)
  have len: "length ?pkt = ?n" using nv by (simp add: tcp_packet_def length_packet_bytes mux_header_size_def)
  have un: "unat (of_nat ?n :: u32) = ?n" by (rule unat_of_nat_small) (use assms(3) in \<open>simp add: DEV_MRU_def\<close>)
  have n0: "of_nat ?n \<noteq> (0 :: u32)" "unat (of_nat ?n :: u32) \<le> DEV_MRU" using un assms(3) by (auto simp flip: unat_eq_zero)
  have hdr: "be32_at 4 ?pkt = Some (of_nat ?n)"
    using nv packet_header_fields(2) [of MUX_PROTO_TCP "length data + 36" p "take 20 (tcphdr_bytes th) @ data"]
    by (simp add: tcp_packet_def packet_bytes_def mux_header_size_def add.commute)
  then have mlen: "mux_length ?pkt x = Inr (of_nat ?n, x)" for x by (simp add: mux_length_def)
  have g: "gather dev ?pkt (of_nat ?n) w = Inr (Inr (?pkt, of_nat ?n), w)"
    using v(2,3) mlen by (simp add: gather_def seq_Inr get_dev_run)
  have d: "dispatch dev ?pkt (of_nat ?n) w = seq (device_tcp_input dev th data (of_nat (length data))) (\<lambda>_. ret (Some ())) (hear p dev v w)"
    using dispatch_tcp [OF v(2,4) assms(2), of th data "[]"] len assms(3) by (simp add: tcp_packet_def hear_def)
  obtain l where l: "l = (of_nat ?n :: u32)" by blast
  show ?thesis
    using g mlen d data_input_run [OF v(1) n0, of ?pkt] unfolding l [symmetric] by (simp add: seq_def split: sum.splits)
qed

lemma link_heard: "tcp_link w dev v d conn c k kc th \<Longrightarrow> tcp_link (hear p dev v w) dev (v\<lparr>dev_rx_seq := dev_rx_seq p\<rparr>) d conn c k kc th"
  by (simp add: tcp_link_def can_send_def hear_def)

lemma heard_fields [simp]:
  "conn_heap (hear p dev v w) = conn_heap w" "client_heap (hear p dev v w) = client_heap w" "conf (hear p dev v w) = conf w"
  "sys (hear p dev v w) = sys w" "sent_on s (hear p dev v w) = sent_on s w" "device_list (hear p dev v w) = device_list w"
  "transmitted u pkt (hear p dev v w) w' = transmitted u pkt w w'"
  by (simp_all add: hear_def sent_on_def transmitted_def)

text \<open>A socket that takes everything gets all that is queued.\<close>

lemma flush_all:
  assumes "client_heap w k = Some c" "ob_wf c" "queued c \<noteq> []" "sends (sys w) = []"
  shows "process_send k w = Inr ((), w\<lparr>client_heap := (client_heap w)(k := Some (sent (unat (cl_ob_size c)) c)),
    sys := (sys w)\<lparr>sock_out := sock_out (sys w) @ [(cl_fd c, queued c)]\<rparr>\<rparr>)"
proof -
  have n: "length (queued c) = unat (cl_ob_size c)" by (rule queued_length [OF assms(2)])
  then have size: "cl_ob_size c \<noteq> 0" using assms(3) by auto
  obtain b where b: "cl_ob_buf c = Some b" "unat (cl_ob_size c) \<le> length b" using assms(2) by (auto simp: ob_wf_def)
  have q: "buf_read 0 (unat (cl_ob_size c)) b x = Inr (queued c, x)" for x :: world
    using b by (simp add: buf_read_def queued_def)
  have "sys_send (cl_fd c) (queued c) w = Inr (int (unat (cl_ob_size c)), w\<lparr>sys := (sys w)\<lparr>sock_out := sock_out (sys w) @ [(cl_fd c, queued c)]\<rparr>\<rparr>)"
    using assms(4) n by (simp add: sys_send_def)
  moreover have "uint (cl_ob_size c) \<noteq> 0" using size by (simp add: uint_0_iff)
  ultimately show ?thesis using assms(1) b(1) q size by (simp add: process_send_def seq_Inr get_client_run set_client_def)
qed

lemma reply_not_empty: "result_packet w kc r = Some pkt \<Longrightarrow> pkt \<noteq> []"
  by (auto simp: result_packet_def packet_def split: if_splits option.splits dest: arg_cong [where f = length])

text \<open>
  C4: The answer, from the device to the client's socket. When a device answers the \<open>SYN\<close> of a connecting connection, the
  transfer with its packet is taken whole and acknowledged, and as soon as the client's socket is writable the
  client has received everything that was queued for it and the positive reply, has become a data connection
  with an empty output buffer, and is polled for what its connection can do.
\<close>

theorem connection_answered:
  assumes "can_hear w dev v" "dev_version p \<ge> 2" "tcp_link w dev v d conn c k kc th" "conn_state c = CONN_CONNECTING"
    and "th_flags th = TH_SYN OR TH_ACK" "awaits_reply w kc RESULT_OK pkt" "sends (sys w) = []"
  shows "case seq (device_data_input (dev_usbdev v) (tcp_packet p th []) 36)
         (\<lambda>n. seq (process_client (\<lambda>_. False) (\<lambda>_. True) k) (\<lambda>_. ret n)) w of
       Inl h \<Rightarrow> h = ProcessExit
     | Inr (n, w') \<Rightarrow> n = 36 \<and> (\<exists>c' kc' c1. conn_heap w' = (conn_heap w)(conn := Some c') \<and> conn_state c' = CONN_CONNECTED \<and>
         client_heap w' = (client_heap w)(k := Some kc') \<and> cl_state kc' = CLIENT_CONNECTED \<and> cl_ob_size kc' = 0 \<and>
         cl_events kc' = conn_events c' \<and> sent_on (cl_fd kc) w' = sent_on (cl_fd kc) w @ queued kc @ pkt \<and>
         conn_tx_seq c1 = conn_tx_seq c + 1 \<and> conn_tx_ack c1 = conn_tx_ack c + 1 \<and>
         transmitted (dev_usbdev v) (segment (v\<lparr>dev_rx_seq := dev_rx_seq p\<rparr>) c1 TH_ACK []) w w')"
proof -
  let ?w = "hear p dev v w" and ?v = "v\<lparr>dev_rx_seq := dev_rx_seq p\<rparr>"
  have reply: "awaits_reply ?w kc RESULT_OK pkt" using assms(6) awaits_reply_conf [of ?w w] by simp
  have arr: "device_data_input (dev_usbdev v) (tcp_packet p th []) 36 w =
      seq (device_tcp_input dev th [] 0) (\<lambda>_. ret 36) ?w"
    using packet_arrives [OF assms(1,2), of "[]" th] by (simp add: DEV_MRU_def)
  from link_heard [OF assms(3)] assms(4,5) reply show ?thesis
  proof (cases rule: handshake_run [where payload = "[]" and n = 0])
    case 1
    then show ?thesis by (simp add: seq_Inl arr)
  next
    case (2 w1 t k1)
    have input: "device_data_input (dev_usbdev v) (tcp_packet p th []) 36 w = Inr (36, w1)" using 2(1) by (simp add: arr seq_Inr)
    have "pkt \<noteq> []" using assms(6) reply_not_empty by (auto simp: awaits_reply_def)
    then have q: "queued k1 \<noteq> []" using 2(5) by simp
    have k1: "client_heap w1 k = Some k1" using 2(3) by simp
    have quiet: "sock_out (sys w1) = sock_out (sys w)" "sends (sys w1) = []" using 2(12) assms(7) by (simp_all add: link_kept_def quiet_def)
    let ?k = "sent (unat (cl_ob_size k1)) k1"
    have k: "cl_state ?k = CLIENT_CONNECTED" "cl_ob_size ?k = 0" "cl_events ?k = conn_events (opened t th c)"
      using 2(4,8) by (simp_all add: sent_def)
    have "process_client (\<lambda>_. False) (\<lambda>_. True) k w1 = process_send k w1"
      using k1 2(4) by (simp add: process_client_def seq_Inr get_client_run client_events_def has_bits_def POLLIN_def POLLOUT_def)
    then have run: "seq (device_data_input (dev_usbdev v) (tcp_packet p th []) 36)
         (\<lambda>n. seq (process_client (\<lambda>_. False) (\<lambda>_. True) k) (\<lambda>_. ret n)) w =
        Inr (36, w1\<lparr>client_heap := (client_heap w1)(k := Some ?k), sys := (sys w1)\<lparr>sock_out := sock_out (sys w1) @ [(cl_fd k1, queued k1)]\<rparr>\<rparr>)"
      using input flush_all [OF k1 2(9) q quiet(2)] by (simp add: seq_Inr)
    have conn: "conn_state (opened t th c) = CONN_CONNECTED" by (simp add: opened_def)
    show ?thesis
      unfolding run sum.case prod.case using 2(2,3,5,10,11) k conn quiet(1)
      by (intro conjI exI [of _ "opened t th c"] exI [of _ ?k]
          exI [of _ "(received th c)\<lparr>conn_tx_seq := conn_tx_seq c + 1, conn_tx_ack := conn_tx_ack c + 1\<rparr>"])
        (simp_all add: sent_on_def transmitted_def)
  qed
qed

subsection \<open>Data from the device\<close>

lemma usb_ready_send:
  assumes "usb_ready w (dev_usbdev v)" "dev_heap w dev = Some v"
  obtains d where "can_send w dev v d" "ud_tx_thread d"
  using assms by (fastforce simp: usb_ready_def can_send_def)

text \<open>The connection after everything in its buffer was written to the client.\<close>

definition drained :: "mux_connection \<Rightarrow> mux_connection" where
  "drained c = c\<lparr>conn_ib_size := 0, conn_tx_win := conn_tx_win c + conn_ib_size c\<rparr>"

lemma drained_fields [simp]:
  "conn_client (drained c) = conn_client c" "conn_dev (drained c) = conn_dev c" "conn_state (drained c) = conn_state c"
  "conn_tx_ack (drained c) = conn_tx_ack c" "conn_tx_acked (drained c) = conn_tx_acked c" "ib_pending (drained c) = []"
  by (simp_all add: drained_def ib_pending_def)

lemma drained_window: "conn_ok c \<Longrightarrow> unat (conn_tx_win (drained c)) = CONN_INBUF_SIZE"
  using unat_add_small [of "conn_tx_win c" "conn_ib_size c"]
  by (simp add: drained_def conn_ok_def CONN_INBUF_SIZE_def)

text \<open>What sending an acknowledgement leaves of a connection.\<close>

definition ack_same :: "mux_connection \<Rightarrow> mux_connection \<Rightarrow> bool" where
  "ack_same c c' \<longleftrightarrow> conn_client c' = conn_client c \<and> conn_dev c' = conn_dev c \<and> conn_state c' = conn_state c \<and>
     conn_tx_ack c' = conn_tx_ack c \<and> conn_tx_win c' = conn_tx_win c \<and> ib_pending c' = ib_pending c \<and>
     (conn_tx_acked c = conn_tx_ack c \<longrightarrow> conn_tx_acked c' = conn_tx_ack c')"

lemma ack_same_simps: "ack_same c c" "ack_same c (refresh c)" "ack_same c (refresh (acked t c))"
  by (simp_all add: ack_same_def ib_pending_def)

lemma ack_same_trans: "ack_same a b \<Longrightarrow> ack_same b c \<Longrightarrow> ack_same a c"
  by (simp add: ack_same_def)

lemma drain_run:
  assumes "conn_heap w conn = Some c" "conn_client c = Some k" "client_heap w k = Some kc" "cl_state kc = CLIENT_CONNECTED"
    and "conn_ok c" "ib_pending c \<noteq> []" "sends (sys w) = []" "dev_heap w (conn_dev c) = Some v" "usb_ready w (dev_usbdev v)"
  obtains "process_to_client conn w = Inl ProcessExit"
  | w' c' e1 e2 where "process_to_client conn w = Inr (True, w')" "conn_heap w' = (conn_heap w)(conn := Some c')"
      "ack_same (drained c) c'" "client_heap w' = (client_heap w)(k := Some (kc\<lparr>cl_events := e1, cl_devents := e2\<rparr>))"
      "sent_on (cl_fd kc) w' = sent_on (cl_fd kc) w @ ib_pending c"
proof -
  have ok: "ib_ok c" using assms(5) by (simp add: conn_ok_def)
  have n: "length (ib_pending c) = unat (conn_ib_size c)" by (rule length_ib_pending [OF ok])
  then have size: "uint (conn_ib_size c) \<noteq> 0" using assms(6) by (auto simp: uint_0_iff)
  then have pos: "\<not> uint (conn_ib_size c) \<le> 0" using uint_ge_0 [of "conn_ib_size c"] by linarith
  let ?s = "(sys w)\<lparr>sock_out := sock_out (sys w) @ [(cl_fd kc, ib_pending c)]\<rparr>"
  let ?w = "w\<lparr>sys := ?s, conn_heap := (conn_heap w)(conn := Some (drained c))\<rparr>"
  have wr: "client_write k (ib_pending c) w = Inr (uint (conn_ib_size c), w\<lparr>sys := ?s\<rparr>)"
    using assms(3,4,7) n by (simp add: client_write_def seq_Inr get_client_run sys_send_def)
  have dr: "(ib_consume (nat (uint (conn_ib_size c))) c)\<lparr>conn_tx_win := conn_tx_win c + of_int (uint (conn_ib_size c))\<rparr> = drained c"
    by (simp add: ib_consume_def drained_def)
  have run: "process_to_client conn w =
      (if unat (conn_tx_win c) < MAX_MUX_PACKET_SIZE then seq (send_tcp_ack conn) (\<lambda>_. ret True) else ret True) ?w"
    using assms(1-3) pos dr by (simp add: process_to_client_def seq_Inr get_conn_run read_ib_pending [OF ok] wr set_conn_def)
  have out: "sent_on (cl_fd kc) ?w = sent_on (cl_fd kc) w @ ib_pending c" by (simp add: sent_on_def)
  show thesis
  proof (cases "unat (conn_tx_win c) < MAX_MUX_PACKET_SIZE")
    case False
    have idem: "client_heap ?w = (client_heap w)(k := Some (kc\<lparr>cl_events := cl_events kc, cl_devents := cl_devents kc\<rparr>))"
      using assms(3) by (simp add: fun_upd_idem)
    show thesis by (rule that(2) [OF _ _ ack_same_simps(1) idem out]) (use run False in simp_all)
  next
    case True
    have "usb_ready ?w (dev_usbdev v)" using assms(9) by (simp add: usb_ready_def)
    then obtain d where d: "can_send ?w (conn_dev (drained c)) v d" "ud_tx_thread d"
      using usb_ready_send [of ?w v "conn_dev c"] assms(8) by auto
    have w: "conn_heap ?w conn = Some (drained c)" "conn_client (drained c) = Some k" "client_heap ?w k = Some kc"
      using assms(2,3) by simp_all
    show thesis
    proof (rule send_tcp_ack_run [OF w(1) d w(2,3)])
      assume "send_tcp_ack conn ?w = Inl ProcessExit"
      then show thesis using that(1) run True by (simp add: seq_Inl)
    next
      fix t w' e1 e2
      assume a: "send_tcp_ack conn ?w = Inr (0, w')" "conn_heap w' = (conn_heap ?w)(conn := Some (refresh (acked t (drained c))))"
        "client_heap w' = (client_heap ?w)(k := Some (kc\<lparr>cl_events := e1, cl_devents := e2\<rparr>))" "link_kept (conn_dev (drained c)) ?w w'"
      have "sent_on (cl_fd kc) w' = sent_on (cl_fd kc) ?w" using a(4) by (intro sent_on_quiet) (simp add: link_kept_def)
      then have o: "sent_on (cl_fd kc) w' = sent_on (cl_fd kc) w @ ib_pending c" using out by simp
      show thesis
        by (rule that(2) [OF _ _ ack_same_simps(3) _ o, of t]) (use run True a(1-3) in \<open>simp_all add: seq_Inr\<close>)
    qed
  qed
qed

text \<open>The way from a client to its connection.\<close>

definition client_link :: "world \<Rightarrow> u32 \<Rightarrow> ptr \<Rightarrow> ptr \<Rightarrow> ptr \<Rightarrow> bool" where
  "client_link w device_id k conn dev \<longleftrightarrow>
     find_slot (dev_heap w) (\<lambda>d. dev_id d = device_id) (elems (device_list w)) = Inr (Some dev) \<and>
     (\<exists>v col. dev_heap w dev = Some v \<and> dev_connections v = Some col \<and>
        find_slot (conn_heap w) (\<lambda>c. conn_client c = Some k) (elems col) = Inr (Some conn))"

lemma client_link_kept:
  assumes "client_link w i k conn dev" "device_list w' = device_list w" "dev_heap w dev = Some v"
    and "dev_heap w' = (dev_heap w)(dev := Some v')" "same_dev v v'"
    and "conn_heap w conn = Some c" "conn_heap w' = (conn_heap w)(conn := Some c')" "conn_client c' = conn_client c"
  shows "client_link w' i k conn dev"
proof -
  have v': "dev_id v' = dev_id v" "dev_connections v' = dev_connections v" using same_dev_fields [OF assms(5)] by simp_all
  obtain col where col: "dev_connections v = Some col" "find_slot (conn_heap w) (\<lambda>c. conn_client c = Some k) (elems col) = Inr (Some conn)"
    "find_slot (dev_heap w) (\<lambda>d. dev_id d = i) (elems (device_list w)) = Inr (Some dev)"
    using assms(1,3) by (auto simp: client_link_def)
  have "find_slot (dev_heap w') (\<lambda>d. dev_id d = i) (elems (device_list w')) = Inr (Some dev)"
    unfolding assms(2,4) by (rule find_slot_update [OF col(3) assms(3)]) (simp add: v')
  moreover have "find_slot (conn_heap w') (\<lambda>c. conn_client c = Some k) (elems col) = Inr (Some conn)"
    unfolding assms(7) by (rule find_slot_update [OF col(2) assms(6)]) (simp add: assms(8))
  ultimately show ?thesis using assms(4) v' col(1) by (simp add: client_link_def)
qed

lemma writable_client:
  assumes "client_link w (cl_connect_device kc) k conn dev" "client_heap w k = Some kc" "cl_state kc = CLIENT_CONNECTED"
    and "conn_heap w conn = Some c" "conn_ib_size c > 0"
  shows "process_client (\<lambda>_. False) (\<lambda>_. True) k w =
    seq (process_to_client conn) (\<lambda>ok. if \<not> ok then ret () else seq (get_conn conn) (\<lambda>c. update_connection conn)) w"
proof -
  have "get_mux_connection (cl_connect_device kc) k w = Inr (Some conn, w)"
    using assms(1) by (auto simp: get_mux_connection_def client_link_def seq_Inr get_mux_device_for_id_run get_connections_run find_in_run)
  moreover have "client_events (\<lambda>_. False) (\<lambda>_. True) s = POLLOUT" "\<not> has_bits POLLIN POLLOUT" "has_bits POLLOUT POLLOUT" "POLLOUT \<noteq> 0" for s
    by (simp_all add: client_events_def has_bits_def POLLIN_def POLLOUT_def)
  ultimately show ?thesis
    using assms(2-5) by (simp add: process_client_def device_client_process_def seq_Inr get_client_run get_conn_run cong: if_cong)
qed

lemma delivered:
  assumes "client_link w (cl_connect_device kc) k conn (conn_dev c)" "client_heap w k = Some kc" "cl_state kc = CLIENT_CONNECTED"
    and "conn_heap w conn = Some c" "conn_client c = Some k" "conn_ok c" "ib_pending c \<noteq> []" "sends (sys w) = []"
    and "dev_heap w (conn_dev c) = Some v" "usb_ready w (dev_usbdev v)"
  obtains "process_client (\<lambda>_. False) (\<lambda>_. True) k w = Inl ProcessExit"
  | w' c' kc' where "process_client (\<lambda>_. False) (\<lambda>_. True) k w = Inr ((), w')" "conn_heap w' = (conn_heap w)(conn := Some c')"
      "ack_same (drained c) c'" "client_heap w' = (client_heap w)(k := Some kc')"
      "sent_on (cl_fd kc) w' = sent_on (cl_fd kc) w @ ib_pending c"
proof -
  have "length (ib_pending c) = unat (conn_ib_size c)" using assms(6) length_ib_pending by (simp add: conn_ok_def)
  then have "0 < unat (conn_ib_size c)" using assms(7) by (metis length_greater_0_conv)
  then have "conn_ib_size c > 0" by (simp add: unat_gt_0 word_neq_0_conv)
  note run = writable_client [OF assms(1-4) this]
  show thesis
  proof (rule drain_run [OF assms(4,5,2,3,6-10)])
    assume "process_to_client conn w = Inl ProcessExit"
    then show thesis using that(1) run by (simp add: seq_Inl)
  next
    fix w1 c1 e1 e2
    assume a: "process_to_client conn w = Inr (True, w1)" "conn_heap w1 = (conn_heap w)(conn := Some c1)" "ack_same (drained c) c1"
      "client_heap w1 = (client_heap w)(k := Some (kc\<lparr>cl_events := e1, cl_devents := e2\<rparr>))"
      "sent_on (cl_fd kc) w1 = sent_on (cl_fd kc) w @ ib_pending c"
    have w1: "conn_heap w1 conn = Some c1" "conn_client c1 = Some k" "client_heap w1 k = Some (kc\<lparr>cl_events := e1, cl_devents := e2\<rparr>)"
      using a assms(5) by (simp_all add: ack_same_def)
    obtain e3 e4 where up: "update_connection conn w1 = Inr ((), w1\<lparr>conn_heap := (conn_heap w1)(conn := Some (refresh c1)),
        client_heap := (client_heap w1)(k := Some (kc\<lparr>cl_events := e1, cl_devents := e2, cl_events := e3, cl_devents := e4\<rparr>))\<rparr>)"
      by (rule update_connection_run [OF w1])
    have "process_client (\<lambda>_. False) (\<lambda>_. True) k w = Inr ((), w1\<lparr>conn_heap := (conn_heap w1)(conn := Some (refresh c1)),
        client_heap := (client_heap w1)(k := Some (kc\<lparr>cl_events := e1, cl_devents := e2, cl_events := e3, cl_devents := e4\<rparr>))\<rparr>)"
      unfolding run using a(1) w1(1) up by (simp add: seq_Inr get_conn_run)
    then show thesis
      by (rule that(2) [OF _ _ ack_same_trans [OF a(3) ack_same_simps(2)]]) (use a(2,4,5) in \<open>simp_all add: sent_on_def\<close>)
  qed
qed

lemma can_hear_dev: "can_hear w dev v \<Longrightarrow> dev_heap w dev = Some v"
  by (simp add: can_hear_def finds_dev_def)

text \<open>
  C5: Data, from the device to the client's socket. A transfer with a data packet for an open connection whose
  buffer has room is taken whole; as soon as the client's socket is writable, the client has received
  everything that was pending and then exactly the bytes of the packet, the connection's buffer is empty and
  its window fully open again, and all data received is acknowledged to the device.
\<close>

theorem device_data_delivered:
  assumes "can_hear w dev v" "dev_version p \<ge> 2" "tcp_link w dev v d conn c k kc th" "conn_state c = CONN_CONNECTED"
    and "th_flags th = TH_ACK" "conn_ok c" "data \<noteq> []" "unat (conn_ib_size c) + length data \<le> CONN_INBUF_SIZE"
    and "length data + 36 \<le> DEV_MRU" "cl_state kc = CLIENT_CONNECTED" "client_link w (cl_connect_device kc) k conn dev"
    and "usb_ready w (dev_usbdev v)" "sends (sys w) = []"
  shows "case seq (device_data_input (dev_usbdev v) (tcp_packet p th data) (of_nat (length data + 36)))
         (\<lambda>n. seq (process_client (\<lambda>_. False) (\<lambda>_. True) k) (\<lambda>_. ret n)) w of
       Inl h \<Rightarrow> h = ProcessExit
     | Inr (n, w') \<Rightarrow> n = of_nat (length data + 36) \<and> (\<exists>c' kc'. conn_heap w' = (conn_heap w)(conn := Some c') \<and>
         client_heap w' = (client_heap w)(k := Some kc') \<and>
         sent_on (cl_fd kc) w' = sent_on (cl_fd kc) w @ ib_pending c @ data \<and> ib_pending c' = [] \<and>
         unat (conn_tx_win c') = CONN_INBUF_SIZE \<and> conn_tx_ack c' = conn_tx_ack c + of_nat (length data) \<and>
         conn_tx_acked c' = conn_tx_ack c' \<and> conn_state c' = CONN_CONNECTED)"
proof -
  let ?w = "hear p dev v w" and ?v = "v\<lparr>dev_rx_seq := dev_rx_seq p\<rparr>"
  have dev: "dev_heap w dev = Some v" by (rule can_hear_dev [OF assms(1)])
  have c: "conn_heap w conn = Some c" "conn_dev c = dev" "conn_client c = Some k" using assms(3) by (simp_all add: tcp_link_def)
  have n: "unat (of_nat (length data) :: u32) = length data"
    by (rule unat_of_nat_small) (use assms(9) in \<open>simp add: DEV_MRU_def\<close>)
  note arr = packet_arrives [OF assms(1,2,9), of th]
  have sizes: "unat (of_nat (length data) :: u32) \<le> length data" "unat (conn_ib_size c) + unat (of_nat (length data) :: u32) \<le> CONN_INBUF_SIZE"
    using assms(8) n by simp_all
  let ?b = "buffered th (of_nat (length data)) data c"
  note bok = buffered_ok [OF assms(6) sizes, of th] and bf = buffered_fields [of th "of_nat (length data)" data c]
  show ?thesis
  proof (rule data_run [OF link_heard [OF assms(3)] assms(4-6) sizes])
    assume "device_tcp_input dev th data (of_nat (length data)) ?w = Inl ProcessExit"
    then have "device_data_input (dev_usbdev v) (tcp_packet p th data) (of_nat (length data + 36)) w = Inl ProcessExit"
      unfolding arr by (simp only: seq_def sum.case)
    then show ?thesis by (simp only: seq_def sum.case)
  next
    fix w1 c1 k1
    assume 2: "device_tcp_input dev th data (of_nat (length data)) ?w = Inr ((), w1)" "conn_heap w1 = (conn_heap ?w)(conn := Some c1)"
      "client_heap w1 = (client_heap ?w)(k := Some k1)" "cl_fd k1 = cl_fd kc" "cl_state k1 = cl_state kc"
      "cl_connect_device k1 = cl_connect_device kc"
      "c1 = ?b \<and> conn_tx_acked c1 = conn_tx_ack c1 \<and> usb_out (sys w1) = usb_out (sys ?w) \<or>
       (\<exists>t. c1 = refresh (acked t ?b)) \<and> transmitted (dev_usbdev ?v) (segment ?v ?b TH_ACK []) ?w w1"
      "link_kept dev ?w w1"
    have in1: "device_data_input (dev_usbdev v) (tcp_packet p th data) (of_nat (length data + 36)) w = Inr (of_nat (length data + 36), w1)"
      unfolding arr using 2(1) by (simp only: seq_def sum.case prod.sel ret_run)
    have c1: "ack_same ?b c1" "conn_tx_acked c1 = conn_tx_ack c1" using 2(7) ack_same_simps by auto
    have f1: "conn_client c1 = Some k" "conn_dev c1 = dev" "conn_state c1 = CONN_CONNECTED" "ib_pending c1 = ib_pending c @ data"
      "conn_tx_ack c1 = conn_tx_ack c + of_nat (length data)"
      using c1(1) bf bok(1) c assms(4) n by (simp_all add: ack_same_def)
    have ok1: "conn_ok c1" using 2(7) bok(3) by (auto simp: conn_ok_def ib_ok_def)
    have kept: "quiet ?w w1" "device_list w1 = device_list w" "usb_ready ?w u \<Longrightarrow> usb_ready w1 u" for u
      using 2(8) by (simp_all add: link_kept_def)
    have "usb_ready ?w (dev_usbdev v)" using assms(12) by (simp add: usb_ready_def hear_def)
    then have v1: "usb_ready w1 (dev_usbdev v)" "sent_on (cl_fd kc) w1 = sent_on (cl_fd kc) w" "sends (sys w1) = []"
      using kept(3) sent_on_quiet [OF kept(1)] kept(1) assms(13) by (simp_all add: quiet_def)
    obtain v1 where d1: "dev_heap w1 = (dev_heap ?w)(dev := Some v1)" "same_dev ?v v1"
      using 2(8) dev by (auto simp: link_kept_def hear_def)
    have sd: "same_dev v v1" using d1(2) by (cases v; cases v1) (simp add: same_dev_def)
    have heap1: "dev_heap w1 = (dev_heap w)(dev := Some v1)" "conn_heap w1 = (conn_heap w)(conn := Some c1)"
      using d1(1) 2(2) by (simp_all add: hear_def)
    have k1: "client_heap w1 k = Some k1" "cl_state k1 = CLIENT_CONNECTED" "cl_connect_device k1 = cl_connect_device kc" "cl_fd k1 = cl_fd kc"
      using 2(3-6) assms(10) by simp_all
    have link: "client_link w1 (cl_connect_device k1) k conn (conn_dev c1)"
      unfolding k1(3) f1(2) by (rule client_link_kept [OF assms(11) kept(2) dev heap1(1) sd c(1) heap1(2)]) (simp add: f1 c)
    have rest: "conn_heap w1 conn = Some c1" "ib_pending c1 \<noteq> []" "dev_heap w1 (conn_dev c1) = Some v1" "usb_ready w1 (dev_usbdev v1)"
      using heap1 f1 assms(7) v1(1) same_dev_fields [OF sd] by simp_all
    show ?thesis
    proof (rule delivered [OF link k1(1,2) rest(1) f1(1) ok1 rest(2) v1(3) rest(3,4)])
      assume "process_client (\<lambda>_. False) (\<lambda>_. True) k w1 = Inl ProcessExit"
      then show ?thesis by (simp only: seq_def in1 sum.case prod.sel)
    next
      fix w' c' kc'
      assume a: "process_client (\<lambda>_. False) (\<lambda>_. True) k w1 = Inr ((), w')" "conn_heap w' = (conn_heap w1)(conn := Some c')"
        "ack_same (drained c1) c'" "client_heap w' = (client_heap w1)(k := Some kc')"
        "sent_on (cl_fd k1) w' = sent_on (cl_fd k1) w1 @ ib_pending c1"
      have "unat (conn_tx_win c') = CONN_INBUF_SIZE" "ib_pending c' = []" "conn_tx_ack c' = conn_tx_ack c + of_nat (length data)"
        "conn_tx_acked c' = conn_tx_ack c'" "conn_state c' = CONN_CONNECTED"
        using a(3) drained_window [OF ok1] f1 c1(2) by (simp_all add: ack_same_def)
      moreover have "conn_heap w' = (conn_heap w)(conn := Some c')" "client_heap w' = (client_heap w)(k := Some kc')"
        "sent_on (cl_fd kc) w' = sent_on (cl_fd kc) w @ ib_pending c @ data"
        using a(2,4,5) heap1(2) 2(3) k1(4) v1(2) f1(4) by simp_all
      ultimately show ?thesis
        unfolding seq_def in1 sum.case prod.sel a(1) ret_run prod.case
        by (intro conjI exI [of _ c'] exI [of _ kc'] refl)
    qed
  qed
qed

subsection \<open>Concrete runs\<close>

lemma idle_can_hear: "can_hear (link_world (idle_device st cs) c k) 10 (idle_device st cs)"
  by (simp add: can_hear_def finds_dev_def idle_defs)

lemma idle_client_link: "conn_client c = Some 20 \<Longrightarrow> client_link (link_world (idle_device st [40]) c k) 1 20 40 10"
  by (simp add: client_link_def idle_defs)

lemma idle_usb_ready: "usb_ready (link_world d c k) 30"
  by (simp add: usb_ready_def idle_defs)

theorem device_data_delivered_witness:
  "case seq (device_data_input 30 (tcp_packet (idle_device MUXDEV_ACTIVE []) (link_header TH_ACK) [7, 8]) 38)
       (\<lambda>n. seq (process_client (\<lambda>_. False) (\<lambda>_. True) 20) (\<lambda>_. ret n))
       (link_world (idle_device MUXDEV_ACTIVE [40]) (idle_conn CONN_CONNECTED [5]) (idle_client CLIENT_CONNECTED)) of
     Inl h \<Rightarrow> h = ProcessExit
   | Inr (n, w') \<Rightarrow> n = 38 \<and> sent_on 7 w' = [5, 7, 8]"
proof -
  let ?v = "idle_device MUXDEV_ACTIVE [40]" and ?c = "idle_conn CONN_CONNECTED [5]" and ?k = "idle_client CLIENT_CONNECTED"
  let ?w = "link_world ?v ?c ?k"
  have h: "dev_version (idle_device MUXDEV_ACTIVE []) \<ge> 2" "conn_state ?c = CONN_CONNECTED" "th_flags (link_header TH_ACK) = TH_ACK"
    "conn_ok ?c" "[7, 8] \<noteq> ([] :: bytes)" "unat (conn_ib_size ?c) + length [7, 8 :: byte] \<le> CONN_INBUF_SIZE"
    "length [7, 8 :: byte] + 36 \<le> DEV_MRU" "cl_state ?k = CLIENT_CONNECTED"
    "client_link ?w (cl_connect_device ?k) 20 40 10" "usb_ready ?w (dev_usbdev ?v)" "sends (sys ?w) = []"
    using idle_client_link [of ?c] idle_usb_ready
    by (simp_all add: idle_device_def idle_conn_def idle_client_def conn_ok_def ib_ok_def CONN_INBUF_SIZE_def DEV_MRU_def
        link_header_def tcp_header_def link_world_def idle_world_def idle_env_def)
  have f: "dev_usbdev ?v = 30" "cl_fd ?k = 7" "ib_pending ?c = [5]" "sent_on 7 ?w = []"
    by (simp_all add: idle_defs ib_pending_def sent_on_def)
  show ?thesis
    using device_data_delivered [OF idle_can_hear h(1) link_ready(1) h(2-11)] unfolding f
    by (auto split: sum.splits)
qed

theorem connection_answered_witness:
  "case seq (device_data_input 30 (tcp_packet (idle_device MUXDEV_ACTIVE []) (link_header (TH_SYN OR TH_ACK)) []) 36)
       (\<lambda>n. seq (process_client (\<lambda>_. False) (\<lambda>_. True) 20) (\<lambda>_. ret n))
       (link_world (idle_device MUXDEV_ACTIVE [40]) (idle_conn CONN_CONNECTING []) (idle_client CLIENT_CONNECTING1)) of
     Inl h \<Rightarrow> h = ProcessExit
   | Inr (n, w') \<Rightarrow> n = 36 \<and> (\<exists>kc'. client_heap w' 20 = Some kc' \<and> cl_state kc' = CLIENT_CONNECTED) \<and>
       sent_on 7 w' = packet (idle_client CLIENT_CONNECTING1) 0 MESSAGE_RESULT (le32 RESULT_OK)"
proof -
  let ?v = "idle_device MUXDEV_ACTIVE [40]" and ?c = "idle_conn CONN_CONNECTING []" and ?k = "idle_client CLIENT_CONNECTING1"
  let ?w = "link_world ?v ?c ?k"
  have pkt: "result_packet ?w ?k RESULT_OK = Some (packet ?k 0 MESSAGE_RESULT (le32 RESULT_OK))"
    by (simp add: result_packet_def idle_defs)
  have reply: "awaits_reply ?w ?k RESULT_OK (packet ?k 0 MESSAGE_RESULT (le32 RESULT_OK))"
    by (rule link_ready(2) [OF pkt]) simp
  have h: "dev_version (idle_device MUXDEV_ACTIVE []) \<ge> 2" "conn_state ?c = CONN_CONNECTING"
    "th_flags (link_header (TH_SYN OR TH_ACK)) = TH_SYN OR TH_ACK" "sends (sys ?w) = []"
    by (simp_all add: idle_defs link_header_def tcp_header_def)
  have f: "dev_usbdev ?v = 30" "cl_fd ?k = 7" "queued ?k = []" "sent_on 7 ?w = []"
    by (simp_all add: idle_defs queued_def sent_on_def)
  show ?thesis
    using connection_answered [OF idle_can_hear h(1) link_ready(1) h(2,3) reply h(4)] unfolding f
    by (auto split: sum.splits)
qed

theorem connect_request_served_witness:
  "case recv_rounds 2 20 ((link_world ((idle_device MUXDEV_ACTIVE [40])\<lparr>dev_next_sport := 2\<rparr>) (idle_conn CONN_CONNECTED [])
        (idle_client CLIENT_COMMAND))\<lparr>sys := idle_env\<lparr>recvs :=
          [Some (take 16 (connect_request 5 1 62078)), Some (drop 16 (connect_request 5 1 62078))]\<rparr>\<rparr>) of
     Inl h \<Rightarrow> h = ProcessExit
   | Inr (_, w') \<Rightarrow> \<exists>c' cn. client_heap w' 20 = Some c' \<and> cl_state c' = CLIENT_CONNECTING1 \<and> cl_connect_tag c' = 5 \<and>
       conn_heap w' 100 = Some cn \<and> conn_state cn = CONN_CONNECTING \<and> conn_dport cn = 62078"
proof -
  let ?v = "(idle_device MUXDEV_ACTIVE [40])\<lparr>dev_next_sport := 2\<rparr>" and ?k = "idle_client CLIENT_COMMAND"
  let ?m = "connect_request 5 1 62078"
  let ?w = "(link_world ?v (idle_conn CONN_CONNECTED []) ?k)\<lparr>sys := idle_env\<lparr>recvs := [Some (take 16 ?m), Some (drop 16 ?m)]\<rparr>\<rparr>"
  have ask: "can_ask ?w 20 ?k" by (simp add: can_ask_def idle_defs)
  have serve: "can_serve ?w 1 10 ?v idle_usb [Some 40, None]"
    by (auto simp: can_serve_def can_send_def conns_alive_def used_ports_def idle_defs)
  have len: "length (take 16 ?m) = 16" "length (drop 16 ?m) = 8" by simp_all
  then have ne: "take 16 ?m \<noteq> []" "drop 16 ?m \<noteq> []" by (metis list.size(3) zero_neq_numeral)+
  have h: "[take 16 ?m] \<noteq> []" "length (concat [take 16 ?m]) = 16" "\<forall>x \<in> set ([take 16 ?m] @ [drop 16 ?m]). x \<noteq> []"
    "concat ([take 16 ?m] @ [drop 16 ?m]) = ?m" "recvs (sys ?w) = map Some ([take 16 ?m] @ [drop 16 ?m]) @ []"
    using ne by simp_all
  have p: "next_ptr ?w = 100" by (simp add: idle_defs)
  show ?thesis
    using connect_request_served [OF ask serve h] unfolding p
    by (auto split: sum.splits simp: numeral_2_eq_2)
qed

end
