(* ===== verification/Layer_Frame.thy ===== *)
theory Layer_Frame
  imports Device
begin

text \<open>
  The contracts between the layers, as frame conditions: locales that assume of a relation between states that the
  operations of one layer keep it, and show that those of the next do. \<open>client_frame\<close> goes from the accesses to the
  clients to the output of client.cpp, \<open>conn_frame\<close> to the recursive teardown, \<open>tcp_frame\<close> to the input of a
  connection and \<open>device_frame\<close> to the packet loop of device.cpp. \<open>layer_frame\<close> is the contract of the transfer
  layer: a relation that every access to the heap and \<open>usb_send\<close> keep is kept by all of it. The interpretations are in
  the theories that need a frame.
\<close>

subsection \<open>Loops\<close>

context frame_rel
begin

lemma keeps_foreach:
  assumes "keeps R col" "\<And>x. keeps R (body x)"
  shows "keeps R (foreach col body)"
proof -
  have "keeps R (foreach_from col body i n)" for i n
    by (induction n arbitrary: i) (auto intro!: keeps_rules assms)
  then show ?thesis unfolding foreach_def by (intro keeps_rules assms)
qed

end

subsection \<open>Reading\<close>

locale world_frame = frame_rel R for R :: "world \<Rightarrow> world \<Rightarrow> bool"
begin

lemma reads_only:
  "keeps R (get_dev d)" "keeps R (get_conn c)" "keeps R (get_client k)" "keeps R (get_usb u)" "keeps R (get_buf p)"
  "keeps R (find_in hp P col)"
  by (auto simp: keeps_def get_dev_def get_conn_def get_client_def get_usb_def get_buf_def find_in_def some_or_def
      frame_refl split: option.splits sum.splits)

lemmas read_rules = keeps_rules reads_only

lemma lookups:
  "keeps R (get_connections d)" "keeps R (get_mux_connection i k)" "keeps R (get_mux_device_for_id i)"
  "keeps R (find_dev_by_usb u)" "keeps R (device_exists i)" "keeps R (usb_get_location u)"
  "keeps R logDeviceListStatus" "keeps R (device_is_initializing u)" "keeps R (find_tcp_conn d sp dp)"
  unfolding get_connections_def get_mux_connection_def get_mux_device_for_id_def find_dev_by_usb_def device_exists_def
    usb_get_location_def logDeviceListStatus_def device_is_initializing_def find_tcp_conn_def
  by (intro read_rules)+

lemma device_reads: "keeps R (read_serial s)" "keeps R (device_info_of i u)" "keeps R (mux_length b)" "keeps R (strn_read n b)"
proof -
  show "keeps R (read_serial s)" unfolding read_serial_def by (intro read_rules)
  show "keeps R (device_info_of i u)"
    unfolding device_info_of_def usb_get_serial_def usb_get_location_def usb_get_pid_def by (intro read_rules)
  show "keeps R (mux_length b)" "keeps R (strn_read n b)"
    unfolding mux_length_def strn_read_def by (intro read_rules)+
qed

end

subsection \<open>Output of clients\<close>

locale client_frame = world_frame R for R +
  assumes client_cells: "keeps R (set_client k v)" "keeps R (free_client k)"
    and calls: "keeps R api_ok" "keeps R mstime64" "keeps R (sys_send s bs)" "keeps R (closesocket s)"
    and client_lists: "keeps R (modify (\<lambda>w. w\<lparr>client_list := f w\<rparr>))"
begin

lemma client_updates: "keeps R (upd_client k h)"
  unfolding upd_client_def by (intro read_rules client_cells)

lemmas client_rules = read_rules lookups device_reads client_cells calls client_lists client_updates

lemma client_output:
  "keeps R (send_pkt k tag msg bs)" "keeps R (send_plist_pkt k tag p)" "keeps R (send_result k tag r)"
  "keeps R (client_notify_connect k r)" "keeps R (client_write k bs)" "keeps R (client_release k)"
  "keeps R (client_set_events k ev)" "keeps R (notify_device_add k info)" "keeps R (notify_device_remove k i)"
  unfolding client_notify_connect_def notify_device_add_def notify_device_remove_def send_result_def send_plist_pkt_def
    send_pkt_def client_write_def client_release_def client_set_events_def Let_def
  by (intro client_rules)+

lemma events:
  "keeps R (client_device_remove i)" "keeps R (client_device_pairing_event info event v)"
  "keeps R (client_device_removed_during_add info)" "keeps R (client_device_error_already_exits info)"
proof -
  show "keeps R (client_device_remove i)"
    unfolding client_device_remove_def for_clients_def by (intro client_rules keeps_foreach client_output)
  show p: "keeps R (client_device_pairing_event info event v)" for event v
    unfolding client_device_pairing_event_def for_clients_def by (intro client_rules keeps_foreach client_output)
  show "keeps R (client_device_removed_during_add info)" "keeps R (client_device_error_already_exits info)"
    unfolding client_device_removed_during_add_def client_device_error_already_exits_def by (rule p)+
qed

lemma device_add_failed: "keeps R (device_add_failed u)"
  unfolding device_add_failed_def by (intro client_rules events)

end

subsection \<open>Connections\<close>

text \<open>
  What identifies a device to its clients and to its connections, and a connection to its device. Most updates of the
  two records leave it alone.
\<close>

definition dev_core :: "mux_device \<Rightarrow> u32 \<times> ptr collection option" where
  "dev_core d = (dev_id d, dev_connections d)"

definition conn_core :: "mux_connection \<Rightarrow> ptr \<times> u16" where
  "conn_core c = (conn_dev c, conn_sport c)"

locale conn_frame = client_frame R for R +
  assumes conn_updates: "(\<And>c. conn_core (g c) = conn_core c) \<Longrightarrow> keeps R (upd_conn conn g)"
    and sends: "keeps R (send_packet dev proto header data)"
    and flushes: "keeps R (teardown_flush n conn k)"
    and releases: "keeps R (teardown_release conn)"
    and refreshes: "keeps R (update_connection conn)"
begin

lemma packets: "keeps R (send_tcp conn flags bs)" "keeps R (send_anon_rst dev sp dp ack)"
proof -
  show "keeps R (send_tcp conn flags bs)"
    unfolding send_tcp_def by (intro client_rules sends conn_updates) (simp add: conn_core_def)
  show "keeps R (send_anon_rst dev sp dp ack)"
    unfolding send_anon_rst_def by (rule sends)
qed

lemma closing:
  "keeps R (connection_teardown n conn)" "keeps R (client_close n k)" "keeps R (device_abort_connect n i k)"
proof (induction n arbitrary: conn k i)
  case (Suc n)
  have r: "keeps R (teardown_rst conn)" for conn
    unfolding teardown_rst_def by (intro client_rules packets)
  { case 1 show ?case
      unfolding connection_teardown.simps
      by (intro client_rules conn_updates r flushes releases client_output Suc) (simp add: conn_core_def) }
  { case 2 show ?case unfolding client_close.simps by (intro client_rules client_output Suc) }
  { case 3 show ?case unfolding device_abort_connect.simps by (intro client_rules Suc) }
qed (simp_all add: keeps_def)

lemma acknowledges: "keeps R (send_tcp_ack conn)"
  unfolding send_tcp_ack_def by (intro client_rules packets closing refreshes)

lemma timeouts: "keeps R device_check_timeouts"
  unfolding device_check_timeouts_def check_conn_timeout_def
  by (intro client_rules keeps_foreach acknowledges)

end

subsection \<open>Input from a device\<close>

locale tcp_frame = conn_frame R for R +
  assumes conn_input: "keeps R (connection_device_input conn pl n)"
begin

lemma tcp_input: "keeps R (device_tcp_input dev th pl n)"
proof -
  have "keeps R (tcp_connecting conn fl)" "keeps R (tcp_connected conn fl pl n)" for conn fl
    unfolding tcp_connecting_def tcp_connected_def
    by (intro client_rules packets closing client_output refreshes acknowledges conn_input conn_updates;
      simp add: conn_core_def)+
  then show ?thesis
    unfolding device_tcp_input_def Let_def by (intro client_rules packets conn_updates) (simp add: conn_core_def)
qed

end

locale device_frame = tcp_frame R for R +
  assumes gathers: "keeps R (gather dev buffer n)"
    and dispatches: "keeps R (dispatch dev buffer n)"
    and devices: "keeps R (device_add u)" "keeps R (device_remove u)"
begin

lemma data_input: "keeps R (device_data_input u buffer n)"
proof -
  have "keeps R (case g of Inl n \<Rightarrow> ret n | Inr (buffer, len) \<Rightarrow> seq (mux_length buffer) (\<lambda>mlen.
               if mlen > len then ret len
               else seq (dispatch dev buffer len) (\<lambda>r.
                 case r of None \<Rightarrow> ret len | Some _ \<Rightarrow> ret (if mlen < len then mlen else len))))" for g dev
    by (cases g) (auto intro!: client_rules dispatches split: prod.split)
  then show ?thesis unfolding device_data_input_def by (intro client_rules gathers)
qed

lemma packet_loop: "keeps R (process_packets n dev buffer sz i)"
proof (induction n arbitrary: i)
  case 0
  show ?case unfolding process_packets.simps by (intro client_rules)
next
  case (Suc n)
  show ?case unfolding process_packets.simps by (intro client_rules data_input Suc)
qed

end

subsection \<open>The contract of the transfer layer\<close>

locale layer_frame = client_frame R for R +
  assumes sets: "keeps R (set_dev d v)" "keeps R (set_conn c v')" "keeps R (free_dev d)" "keeps R (free_conn c)"
    and memory: "keeps R new_ptr" "keeps R (alloc_buf bs)" "keeps R (free_buf p)"
    and lists: "keeps R (modify (\<lambda>w. w\<lparr>device_list := f w\<rparr>))" "keeps R (modify (\<lambda>w. w\<lparr>next_device_id := g w\<rparr>))"
      "keeps R (modify (\<lambda>w. w\<lparr>preflight_gone := h w\<rparr>))" "keeps R (preflight_worker_device_add info)"
    and transfer: "keeps R (usb_send u p n)"
begin

lemma updates: "keeps R (upd_dev d f)" "keeps R (upd_conn c g)"
  unfolding upd_dev_def upd_conn_def by (intro read_rules sets)+

lemmas write_rules = client_rules sets memory lists transfer updates

lemma all_packets: "keeps R (send_packet dev proto header data)"
  unfolding send_packet_def Let_def by (auto intro!: write_rules split: prod.splits)

lemma all_parts: "keeps R (teardown_flush n conn k)" "keeps R (teardown_release conn)" "keeps R (update_connection conn)"
proof -
  show "keeps R (teardown_release conn)"
    unfolding teardown_release_def remove_connection_def by (intro write_rules)
  show "keeps R (update_connection conn)"
    unfolding update_connection_def by (intro write_rules client_output)
  show "keeps R (teardown_flush n conn k)"
  proof (induction n)
    case (Suc n)
    show ?case unfolding teardown_flush.simps by (intro write_rules client_output Suc)
  qed (simp only: teardown_flush.simps keeps_stop)
qed

end

sublocale layer_frame \<subseteq> conn_frame
  by unfold_locales (intro updates all_packets all_parts)+

sublocale layer_frame \<subseteq> tcp_frame
  by unfold_locales (unfold connection_device_input_def, intro write_rules closing refreshes)

context layer_frame
begin

lemma all_dispatches: "keeps R (gather dev buffer n)" "keeps R (dispatch dev buffer n)"
proof -
  have v: "keeps R (device_version_input dev vh)" for dev vh
    unfolding device_version_input_def by (intro write_rules sends)
  have c: "keeps R (device_control_input pl n)" for pl n
    unfolding device_control_input_def by (intro write_rules)
  show "keeps R (gather dev buffer n)"
    unfolding gather_def by (intro write_rules)
  show "keeps R (dispatch dev buffer n)"
    unfolding dispatch_def Let_def by (intro write_rules v c tcp_input)
qed

lemma all_devices: "keeps R (device_add u)" "keeps R (device_remove u)"
proof -
  have loop: "keeps R (get_next_device_id_loop n)" for n
  proof (induction n)
    case (Suc n)
    show ?case unfolding get_next_device_id_loop.simps by (intro write_rules Suc)
  qed (simp only: get_next_device_id_loop.simps keeps_stop)
  show "keeps R (device_add u)"
    unfolding device_add_def get_next_device_id_def by (intro write_rules loop sends)
  show "keeps R (device_remove u)"
    unfolding device_remove_def remove_active_def preflight_device_remove_cb_def
    by (intro write_rules keeps_foreach closing events)
qed

end

sublocale layer_frame \<subseteq> device_frame
  by unfold_locales (intro all_dispatches all_devices)+

end
