(* ===== verification/Untouched.thy ===== *)
theory Untouched
  imports Layer_Frame
begin

text \<open>
  What device.cpp and the client output under it never touch: the configuration store, and the events of the operating
  system that other threads wait for. Both frames are one interpretation of the contract \<open>layer_frame\<close>, whose lemmas
  \<open>Usb_Spec\<close> and \<open>Isolation\<close> use.
\<close>

definition untouched :: "world \<Rightarrow> world \<Rightarrow> bool" where
  "untouched w w' \<longleftrightarrow> conf w' = conf w \<and> events_set (sys w') = events_set (sys w)"

interpretation untouched: world_frame untouched
  by unfold_locales (auto simp: untouched_def)

lemma untouched_modify: "(\<And>w. untouched w (f w)) \<Longrightarrow> keeps untouched (modify f)"
  by (simp add: keeps_def)

lemma untouched_writes:
  "keeps untouched (set_dev d v)" "keeps untouched (set_conn c v1)" "keeps untouched (set_client k v2)"
  "keeps untouched (set_usb u v3)" "keeps untouched (free_dev d)" "keeps untouched (free_conn c)"
  "keeps untouched (free_client k)" "keeps untouched (free_buf p)" "keeps untouched (closesocket s)"
  "keeps untouched (preflight_worker_device_add info)"
  unfolding set_dev_def set_conn_def set_client_def set_usb_def free_dev_def free_conn_def free_client_def free_buf_def
    closesocket_def preflight_worker_device_add_def
  by (intro untouched.read_rules untouched_modify; simp add: untouched_def)+

lemma untouched_calls:
  "keeps untouched api_ok" "keeps untouched mstime64" "keeps untouched (sys_send s bs)" "keeps untouched new_ptr"
  "keeps untouched (com_transfer_out u bs)"
  by (auto simp: keeps_def api_ok_def mstime64_def sys_send_def new_ptr_def com_transfer_out_def Let_def untouched_def
      split: list.splits if_splits)

lemma untouched_alloc: "keeps untouched (alloc_buf bs)"
  unfolding alloc_buf_def by (intro untouched.read_rules untouched_calls untouched_modify) (simp add: untouched_def)

lemmas untouched_rules = untouched.read_rules untouched_writes untouched_calls untouched_alloc

lemma untouched_transfer: "keeps untouched (usb_send u p n)"
proof -
  have g: "keeps untouched (GetTXQElement u b)" for b
    unfolding GetTXQElement_def by (intro untouched_rules)
  have r: "keeps untouched (ReUseTXQElement u e)" for e
    unfolding ReUseTXQElement_def upd_usb_def by (intro untouched_rules)
  have f: "keeps untouched (finish_pending u e)" for e
    unfolding finish_pending_def by (intro untouched_rules r)
  show ?thesis
    unfolding usb_send_def Let_def by (auto intro!: untouched_rules g r f split: xfer_status.splits)
qed

interpretation untouched: layer_frame untouched
  by unfold_locales (intro untouched_rules untouched_transfer untouched_modify; simp add: untouched_def)+

end
