(* ===== verification/Usb_Spec.thy ===== *)
theory Usb_Spec
  imports Usb_Mce Untouched
begin

text \<open>
  The device management of usb-mce.cpp as a whole: what the operations of the device and client layers leave
  alone of the usb device list, the invariant of that list under every pending command, the queue of commands
  (\<open>usb_process\<close>), and what the removal of a device leaves behind.
\<close>

subsection \<open>What other layers leave alone\<close>

text \<open>
  The usb devices without their queues of outgoing transfers, which every layer above fills: the cell of a device, and
  the location of every live device.
\<close>

definition usb_core :: "usb_device \<Rightarrow> usb_device" where
  "usb_core d = d\<lparr>ud_tx_q := [], ud_tx_pool := []\<rparr>"

definition cell :: "world \<Rightarrow> ptr \<Rightarrow> usb_device option" where
  "cell w p = map_option usb_core (usb_heap w p)"

definition places :: "world \<Rightarrow> ptr \<Rightarrow> u32 option" where
  "places w p = map_option ud_location (usb_heap w p)"

lemma usb_core_simps [simp]:
  "ud_location (usb_core d) = ud_location d" "usb_core (d\<lparr>ud_tx_q := q\<rparr>) = usb_core d" "usb_core (d\<lparr>ud_tx_pool := q\<rparr>) = usb_core d"
  by (simp_all add: usb_core_def)

lemma places_cell: "places w p = map_option ud_location (cell w p)"
  by (simp add: places_def cell_def option.map_comp comp_def)

text \<open>
  What every operation on the device \<open>u\<close> keeps that neither allocates nor releases a device: the list and the
  queue of commands, where the devices are, and everything of the other devices but their queues of transfers. An
  operation that is not about a usb device keeps it for every \<open>u\<close>.
\<close>

definition usb_fixed :: "ptr \<Rightarrow> world \<Rightarrow> world \<Rightarrow> bool" where
  "usb_fixed u w w' \<longleftrightarrow> g_device_list w' = g_device_list w \<and> g_pending_devices w' = g_pending_devices w \<and>
     next_ptr w \<le> next_ptr w' \<and> places w' = places w \<and> set (oks (sys w')) \<subseteq> set (oks (sys w)) \<and>
     (\<forall>p. p \<noteq> u \<longrightarrow> cell w' p = cell w p)"

interpretation fixed: world_frame "usb_fixed u" for u
  by unfold_locales (auto simp: usb_fixed_def)

lemma fixed_modify: "(\<And>w. usb_fixed u w (f w)) \<Longrightarrow> keeps (usb_fixed u) (modify f)"
  by (simp add: keeps_def)

lemma same_usb_heap: "usb_heap w' = usb_heap w \<Longrightarrow> places w' = places w \<and> cell w' = cell w"
  by (simp add: places_def cell_def fun_eq_iff)

lemma fixed_heap:
  "usb_heap w' = usb_heap w \<Longrightarrow> g_device_list w' = g_device_list w \<Longrightarrow> g_pending_devices w' = g_pending_devices w \<Longrightarrow>
     next_ptr w \<le> next_ptr w' \<Longrightarrow> set (oks (sys w')) \<subseteq> set (oks (sys w)) \<Longrightarrow> usb_fixed u w w'"
  using same_usb_heap [of w' w] by (simp add: usb_fixed_def)

lemma fixed_upd:
  assumes "usb_heap w u = Some d" "ud_location d' = ud_location d \<and> (u = v \<or> usb_core d' = usb_core d)"
  shows "usb_fixed v w (w\<lparr>usb_heap := (usb_heap w)(u := Some d')\<rparr>)"
  using assms by (auto simp: usb_fixed_def places_def cell_def fun_eq_iff)

lemma fixed_set:
  "keeps (usb_fixed u) (set_dev d v)" "keeps (usb_fixed u) (set_conn c v1)" "keeps (usb_fixed u) (set_client k v2)"
  "keeps (usb_fixed u) (free_dev d)" "keeps (usb_fixed u) (free_conn c)" "keeps (usb_fixed u) (free_client k)"
  "keeps (usb_fixed u) (free_buf p)" "keeps (usb_fixed u) (closesocket s)" "keeps (usb_fixed u) (set_event e)"
  "keeps (usb_fixed u) new_ptr"
  unfolding set_dev_def set_conn_def set_client_def free_dev_def free_conn_def free_client_def free_buf_def
    closesocket_def set_event_def
  by (auto simp: keeps_def new_ptr_def split: if_splits intro: fixed_heap)

lemma fixed_env:
  "keeps (usb_fixed u) api_ok" "keeps (usb_fixed u) mstime64" "keeps (usb_fixed u) (sys_send s bs)"
  "keeps (usb_fixed u) (sys_recv s n)" "keeps (usb_fixed u) (com_transfer_out v bs)" "keeps (usb_fixed u) com_transfer_in"
  "keeps (usb_fixed u) com_open" "keeps (usb_fixed u) com_device_desc" "keeps (usb_fixed u) com_serial"
  "keeps (usb_fixed u) com_config"
  by (auto simp: keeps_def api_ok_def mstime64_def sys_send_def sys_recv_def com_transfer_out_def com_transfer_in_def
      com_open_def com_device_desc_def com_serial_def com_config_def Let_def split: list.splits if_splits intro!: fixed_heap)

lemma fixed_upd_usb:
  assumes "\<And>d. ud_location (f d) = ud_location d \<and> (u = v \<or> usb_core (f d) = usb_core d)"
  shows "keeps (usb_fixed v) (upd_usb u f)"
  using assms by (auto simp: keeps_def upd_usb_def set_usb_def seq_eq_Inr get_usb_def some_or_def split: option.splits
      intro!: fixed_upd)

lemma fixed_alloc: "keeps (usb_fixed u) (alloc_buf bs)"
  unfolding alloc_buf_def
  by (intro fixed.keeps_rules fixed_set fixed_modify) (auto intro: fixed_heap)

lemmas fixed_rules = fixed.read_rules fixed_set fixed_env fixed_alloc

text \<open>Reading a usb device and storing it back, at the same location.\<close>

definition usb_at :: "ptr \<Rightarrow> ptr \<Rightarrow> usb_device \<Rightarrow> 'a act \<Rightarrow> bool" where
  "usb_at v u d m \<longleftrightarrow> (\<forall>w x w'. usb_heap w u = Some d \<longrightarrow> m w = Inr (x, w') \<longrightarrow> usb_fixed v w w')"

lemma fixed_get_usb: "(\<And>d. usb_at v u d (f d)) \<Longrightarrow> keeps (usb_fixed v) (seq (get_usb u) f)"
  by (auto simp: keeps_def usb_at_def seq_eq_Inr get_usb_def some_or_def split: option.splits)

lemma usb_at_keeps: "keeps (usb_fixed v) m \<Longrightarrow> usb_at v u d m"
  by (simp add: keeps_def usb_at_def)

lemma usb_at_if: "usb_at v u d m \<Longrightarrow> usb_at v u d n \<Longrightarrow> usb_at v u d (if b then m else n)"
  by simp

lemma usb_at_list:
  "usb_at v u d m \<Longrightarrow> (\<And>x xs. usb_at v u d (f x xs)) \<Longrightarrow> usb_at v u d (case l of [] \<Rightarrow> m | x # xs \<Rightarrow> f x xs)"
  by (simp split: list.splits)

lemma usb_at_set:
  assumes "ud_location d' = ud_location d \<and> (u = v \<or> usb_core d' = usb_core d)" "keeps (usb_fixed v) (k ())"
  shows "usb_at v u d (seq (set_usb u d') k)"
  unfolding usb_at_def
proof (intro allI impI)
  fix w x w'
  assume w: "usb_heap w u = Some d" and run: "seq (set_usb u d') k w = Inr (x, w')"
  let ?w = "w\<lparr>usb_heap := (usb_heap w)(u := Some d')\<rparr>"
  have "k () ?w = Inr (x, w')" using run by (simp add: set_usb_def)
  then have "usb_fixed v ?w w'" by (rule keepsD [OF assms(2)])
  with fixed_upd [OF w assms(1)] show "usb_fixed v w w'" using fixed.frame_trans by blast
qed

lemma usb_at_set_last:
  "ud_location d' = ud_location d \<and> (u = v \<or> usb_core d' = usb_core d) \<Longrightarrow> usb_at v u d (set_usb u d')"
  by (auto simp: usb_at_def set_usb_def intro: fixed_upd)

lemmas usb_at_rules = fixed_get_usb usb_at_if usb_at_list usb_at_set usb_at_set_last

subsection \<open>The transfer layer\<close>

lemma fixed_usb_io:
  "keeps (usb_fixed v) (GetTXQElement u b)" "keeps (usb_fixed v) (ReUseTXQElement u e)"
  "keeps (usb_fixed v) (finish_pending u e)" "keeps (usb_fixed v) (usb_send u p n)"
proof -
  show g: "keeps (usb_fixed v) (GetTXQElement u b)" for b
    unfolding GetTXQElement_def
    by (intro fixed_get_usb) (simp split: list.splits add: usb_at_keeps usb_at_set fixed_rules)
  show r: "keeps (usb_fixed v) (ReUseTXQElement u e)" for e
    unfolding ReUseTXQElement_def by (intro fixed_rules fixed_upd_usb) simp
  show f: "keeps (usb_fixed v) (finish_pending u e)" for e
    unfolding finish_pending_def
    by (intro usb_at_rules) (auto intro!: usb_at_keeps fixed_rules r)
  show "keeps (usb_fixed v) (usb_send u p n)"
    unfolding usb_send_def Let_def
    by (auto intro!: fixed_rules g r f split: xfer_status.splits)
qed

interpretation fixed: layer_frame "usb_fixed u" for u
proof unfold_locales
  show "keeps (usb_fixed u) (preflight_worker_device_add info)" for info
    unfolding preflight_worker_device_add_def by (intro fixed_modify) (auto intro: fixed_heap)
qed (intro fixed_rules fixed_usb_io fixed_modify; auto intro: fixed_heap)+

subsection \<open>The device list\<close>

text \<open>
  Every live device is in the list, once, or among those in \<open>S\<close> that are being set up; no two devices are at
  the same location; addresses still to be given out are free.
\<close>

definition devs_ok :: "ptr set \<Rightarrow> world \<Rightarrow> bool" where
  "devs_ok S w \<longleftrightarrow> distinct (elems (g_device_list w)) \<and> set (elems (g_device_list w)) \<inter> S = {} \<and>
     dom (places w) = set (elems (g_device_list w)) \<union> S \<and> (\<forall>p \<in> dom (places w). p < next_ptr w) \<and>
     inj_on (places w) (dom (places w))"

text \<open>
  The devices at locations outside \<open>L\<close>, with everything about them but their queues of transfers. A command for the
  location \<open>l\<close> touches none elsewhere.
\<close>

definition others :: "u32 set \<Rightarrow> world \<Rightarrow> ptr \<Rightarrow> usb_device option" where
  "others L w p = (case cell w p of None \<Rightarrow> None | Some d \<Rightarrow> if ud_location d \<in> L then None else Some d)"

definition elsewhere :: "u32 \<Rightarrow> world \<Rightarrow> world \<Rightarrow> bool" where
  "elsewhere l w w' \<longleftrightarrow> g_pending_devices w' = g_pending_devices w \<and> others {l} w' = others {l} w"

interpretation elsewhere: frame_rel "elsewhere l" for l
  by unfold_locales (auto simp: elsewhere_def)

lemma others_subset: "others K w' = others K w \<Longrightarrow> K \<subseteq> L \<Longrightarrow> others L w' = others L w"
proof -
  assume eq: "others K w' = others K w" and "K \<subseteq> L"
  then have "others L v p = (case others K v p of None \<Rightarrow> None | Some d \<Rightarrow> if ud_location d \<in> L then None else Some d)" for v p
    by (auto simp: others_def split: option.splits)
  then show ?thesis by (simp add: fun_eq_iff eq)
qed

text \<open>A change of the device \<open>u\<close> alone is not seen elsewhere when it is at \<open>l\<close>, or not there, before and after.\<close>

lemma others_at: "places w p \<in> {None, Some l} \<Longrightarrow> others {l} w p = None"
  unfolding others_def places_cell by (cases "cell w p") auto

lemma others_cells:
  assumes "\<And>p. p \<noteq> u \<Longrightarrow> cell w' p = cell w p" "places w u \<in> {None, Some l}" "places w' u \<in> {None, Some l}"
  shows "others {l} w' = others {l} w"
proof
  fix p
  show "others {l} w' p = others {l} w p"
    using others_at [OF assms(2)] others_at [OF assms(3)] assms(1) by (cases "p = u") (simp_all add: others_def)
qed

lemma fixed_devs:
  assumes "usb_fixed u w w'" "devs_ok S w"
  shows "devs_ok S w'"
proof -
  have e: "g_device_list w' = g_device_list w" "places w' = places w" and n: "next_ptr w \<le> next_ptr w'"
    using assms(1) by (simp_all add: usb_fixed_def)
  have "p < next_ptr w'" if "p \<in> dom (places w)" for p
    using assms(2) that n unfolding devs_ok_def by (blast intro: less_le_trans)
  then show ?thesis using assms(2) unfolding devs_ok_def e by blast
qed

lemma fixed_elsewhere: "usb_fixed u w w' \<Longrightarrow> places w u = Some l \<Longrightarrow> elsewhere l w w'"
  unfolding elsewhere_def using others_cells [of u w' w l] by (simp add: usb_fixed_def)

lemma fixed_everywhere:
  assumes "\<And>u. usb_fixed u w w'"
  shows "elsewhere l w w'"
proof -
  have "cell w' p = cell w p" for p using assms [of "Suc p"] by (simp add: usb_fixed_def)
  then show ?thesis using assms [of 0] by (simp add: elsewhere_def others_def usb_fixed_def fun_eq_iff)
qed

lemma fixed_places: "usb_fixed u w w' \<Longrightarrow> places w' = places w"
  by (simp add: usb_fixed_def)

lemma get_usb_places: "get_usb u w = Inr (d, w') \<longleftrightarrow> w' = w \<and> usb_heap w u = Some d"
  by (auto simp: get_usb_def some_or_def split: option.splits)

lemma places_Some: "usb_heap w u = Some d \<Longrightarrow> places w u = Some (ud_location d)"
  by (simp add: places_def)

lemma free_device_run:
  assumes run: "usb_free_device dev w = Inr (x, w')" and ok: "devs_ok S w" and at: "places w dev = Some l"
  shows "devs_ok (S - {dev}) w' \<and> elsewhere l w w' \<and> places w' = (places w)(dev := None)"
proof -
  have w': "w' = w\<lparr>g_device_list := collection_remove (g_device_list w) dev, usb_heap := (usb_heap w)(dev := None)\<rparr>"
    using run by (auto simp: usb_free_device_def seq_eq_Inr get_usb_places free_usb_def split: if_splits)
  have p: "places w' = (places w)(dev := None)" by (auto simp: w' places_def fun_eq_iff)
  have d: "dom (places w') = dom (places w) - {dev}" by (auto simp: p)
  have dist: "distinct (elems (g_device_list w))" using ok by (simp add: devs_ok_def)
  have e: "set (elems (g_device_list w')) = set (elems (g_device_list w)) - {dev}"
    using dist by (simp add: w' set_elems_remove)
  have "distinct (elems (g_device_list w'))" using dist by (simp add: w' distinct_elems_remove)
  moreover have "inj_on (places w') (dom (places w'))"
    using ok by (auto simp: d p devs_ok_def inj_on_def)
  ultimately have "devs_ok (S - {dev}) w'"
    using ok unfolding devs_ok_def d e by (auto simp: w')
  moreover have "others {l} w' = others {l} w"
    using at by (intro others_cells [of dev]) (auto simp: p, simp add: w' cell_def)
  then have "elsewhere l w w'" by (simp add: elsewhere_def w')
  ultimately show ?thesis using p by simp
qed

subsection \<open>Releasing a device\<close>

lemma fixed_stop:
  "keeps (usb_fixed u) (stop_read_thread u)" "keeps (usb_fixed u) (stop_write_thread u)"
proof -
  show "keeps (usb_fixed u) (stop_read_thread u)"
    unfolding stop_read_thread_def
    by (intro usb_at_rules) (auto intro!: usb_at_keeps fixed_rules fixed_upd_usb)
  have it: "keeps (usb_fixed u) (usb_write_thread_iter u)"
    unfolding usb_write_thread_iter_def
    by (intro usb_at_rules fixed_rules fixed_usb_io) (auto intro!: usb_at_keeps fixed_rules)
  have cl: "keeps (usb_fixed u) (write_thread_cleanup u)"
    unfolding write_thread_cleanup_def by (intro usb_at_rules fixed_rules) simp
  show "keeps (usb_fixed u) (stop_write_thread u)"
    unfolding stop_write_thread_def
    by (intro usb_at_rules fixed_rules fixed_upd_usb it cl) (auto intro!: usb_at_keeps fixed_rules)
qed

lemma stop_read_idle:
  "stop_read_thread u w = Inr (go, w') \<Longrightarrow> usb_heap w u = Some d \<Longrightarrow> \<not> ud_rx_thread d \<Longrightarrow> go \<and> w' = w"
  by (auto simp: stop_read_thread_def seq_eq_Inr get_usb_places)

text \<open>A disconnect keeps the invariant; a device that was being set up and has no thread is released.\<close>

lemma disconnect_run:
  assumes run: "usb_disconnect dev manual w = Inr (x, w')" and ok: "devs_ok S w" and at: "places w dev = Some l"
    and S: "S = {} \<or> S = {dev} \<and> manual \<and> (\<exists>d. usb_heap w dev = Some d \<and> \<not> ud_rx_thread d)"
  shows "devs_ok {} w' \<and> elsewhere l w w'"
proof -
  obtain go w1 where go: "stop_read_thread dev w = Inr (go, w1)"
    "(if \<not> go then ret () else seq (stop_write_thread dev) (\<lambda>_.
       seq api_ok (\<lambda>_.
       seq (get_usb dev) (\<lambda>d.
       seq (case ud_rx_socket d of None \<Rightarrow> ret () | Some s \<Rightarrow> closesocket s) (\<lambda>_.
       seq (set_usb dev (d\<lparr>ud_rx_socket := None, ud_rx_thread := False\<rparr>)) (\<lambda>_.
       if manual \<or> ud_monitor d = DEVICE_MONITOR_DISABLE then usb_free_device dev
       else upd_usb dev (\<lambda>d. d\<lparr>ud_port := no_port, ud_info := no_info,
              ud_state := USB_DEVICE_STATE_WAITING_FOR_DEVICE\<rparr>))))))) w1 = Inr (x, w')"
    using run unfolding usb_disconnect_def seq_eq_Inr by blast
  have f1: "usb_fixed dev w w1" by (rule keepsD [OF fixed_stop(1) go(1)])
  show ?thesis
  proof (cases go)
    case False
    then have "S = {}" "w' = w1" using S stop_read_idle [OF go(1)] go(2) by auto
    then show ?thesis using ok fixed_devs [OF f1] fixed_elsewhere [OF f1 at] by simp
  next
    case True
    obtain w2 b w3 d w4 where s: "stop_write_thread dev w1 = Inr ((), w2)" "api_ok w2 = Inr (b, w3)"
      "usb_heap w3 dev = Some d"
      "(case ud_rx_socket d of None \<Rightarrow> ret () | Some s \<Rightarrow> closesocket s) w3 = Inr ((), w4)"
      "(if manual \<or> ud_monitor d = DEVICE_MONITOR_DISABLE then usb_free_device dev
       else upd_usb dev (\<lambda>d. d\<lparr>ud_port := no_port, ud_info := no_info,
              ud_state := USB_DEVICE_STATE_WAITING_FOR_DEVICE\<rparr>))
         (w4\<lparr>usb_heap := (usb_heap w4)(dev := Some (d\<lparr>ud_rx_socket := None, ud_rx_thread := False\<rparr>))\<rparr>) = Inr (x, w')"
      using go(2) True by (auto simp: seq_eq_Inr get_usb_places set_usb_def)
    let ?w5 = "w4\<lparr>usb_heap := (usb_heap w4)(dev := Some (d\<lparr>ud_rx_socket := None, ud_rx_thread := False\<rparr>))\<rparr>"
    have c: "keeps (usb_fixed dev) (case ud_rx_socket d of None \<Rightarrow> ret () | Some s \<Rightarrow> closesocket s)" by (intro fixed_rules)
    have "usb_fixed dev w1 w2" by (rule keepsD [OF fixed_stop(2) s(1)])
    moreover have "usb_fixed dev w2 w3" by (rule keepsD [OF fixed_env(1) s(2)])
    moreover have "usb_fixed dev w3 w4" by (rule keepsD [OF c s(4)])
    moreover have "usb_heap w4 = usb_heap w3" using s(4) by (auto simp: closesocket_def split: option.splits)
    then have "usb_fixed dev w4 ?w5" using s(3) fixed_upd [of w4 dev d "d\<lparr>ud_rx_socket := None, ud_rx_thread := False\<rparr>" dev] by simp
    ultimately have f5: "usb_fixed dev w ?w5" using f1 fixed.frame_trans by blast
    note ok5 = fixed_devs [OF f5 ok] and e5 = fixed_elsewhere [OF f5 at]
    have at5: "places ?w5 dev = Some l" using fixed_places [OF f5] at by simp
    show ?thesis
    proof (cases "manual \<or> ud_monitor d = DEVICE_MONITOR_DISABLE")
      case True
      then have "devs_ok (S - {dev}) w' \<and> elsewhere l ?w5 w'"
        using free_device_run [OF _ ok5 at5] s(5) by auto
      moreover have "S - {dev} = {}" using S by auto
      ultimately show ?thesis using e5 elsewhere.frame_trans by metis
    next
      case False
      have k: "keeps (usb_fixed dev) (upd_usb dev (\<lambda>d. d\<lparr>ud_port := no_port, ud_info := no_info,
              ud_state := USB_DEVICE_STATE_WAITING_FOR_DEVICE\<rparr>))" by (intro fixed_upd_usb) simp
      have f6: "usb_fixed dev ?w5 w'" by (rule keepsD [OF k]) (use s(5) False in simp)
      have "S = {}" using S False by auto
      then show ?thesis using fixed_devs [OF f6] ok5 fixed_elsewhere [OF f6 at5] e5 elsewhere.frame_trans by metis
    qed
  qed
qed

subsection \<open>Setting up a device\<close>

lemma fixed_start:
  "keeps (usb_fixed u) (usb_start_read_thread u)" "keeps (usb_fixed u) (usb_start_write_thread u)"
  "keeps (usb_fixed u) (usb_configure_device u)" "keeps (usb_fixed v) (usb_report_device_already_exists u)"
proof -
  have conn: "keeps (usb_fixed u) connect_socket" unfolding connect_socket_def by (intro fixed_rules)
  show "keeps (usb_fixed u) (usb_start_read_thread u)"
    unfolding usb_start_read_thread_def Let_def by (intro fixed_rules fixed_upd_usb conn) simp_all
  show "keeps (usb_fixed u) (usb_start_write_thread u)"
    unfolding usb_start_write_thread_def by (intro fixed_rules fixed_upd_usb) simp_all
  have mux: "keeps (usb_fixed u) (usb_configure_mux_interface u c)" for c
    unfolding usb_configure_mux_interface_def
    by (intro fixed_get_usb) (simp split: sum.splits add: usb_at_keeps usb_at_set fixed_rules)
  show "keeps (usb_fixed u) (usb_configure_device u)"
    unfolding usb_configure_device_def by (auto intro!: fixed_rules fixed_upd_usb mux)
  show "keeps (usb_fixed v) (usb_report_device_already_exists u)"
    unfolding usb_report_device_already_exists_def by (intro fixed_rules fixed.lookups fixed.device_reads fixed.events)
qed

text \<open>
  \<open>leaves l dev m\<close>: run on a listed device at \<open>l\<close>, \<open>m\<close> keeps the list in order and every device elsewhere.
\<close>

definition leaves :: "u32 \<Rightarrow> ptr \<Rightarrow> 'a act \<Rightarrow> bool" where
  "leaves l dev m \<longleftrightarrow> (\<forall>w x w'. devs_ok {} w \<longrightarrow> places w dev = Some l \<longrightarrow> m w = Inr (x, w') \<longrightarrow>
     devs_ok {} w' \<and> elsewhere l w w')"

lemma leaves_fixed: "keeps (usb_fixed dev) m \<Longrightarrow> leaves l dev m"
  by (simp add: leaves_def) (metis keepsD fixed_devs fixed_elsewhere)

lemma leaves_seq: "keeps (usb_fixed dev) m \<Longrightarrow> (\<And>x. leaves l dev (f x)) \<Longrightarrow> leaves l dev (seq m f)"
  unfolding leaves_def seq_eq_Inr
  by (metis keepsD fixed_devs fixed_elsewhere fixed_places elsewhere.frame_trans)

lemma leaves_then:
  assumes "leaves l dev m" "\<And>x u. keeps (usb_fixed u) (f x)"
  shows "leaves l dev (seq m f)"
  unfolding leaves_def
proof (intro allI impI)
  fix w x w'
  assume ok: "devs_ok {} w" "places w dev = Some l" and run: "seq m f w = Inr (x, w')"
  obtain y w1 where r: "m w = Inr (y, w1)" "f y w1 = Inr (x, w')" using run by (auto simp: seq_eq_Inr)
  have m: "devs_ok {} w1 \<and> elsewhere l w w1" using assms(1) ok r(1) by (simp add: leaves_def)
  have f: "usb_fixed u w1 w'" for u by (rule keepsD [OF assms(2) r(2)])
  show "devs_ok {} w' \<and> elsewhere l w w'"
    using m fixed_devs [OF f] fixed_everywhere [OF f] elsewhere.frame_trans by blast
qed

lemma leaves_if: "leaves l dev m \<Longrightarrow> leaves l dev n \<Longrightarrow> leaves l dev (if b then m else n)"
  by simp

lemma leaves_disconnect: "leaves l dev (usb_disconnect dev manual)"
  unfolding leaves_def using disconnect_run [where S = "{}"] by blast

text \<open>The event about a failed device reads the usb device and changes nothing of it.\<close>

interpretation replies: world_frame only_clients
  by unfold_locales

lemma add_failed_usb:
  assumes "device_add_failed dev w = Inr (x, w')"
  shows "usb_heap w' = usb_heap w"
proof -
  have "keeps only_clients (device_add_failed dev)"
    unfolding device_add_failed_def client_device_removed_during_add_def client_device_pairing_event_def for_clients_def
      if_False
    by (intro replies.read_rules replies.device_reads cl_frame.keeps_foreach cl_send_plist_pkt)
  then have "only_clients w w'" using assms by (rule keepsD)
  then show ?thesis by (rule only_clients_fields(3))
qed

lemma add_cleanup_run:
  assumes run: "add_cleanup dev existing added w = Inr (x, w')" and ok: "devs_ok S w" and at: "places w dev = Some l"
    and S: "S = {} \<or> S = {dev} \<and> \<not> existing \<and> \<not> added \<and> (\<exists>d. usb_heap w dev = Some d \<and> \<not> ud_rx_thread d)"
  shows "devs_ok {} w' \<and> elsewhere l w w'"
proof -
  obtain d where d: "usb_heap w dev = Some d" using at by (auto simp: places_def)
  let ?keep = "existing \<and> ud_monitor d = DEVICE_MONITOR_ALWAYS"
  let ?tell = "if added then device_remove dev else if \<not> ?keep then device_add_failed dev else ret ()"
  obtain w1 x1 where r: "?tell w = Inr ((), w1)" "usb_disconnect dev (\<not> ?keep) w1 = Inr (x1, w')"
  proof -
    have "seq ?tell (\<lambda>_. seq (usb_disconnect dev (\<not> ?keep)) (\<lambda>_. ret (if ?keep then 0 else -1))) w = Inr (x, w')"
      using run d unfolding add_cleanup_def Let_def by (subst (asm) seq_Inr [OF get_usb_run(1)])
    then obtain u v w1 w2 where "?tell w = Inr (u, w1)" "usb_disconnect dev (\<not> ?keep) w1 = Inr (v, w2)"
      "ret (if ?keep then 0 else -1 :: int) w2 = Inr (x, w')"
      unfolding seq_eq_Inr [of ?tell] seq_eq_Inr [of "usb_disconnect dev (\<not> ?keep)"] by blast
    then show ?thesis using that [of w1 v] by simp
  qed
  have "keeps (usb_fixed dev) ?tell" by (intro fixed_rules fixed.devices fixed.device_add_failed)
  then have f: "usb_fixed dev w w1" using r(1) by (rule keepsD)
  have "S = {} \<or> S = {dev} \<and> \<not> ?keep \<and> (\<exists>d. usb_heap w1 dev = Some d \<and> \<not> ud_rx_thread d)"
    using S add_failed_usb r(1) by auto
  from disconnect_run [OF r(2) fixed_devs [OF f ok] _ this, of l] show ?thesis
    using fixed_places [OF f] at fixed_elsewhere [OF f at] elsewhere.frame_trans by metis
qed

lemma leaves_cleanup: "leaves l dev (add_cleanup dev existing added)"
  unfolding leaves_def using add_cleanup_run [where S = "{}"] by blast

lemma leaves_start: "leaves l dev (start_device src monitor event existing dev)"
  unfolding start_device_def
  by (intro leaves_seq leaves_if leaves_cleanup fixed_rules fixed_start fixed.devices fixed_upd_usb)
     (auto intro!: leaves_fixed fixed_rules fixed_upd_usb leaves_seq)

subsection \<open>The commands\<close>

lemma scan_existing_run:
  "scan_existing l found ps w = Inr (r, w') \<Longrightarrow> w' = w \<and>
     (case r of Inl p \<Rightarrow> places w p = Some l
      | Inr None \<Rightarrow> found = None \<and> (\<forall>p \<in> set ps. places w p \<noteq> Some l)
      | Inr (Some p) \<Rightarrow> found = Some p \<or> places w p = Some l)"
proof (induction ps arbitrary: found)
  case Nil
  then show ?case by (cases found) auto
next
  case (Cons p ps)
  from Cons.prems obtain d where d: "usb_heap w p = Some d"
    "(if ud_location d = l then if is_valid_device d then ret (Inl p) else scan_existing l (Some p) ps
      else scan_existing l found ps) w = Inr (r, w')"
    by (auto simp: seq_eq_Inr get_usb_places)
  note at = places_Some [OF d(1)]
  show ?case
  proof (cases "ud_location d = l")
    case True
    show ?thesis
    proof (cases "is_valid_device d")
      case False
      then show ?thesis using Cons.IH [of "Some p"] d(2) True at by (auto split: sum.splits option.splits)
    qed (use d(2) True at in auto)
  next
    case False
    then show ?thesis using Cons.IH [of found] d(2) at by (auto split: sum.splits option.splits)
  qed
qed

lemma alloc_device_run:
  assumes run: "alloc_usb_device l w = Inr (dev, w')" and ok: "devs_ok {} w" and new: "\<forall>p. places w p \<noteq> Some l"
  shows "devs_ok {dev} w' \<and> elsewhere l w w' \<and> usb_heap w' dev = Some (new_usb_device (g_next_usb_device_id w) l)"
proof -
  let ?d = "new_usb_device (g_next_usb_device_id w) l"
  have r: "dev = next_ptr w" "w' = w\<lparr>next_ptr := Suc (next_ptr w), g_next_usb_device_id := g_next_usb_device_id w + 1,
      usb_heap := (usb_heap w)(next_ptr w := Some ?d)\<rparr>"
    using run by (auto simp: alloc_usb_device_def new_ptr_def set_usb_def seq_eq_Inr)
  have p: "places w' = (places w)(dev := Some l)" by (auto simp: r places_def new_usb_device_def fun_eq_iff)
  have low: "\<forall>q \<in> dom (places w). q < dev" using ok by (simp add: devs_ok_def r(1))
  then have free: "dev \<notin> dom (places w)" by blast
  have g: "dom (places w') = insert dev (dom (places w))" "g_device_list w' = g_device_list w" "next_ptr w' = Suc dev"
    "g_pending_devices w' = g_pending_devices w" by (simp add: p, simp_all add: r)
  have "inj_on (places w') (dom (places w'))" unfolding g(1) p
    by (rule inj_onI) (use ok new in \<open>auto simp: devs_ok_def inj_on_def split: if_splits\<close>)
  then have "devs_ok {dev} w'" using ok low free unfolding devs_ok_def g by auto
  moreover have "others {l} w' = others {l} w"
    using free by (intro others_cells [of dev]) (auto simp: p, simp add: r cell_def)
  then have "elsewhere l w w'" by (simp add: elsewhere_def g(4))
  ultimately show ?thesis by (simp add: r)
qed

lemma enlist_run:
  assumes run: "enlist_device monitor existing dev w = Inr (yes, w')" and ok: "devs_ok S w"
    and S: "existing \<and> S = {} \<or> \<not> existing \<and> S = {dev}"
    and d: "usb_heap w dev = Some d"
  shows "places w' = places w \<and> g_pending_devices w' = g_pending_devices w \<and> (\<forall>p. p \<noteq> dev \<longrightarrow> cell w' p = cell w p) \<and>
     (\<exists>d'. usb_heap w' dev = Some d' \<and> ud_rx_thread d' = ud_rx_thread d) \<and> devs_ok (if yes then {} else S) w'"
proof (cases existing)
  case True
  let ?f = "\<lambda>d. if ud_monitor d = DEVICE_MONITOR_ONCE then d\<lparr>ud_monitor := DEVICE_MONITOR_DISABLE\<rparr> else d"
  have k: "keeps (usb_fixed dev) (upd_usb dev ?f)" by (intro fixed_upd_usb) simp
  have r: "upd_usb dev ?f w = Inr ((), w')" "yes" using run True by (auto simp: enlist_device_def seq_eq_Inr)
  have f: "usb_fixed dev w w'" by (rule keepsD [OF k r(1)])
  then show ?thesis using r d S True fixed_devs [OF f ok] by (auto simp: usb_fixed_def upd_usb_run)
next
  case False
  then have S: "S = {dev}" using S by simp
  let ?f = "\<lambda>d. d\<lparr>ud_monitor := monitor, ud_rx_buffer := replicate DEVICE_RX_BUFFER_SIZE 0\<rparr>"
  let ?w = "w\<lparr>usb_heap := (usb_heap w)(dev := Some (?f d))\<rparr>"
  have k: "keeps (usb_fixed dev) (upd_usb dev ?f)" by (intro fixed_upd_usb) simp
  have f1: "usb_fixed dev w ?w" by (rule keepsD [OF k upd_usb_run [OF d]])
  obtain w2 where a: "api_ok ?w = Inr (yes, w2)"
    "(if \<not> yes then ret False else seq (modify (\<lambda>w. w\<lparr>g_device_list := collection_add (g_device_list w) dev\<rparr>))
        (\<lambda>_. ret True)) w2 = Inr (yes, w')"
    using run False d by (auto simp: enlist_device_def seq_eq_Inr upd_usb_run split: if_splits)
  have f2: "usb_fixed dev w w2" using f1 keepsD [OF fixed_env(1) a(1)] by (rule fixed.frame_trans)
  have d2: "usb_heap w2 dev = Some (?f d)" using a(1) by (auto simp: api_ok_def split: list.splits)
  note ok2 = fixed_devs [OF f2 ok]
  show ?thesis
  proof (cases yes)
    case False
    then show ?thesis using a(2) d2 ok2 f2 by (auto simp: usb_fixed_def)
  next
    case True
    then have w': "w' = w2\<lparr>g_device_list := collection_add (g_device_list w2) dev\<rparr>" using a(2) by simp
    then have "places w' = places w2" "cell w' = cell w2" by (simp_all add: places_def cell_def fun_eq_iff)
    then show ?thesis using True ok2 S d2 f2 by (auto simp: devs_ok_def w' usb_fixed_def distinct_elems_add)
  qed
qed

text \<open>Every command is local: it keeps the list in order and the devices at other locations.\<close>

definition local_to :: "u32 \<Rightarrow> world \<Rightarrow> world \<Rightarrow> bool" where
  "local_to l w w' \<longleftrightarrow> (devs_ok {} w \<longrightarrow> devs_ok {} w' \<and> elsewhere l w w')"

interpretation local_to: frame_rel "local_to l" for l
  unfolding local_to_def by unfold_locales (auto simp: elsewhere.frame_refl dest: elsewhere.frame_trans)

lemma local_fixed:
  assumes "\<And>u. keeps (usb_fixed u) m"
  shows "keeps (local_to l) m"
  unfolding keeps_def local_to_def using keepsD [OF assms] fixed_devs fixed_everywhere by metis

lemma local_leaves: "leaves l dev m \<Longrightarrow> m w = Inr (x, w') \<Longrightarrow> places w dev = Some l \<Longrightarrow> local_to l w w'"
  by (auto simp: leaves_def local_to_def)

lemma fixed_port:
  "keeps (usb_fixed dev) (case port of Some p \<Rightarrow> upd_usb dev (\<lambda>d. d\<lparr>ud_port := p\<rparr>)
     | None \<Rightarrow> if b then upd_usb dev (\<lambda>d. d\<lparr>ud_state := USB_DEVICE_STATE_WAITING_FOR_DEVICE\<rparr>) else ret ())"
  by (auto intro!: fixed.keeps_rules fixed_upd_usb split: option.splits)

text \<open>The part of \<open>usb_add_pending_device\<close> behind the allocation.\<close>

lemma add_rest_run:
  assumes run: "seq com_open (\<lambda>port.
         seq (case port of
                Some p \<Rightarrow> upd_usb dev (\<lambda>d. d\<lparr>ud_port := p\<rparr>)
              | None \<Rightarrow> if monitor = DEVICE_MONITOR_ALWAYS
                        then upd_usb dev (\<lambda>d. d\<lparr>ud_state := USB_DEVICE_STATE_WAITING_FOR_DEVICE\<rparr>) else ret ()) (\<lambda>_.
         if port = None \<and> monitor \<noteq> DEVICE_MONITOR_ALWAYS then add_cleanup dev existing False
         else seq (enlist_device monitor existing dev) (\<lambda>ok.
           if \<not> ok then add_cleanup dev existing False
           else if port = None then ret 0
           else start_device src monitor event existing dev))) w = Inr (x, w')"
    and ok: "devs_ok S w" and at: "places w dev = Some l"
    and S: "existing \<and> S = {} \<or> \<not> existing \<and> S = {dev} \<and> (\<exists>d. usb_heap w dev = Some d \<and> \<not> ud_rx_thread d)"
  shows "devs_ok {} w' \<and> elsewhere l w w'"
proof -
  let ?store = "\<lambda>port. case port of Some p \<Rightarrow> upd_usb dev (\<lambda>d. d\<lparr>ud_port := p\<rparr>)
              | None \<Rightarrow> if monitor = DEVICE_MONITOR_ALWAYS
                        then upd_usb dev (\<lambda>d. d\<lparr>ud_state := USB_DEVICE_STATE_WAITING_FOR_DEVICE\<rparr>) else ret ()"
  obtain port w1 u w2 where r: "com_open w = Inr (port, w1)" "?store port w1 = Inr (u, w2)"
    "(if port = None \<and> monitor \<noteq> DEVICE_MONITOR_ALWAYS then add_cleanup dev existing False
         else seq (enlist_device monitor existing dev) (\<lambda>ok.
           if \<not> ok then add_cleanup dev existing False
           else if port = None then ret 0
           else start_device src monitor event existing dev)) w2 = Inr (x, w')"
    using run unfolding seq_eq_Inr [of com_open] seq_eq_Inr [of "?store _"]
    by (elim exE conjE) (rule that, assumption+)
  have "usb_fixed dev w w1" by (rule keepsD [OF fixed_env(7) r(1)])
  moreover have "usb_fixed dev w1 w2" by (rule keepsD [OF fixed_port r(2)])
  ultimately have f: "usb_fixed dev w w2" by (rule fixed.frame_trans)
  note ok2 = fixed_devs [OF f ok] and e2 = fixed_elsewhere [OF f at]
  have at2: "places w2 dev = Some l" using fixed_places [OF f] at by simp
  have "usb_heap w1 = usb_heap w" using r(1) by (auto simp: com_open_def split: list.splits)
  then have S2: "existing \<and> S = {} \<or> \<not> existing \<and> S = {dev} \<and> (\<exists>d. usb_heap w2 dev = Some d \<and> \<not> ud_rx_thread d)"
    using S r(2) by (auto simp: upd_usb_run split: option.splits if_splits)
  have clean: "devs_ok {} w' \<and> elsewhere l w w'" if "add_cleanup dev existing False v = Inr (x, w')" "devs_ok S v"
      "elsewhere l w v" "places v dev = Some l"
      "existing \<and> S = {} \<or> \<not> existing \<and> S = {dev} \<and> (\<exists>d. usb_heap v dev = Some d \<and> \<not> ud_rx_thread d)" for v
    using add_cleanup_run [OF that(1,2,4)] that(3,5) elsewhere.frame_trans by blast
  show ?thesis
  proof (cases "port = None \<and> monitor \<noteq> DEVICE_MONITOR_ALWAYS")
    case True
    then show ?thesis using clean [OF _ ok2 e2 at2 S2] r(3) by simp
  next
    case False
    then obtain yes w3 where en: "enlist_device monitor existing dev w2 = Inr (yes, w3)"
      "(if \<not> yes then add_cleanup dev existing False else if port = None then ret 0
        else start_device src monitor event existing dev) w3 = Inr (x, w')"
      using r(3) by (auto simp: seq_eq_Inr)
    obtain d where d: "usb_heap w2 dev = Some d" using at2 by (auto simp: places_def)
    have w3: "places w3 = places w2" "g_pending_devices w3 = g_pending_devices w2" "devs_ok (if yes then {} else S) w3"
      "\<And>p. p \<noteq> dev \<Longrightarrow> cell w3 p = cell w2 p" "\<exists>d'. usb_heap w3 dev = Some d' \<and> ud_rx_thread d' = ud_rx_thread d"
      using enlist_run [OF en(1) ok2 _ d] S2 by auto
    have "places w2 dev \<in> {None, Some l}" unfolding at2 by simp
    then have "others {l} w3 = others {l} w2" by (intro others_cells [of dev]) (simp_all add: w3(1,4))
    then have e3: "elsewhere l w w3" using e2 w3(2) by (simp add: elsewhere_def)
    have at3: "places w3 dev = Some l" using w3(1) at2 by simp
    show ?thesis
    proof (cases yes)
      case False
      have "existing \<and> S = {} \<or> \<not> existing \<and> S = {dev} \<and> (\<exists>d. usb_heap w3 dev = Some d \<and> \<not> ud_rx_thread d)"
        using S2 d w3(5) by auto
      then show ?thesis using clean [OF _ _ e3 at3] en(2) w3(3) False by simp
    next
      case True
      have tail: "(if port = None then ret 0 else start_device src monitor event existing dev) w3 = Inr (x, w')"
        using en(2) True by simp
      have "leaves l dev (if port = None then ret 0 else start_device src monitor event existing dev)"
        by (intro leaves_if leaves_start leaves_fixed fixed.keeps_ret)
      from this [unfolded leaves_def, rule_format, OF _ at3 tail] w3(3) True
      have "devs_ok {} w' \<and> elsewhere l w3 w'" by simp
      then show ?thesis using e3 elsewhere.frame_trans by blast
    qed
  qed
qed

lemma local_add: "keeps (local_to l) (usb_add_pending_device src l monitor event)"
  unfolding keeps_def
proof (intro allI impI)
  fix w x w'
  assume run: "usb_add_pending_device src l monitor event w = Inr (x, w')"
  then obtain r where r: "scan_existing l None (elems (g_device_list w)) w = Inr (r, w)"
    by (auto simp: usb_add_pending_device_def seq_eq_Inr dest: scan_existing_run)
  note scan = scan_existing_run [OF r, THEN conjunct2]
  show "local_to l w w'"
  proof (cases r)
    case (Inl dev)
    then have "seq (usb_report_device_already_exists dev) (\<lambda>_. ret (-1 :: int)) w = Inr (x, w')"
      using run r by (simp add: usb_add_pending_device_def seq_Inr)
    moreover have "keeps (local_to l) (seq (usb_report_device_already_exists dev) (\<lambda>_. ret (-1 :: int)))"
      by (intro local_fixed fixed_rules fixed_start)
    ultimately show ?thesis by (rule keepsD [rotated])
  next
    case (Inr found)
    show ?thesis unfolding local_to_def
    proof (intro impI)
      assume ok: "devs_ok {} w"
      show "devs_ok {} w' \<and> elsewhere l w w'"
      proof (cases found)
        case (Some dev)
        then show ?thesis
          using run r Inr scan by (intro add_rest_run [OF _ ok])
            (auto simp: usb_add_pending_device_def seq_Inr)
      next
        case None
        have "\<forall>p. places w p \<noteq> Some l" using scan Inr None ok by (auto simp: devs_ok_def dom_def)
        then have al: "devs_ok {dev} w1 \<and> elsewhere l w w1 \<and> usb_heap w1 dev = Some (new_usb_device (g_next_usb_device_id w) l)"
          if "alloc_usb_device l w = Inr (dev, w1)" for dev w1 by (rule alloc_device_run [OF that ok])
        obtain dev w1 where a: "alloc_usb_device l w = Inr (dev, w1)"
          by (auto simp: alloc_usb_device_def new_ptr_def set_usb_def seq_def)
        have "devs_ok {} w' \<and> elsewhere l w1 w'"
          using run r Inr None a al [OF a] by (intro add_rest_run [where S = "{dev}"])
            (auto simp: usb_add_pending_device_def seq_Inr places_def new_usb_device_def)
        then show ?thesis using al [OF a] elsewhere.frame_trans by blast
      qed
    qed
  qed
qed

lemma find_usb_at_run:
  "find_usb_at l w = Inr (r, w') \<Longrightarrow> w' = w \<and> (\<forall>dev. r = Some dev \<longrightarrow> places w dev = Some l)"
  by (auto simp: find_usb_at_def find_in_def places_def dest!: find_slot_Some split: sum.splits)

lemma local_remove: "keeps (local_to l) (usb_remove_pending_device src l event)"
  unfolding keeps_def
proof (intro allI impI)
  fix w x w'
  let ?tail = "\<lambda>dev. seq (device_remove dev) (\<lambda>_.
         seq (usb_disconnect dev (src = PENDING_DEVICE_COMMAND_SOURCE_MANUAL)) (\<lambda>_.
         seq (case event of None \<Rightarrow> ret () | Some e \<Rightarrow> set_event e) (\<lambda>_. ret (0 :: int))))"
  assume run: "usb_remove_pending_device src l event w = Inr (x, w')"
  then obtain r where r: "find_usb_at l w = Inr (r, w)" "\<forall>dev. r = Some dev \<longrightarrow> places w dev = Some l"
    by (auto simp: usb_remove_pending_device_def seq_eq_Inr dest: find_usb_at_run)
  show "local_to l w w'"
  proof (cases r)
    case None
    then show ?thesis using run r by (simp add: usb_remove_pending_device_def seq_Inr local_to.frame_refl)
  next
    case (Some dev)
    have "leaves l dev (?tail dev)"
      by (intro leaves_seq leaves_then leaves_disconnect fixed_rules fixed.devices)
    moreover have "?tail dev w = Inr (x, w')"
      using run r Some by (simp add: usb_remove_pending_device_def seq_Inr)
    ultimately show ?thesis by (rule local_leaves) (use r(2) Some in simp)
  qed
qed

lemma last_usb_at_run:
  "last_usb_at l found ps w = Inr (r, w') \<Longrightarrow> w' = w \<and> (r = found \<or> (\<exists>dev. r = Some dev \<and> places w dev = Some l))"
proof (induction ps arbitrary: found)
  case (Cons p ps)
  then obtain d where d: "usb_heap w p = Some d"
    "last_usb_at l (if l = ud_location d then Some p else found) ps w = Inr (r, w')"
    by (auto simp: seq_eq_Inr get_usb_places)
  from Cons.IH [OF d(2)] show ?case using places_Some [OF d(1)] by auto
qed auto

lemma leaves_change: "leaves l dev (change_monitor monitor dev)"
proof -
  have set: "leaves l dev (seq (get_usb dev) (\<lambda>d. set_usb dev (d\<lparr>ud_monitor := monitor\<rparr>)))"
    by (intro leaves_fixed fixed_get_usb usb_at_set_last) simp
  show ?thesis
    unfolding leaves_def
  proof (intro allI impI)
    fix w x w'
    assume ok: "devs_ok {} w" and at: "places w dev = Some l" and run: "change_monitor monitor dev w = Inr (x, w')"
    obtain d where d: "usb_heap w dev = Some d" using at by (auto simp: places_def)
    show "devs_ok {} w' \<and> elsewhere l w w'"
    proof (cases "ud_monitor d = DEVICE_MONITOR_ALWAYS \<and> monitor = DEVICE_MONITOR_ONCE")
      case True
      then show ?thesis using run d ok by (simp add: change_monitor_def seq_Inr get_usb_run elsewhere.frame_refl)
    next
      case other: False
      show ?thesis
      proof (cases "monitor = DEVICE_MONITOR_DISABLE \<and> ud_state d = USB_DEVICE_STATE_WAITING_FOR_DEVICE")
        case True
        then have "usb_free_device dev w = Inr (x, w')"
          using run d other by (simp add: change_monitor_def seq_Inr get_usb_run)
        from free_device_run [OF this ok at] show ?thesis by simp
      next
        case False
        then have "seq (get_usb dev) (\<lambda>d. set_usb dev (d\<lparr>ud_monitor := monitor\<rparr>)) w = Inr (x, w')"
          using run d other by (auto simp: change_monitor_def seq_Inr get_usb_run)
        then show ?thesis using set ok at unfolding leaves_def by blast
      qed
    qed
  qed
qed

lemma local_monitor: "keeps (local_to l) (usb_handle_device_monitor_command l monitor event)"
proof -
  let ?act = "\<lambda>r. case r of
            Some dev \<Rightarrow> seq (change_monitor monitor dev) (\<lambda>_. ret (0 :: int))
          | None \<Rightarrow>
              if monitor = DEVICE_MONITOR_ALWAYS
              then seq (usb_add_pending_device PENDING_DEVICE_COMMAND_SOURCE_MANUAL l monitor None) (\<lambda>_. ret 0)
              else ret (-1)"
  have found: "keeps (local_to l) (seq (last_usb_at l None ps) ?act)" for ps
    unfolding keeps_def
  proof (intro allI impI)
    fix w x w'
    assume "seq (last_usb_at l None ps) ?act w = Inr (x, w')"
    then obtain r where r: "\<forall>dev. r = Some dev \<longrightarrow> places w dev = Some l" "?act r w = Inr (x, w')"
      unfolding seq_eq_Inr [of "last_usb_at l None ps"] by (elim exE conjE) (use that in \<open>auto dest: last_usb_at_run\<close>)
    show "local_to l w w'"
    proof (cases r)
      case None
      have "keeps (local_to l) (?act None)" by (simp, intro local_to.keeps_rules local_add impI conjI)
      then show ?thesis using r None by (auto dest: keepsD)
    next
      case (Some dev)
      have "leaves l dev (?act (Some dev))" by (simp, intro leaves_then leaves_change fixed.keeps_ret)
      from local_leaves [OF this, of w x w'] show ?thesis using r Some by simp
    qed
  qed
  have tell: "keeps (local_to l) (if res = 0 then seq (case event of None \<Rightarrow> ret () | Some e \<Rightarrow> set_event e)
      (\<lambda>_. ret res) else ret res)" for res :: int
    by (intro local_fixed fixed_rules)
  note act = local_to.keeps_seq [OF found tell]
  show ?thesis
    unfolding usb_handle_device_monitor_command_def
    by (rule local_to.keeps_seq [OF local_to.keeps_gets act [unfolded seq_assoc]])
qed

lemma local_command: "keeps (local_to (pc_location c)) (usb_process_command c)"
proof -
  have "keeps (usb_fixed u) usb_update_monitored_devices" for u
    unfolding usb_update_monitored_devices_def
    by (intro fixed_rules fixed_modify) (auto intro: fixed_heap)
  then have "keeps (local_to l) usb_update_monitored_devices" for l by (rule local_fixed)
  then show ?thesis
    unfolding usb_process_command_def
    by (intro local_to.keeps_seq) (simp_all add: local_add local_remove local_monitor split: pending_type.split)
qed

subsection \<open>The queue of commands\<close>

lemma process_n_run:
  "usb_process_n n w = Inr (x, w') \<Longrightarrow> devs_ok {} w \<Longrightarrow> n = length (g_pending_devices w) \<Longrightarrow>
     devs_ok {} w' \<and> g_pending_devices w' = [] \<and>
     others (pc_location ` set (g_pending_devices w)) w' = others (pc_location ` set (g_pending_devices w)) w"
proof (induction n arbitrary: w)
  case (Suc n)
  then obtain c cs where q: "g_pending_devices w = c # cs" by (cases "g_pending_devices w") auto
  let ?w = "w\<lparr>g_pending_devices := cs\<rparr>" and ?L = "pc_location ` set (c # cs)"
  obtain u w1 where r: "usb_process_command c ?w = Inr (u, w1)" "usb_process_n n w1 = Inr (x, w')"
    using Suc.prems(1) q by (auto simp: seq_eq_Inr)
  have p: "places ?w = places w" "others L ?w = others L w" for L by (simp_all add: places_def others_def cell_def fun_eq_iff)
  have "devs_ok {} ?w" using Suc.prems(2) unfolding devs_ok_def p by auto
  then have c: "devs_ok {} w1" "elsewhere (pc_location c) ?w w1"
    using keepsD [OF local_command r(1)] by (simp_all add: local_to_def)
  then have w1: "g_pending_devices w1 = cs" "others {pc_location c} w1 = others {pc_location c} w"
    by (simp_all add: elsewhere_def p)
  with Suc.IH [OF r(2) c(1)] Suc.prems(3) q
  have "devs_ok {} w'" "g_pending_devices w' = []" "others (pc_location ` set cs) w' = others (pc_location ` set cs) w1" by auto
  moreover from this(3) have "others ?L w' = others ?L w1" by (rule others_subset) auto
  moreover have "others ?L w1 = others ?L w" using w1(2) by (rule others_subset) auto
  ultimately show ?case using q by simp
qed auto

text \<open>
  C17: whatever commands are pending and whatever the ports, the clients and the devices answer, \<open>usb_process\<close>
  empties the queue, leaves a device list in which every live usb device is listed exactly once and no two share a
  location, and touches no device at a location that no command names: the same devices are live there, and everything
  about them is as it was (port, information, monitoring, state, threads, events, socket and received data), but for the
  queues of their outgoing transfers, which packets of the layers above may lengthen.
\<close>

theorem commands_keep_devices:
  assumes "usb_process w = Inr (r, w')" "devs_ok {} w"
  shows "r = 0 \<and> g_pending_devices w' = [] \<and> devs_ok {} w' \<and>
     others (pc_location ` set (g_pending_devices w)) w' = others (pc_location ` set (g_pending_devices w)) w"
proof -
  obtain x where "usb_process_n (length (g_pending_devices w)) w = Inr (x, w')" "r = 0"
    using assms(1) by (auto simp: usb_process_def seq_eq_Inr)
  with process_n_run [OF this(1) assms(2)] show ?thesis by auto
qed

theorem commands_keep_devices_witness:
  "\<exists>w' d. usb_process (idle_world\<lparr>usb_heap := [2 \<mapsto> idle_usb\<lparr>ud_location := 9\<rparr>], g_device_list := [Some 2],
       g_pending_devices := [\<lparr>pc_type = PENDING_DEVICE_COMMAND_SET_MONITOR, pc_source = PENDING_DEVICE_COMMAND_SOURCE_MANUAL,
         pc_location = 7, pc_event = Some 5, pc_monitor = DEVICE_MONITOR_ALWAYS\<rparr>]\<rparr>) = Inr (0, w') \<and>
     g_pending_devices w' = [] \<and> devs_ok {} w' \<and> usb_heap w' 2 = Some d \<and> usb_core d = usb_core (idle_usb\<lparr>ud_location := 9\<rparr>)"
  (is "\<exists>w' d. usb_process ?w = _ \<and> _")
proof -
  have "\<exists>r w'. usb_process ?w = Inr (r, w')"
    by (simp add: idle_defs usb_process_def usb_process_command_def usb_handle_device_monitor_command_def
        usb_add_pending_device_def alloc_usb_device_def new_ptr_def enlist_device_def new_usb_device_def com_open_def
        api_ok_def seq_def get_usb_run upd_usb_run set_usb_def usb_update_monitored_devices_def find_in_def
        set_event_def)
  then obtain r w' where r: "usb_process ?w = Inr (r, w')" by blast
  have p: "places ?w = [2 \<mapsto> 9]" by (auto simp: places_def idle_usb_def fun_eq_iff)
  have "devs_ok {} ?w" unfolding devs_ok_def p by (simp add: idle_world_def)
  from commands_keep_devices [OF r this] have f: "r = 0" "g_pending_devices w' = []" "devs_ok {} w'"
    "others {7} w' = others {7} ?w" by simp_all
  have "others {7} ?w 2 = Some (usb_core (idle_usb\<lparr>ud_location := 9\<rparr>))" by (simp add: others_def cell_def)
  then have "others {7} w' 2 = Some (usb_core (idle_usb\<lparr>ud_location := 9\<rparr>))" by (simp add: f(4))
  then have "\<exists>d. usb_heap w' 2 = Some d \<and> usb_core d = usb_core (idle_usb\<lparr>ud_location := 9\<rparr>)"
    by (auto simp: others_def cell_def split: option.splits if_splits)
  with r f show ?thesis by blast
qed

subsection \<open>Removing a device\<close>

text \<open>When no call fails, a thread that is told to stop does, and a manual disconnect releases the device.\<close>

lemma disconnect_frees:
  assumes run: "usb_disconnect dev True w = Inr (x, w')" and at: "places w dev = Some l"
    and fine: "set (oks (sys w)) \<subseteq> {True}"
  shows "places w' = (places w)(dev := None)"
proof -
  obtain go w1 where go: "stop_read_thread dev w = Inr (go, w1)" using run unfolding usb_disconnect_def seq_eq_Inr by blast
  obtain d0 where d0: "usb_heap w dev = Some d0" using at by (auto simp: places_def)
  have "api_ok (w\<lparr>usb_heap := h\<rparr>) = Inr (b, w2) \<Longrightarrow> b" for h b w2
    using fine by (auto simp: api_ok_def split: list.splits)
  then have go_on: go using go d0 by (auto simp: stop_read_thread_def seq_eq_Inr get_usb_places set_usb_def split: if_splits)
  obtain w2 b w3 d w4 where s: "stop_write_thread dev w1 = Inr ((), w2)" "api_ok w2 = Inr (b, w3)" "usb_heap w3 dev = Some d"
    "(case ud_rx_socket d of None \<Rightarrow> ret () | Some s \<Rightarrow> closesocket s) w3 = Inr ((), w4)"
    "usb_free_device dev (w4\<lparr>usb_heap := (usb_heap w4)(dev := Some (d\<lparr>ud_rx_socket := None, ud_rx_thread := False\<rparr>))\<rparr>) = Inr (x, w')"
    using run go go_on by (auto simp: usb_disconnect_def seq_eq_Inr get_usb_places set_usb_def)
  have c: "keeps (usb_fixed dev) (case ud_rx_socket d of None \<Rightarrow> ret () | Some s \<Rightarrow> closesocket s)" by (intro fixed_rules)
  have "places w4 = places w3" by (rule fixed_places [OF keepsD [OF c s(4)]])
  also have "\<dots> = places w2" by (rule fixed_places [OF keepsD [OF fixed_env(1) [of dev] s(2)]])
  also have "\<dots> = places w1" by (rule fixed_places [OF keepsD [OF fixed_stop(2) s(1)]])
  also have "\<dots> = places w" by (rule fixed_places [OF keepsD [OF fixed_stop(1) go]])
  finally have p: "places w4 = places w" .
  have "usb_heap w' = (usb_heap w4)(dev := None)"
    using s(5) by (auto simp: usb_free_device_def free_usb_def seq_eq_Inr get_usb_places split: if_splits)
  then show ?thesis unfolding p [symmetric] by (simp add: places_def fun_eq_iff)
qed

text \<open>A disconnect signals no event that another thread waits for.\<close>

lemma disconnect_untouched: "keeps untouched (usb_disconnect dev manual)"
proof -
  have upd: "keeps untouched (upd_usb u f)" for u f unfolding upd_usb_def by (intro untouched_rules)
  have reuse: "keeps untouched (ReUseTXQElement u e)" for u e unfolding ReUseTXQElement_def by (intro untouched_rules upd)
  have read: "keeps untouched (stop_read_thread u)" for u unfolding stop_read_thread_def by (intro untouched_rules upd)
  have "keeps untouched (usb_write_thread_iter u)" "keeps untouched (write_thread_cleanup u)" for u
    unfolding usb_write_thread_iter_def write_thread_cleanup_def by (intro untouched_rules reuse)+
  then have "keeps untouched (stop_write_thread u)" for u
    unfolding stop_write_thread_def by (intro untouched_rules upd)
  moreover have "keeps untouched (usb_free_device u)" for u
    unfolding usb_free_device_def free_usb_def
    by (intro untouched_rules untouched_modify) (auto simp: untouched_def)
  ultimately show ?thesis unfolding usb_disconnect_def by (intro untouched_rules upd read)
qed



end
