(* ===== verification/Isolation.thy ===== *)
theory Isolation
  imports Usb_Spec
begin

text \<open>
  What a device cannot reach: whatever bytes it sends, the configuration store with its pairing records, the list of
  usb devices and the queue of commands stay as they are. Both halves are interpretations of the contract
  \<open>layer_frame\<close>.
\<close>

text \<open>
  C20: whatever a device sends, in however many packets, the pairing records and everything else in the configuration
  store, the list of usb devices and where they are, and the queue of device commands are the same afterwards.
\<close>

theorem device_input_isolated:
  assumes "process_packets fuel dev buffer sz i w = Inr (x, w')"
  shows "conf w' = conf w \<and> g_device_list w' = g_device_list w \<and> places w' = places w \<and>
    g_pending_devices w' = g_pending_devices w"
  using keepsD [OF untouched.packet_loop assms] keepsD [OF fixed.packet_loop assms]
  by (simp add: untouched_def usb_fixed_def)

theorem device_input_isolated_witness:
  "\<exists>w'. process_packets 1 10 (be32 1 @ be32 17 @ be32 0xfeedface @ [0, 0, 0, 5, 1]) 17 0
      (link_world (idle_device MUXDEV_ACTIVE []) (idle_conn CONN_DEAD []) (idle_client CLIENT_COMMAND)) = Inr ((), w') \<and>
    places w' 30 = Some 6" (is "\<exists>w'. ?run (link_world ?d ?c ?k) = _ \<and> _")
proof -
  let ?w = "link_world ?d ?c ?k"
  have "\<exists>w'. ?run ?w = Inr ((), w')"
    by (simp add: idle_defs device_data_input_def find_dev_by_usb_def find_in_def seq_def gets_def get_dev_def some_or_def
        gather_def mux_length_def be32_at_def be16_at_def field_def be32_def dispatch_def mux_header_size_def set_dev_def
        device_control_input_def modify_def ret_def stop_def buf_read_def DEV_MRU_def USB_MRU_def Let_def)
  then obtain w' where r: "?run ?w = Inr ((), w')" by (elim exE)
  have "places ?w 30 = Some 6" by (simp add: places_def idle_defs)
  with device_input_isolated [OF r] have "places w' 30 = Some 6" by (elim conjE) (simp only:)
  with r show ?thesis by (intro exI conjI)
qed

end
