(* ===== verification/Registry.thy ===== *)
theory Registry
  imports Layer_Frame
begin

text \<open>
  Who is who in the daemon: ids tell the devices apart, source ports the connections of a device, and every connection
  in the list of a device is alive and belongs to it. The registry is stated over what identifies devices and
  connections (\<open>dev_core\<close>, \<open>conn_core\<close>); most operations of device.cpp leave that alone, and the few that add or remove
  an entry keep the registry in order. The frames of \<open>Layer_Frame\<close> carry this to the operations above them.
\<close>

subsection \<open>The registry\<close>

type_synonym dev_cores = "ptr \<Rightarrow> (u32 \<times> ptr collection option) option"
type_synonym conn_cores = "ptr \<Rightarrow> (ptr \<times> u16) option"

text \<open>The connections of the device at \<open>p\<close>: alive, its own, with a source port each that is not 0.\<close>

definition conns_ok :: "conn_cores \<Rightarrow> ptr \<Rightarrow> ptr list \<Rightarrow> bool" where
  "conns_ok C p cs \<longleftrightarrow> distinct cs \<and> (\<forall>c \<in> set cs. \<exists>s. C c = Some (p, s) \<and> s \<noteq> 0) \<and> inj_on C (set cs)"

definition ids_ok :: "dev_cores \<Rightarrow> ptr list \<Rightarrow> bool" where
  "ids_ok D ds \<longleftrightarrow> distinct ds \<and> (\<forall>p \<in> set ds. D p \<noteq> None) \<and> inj_on (\<lambda>p. map_option fst (D p)) (set ds)"

definition reg_ok :: "ptr list \<Rightarrow> dev_cores \<Rightarrow> conn_cores \<Rightarrow> ptr \<Rightarrow> bool" where
  "reg_ok ds D C n \<longleftrightarrow> ids_ok D ds \<and> (\<forall>p i col. D p = Some (i, Some col) \<longrightarrow> conns_ok C p (elems col)) \<and>
     (\<forall>p. D p \<noteq> None \<longrightarrow> p < n) \<and> (\<forall>c. C c \<noteq> None \<longrightarrow> c < n)"

lemma conns_ok_cong: "conns_ok C p cs \<Longrightarrow> (\<And>c. c \<in> set cs \<Longrightarrow> C' c = C c) \<Longrightarrow> conns_ok C' p cs"
  unfolding conns_ok_def by (metis (no_types, lifting) inj_on_cong)

lemma conns_ok_empty [simp]: "conns_ok C p []"
  by (simp add: conns_ok_def)

lemma conns_ok_add:
  assumes "conns_ok C p (elems col)" "C c = Some (p, s)" "s \<noteq> 0" "\<And>c'. c' \<in> set (elems col) \<Longrightarrow> C c' \<noteq> Some (p, s)"
  shows "conns_ok C p (elems (collection_add col c))"
proof -
  have "c \<notin> set (elems col)" using assms(2,4) by blast
  then show ?thesis using assms by (auto simp: conns_ok_def)
qed

lemma ids_ok_fewer: "ids_ok D ds \<Longrightarrow> distinct ds' \<Longrightarrow> set ds' \<subseteq> set ds \<Longrightarrow> ids_ok D ds'"
  unfolding ids_ok_def by (auto intro: inj_on_subset)

lemma ids_ok_cong: "ids_ok D ds \<Longrightarrow> (\<And>p. p \<in> set ds \<Longrightarrow> map_option fst (D' p) = map_option fst (D p)) \<Longrightarrow> ids_ok D' ds"
proof -
  assume a: "ids_ok D ds" "\<And>p. p \<in> set ds \<Longrightarrow> map_option fst (D' p) = map_option fst (D p)"
  have "D' p \<noteq> None" if "p \<in> set ds" for p
    using a(1) a(2) [OF that] that unfolding ids_ok_def by (metis map_option_is_None)
  moreover have "inj_on (\<lambda>p. map_option fst (D' p)) (set ds)"
    using a by (auto simp: ids_ok_def inj_on_def)
  ultimately show ?thesis using a(1) by (simp add: ids_ok_def)
qed

lemma reg_okI:
  assumes "ids_ok D ds" "\<And>p i col. D p = Some (i, Some col) \<Longrightarrow> conns_ok C p (elems col)"
    and "\<And>p v. D p = Some v \<Longrightarrow> p < n" "\<And>c v. C c = Some v \<Longrightarrow> c < n"
  shows "reg_ok ds D C n"
  unfolding reg_ok_def using assms by blast

lemma reg_okD:
  assumes "reg_ok ds D C n"
  shows "ids_ok D ds" "D p = Some (i, Some col) \<Longrightarrow> conns_ok C p (elems col)" "D p = Some v \<Longrightarrow> p < n" "C c = Some u \<Longrightarrow> c < n"
  using assms unfolding reg_ok_def by blast+

text \<open>The changes the program makes to the registry.\<close>

lemma reg_later: "reg_ok ds D C n \<Longrightarrow> n \<le> m \<Longrightarrow> reg_ok ds D C m"
  unfolding reg_ok_def by (meson less_le_trans)

lemma reg_dev_set:
  assumes "reg_ok ds D C n" "p < n" "p \<in> set ds \<Longrightarrow> map_option fst (D p) = Some i"
    and "\<And>col. y = Some col \<Longrightarrow> conns_ok C p (elems col)"
  shows "reg_ok ds (D(p := Some (i, y))) C n"
proof (rule reg_okI)
  show "ids_ok (D(p := Some (i, y))) ds"
    using assms(3) by (intro ids_ok_cong [OF reg_okD(1) [OF assms(1)]]) auto
  show "conns_ok C q (elems col)" if "(D(p := Some (i, y))) q = Some (j, Some col)" for q j col
    using that assms(4) reg_okD(2) [OF assms(1)] by (cases "q = p") simp_all
  show "q < n" if "(D(p := Some (i, y))) q = Some v" for q v
    using that assms(2) reg_okD(3) [OF assms(1)] by (cases "q = p") simp_all
qed (rule reg_okD(4) [OF assms(1)])

lemma reg_conn_set:
  assumes "reg_ok ds D C n" "c < n" "\<And>p i col. D p = Some (i, Some col) \<Longrightarrow> c \<notin> set (elems col)"
  shows "reg_ok ds D (C(c := v)) n"
proof (rule reg_okI)
  show "conns_ok (C(c := v)) p (elems col)" if d: "D p = Some (i, Some col)" for p i col
  proof (rule conns_ok_cong [OF reg_okD(2) [OF assms(1) d]])
    show "(C(c := v)) c' = C c'" if "c' \<in> set (elems col)" for c' using assms(3) [OF d] that by auto
  qed
  show "c' < n" if "(C(c := v)) c' = Some u" for c' u
    using that assms(2) reg_okD(4) [OF assms(1)] by (cases "c' = c") simp_all
qed (rule reg_okD(1,3) [OF assms(1)], assumption?)+

lemma reg_dev_freed:
  assumes "reg_ok ds D C n" "p \<notin> set ds"
  shows "reg_ok ds (D(p := None)) C n"
proof (rule reg_okI)
  show "ids_ok (D(p := None)) ds"
    using assms(2) by (intro ids_ok_cong [OF reg_okD(1) [OF assms(1)]]) auto
  show "conns_ok C q (elems col)" if "(D(p := None)) q = Some (j, Some col)" for q j col
    using that reg_okD(2) [OF assms(1)] by (cases "q = p") simp_all
  show "q < n" if "(D(p := None)) q = Some v" for q v
    using that reg_okD(3) [OF assms(1)] by (cases "q = p") simp_all
qed (rule reg_okD(4) [OF assms(1)])

lemma reg_delisted: "reg_ok ds D C n \<Longrightarrow> distinct ds' \<Longrightarrow> set ds' \<subseteq> set ds \<Longrightarrow> reg_ok ds' D C n"
  unfolding reg_ok_def using ids_ok_fewer by blast

lemma reg_listed:
  assumes "reg_ok ds D C n" "D p = Some (i, x)" "p \<notin> set ds" "\<And>q. q \<in> set ds \<Longrightarrow> map_option fst (D q) \<noteq> Some i"
    and "distinct ds'" "set ds' = insert p (set ds)"
  shows "reg_ok ds' D C n"
proof -
  have "inj_on (\<lambda>p. map_option fst (D p)) (insert p (set ds))"
    using reg_okD(1) [OF assms(1)] assms(2,4) unfolding ids_ok_def inj_on_insert
    by (metis (no_types, lifting) Diff_empty Diff_insert0 assms(3) fst_conv imageE option.simps(9))
  then have "ids_ok D ds'"
    using reg_okD(1) [OF assms(1)] assms(2,5,6) unfolding ids_ok_def by simp
  then show ?thesis using assms(1) unfolding reg_ok_def by blast
qed

text \<open>A connection leaves the list of its device and is freed; a new one is added to the list.\<close>

lemma reg_conn_gone:
  assumes "reg_ok ds D C n" "D p = Some (i, Some col)" "C c = Some (p, s)"
  shows "reg_ok ds (D(p := Some (i, Some (collection_remove col c)))) (C(c := None)) n"
proof -
  have old: "conns_ok C p (elems col)" by (rule reg_okD(2) [OF assms(1,2)])
  then have less: "conns_ok C p (elems (collection_remove col c))" "c \<notin> set (elems (collection_remove col c))"
    by (auto simp: conns_ok_def set_elems_remove inj_on_diff)
  show ?thesis
  proof (rule reg_conn_set [OF reg_dev_set [OF assms(1) reg_okD(3) [OF assms(1,2)]] reg_okD(4) [OF assms(1,3)]])
    show "map_option fst (D p) = Some i" using assms(2) by simp
    show "conns_ok C p (elems col')" if "Some (collection_remove col c) = Some col'" for col' using that less by simp
    show "c \<notin> set (elems col')" if "(D(p := Some (i, Some (collection_remove col c)))) q = Some (j, Some col')" for q j col'
    proof (cases "q = p")
      case True
      then show ?thesis using that less(2) by simp
    next
      case False
      then have "conns_ok C q (elems col')" using that reg_okD(2) [OF assms(1)] by simp
      then show ?thesis using False assms(3) by (auto simp: conns_ok_def)
    qed
  qed
qed

lemma reg_conn_added:
  assumes "reg_ok ds D C n" "D p = Some (i, Some col)" "C c = Some (p, s)" "s \<noteq> 0"
    and "\<And>c'. c' \<in> set (elems col) \<Longrightarrow> C c' \<noteq> Some (p, s)"
  shows "reg_ok ds (D(p := Some (i, Some (collection_add col c)))) C n"
proof (rule reg_dev_set [OF assms(1) reg_okD(3) [OF assms(1,2)]])
  show "map_option fst (D p) = Some i" using assms(2) by simp
  show "conns_ok C p (elems col')" if "Some (collection_add col c) = Some col'" for col'
    using that conns_ok_add [OF reg_okD(2) [OF assms(1,2)] assms(3-5)] by simp
qed

subsection \<open>Operations that leave the registry alone\<close>

definition dcore :: "world \<Rightarrow> dev_cores" where
  "dcore w p = map_option dev_core (dev_heap w p)"

definition ccore :: "world \<Rightarrow> conn_cores" where
  "ccore w c = map_option conn_core (conn_heap w c)"

definition registry_ok :: "world \<Rightarrow> bool" where
  "registry_ok w \<longleftrightarrow> reg_ok (elems (device_list w)) (dcore w) (ccore w) (next_ptr w)"

definition same_reg :: "world \<Rightarrow> world \<Rightarrow> bool" where
  "same_reg w w' \<longleftrightarrow> device_list w' = device_list w \<and> dcore w' = dcore w \<and> ccore w' = ccore w \<and> next_ptr w \<le> next_ptr w'"

definition reg_kept :: "world \<Rightarrow> world \<Rightarrow> bool" where
  "reg_kept w w' \<longleftrightarrow> (registry_ok w \<longrightarrow> registry_ok w')"

lemma same_kept: "same_reg w w' \<Longrightarrow> reg_kept w w'"
  by (auto simp: same_reg_def reg_kept_def registry_ok_def intro: reg_later)

lemma keeps_same: "keeps same_reg m \<Longrightarrow> keeps reg_kept m"
  unfolding keeps_def using same_kept by blast

interpretation same: world_frame same_reg
  by unfold_locales (auto simp: same_reg_def)

interpretation reg: world_frame reg_kept
  by unfold_locales (auto simp: reg_kept_def)

lemma same_modify:
  "(\<And>w. device_list (f w) = device_list w \<and> dev_heap (f w) = dev_heap w \<and> conn_heap (f w) = conn_heap w \<and> next_ptr w \<le> next_ptr (f w)) \<Longrightarrow>
    keeps same_reg (modify f)"
  by (simp add: keeps_def same_reg_def dcore_def ccore_def fun_eq_iff)

lemma same_tx: "keeps tx_only m \<Longrightarrow> keeps same_reg m"
  by (auto simp: keeps_def tx_only_def same_reg_def dcore_def ccore_def fun_eq_iff)

lemma same_writes:
  "keeps same_reg (set_client k v)" "keeps same_reg (free_client k)" "keeps same_reg (free_usb u)" "keeps same_reg (set_usb u v')"
  "keeps same_reg (modify (\<lambda>w. w\<lparr>client_list := f w\<rparr>))" "keeps same_reg (modify (\<lambda>w. w\<lparr>next_device_id := g w\<rparr>))"
  "keeps same_reg (preflight_worker_device_add info)" "keeps same_reg (preflight_device_remove_cb p)"
  unfolding set_client_def free_client_def free_usb_def set_usb_def preflight_worker_device_add_def preflight_device_remove_cb_def
  by (intro same.read_rules same_modify; simp)+

lemmas same_env = tx_prims [THEN same_tx] tx_alloc_buf [THEN same_tx] usb_send_tx_only [THEN same_tx]

interpretation same: client_frame same_reg
  by unfold_locales (intro same_writes same_env)+

interpretation reg: client_frame reg_kept
  by unfold_locales (intro keeps_same same_writes same_env)+

text \<open>
  Writing back a record that was read before: \<open>within Q R m\<close> is \<open>keeps R m\<close> for runs from a state whose registry
  satisfies \<open>Q\<close>, and \<open>Q\<close> survives what leaves the registry alone.
\<close>

type_synonym reg_pred = "ptr collection \<Rightarrow> dev_cores \<Rightarrow> conn_cores \<Rightarrow> bool"

definition within :: "reg_pred \<Rightarrow> (world \<Rightarrow> world \<Rightarrow> bool) \<Rightarrow> 'a act \<Rightarrow> bool" where
  "within Q R m \<longleftrightarrow> (\<forall>w x w'. Q (device_list w) (dcore w) (ccore w) \<longrightarrow> m w = Inr (x, w') \<longrightarrow> R w w')"

lemma withinD: "within Q R m \<Longrightarrow> Q (device_list w) (dcore w) (ccore w) \<Longrightarrow> m w = Inr (x, w') \<Longrightarrow> R w w'"
  by (simp add: within_def)

lemma within_top: "within (\<lambda>_ _ _. True) R m \<Longrightarrow> keeps R m"
  by (simp add: within_def keeps_def)

lemma within_keeps: "keeps R m \<Longrightarrow> within Q R m"
  by (simp add: within_def keeps_def)

text \<open>Relations that absorb what leaves the registry alone.\<close>

definition absorbs :: "(world \<Rightarrow> world \<Rightarrow> bool) \<Rightarrow> bool" where
  "absorbs R \<longleftrightarrow> (\<forall>u v w. same_reg u v \<longrightarrow> R v w \<longrightarrow> R u w)"

lemma absorbs_these [simp]: "absorbs same_reg" "absorbs reg_kept"
  using same.frame_trans reg.frame_trans same_kept unfolding absorbs_def by blast+

lemma within_seq:
  assumes "absorbs R" "within Q same_reg m" "\<And>x. within Q R (f x)"
  shows "within Q R (seq m f)"
  unfolding within_def
proof (intro allI impI)
  fix w x w'
  assume q: "Q (device_list w) (dcore w) (ccore w)" and "seq m f w = Inr (x, w')"
  then obtain y u where m: "m w = Inr (y, u)" "f y u = Inr (x, w')" by (auto simp: seq_eq_Inr)
  have s: "same_reg w u" by (rule withinD [OF assms(2) q m(1)])
  then have "Q (device_list u) (dcore u) (ccore u)" using q by (simp add: same_reg_def)
  from withinD [OF assms(3) this m(2)] show "R w w'" using assms(1) s unfolding absorbs_def by blast
qed

lemma within_get_dev:
  assumes "absorbs R" "\<And>v. within (\<lambda>ds D C. Q ds D C \<and> D d = Some (dev_core v)) R (f v)"
  shows "within Q R (seq (get_dev d) f)"
  unfolding within_def
proof (intro allI impI)
  fix w x w'
  assume q: "Q (device_list w) (dcore w) (ccore w)" and r: "seq (get_dev d) f w = Inr (x, w')"
  then obtain v where v: "dev_heap w d = Some v" "f v w = Inr (x, w')"
    by (auto simp: seq_eq_Inr get_dev_def some_or_def split: option.splits)
  with q withinD [OF assms(2)] show "R w w'" by (simp add: dcore_def)
qed

lemma within_get_conn:
  assumes "absorbs R" "\<And>v. within (\<lambda>ds D C. Q ds D C \<and> C c = Some (conn_core v)) R (f v)"
  shows "within Q R (seq (get_conn c) f)"
  unfolding within_def
proof (intro allI impI)
  fix w x w'
  assume q: "Q (device_list w) (dcore w) (ccore w)" and r: "seq (get_conn c) f w = Inr (x, w')"
  then obtain v where v: "conn_heap w c = Some v" "f v w = Inr (x, w')"
    by (auto simp: seq_eq_Inr get_conn_def some_or_def split: option.splits)
  with q withinD [OF assms(2)] show "R w w'" by (simp add: ccore_def)
qed

lemma within_set_dev:
  "(\<And>ds D C. Q ds D C \<Longrightarrow> D d = Some (dev_core v)) \<Longrightarrow> within Q same_reg (set_dev d v)"
  unfolding within_def set_dev_def by (fastforce simp: same_reg_def dcore_def ccore_def fun_eq_iff)

lemma within_set_conn:
  "(\<And>ds D C. Q ds D C \<Longrightarrow> C c = Some (conn_core v)) \<Longrightarrow> within Q same_reg (set_conn c v)"
  unfolding within_def set_conn_def by (fastforce simp: same_reg_def dcore_def ccore_def fun_eq_iff)

lemma within_cases:
  "within Q R m \<Longrightarrow> within Q R n \<Longrightarrow> within Q R (if b then m else n)"
  "within Q R m \<Longrightarrow> (\<And>x. within Q R (f x)) \<Longrightarrow> within Q R (case v of None \<Rightarrow> m | Some x \<Rightarrow> f x)"
  by (simp_all split: option.splits)

lemma same_updates:
  "(\<And>c. conn_core (g c) = conn_core c) \<Longrightarrow> keeps same_reg (upd_conn conn g)"
  "(\<And>d. dev_core (f d) = dev_core d) \<Longrightarrow> keeps same_reg (upd_dev dev f)"
  unfolding upd_conn_def upd_dev_def
  by (rule within_top, rule within_get_conn within_get_dev, simp, rule within_set_conn within_set_dev, simp)+

lemma core_simps [simp]:
  "dev_core (snd (packet_header proto n v)) = dev_core v" "conn_core (ib_consume m c) = conn_core c"
  "conn_core (refresh c) = conn_core c"
  by (simp_all add: packet_header_def reset_seq_def ib_consume_def refresh_def dev_core_def conn_core_def Let_def)

lemma same_send_packet: "keeps same_reg (send_packet dev proto header data)"
proof -
  have rest: "keeps same_reg (seq (buf_read 0 hdrlen header) (\<lambda>hdr.
           seq (alloc_buf (mhdr @ hdr @ data)) (\<lambda>buffer.
           seq (usb_send u buffer len) (\<lambda>res.
           if res < 0 then seq (free_buf buffer) (\<lambda>_. ret res) else ret (int len)))))" for hdrlen mhdr u len
    by (intro same.read_rules same_env)
  have "within (\<lambda>ds D C. True \<and> D dev = Some (dev_core v)) same_reg (case packet_header proto len v of (mhdr, d') \<Rightarrow>
      seq (set_dev dev d') (\<lambda>_. seq (buf_read 0 hdrlen header) (\<lambda>hdr.
           seq (alloc_buf (mhdr @ hdr @ data)) (\<lambda>buffer.
           seq (usb_send (dev_usbdev v) buffer len) (\<lambda>res.
           if res < 0 then seq (free_buf buffer) (\<lambda>_. ret res) else ret (int len))))))" for v len hdrlen
  proof (cases "packet_header proto len v")
    case (Pair mhdr d')
    have c: "dev_core d' = dev_core v" using core_simps(1) [of proto len v] by (simp add: Pair)
    show ?thesis unfolding Pair prod.case
      by (rule within_seq, simp, rule within_set_dev, simp add: c, rule within_keeps, rule rest)
  qed
  then show ?thesis
    unfolding send_packet_def Let_def
    by (intro within_top) (rule within_get_dev, simp, intro within_cases within_keeps [OF same.keeps_ret])
qed

lemma same_update: "keeps same_reg (update_connection conn)"
proof -
  have "keeps same_reg (seq (some_or NullDeref k) (\<lambda>k. seq (client_set_events k e) (\<lambda>_. ret ())))" for k e
    by (intro same.client_rules same.client_output)
  then show ?thesis
    unfolding update_connection_def
    by (intro within_top) (rule within_get_conn, simp, rule within_seq, simp, rule within_set_conn, simp, rule within_keeps)
qed

lemma same_flush: "keeps same_reg (teardown_flush n conn k)"
proof (induction n)
  case (Suc n)
  have "within (\<lambda>ds D C. True \<and> C conn = Some (conn_core c)) same_reg (seq (set_conn conn (ib_consume m c)) (\<lambda>_.
      if b then ret () else teardown_flush n conn k))" for c m b
    by (rule within_seq, simp, rule within_set_conn, simp, intro within_keeps same.keeps_if same.keeps_ret Suc)
  then show ?case
    unfolding teardown_flush.simps
    by (intro within_top)
      (rule within_get_conn, simp, rule within_seq, simp, rule within_keeps, rule same.keeps_buf_read, rule within_seq, simp,
        rule within_keeps, rule same.client_output, intro within_cases within_keeps [OF same.keeps_ret])
qed (simp only: teardown_flush.simps same.keeps_stop)

lemma same_gather: "keeps same_reg (gather dev buffer n)"
proof -
  have w: "within (\<lambda>ds D C. True \<and> D dev = Some (dev_core d)) same_reg (seq (set_dev dev d') (\<lambda>_. ret r))"
    if "dev_core d' = dev_core d" for d d' and r :: "u32 + bytes \<times> u32"
    by (rule within_seq, simp, rule within_set_dev, simp add: that, intro within_keeps same.keeps_ret)
  show ?thesis
    unfolding gather_def
    by (intro within_top) (rule within_get_dev, simp,
      intro within_cases w within_seq [OF absorbs_these(1)] within_keeps [OF same.keeps_ret]
        within_keeps [OF same.keeps_buf_read] within_keeps [OF same.keeps_buf_write] within_keeps [OF same.device_reads(3)];
      simp add: dev_core_def)
qed

subsection \<open>Operations that change it\<close>

lemma core_updates [simp]:
  "dcore (w\<lparr>dev_heap := (dev_heap w)(p := v)\<rparr>) = (dcore w)(p := map_option dev_core v)"
  "ccore (w\<lparr>conn_heap := (conn_heap w)(c := u)\<rparr>) = (ccore w)(c := map_option conn_core u)"
  by (auto simp: dcore_def ccore_def)

lemma core_others [simp]:
  "ccore (w\<lparr>dev_heap := h\<rparr>) = ccore w" "dcore (w\<lparr>conn_heap := h'\<rparr>) = dcore w"
  "ccore (w\<lparr>device_list := l\<rparr>) = ccore w" "dcore (w\<lparr>device_list := l\<rparr>) = dcore w"
  "ccore (w\<lparr>next_ptr := n\<rparr>) = ccore w" "dcore (w\<lparr>next_ptr := n\<rparr>) = dcore w"
  by (simp_all add: dcore_def ccore_def fun_eq_iff)

lemma reg_release: "keeps reg_kept (teardown_release conn)"
  unfolding keeps_def reg_kept_def
proof (intro allI impI)
  fix w x w'
  assume r: "teardown_release conn w = Inr (x, w')" and ok: "registry_ok w"
  then obtain c d col where c: "conn_heap w conn = Some c" and d: "dev_heap w (conn_dev c) = Some d"
    "dev_connections d = Some col"
    and w': "w' = (w\<lparr>dev_heap := (dev_heap w)(conn_dev c := Some (d\<lparr>dev_connections := Some (collection_remove col conn)\<rparr>))\<rparr>)
      \<lparr>conn_heap := (conn_heap w)(conn := None)\<rparr>"
    by (auto simp: teardown_release_def remove_connection_def get_connections_def upd_dev_def set_dev_def free_conn_def
        get_conn_def get_dev_def some_or_def seq_eq_Inr split: option.splits if_splits)
  have e: "ccore w' = (ccore w)(conn := None)"
    "dcore w' = (dcore w)(conn_dev c := Some (dev_id d, Some (collection_remove col conn)))"
    "device_list w' = device_list w" "next_ptr w' = next_ptr w"
    unfolding w' by (auto simp: dcore_def ccore_def dev_core_def)
  show "registry_ok w'"
    using ok c d unfolding registry_ok_def e
    by (intro reg_conn_gone) (auto simp: dcore_def ccore_def dev_core_def conn_core_def)
qed

interpretation reg: conn_frame reg_kept
  by unfold_locales (intro keeps_same same_updates same_send_packet same_flush reg_release same_update; assumption?)+

text \<open>A device without connections; a device that leaves the list and is freed.\<close>

lemma reg_drop:
  assumes "\<And>d. dev_id (f d) = dev_id d" "\<And>d. dev_connections (f d) = Some col" "elems col = []"
  shows "keeps reg_kept (upd_dev dev f)"
  unfolding keeps_def reg_kept_def
proof (intro allI impI)
  fix w x w'
  assume r: "upd_dev dev f w = Inr (x, w')" and ok: "registry_ok w"
  then obtain d where d: "dev_heap w dev = Some d" and w': "w' = w\<lparr>dev_heap := (dev_heap w)(dev := Some (f d))\<rparr>"
    by (auto simp: upd_dev_def set_dev_def get_dev_def some_or_def seq_eq_Inr split: option.splits)
  have g: "reg_ok (elems (device_list w)) (dcore w) (ccore w) (next_ptr w)" "dcore w dev = Some (dev_id d, dev_connections d)"
    using ok d by (auto simp: registry_ok_def dcore_def dev_core_def)
  have "reg_ok (elems (device_list w)) ((dcore w)(dev := Some (dev_id d, Some col))) (ccore w) (next_ptr w)"
    by (rule reg_dev_set [OF g(1) reg_okD(3) [OF g]]) (auto simp: g(2) assms(3))
  then show "registry_ok w'" using assms(1,2) [of d] by (simp add: registry_ok_def w' dev_core_def)
qed

lemma reg_delist:
  assumes "within (\<lambda>ds D C. dev \<notin> set (elems ds)) reg_kept m"
  shows "keeps reg_kept (seq (modify (\<lambda>w. w\<lparr>device_list := collection_remove (device_list w) dev\<rparr>)) (\<lambda>_. m))"
  unfolding keeps_def reg_kept_def
proof (intro allI impI)
  fix w x w'
  assume r: "seq (modify (\<lambda>w. w\<lparr>device_list := collection_remove (device_list w) dev\<rparr>)) (\<lambda>_. m) w = Inr (x, w')"
    and ok: "registry_ok w"
  let ?u = "w\<lparr>device_list := collection_remove (device_list w) dev\<rparr>"
  have d: "distinct (elems (device_list w))" using ok by (simp add: registry_ok_def reg_ok_def ids_ok_def)
  have u: "registry_ok ?u"
    using ok d unfolding registry_ok_def by (auto intro!: reg_delisted [of "elems (device_list w)"] simp: set_elems_remove)
  have "dev \<notin> set (elems (device_list ?u))" using d by (simp add: set_elems_remove)
  from withinD [OF assms this, of x w'] r u show "registry_ok w'" by (simp add: reg_kept_def)
qed

lemma reg_free_dev: "within (\<lambda>ds D C. dev \<notin> set (elems ds)) reg_kept (free_dev dev)"
  unfolding within_def reg_kept_def free_dev_def
  by (auto simp: seq_eq_Inr registry_ok_def intro: reg_dev_freed split: if_splits)

lemma reg_version: "keeps reg_kept (device_version_input dev vh)"
proof -
  have bad: "keeps reg_kept (seq (modify (\<lambda>w. w\<lparr>device_list := collection_remove (device_list w) dev\<rparr>))
      (\<lambda>_. seq logDeviceListStatus (\<lambda>_. free_dev dev)))"
    by (rule reg_delist) (intro within_seq within_keeps [OF same.lookups(7)] reg_free_dev, simp)
  have good: "keeps reg_kept (seq (if b then seq (send_packet dev MUX_PROTO_SETUP [] [7]) (\<lambda>_. ret ()) else ret ()) (\<lambda>_.
      seq (upd_dev dev (\<lambda>d. d\<lparr>dev_state := MUXDEV_ACTIVE, dev_connections := Some collection_init\<rparr>)) (\<lambda>_.
      seq (device_info_of i u) (\<lambda>info.
      seq (preflight_worker_device_add info) (\<lambda>_.
      upd_dev dev (\<lambda>d. d\<lparr>dev_is_preflight_worker_running := True\<rparr>))))))" for b i u
    by (intro reg_drop [where col = collection_init] keeps_same [OF same_updates(2)] keeps_same [OF same_writes(7)]
        reg.client_rules reg.sends) (simp_all add: dev_core_def)
  have set_good: "within (\<lambda>ds D C. True \<and> D dev = Some (dev_core d)) reg_kept (seq (set_dev dev (d\<lparr>dev_version := v\<rparr>)) (\<lambda>_. m))"
    if "keeps reg_kept m" for d v and m :: "unit act"
    by (rule within_seq, simp, rule within_set_dev, simp add: dev_core_def, rule within_keeps, rule that)
  show ?thesis
    unfolding device_version_input_def
    by (intro within_top) (rule within_get_dev, simp,
      intro within_cases set_good good within_keeps [OF bad] within_keeps [OF reg.keeps_ret])
qed

lemma reg_conn_input: "keeps reg_kept (connection_device_input conn pl n)"
proof -
  have store: "within (\<lambda>ds D C. True \<and> C conn = Some (conn_core c)) reg_kept (seq (set_conn conn c') (\<lambda>_. update_connection conn))"
    if "conn_core c' = conn_core c" for c c'
    by (rule within_seq, simp, rule within_set_conn, simp add: that, rule within_keeps, rule reg.refreshes)
  show ?thesis
    unfolding connection_device_input_def
    by (intro within_top) (rule within_get_conn, simp,
      intro within_cases store within_keeps [OF reg.closing(1)] within_seq [OF absorbs_these(2)]
        within_keeps [OF same.keeps_buf_read] within_keeps [OF same.keeps_buf_write]; simp add: conn_core_def)
qed

interpretation reg: tcp_frame reg_kept
  by unfold_locales (rule reg_conn_input)

lemma reg_dispatch: "keeps reg_kept (dispatch dev buffer n)"
proof -
  have c: "keeps reg_kept (device_control_input pl m)" for pl m
    unfolding device_control_input_def by (intro reg.client_rules)
  have rx: "within (\<lambda>ds D C. True \<and> D dev = Some (dev_core d)) same_reg
      (if b then seq (some_or UninitRead x) (\<lambda>rx. set_dev dev (d\<lparr>dev_rx_seq := rx\<rparr>)) else ret ())" for d b and x :: "u16 option"
    by (intro within_cases within_seq [OF absorbs_these(1)] within_keeps [OF same.keeps_some_or] within_set_dev
        within_keeps [OF same.keeps_ret]) (simp add: dev_core_def)
  have rest: "keeps reg_kept (seq (some_or UninitRead (be32_at 0 buffer)) (\<lambda>proto.
     if proto = proto_num MUX_PROTO_VERSION
     then if unat n < h + 12 then ret None
          else seq (some_or UninitRead (read_version_header (take 12 (drop h buffer)))) (\<lambda>vh.
               seq (device_version_input dev vh) (\<lambda>_. ret (Some ())))
     else if proto = proto_num MUX_PROTO_CONTROL
     then seq (device_control_input (drop 16 buffer) (n - of_nat h)) (\<lambda>_. ret (Some ()))
     else if proto = proto_num MUX_PROTO_TCP
     then if unat n < h + 20 then ret None
          else seq (some_or UninitRead (read_tcphdr (take 20 (drop h buffer)))) (\<lambda>th.
               seq (device_tcp_input dev th (drop (h + 20) buffer) (n - 20 - of_nat h)) (\<lambda>_. ret (Some ())))
     else ret None))" for h
    by (intro reg.client_rules reg_version c reg.tcp_input)
  show ?thesis
    unfolding dispatch_def Let_def
    by (intro within_top) (rule within_get_dev, simp, rule within_seq, simp, rule rx, rule within_keeps, rule rest)
qed

lemma within_mono: "within P R m \<Longrightarrow> (\<And>ds D C. Q ds D C \<Longrightarrow> P ds D C) \<Longrightarrow> within Q R m"
  unfolding within_def by blast

lemma within_then: "within Q reg_kept m \<Longrightarrow> (\<And>x. keeps reg_kept (f x)) \<Longrightarrow> within Q reg_kept (seq m f)"
  unfolding within_def keeps_def reg_kept_def by (auto simp: seq_eq_Inr)

lemma same_id_loop: "keeps same_reg (get_next_device_id_loop n)"
proof (induction n)
  case (Suc n)
  show ?case unfolding get_next_device_id_loop.simps by (intro same.read_rules same.lookups same_writes Suc)
qed (simp only: get_next_device_id_loop.simps same.keeps_stop)

lemma id_loop_fresh:
  assumes "get_next_device_id_loop n w = Inr (i, w')"
  shows "\<forall>q \<in> set (elems (device_list w')). map_option fst (dcore w' q) \<noteq> Some i"
  using assms
proof (induction n arbitrary: w)
  case (Suc n)
  then obtain r where r: "find_slot (dev_heap w) (\<lambda>d. dev_id d = next_device_id w) (elems (device_list w)) = Inr r"
    and s: "(if r = None then ret (next_device_id w) else get_next_device_id_loop n)
      (w\<lparr>next_device_id := next_device_id w + 1\<rparr>) = Inr (i, w')"
    by (auto simp: seq_eq_Inr get_mux_device_for_id_run split: sum.splits)
  show ?case
  proof (cases "r = None")
    case True
    with r s show ?thesis by (fastforce simp: find_slot_None dcore_def dev_core_def)
  next
    case False
    with s Suc.IH show ?thesis by simp
  qed
qed simp

lemma reg_enlist:
  "within (\<lambda>ds D C. dev \<notin> set (elems ds) \<and> D dev = Some (i, None) \<and> (\<forall>q \<in> set (elems ds). map_option fst (D q) \<noteq> Some i))
    reg_kept (modify (\<lambda>w. w\<lparr>device_list := collection_add (device_list w) dev\<rparr>))"
  unfolding within_def reg_kept_def registry_ok_def
  by (auto intro!: reg_listed simp: reg_ok_def ids_ok_def)

lemma reg_new_dev:
  assumes "registry_ok w" "p = next_ptr w"
  shows "p \<notin> set (elems (device_list w))" "ccore w p = None" "dcore w p = None"
    "dcore w q = Some (i, Some col) \<Longrightarrow> p \<notin> set (elems col)"
proof -
  have g: "reg_ok (elems (device_list w)) (dcore w) (ccore w) p" using assms by (simp add: registry_ok_def)
  show d: "dcore w p = None" "ccore w p = None"
    using reg_okD(3,4) [OF g, of p] by (metis less_irrefl option.exhaust)+
  show "p \<notin> set (elems (device_list w))"
    using reg_okD(1) [OF g] d by (auto simp: ids_ok_def)
  show "p \<notin> set (elems col)" if "dcore w q = Some (i, Some col)"
    using reg_okD(2) [OF g that] d by (auto simp: conns_ok_def)
qed

lemma reg_device_add: "keeps reg_kept (device_add u)"
  unfolding keeps_def reg_kept_def
proof (intro allI impI)
  fix w x w'
  assume r: "device_add u w = Inr (x, w')" and ok: "registry_ok w"
  let ?rest = "\<lambda>dev. seq (send_packet dev MUX_PROTO_VERSION (version_header_bytes version_request) []) (\<lambda>res.
     if res < 0 then seq (free_dev dev) (\<lambda>_. ret res)
     else seq (modify (\<lambda>w. w\<lparr>device_list := collection_add (device_list w) dev\<rparr>)) (\<lambda>_.
          seq logDeviceListStatus (\<lambda>_. ret 0)))"
  obtain i w1 where i: "get_next_device_id w = Inr (i, w1)"
    and s: "seq new_ptr (\<lambda>dev. seq (set_dev dev (new_device i u (junk16 (sys w1)))) (\<lambda>_. ?rest dev)) w1 = Inr (x, w')"
    using r unfolding device_add_def seq_eq_Inr [of get_next_device_id] seq_eq_Inr [of "usb_get_location u"]
    by (auto simp: usb_get_location_def get_usb_def some_or_def seq_eq_Inr split: option.splits)
  have loop: "get_next_device_id_loop (Suc (length (elems (device_list w)))) w = Inr (i, w1)"
    using i by (simp add: get_next_device_id_def)
  have same: "same_reg w w1" by (rule keepsD [OF same_id_loop loop])
  then have ok1: "registry_ok w1" using same_kept ok by (simp add: reg_kept_def)
  let ?p = "next_ptr w1"
  let ?w2 = "w1\<lparr>next_ptr := Suc ?p, dev_heap := (dev_heap w1)(?p := Some (new_device i u (junk16 (sys w1))))\<rparr>"
  note new = reg_new_dev [OF ok1 refl]
  have c2: "dcore ?w2 = (dcore w1)(?p := Some (i, None))" "ccore ?w2 = ccore w1"
    by (auto simp: dcore_def ccore_def dev_core_def new_device_def)
  have "reg_ok (elems (device_list w1)) (dcore w1) (ccore w1) (Suc ?p)"
    using ok1 unfolding registry_ok_def by (rule reg_later) simp
  then have ok2: "registry_ok ?w2"
    using new(1) unfolding registry_ok_def c2 by (auto intro!: reg_dev_set)
  have rest: "within (\<lambda>ds D C. ?p \<notin> set (elems ds) \<and> D ?p = Some (i, None) \<and>
      (\<forall>q \<in> set (elems ds). map_option fst (D q) \<noteq> Some i)) reg_kept (?rest ?p)"
    by (rule within_seq, simp, rule within_keeps, rule same_send_packet,
      intro within_cases within_then reg_enlist within_mono [OF reg_free_dev] reg.client_rules) auto
  have run: "?rest ?p ?w2 = Inr (x, w')"
    using s by (simp add: new_ptr_def set_dev_def seq_Inr)
  have fresh: "map_option fst (dcore ?w2 q) \<noteq> Some i" if q: "q \<in> set (elems (device_list ?w2))" for q
  proof -
    have "q \<noteq> ?p" using q new(1) by auto
    then have "dcore ?w2 q = dcore w1 q" by (simp only: c2 fun_upd_apply if_False)
    then show ?thesis using id_loop_fresh [OF loop] q by simp
  qed
  have "device_list ?w2 = device_list w1" by simp
  then have unlisted: "?p \<notin> set (elems (device_list ?w2))" using new(1) by metis
  have own: "dcore ?w2 ?p = Some (i, None)" unfolding c2 by (rule fun_upd_same)
  have "?p \<notin> set (elems (device_list ?w2)) \<and> dcore ?w2 ?p = Some (i, None) \<and>
      (\<forall>q \<in> set (elems (device_list ?w2)). map_option fst (dcore ?w2 q) \<noteq> Some i)"
    using unlisted own fresh by blast
  note kept = withinD [OF rest this run]
  show "registry_ok w'" using kept ok2 unfolding reg_kept_def by blast
qed

lemma reg_device_remove: "keeps reg_kept (device_remove u)"
proof -
  have tail: "keeps reg_kept (seq (modify (\<lambda>w. w\<lparr>device_list := collection_remove (device_list w) dev\<rparr>)) (\<lambda>_.
      seq logDeviceListStatus (\<lambda>_. seq (case sk of None \<Rightarrow> ret () | Some s \<Rightarrow> closesocket s) (\<lambda>_. free_dev dev))))"
    for dev and sk :: "fd option"
    by (rule reg_delist)
      (intro within_seq reg_free_dev within_keeps [OF same.lookups(7)] within_keeps same.keeps_option same.keeps_ret same.calls; simp)
  have active: "keeps reg_kept (remove_active dev)" for dev
    unfolding remove_active_def
    by (intro reg_drop [where col = "[]"] keeps_same [OF same_updates(2)] reg.client_rules reg.keeps_foreach reg.closing reg.events)
      (simp_all add: dev_core_def)
  show ?thesis
    unfolding device_remove_def by (intro tail active keeps_same [OF same_writes(8)] reg.client_rules)
qed

interpretation reg: device_frame reg_kept
  by unfold_locales (intro keeps_same [OF same_gather] reg_dispatch reg_device_add reg_device_remove)+

subsection \<open>New connections\<close>

lemma same_sport_loop: "keeps same_reg (find_sport_loop n dev)"
proof (induction n)
  case (Suc n)
  have step: "within (\<lambda>ds D C. True \<and> D dev = Some (dev_core d)) same_reg
      (seq (set_dev dev (d\<lparr>dev_next_sport := s\<rparr>)) (\<lambda>_. if b then ret p else find_sport_loop n dev))" for d s b p
    by (rule within_seq, simp, rule within_set_dev, simp add: dev_core_def, rule within_keeps, intro same.keeps_if same.keeps_ret Suc)
  show ?case
    unfolding find_sport_loop.simps
    by (intro within_top) (rule within_get_dev, simp, rule within_seq, simp, rule within_keeps, rule same.lookups, rule within_seq,
      simp, rule within_keeps, rule same.reads_only, rule step)
qed (simp only: find_sport_loop.simps same.keeps_stop)

lemma sport_loop_fresh:
  assumes "find_sport_loop n dev w = Inr (s, w')"
  shows "\<exists>i col. dcore w' dev = Some (i, Some col) \<and> (\<forall>c \<in> set (elems col). \<forall>p. ccore w' c \<noteq> Some (p, s))"
  using assms
proof (induction n arbitrary: w)
  case (Suc n)
  then obtain d col r where d: "dev_heap w dev = Some d" "dev_connections d = Some col"
    and r: "find_slot (conn_heap w) (\<lambda>c. dev_next_sport d = conn_sport c) (elems col) = Inr r"
    and s: "(if r = None then ret (dev_next_sport d) else find_sport_loop n dev)
      (w\<lparr>dev_heap := (dev_heap w)(dev := Some (d\<lparr>dev_next_sport := dev_next_sport d + 1\<rparr>))\<rparr>) = Inr (s, w')"
    by (auto simp: seq_eq_Inr get_dev_def get_connections_def find_in_run set_dev_def some_or_def split: option.splits sum.splits)
  show ?case
  proof (cases "r = None")
    case True
    with r s d show ?thesis by (fastforce simp: find_slot_None ccore_def dev_core_def conn_core_def)
  next
    case False
    with s Suc.IH show ?thesis by simp
  qed
qed simp

lemma reg_enroll:
  "within (\<lambda>ds D C. D dev = Some (i, Some col) \<and> (\<forall>c \<in> set (elems col). \<forall>p. C c \<noteq> Some (p, s)) \<and> C conn = Some (dev, s) \<and> s \<noteq> 0)
    reg_kept (seq (get_connections dev) (\<lambda>col.
      seq (upd_dev dev (\<lambda>d. d\<lparr>dev_connections := Some (collection_add col conn)\<rparr>)) (\<lambda>_. ret r)))"
  unfolding within_def reg_kept_def
proof (intro allI impI, elim conjE)
  fix w x w'
  assume a: "dcore w dev = Some (i, Some col)" "\<forall>c \<in> set (elems col). \<forall>p. ccore w c \<noteq> Some (p, s)" "ccore w conn = Some (dev, s)"
    "s \<noteq> 0" and ok: "registry_ok w"
    and r: "seq (get_connections dev) (\<lambda>col.
      seq (upd_dev dev (\<lambda>d. d\<lparr>dev_connections := Some (collection_add col conn)\<rparr>)) (\<lambda>_. ret r)) w = Inr (x, w')"
  obtain d where d: "dev_heap w dev = Some d" "dev_connections d = Some col" "dev_id d = i"
    using a(1) by (auto simp: dcore_def dev_core_def)
  then have w': "w' = w\<lparr>dev_heap := (dev_heap w)(dev := Some (d\<lparr>dev_connections := Some (collection_add col conn)\<rparr>))\<rparr>"
    using r by (auto simp: get_connections_def upd_dev_def set_dev_def get_dev_def some_or_def seq_eq_Inr)
  have "reg_ok (elems (device_list w)) ((dcore w)(dev := Some (i, Some (collection_add col conn)))) (ccore w) (next_ptr w)"
    using ok a unfolding registry_ok_def by (intro reg_conn_added) auto
  then show "registry_ok w'" using d by (simp add: registry_ok_def w' dev_core_def)
qed

lemma reg_free_conn:
  "within (\<lambda>ds D C. \<forall>p i col. D p = Some (i, Some col) \<longrightarrow> conn \<notin> set (elems col)) reg_kept (free_conn conn)"
  unfolding within_def reg_kept_def free_conn_def
proof (intro allI impI)
  fix w x w'
  assume a: "\<forall>p i col. dcore w p = Some (i, Some col) \<longrightarrow> conn \<notin> set (elems col)" and ok: "registry_ok w"
    and r: "seq (gets conn_heap) (\<lambda>h. if h conn = None then stop DoubleFree
      else modify (\<lambda>w. w\<lparr>conn_heap := (conn_heap w)(conn := None)\<rparr>)) w = Inr (x, w')"
  from r obtain c where c: "conn_heap w conn = Some c" "w' = w\<lparr>conn_heap := (conn_heap w)(conn := None)\<rparr>"
    by (auto split: if_splits)
  have g: "reg_ok (elems (device_list w)) (dcore w) (ccore w) (next_ptr w)" using ok by (simp add: registry_ok_def)
  have "conn < next_ptr w" using reg_okD(4) [OF g, of conn] c(1) by (simp add: ccore_def)
  from reg_conn_set [OF g this, of None] a show "registry_ok w'" by (simp add: registry_ok_def c(2))
qed

lemma reg_start_connect: "keeps reg_kept (device_start_connect i port k)"
proof -
  let ?rest = "\<lambda>dev conn. seq (send_tcp conn TH_SYN []) (\<lambda>res.
           if res < 0 then seq (free_conn conn) (\<lambda>_. ret (- uint RESULT_CONNREFUSED))
           else seq (get_connections dev) (\<lambda>col.
             seq (upd_dev dev (\<lambda>d. d\<lparr>dev_connections := Some (collection_add col conn)\<rparr>)) (\<lambda>_. ret 0)))"
  have same_tcp: "keeps same_reg (send_tcp conn TH_SYN [])" for conn
    unfolding send_tcp_def by (intro same.client_rules same_send_packet same_updates) (simp add: conn_core_def)
  have connect: "keeps reg_kept (seq (find_sport dev) (\<lambda>s. if s = 0 then ret e
      else seq new_ptr (\<lambda>conn. seq (set_conn conn (new_connection dev k s port)) (\<lambda>_. ?rest dev conn))))" for dev e
    unfolding keeps_def reg_kept_def
  proof (intro allI impI)
    fix w x w'
    assume ok: "registry_ok w" and run: "seq (find_sport dev) (\<lambda>s. if s = 0 then ret e
      else seq new_ptr (\<lambda>conn. seq (set_conn conn (new_connection dev k s port)) (\<lambda>_. ?rest dev conn))) w = Inr (x, w')"
    obtain s w1 where s: "find_sport dev w = Inr (s, w1)" and t: "(if s = 0 then ret e
      else seq new_ptr (\<lambda>conn. seq (set_conn conn (new_connection dev k s port)) (\<lambda>_. ?rest dev conn))) w1 = Inr (x, w')"
      using run unfolding seq_eq_Inr [of "find_sport dev"] by blast
    have "keeps same_reg (find_sport dev)"
      unfolding find_sport_def by (intro same.client_rules same_sport_loop)
    then have same: "same_reg w w1" using s by (rule keepsD)
    then have ok1: "registry_ok w1" using same_kept ok by (simp add: reg_kept_def)
    show "registry_ok w'"
    proof (cases "s = 0")
      case True
      then show ?thesis using t ok1 by simp
    next
      case False
      obtain n where "find_sport_loop n dev w = Inr (s, w1)"
        using s False by (auto simp: find_sport_def seq_eq_Inr get_connections_def get_dev_def some_or_def
            simp del: find_sport_loop.simps split: if_splits option.splits)
      then obtain j col where f: "dcore w1 dev = Some (j, Some col)" "\<forall>c \<in> set (elems col). \<forall>p. ccore w1 c \<noteq> Some (p, s)"
        using sport_loop_fresh by blast
      let ?p = "next_ptr w1"
      let ?w2 = "w1\<lparr>next_ptr := Suc ?p, conn_heap := (conn_heap w1)(?p := Some (new_connection dev k s port))\<rparr>"
      note new = reg_new_dev [OF ok1 refl]
      have c2: "ccore ?w2 = (ccore w1)(?p := Some (dev, s))" "dcore ?w2 = dcore w1"
        by (auto simp: dcore_def ccore_def conn_core_def new_connection_def)
      have "reg_ok (elems (device_list w1)) (dcore w1) (ccore w1) (Suc ?p)"
        using ok1 unfolding registry_ok_def by (rule reg_later) simp
      then have ok2: "registry_ok ?w2"
        using new(4) unfolding registry_ok_def c2 by (auto intro!: reg_conn_set)
      have rest: "within (\<lambda>ds D C. (D dev = Some (j, Some col) \<and> (\<forall>c \<in> set (elems col). \<forall>p. C c \<noteq> Some (p, s)) \<and>
          C ?p = Some (dev, s) \<and> s \<noteq> 0) \<and> (\<forall>p i col. D p = Some (i, Some col) \<longrightarrow> ?p \<notin> set (elems col))) reg_kept (?rest dev ?p)"
        by (rule within_seq, simp, rule within_keeps, rule same_tcp,
          intro within_cases within_then within_mono [OF reg_free_conn] within_mono [OF reg_enroll] reg.keeps_ret) auto
      have go: "?rest dev ?p ?w2 = Inr (x, w')"
        using t False by (simp add: new_ptr_def set_conn_def seq_Inr)
      have "(dcore ?w2 dev = Some (j, Some col) \<and> (\<forall>c \<in> set (elems col). \<forall>p. ccore ?w2 c \<noteq> Some (p, s)) \<and>
          ccore ?w2 ?p = Some (dev, s) \<and> s \<noteq> 0) \<and> (\<forall>p i col. dcore ?w2 p = Some (i, Some col) \<longrightarrow> ?p \<notin> set (elems col))"
        using f new(4) False unfolding c2 by auto
      then have "reg_kept ?w2 w'" by (rule withinD [OF rest _ go])
      then show ?thesis using ok2 by (simp only: reg_kept_def)
    qed
  qed
  show ?thesis
    unfolding device_start_connect_def by (intro connect reg.client_rules)
qed

subsection \<open>Data between a client and its connection\<close>

lemma reg_client_data: "keeps reg_kept (process_to_client conn)" "keeps reg_kept (process_from_client conn)"
proof -
  have ack: "keeps reg_kept (if b then seq (send_tcp_ack conn) (\<lambda>_. ret True) else ret True)" for b
    by (intro reg.client_rules reg.acknowledges)
  have read: "keeps same_reg (client_read k n)" for k n
    unfolding client_read_def by (intro same.client_rules same_env)
  have "within (\<lambda>ds D C. True \<and> C conn = Some (conn_core c)) reg_kept (seq (set_conn conn c') (\<lambda>_. m))"
    if "conn_core c' = conn_core c" "keeps reg_kept m" for c c' and m :: "bool act"
    by (rule within_seq, simp, rule within_set_conn, simp add: that, rule within_keeps, rule that)
  note store = this
  have down: "within Q reg_kept (seq (teardown conn) (\<lambda>_. ret False))" for Q
    by (intro within_keeps reg.client_rules reg.closing)
  have grown: "conn_core ((ib_consume n c)\<lparr>conn_tx_win := t\<rparr>) = conn_core c" for n c t
    using core_simps(2) [of n c] by (simp add: conn_core_def)
  show "keeps reg_kept (process_to_client conn)"
    unfolding process_to_client_def
    by (intro within_top) (rule within_get_conn, simp, intro within_seq [OF absorbs_these(2)] within_cases down store ack grown
        within_keeps [OF same.keeps_some_or] within_keeps [OF same.keeps_buf_read] within_keeps [OF same.client_output(5)])
  have sent: "keeps reg_kept (seq (send_tcp conn TH_ACK bs) (\<lambda>res.
         if res < 0 then seq (teardown conn) (\<lambda>_. ret False)
         else seq (upd_conn conn (\<lambda>c. c\<lparr>conn_tx_seq := conn_tx_seq c + of_nat (length bs)\<rparr>)) (\<lambda>_. ret True)))" for bs
    by (intro reg.client_rules reg.packets reg.closing reg.conn_updates) (simp add: conn_core_def)
  have some: "within (\<lambda>ds D C. True \<and> C conn = Some (conn_core c)) reg_kept (case r of
       None \<Rightarrow> seq (teardown conn) (\<lambda>_. ret False)
     | Some [] \<Rightarrow> seq (teardown conn) (\<lambda>_. ret False)
     | Some bs \<Rightarrow>
         seq (buf_write (unat (conn_ob_capacity c)) 0 bs (conn_ob_buf c)) (\<lambda>buf.
         seq (set_conn conn (c\<lparr>conn_ob_buf := buf\<rparr>)) (\<lambda>_.
         seq (send_tcp conn TH_ACK bs) (\<lambda>res.
         if res < 0 then seq (teardown conn) (\<lambda>_. ret False)
         else seq (upd_conn conn (\<lambda>c. c\<lparr>conn_tx_seq := conn_tx_seq c + of_nat (length bs)\<rparr>)) (\<lambda>_. ret True)))))" for c r
    by (cases r, simp only: option.case, rule down, cases "the r", simp only: option.case option.sel list.case, rule down,
      simp only: option.case option.sel list.case, rule within_seq, simp, rule within_keeps, rule same.keeps_buf_write,
      rule store, simp add: conn_core_def, rule sent)
  show "keeps reg_kept (process_from_client conn)"
    unfolding process_from_client_def
    by (intro within_top) (rule within_get_conn, simp, rule within_seq, simp, rule within_keeps, rule same.keeps_some_or,
      rule within_seq, simp, rule within_keeps, rule read, rule some)
qed

subsection \<open>The device module starts and stops\<close>

lemma reg_unlist: "(\<And>w. elems (f w) = []) \<Longrightarrow> (\<And>w. dcore (g w) = dcore w \<and> ccore (g w) = ccore w \<and> next_ptr (g w) = next_ptr w \<and>
    device_list (g w) = f w) \<Longrightarrow> keeps reg_kept (modify g)"
  unfolding keeps_def reg_kept_def registry_ok_def by (auto intro: reg_delisted)

lemma reg_lifetime: "keeps reg_kept device_init" "keeps reg_kept device_shutdown"
proof -
  show "keeps reg_kept device_init"
    unfolding device_init_def
    by (rule reg_unlist [where f = "\<lambda>_. collection_init"]) (auto simp: dcore_def ccore_def fun_eq_iff)
  have gone: "keeps reg_kept (seq (modify (\<lambda>w. w\<lparr>device_list := collection_remove (device_list w) dev\<rparr>)) (\<lambda>_. free_dev dev))" for dev
    by (rule reg_delist [OF reg_free_dev])
  show "keeps reg_kept device_shutdown"
    unfolding device_shutdown_def
    by (intro gone reg_drop [where col = "[]"] reg.client_rules reg.keeps_foreach reg.closing
        reg_unlist [where f = "\<lambda>w. collection_free (device_list w)"]) (simp_all add: collection_free_def)
qed

end
