(* ===== verification/Daemon_Frame.thy ===== *)
theory Daemon_Frame
  imports Layer_Frame Main_Loop
begin

text \<open>
  The top of the chain of frames: what holds across the operations of the device layer holds across the whole main
  loop. The contract \<open>daemon_frame\<close> asks of a relation that it ignores everything beside the mux devices and their
  connections (\<open>beside\<close>), and that the operations of device.cpp keep it; then the commands of the clients, the queue of
  device commands and a round of the loop keep it too.
\<close>

subsection \<open>Beside devices and connections\<close>

definition beside :: "world \<Rightarrow> world \<Rightarrow> bool" where
  "beside w w' \<longleftrightarrow> dev_heap w' = dev_heap w \<and> conn_heap w' = conn_heap w \<and> device_list w' = device_list w \<and>
     next_ptr w \<le> next_ptr w'"

interpretation beside: world_frame beside
  by unfold_locales (auto simp: beside_def)

lemma beside_tx: "keeps tx_only m \<Longrightarrow> keeps beside m"
  by (auto simp: keeps_def tx_only_def beside_def)

lemmas beside_env = tx_prims [THEN beside_tx] tx_alloc_buf [THEN beside_tx] tx_upd_usb [THEN beside_tx]
  usb_get_read_result_tx_only [THEN beside_tx] usb_start_read_tx_only [THEN beside_tx]

lemma beside_modify: "(\<And>w. beside w (f w)) \<Longrightarrow> keeps beside (modify f)"
  by (simp add: keeps_def)

lemma beside_writes:
  "keeps beside (set_client k v)" "keeps beside (free_client k)" "keeps beside (free_usb u)"
  "keeps beside (modify (\<lambda>w. w\<lparr>client_list := cl w\<rparr>))" "keeps beside (modify (\<lambda>w. w\<lparr>g_device_list := gl w\<rparr>))"
  "keeps beside (modify (\<lambda>w. w\<lparr>g_pending_devices := gp w\<rparr>))" "keeps beside (modify (\<lambda>w. w\<lparr>g_next_usb_device_id := gi w\<rparr>))"
  "keeps beside (modify (\<lambda>w. w\<lparr>notification_cookie := nc w\<rparr>))"
  unfolding set_client_def free_client_def free_usb_def
  by (intro beside.read_rules beside_modify; simp add: beside_def)+

lemma beside_answers:
  "keeps beside sys_accept" "keeps beside com_open" "keeps beside com_device_desc" "keeps beside com_serial"
  "keeps beside com_config" "keeps beside (in_conf m)"
  by (auto simp: keeps_def sys_accept_def com_open_def com_device_desc_def com_serial_def com_config_def in_conf_def beside_def
      split: list.splits sum.splits)

interpretation beside: client_frame beside
  by unfold_locales (intro beside_writes beside_env)+

lemmas beside_rules = beside.client_rules beside_writes beside_answers beside_env

subsection \<open>Usb devices\<close>

lemma beside_threads:
  "keeps beside (usb_disconnect u b)" "keeps beside (usb_start_read_thread u)" "keeps beside (usb_start_write_thread u)"
proof -
  have reuse: "keeps beside (ReUseTXQElement u e)" for e
    by (rule tx_ReUseTXQElement [THEN beside_tx])
  have writer: "keeps beside (usb_write_thread_iter u)" "keeps beside (write_thread_cleanup u)"
    unfolding usb_write_thread_iter_def write_thread_cleanup_def by (intro beside_rules reuse)+
  have stops: "keeps beside (stop_write_thread u)" "keeps beside (stop_read_thread u)"
    unfolding stop_write_thread_def stop_read_thread_def by (intro beside_rules writer)+
  show "keeps beside (usb_disconnect u b)"
    unfolding usb_disconnect_def usb_free_device_def by (intro beside_rules stops)
  show "keeps beside (usb_start_read_thread u)" "keeps beside (usb_start_write_thread u)"
    unfolding usb_start_read_thread_def usb_start_write_thread_def connect_socket_def Let_def by (intro beside_rules)+
qed

lemma beside_configure: "keeps beside (usb_configure_device u)"
proof -
  have "keeps beside (usb_configure_mux_interface u bs)" for bs
    unfolding usb_configure_mux_interface_def by (auto intro!: beside_rules split: sum.splits)
  then show ?thesis
    unfolding usb_configure_device_def by (auto intro!: beside_rules split: prod.splits)
qed

lemma beside_lists:
  "keeps beside (scan_existing l f ps)" "keeps beside (last_usb_at l f ps)" "keeps beside (usb_report_device_already_exists u)"
  "keeps beside (alloc_usb_device l)" "keeps beside (enlist_device m b u)" "keeps beside (find_usb_at l)"
  "keeps beside (change_monitor m u)" "keeps beside usb_update_monitored_devices" "keeps beside (usb_append_device_command ty src l ev m)"
proof -
  show "keeps beside (scan_existing l f ps)" "keeps beside (last_usb_at l f ps)"
    by (induction ps arbitrary: f) (auto intro!: beside_rules)
  show "keeps beside (usb_report_device_already_exists u)"
    unfolding usb_report_device_already_exists_def by (intro beside_rules beside.events)
  show "keeps beside (alloc_usb_device l)" "keeps beside (enlist_device m b u)" "keeps beside (find_usb_at l)"
    "keeps beside (change_monitor m u)" "keeps beside usb_update_monitored_devices"
    "keeps beside (usb_append_device_command ty src l ev m)"
    unfolding alloc_usb_device_def enlist_device_def find_usb_at_def change_monitor_def usb_update_monitored_devices_def
      usb_free_device_def usb_append_device_command_def
    by (intro beside_rules)+
qed

subsection \<open>Answers to clients\<close>

lemma beside_replies:
  "keeps beside (reply k tag r)" "keeps beside (send_device_list k tag)" "keeps beside (send_system_buid k tag)"
  "keeps beside (send_pair_record k tag rid)" "keeps beside (start_listen k)"
proof -
  show r: "keeps beside (reply k tag r)" for r
    unfolding reply_def by (intro beside_rules beside.client_output)
  have all: "keeps beside (notify_all k devs)" for devs
    by (induction devs) (simp_all only: notify_all.simps, intro beside.keeps_ret, intro beside_rules beside.client_output)
  have devs: "keeps beside (device_get_list h)" for h
    unfolding device_get_list_def by (intro beside_rules)
  show "keeps beside (send_device_list k tag)" "keeps beside (send_system_buid k tag)" "keeps beside (start_listen k)"
    unfolding send_device_list_def send_system_buid_def start_listen_def by (intro beside_rules beside.client_output devs all)+
  show "keeps beside (send_pair_record k tag rid)"
    unfolding send_pair_record_def by (intro beside_rules beside.client_output)
qed

lemma beside_handlers:
  "keeps beside (handle_listen_command k tag)" "keeps beside (handle_read_pair_record_command k tag d)"
  "keeps beside (handle_save_pair_record_command k tag d)" "keeps beside (handle_delete_pair_record_command k tag d)"
  unfolding handle_listen_command_def handle_read_pair_record_command_def handle_save_pair_record_command_def
    handle_delete_pair_record_command_def
  by (auto intro!: beside_rules beside.client_output beside_replies split: option.splits)

subsection \<open>The whole daemon\<close>

locale daemon_frame = device_frame R for R +
  assumes beside_kept: "beside w w' \<Longrightarrow> R w w'"
    and dev_updates: "(\<And>d. dev_core (f d) = dev_core d) \<Longrightarrow> keeps R (upd_dev dev f)"
    and connects: "keeps R (device_start_connect i port k)"
    and client_data: "keeps R (process_to_client conn)" "keeps R (process_from_client conn)"
    and lifetime: "keeps R device_init" "keeps R device_shutdown"
begin

lemma ignores: "keeps beside m \<Longrightarrow> keeps R m"
  unfolding keeps_def using beside_kept by blast

lemmas daemon_rules = client_rules beside_writes [THEN ignores] beside_answers [THEN ignores] beside_env [THEN ignores]

text \<open>Device commands.\<close>

lemmas usb_parts = beside_threads [THEN ignores] beside_configure [THEN ignores] beside_lists [THEN ignores]

lemma adds: "keeps R (usb_add_pending_device src l m ev)"
proof -
  have cleanup: "keeps R (add_cleanup u a b)" for u a b
    unfolding add_cleanup_def Let_def by (intro daemon_rules devices device_add_failed usb_parts)
  have start: "keeps R (start_device src m ev b u)" for u b
    unfolding start_device_def by (intro daemon_rules cleanup devices usb_parts)
  have "keeps R (case r of Inl dev \<Rightarrow> seq (usb_report_device_already_exists dev) (\<lambda>_. ret (-1)) | Inr found \<Rightarrow> g found)"
    if "\<And>found. keeps R (g found)" for r and g :: "ptr option \<Rightarrow> int act"
    using that by (auto intro!: daemon_rules usb_parts split: sum.splits)
  note report = this
  show ?thesis
    unfolding usb_add_pending_device_def Let_def by (intro report daemon_rules cleanup start usb_parts)
qed

lemma commands: "keeps R usb_process"
proof -
  have remove: "keeps R (usb_remove_pending_device src l ev)" for src l ev
    unfolding usb_remove_pending_device_def by (intro daemon_rules devices usb_parts)
  have monitor: "keeps R (usb_handle_device_monitor_command l m ev)" for l m ev
    unfolding usb_handle_device_monitor_command_def by (intro daemon_rules adds usb_parts)
  have one: "keeps R (usb_process_command c)" for c
    unfolding usb_process_command_def
    by (cases "pc_type c") (simp_all only: pending_type.case, (intro daemon_rules adds remove monitor usb_parts)+)
  have "keeps R (usb_process_n n)" for n
    by (induction n) (simp_all only: usb_process_n.simps, intro daemon_rules, intro daemon_rules one)
  then show ?thesis unfolding usb_process_def by (intro daemon_rules)
qed

text \<open>Commands of clients.\<close>

lemmas replies = beside_replies [THEN ignores] beside_handlers [THEN ignores]

lemma client_commands: "keeps R (client_command k hdr buf)"
proof -
  have connect: "keeps R (connect_client k tag i port)" for tag i port
    unfolding connect_client_def by (intro daemon_rules connects replies)
  have usb: "keeps R (usb_add_device l ev)" "keeps R (usb_remove_device l ev)"
    "keeps R (usb_set_device_monitoring_immediately l m)" for l m ev
    unfolding usb_add_device_def usb_remove_device_def usb_set_device_monitoring_immediately_def
    by (intro daemon_rules usb_parts commands)+
  have device: "keeps R (handle_add_device_command k tag d)" "keeps R (handle_remove_device_command k tag d)"
    "keeps R (handle_device_monitor_command k tag d)" for tag d
    unfolding handle_add_device_command_def handle_remove_device_command_def handle_device_monitor_command_def
      device_command_def Let_def
    by (intro daemon_rules client_output replies usb)+
  have conn: "keeps R (handle_connect_command k tag d)" for tag d
    unfolding handle_connect_command_def by (intro daemon_rules replies connect)
  have message: "keeps R (plist_message k tag d t)" for tag d t
    unfolding plist_message_def by (intro daemon_rules replies device conn)
  have "keeps R (handle_client_plist_command k hdr buf)"
    unfolding handle_client_plist_command_def by (intro daemon_rules message)
  then show ?thesis
    unfolding client_command_def by (intro daemon_rules client_output closing connect replies)
qed

lemma clients: "keeps R (client_process readable writable)"
proof -
  have more: "keeps R (recv_more k n)" for k n
    unfolding recv_more_def by (intro daemon_rules closing)
  have run: "keeps R (run_command k hdr buf)" for k hdr buf
    unfolding run_command_def by (intro daemon_rules client_commands)
  have body: "keeps R (recv_body k b)" for k b
    unfolding recv_body_def by (intro daemon_rules closing more run)
  have recv: "keeps R (process_recv k)" for k
    unfolding process_recv_def by (intro daemon_rules more body)
  have send: "keeps R (process_send k)" for k
    unfolding process_send_def by (intro daemon_rules closing)
  have data: "keeps R (device_client_process i k ev)" for i k ev
    unfolding device_client_process_def by (intro daemon_rules client_data refreshes)
  show ?thesis
    unfolding client_process_def process_client_def Let_def by (intro daemon_rules keeps_foreach data recv send)
qed

text \<open>The sockets of the devices, and the sockets that listen.\<close>

lemma device_sockets: "keeps R (device_process_sockets fuel readable)"
  unfolding device_process_sockets_def process_socket_def
  by (intro keeps_foreach) (auto intro!: daemon_rules packet_loop split: option.splits)

lemma accepts: "keeps R (client_accept b)" "keeps R (device_accept_socket b)"
proof -
  show "keeps R (client_accept b)"
    unfolding client_accept_def Let_def by (intro daemon_rules)
  show "keeps R (device_accept_socket b)"
    unfolding device_accept_socket_def usb_get_device_by_id_def Let_def
    by (intro daemon_rules dev_updates) (simp add: dev_core_def)
qed

text \<open>What the other threads do to the mux devices.\<close>

lemma workers:
  "keeps R (device_set_visible i)" "keeps R (device_set_preflight_cb_data i p)" "keeps R (device_preflight_finished i)"
proof -
  show "keeps R (device_set_visible i)"
    unfolding device_set_visible_def with_device_def usb_set_device_ready_def
    by (intro daemon_rules dev_updates) (simp add: dev_core_def)
  show "keeps R (device_set_preflight_cb_data i p)" "keeps R (device_preflight_finished i)"
    unfolding device_set_preflight_cb_data_def device_preflight_finished_def with_device_def
    by (intro daemon_rules dev_updates; simp add: dev_core_def)+
qed

text \<open>Starting and stopping the modules.\<close>

lemma modules:
  "keeps R device_kill_connections" "keeps R usb_init" "keeps R usb_shutdown" "keeps R client_init" "keeps R client_shutdown"
proof -
  show "keeps R device_kill_connections"
    unfolding device_kill_connections_def by (intro daemon_rules keeps_foreach closing)
  show "keeps R usb_init"
    unfolding usb_init_def by (intro daemon_rules ignores [OF beside_modify]) (simp add: beside_def)
  show "keeps R usb_shutdown"
    unfolding usb_shutdown_def
    by (intro daemon_rules keeps_foreach devices usb_parts ignores [OF beside_modify]) (simp add: beside_def)
  show "keeps R client_init" "keeps R client_shutdown"
    unfolding client_init_def client_shutdown_def by (intro daemon_rules keeps_foreach closing)+
qed

end

subsection \<open>The main thread\<close>

definition on_world :: "(world \<Rightarrow> world \<Rightarrow> bool) \<Rightarrow> daemon \<Rightarrow> daemon \<Rightarrow> bool" where
  "on_world R d d' \<longleftrightarrow> R (d_world d) (d_world d')"

sublocale daemon_frame \<subseteq> main: frame_rel "on_world R"
  by unfold_locales (auto simp: on_world_def intro: frame_refl frame_trans)

context daemon_frame
begin

lemma lifts: "keeps R m \<Longrightarrow> keeps (on_world R) (in_world m)"
  by (auto simp: keeps_def in_world_def on_world_def split: sum.splits)

lemma main_leaves:
  "keeps (on_world R) (in_net n)" "keeps (on_world R) (wait_for w)" "keeps (on_world R) (sys_select rs ws t)"
  by (auto simp: keeps_def in_net_def wait_for_def sys_select_def on_world_def frame_refl Let_def
      split: sum.splits list.splits select_result.splits)

lemma main_modify: "(\<And>d. d_world (f d) = d_world d) \<Longrightarrow> keeps (on_world R) (modify f)"
  by (simp add: keeps_def on_world_def frame_refl)

lemmas main_rules = main.keeps_rules main_leaves lifts

lemma main_round: "keeps (on_world R) (main_iteration fuel)"
proof -
  have fds: "keeps R client_add_fds" "keeps R device_add_fds" "keeps R device_get_timeout"
  proof -
    have "keeps R (oldest_ack_devs o1 ps)" for o1 ps
      by (induction ps arbitrary: o1) (simp_all only: oldest_ack_devs.simps, intro daemon_rules, intro daemon_rules)
    then show "keeps R device_get_timeout" unfolding device_get_timeout_def by (intro daemon_rules)
    show "keeps R client_add_fds" "keeps R device_add_fds"
      unfolding client_add_fds_def device_add_fds_def by (intro daemon_rules)+
  qed
  have sets: "keeps (on_world R) CreateFdSets"
    unfolding CreateFdSets_def by (auto intro!: main_rules fds split: prod.splits)
  have accept: "keeps (on_world R) (accept_ready readable l n a)" if "\<And>b. keeps R (a b)" for readable l n a
    unfolding accept_ready_def by (intro main_rules that)
  have ready: "keeps (on_world R) (handle_ready fuel readable writable n)" for readable writable n
    unfolding handle_ready_def by (intro main_rules accept accepts device_sockets commands clients)
  have idle: "keeps (on_world R) handle_idle"
    unfolding handle_idle_def by (intro main_rules commands timeouts)
  show ?thesis
    unfolding main_iteration_def GetCurrentIterationTimeout_def
    by (auto intro!: main_rules sets ready idle fds split: prod.splits select_result.splits)
qed

lemma entry_points:
  "keeps (on_world R) (usbmuxd_Start port)" "keeps (on_world R) usbmuxd_Shutdown"
  "keeps (on_world R) (usbmuxd_AddDevice name ev)" "keeps (on_world R) (usbmuxd_RemoveDevice name ev)"
  "keeps (on_world R) (SetDeviceMonitoring name m)"
proof -
  have over: "keeps (on_world R) main_thread_end"
    unfolding main_thread_end_def close_listener_def by (intro main_rules main_modify) simp
  show stop: "keeps (on_world R) usbmuxd_Shutdown"
    unfolding usbmuxd_Shutdown_def
    by (intro main_rules main_modify over modules lifetime daemon_rules) simp_all
  have begun: "keeps (on_world R) main_thread_init"
    unfolding main_thread_init_def CreateListenSockets_def
    by (auto intro!: main_rules main_modify split: prod.splits option.splits)
  show "keeps (on_world R) (usbmuxd_Start port)"
    unfolding usbmuxd_Start_def create_event_def Let_def
    by (intro main_rules main_modify begun stop modules lifetime daemon_rules) simp_all
  show "keeps (on_world R) (usbmuxd_AddDevice name ev)" "keeps (on_world R) (usbmuxd_RemoveDevice name ev)"
    "keeps (on_world R) (SetDeviceMonitoring name m)"
    unfolding usbmuxd_AddDevice_def usbmuxd_RemoveDevice_def SetDeviceMonitoring_def VERIFY_USBMUXD_IS_RUNNING_def
      usb_add_device_def usb_remove_device_def usb_set_device_monitoring_def
    by (intro main_rules daemon_rules usb_parts)+
qed

end

end
