(* ===== verification/Reached.thy ===== *)
theory Reached
  imports Registry Daemon_Frame
begin

text \<open>
  The states the running daemon reaches: from a start that succeeded, by rounds of the main loop, by the entry points of
  the library, by the callback of the port driver, and by what the other threads do in between, whatever the environment
  answers. The registry of devices and connections is in order in each of them.
\<close>

interpretation reg: daemon_frame reg_kept
proof unfold_locales
  show "reg_kept w w'" if "beside w w'" for w w'
    using that by (intro same_kept) (simp add: beside_def same_reg_def dcore_def ccore_def fun_eq_iff)
qed (intro keeps_same [OF same_updates(2)] reg_start_connect reg_client_data reg_lifetime; assumption?)+

subsection \<open>Reaching a state\<close>

text \<open>What the threads beside the main thread do: the read and write threads of the devices, the preflight workers and
  the callback of the port driver.\<close>

inductive thread_step :: "world \<Rightarrow> world \<Rightarrow> bool" where
  port_changes: "usb_port_change_callback event name w = Inr (x, w') \<Longrightarrow> thread_step w w'"
| reader: "usb_read_thread_iter u wait w = Inr (b, w') \<Longrightarrow> thread_step w w'"
| writer: "usb_write_thread_iter u w = Inr (b, w') \<Longrightarrow> thread_step w w'"
| writer_ends: "write_thread_cleanup u w = Inr (x, w') \<Longrightarrow> thread_step w w'"
| reveals: "device_set_visible i w = Inr (x, w') \<Longrightarrow> thread_step w w'"
| waits_for_removal: "device_set_preflight_cb_data i p w = Inr (x, w') \<Longrightarrow> thread_step w w'"
| finishes: "device_preflight_finished i w = Inr (x, w') \<Longrightarrow> thread_step w w'"

text \<open>A process that has just begun has no devices and no connections; then anything may happen, in any order.\<close>

inductive reached :: "daemon \<Rightarrow> bool" where
  begins: "dev_heap (d_world d) = Map.empty \<Longrightarrow> conn_heap (d_world d) = Map.empty \<Longrightarrow> elems (device_list (d_world d)) = [] \<Longrightarrow>
    reached d"
| starts: "reached d \<Longrightarrow> usbmuxd_Start port d = Inr (r, d') \<Longrightarrow> reached d'"
| stops: "reached d \<Longrightarrow> usbmuxd_Shutdown d = Inr (r, d') \<Longrightarrow> reached d'"
| turns: "reached d \<Longrightarrow> main_iteration fuel d = Inr (go, d') \<Longrightarrow> reached d'"
| adds: "reached d \<Longrightarrow> usbmuxd_AddDevice name event d = Inr (r, d') \<Longrightarrow> reached d'"
| removes: "reached d \<Longrightarrow> usbmuxd_RemoveDevice name event d = Inr (r, d') \<Longrightarrow> reached d'"
| monitors: "reached d \<Longrightarrow> SetDeviceMonitoring name m d = Inr (r, d') \<Longrightarrow> reached d'"
| others: "reached d \<Longrightarrow> thread_step (d_world d) w \<Longrightarrow> reached (d\<lparr>d_world := w\<rparr>)"
| environment: "reached d \<Longrightarrow> reached (d\<lparr>d_world := (d_world d)\<lparr>sys := s\<rparr>, waits := ws, selects := ss, d_net := n\<rparr>)"

lemma threads_kept:
  "keeps reg_kept (usb_port_change_callback event name)" "keeps reg_kept (usb_read_thread_iter u wait)"
  "keeps reg_kept (usb_write_thread_iter u)" "keeps reg_kept (write_thread_cleanup u)"
proof -
  show "keeps reg_kept (usb_port_change_callback event name)"
    unfolding usb_port_change_callback_def Let_def by (intro reg.ignores beside_rules beside_lists)
  show "keeps reg_kept (usb_read_thread_iter u wait)"
    unfolding usb_read_thread_iter_def by (cases wait) (simp_all only: read_wait.case, (intro reg.ignores beside_rules)+)
  show "keeps reg_kept (usb_write_thread_iter u)" "keeps reg_kept (write_thread_cleanup u)"
    unfolding usb_write_thread_iter_def write_thread_cleanup_def
    by (intro reg.ignores beside_rules tx_ReUseTXQElement [THEN beside_tx])+
qed

lemma thread_step_kept: "thread_step w w' \<Longrightarrow> reg_kept w w'"
  by (induction rule: thread_step.induct)
    (erule threads_kept(1) [THEN keepsD] threads_kept(2) [THEN keepsD] threads_kept(3) [THEN keepsD] threads_kept(4) [THEN keepsD]
      reg.workers(1) [THEN keepsD] reg.workers(2) [THEN keepsD] reg.workers(3) [THEN keepsD])+

lemma core_of_sys [simp]: "dcore (w\<lparr>sys := s\<rparr>) = dcore w" "ccore (w\<lparr>sys := s\<rparr>) = ccore w"
  by (simp_all add: dcore_def ccore_def fun_eq_iff)

lemma kept_on: "keeps (on_world reg_kept) m \<Longrightarrow> m d = Inr (x, d') \<Longrightarrow> registry_ok (d_world d) \<Longrightarrow> registry_ok (d_world d')"
  by (auto simp: keeps_def on_world_def reg_kept_def)

lemma reached_registry: "reached d \<Longrightarrow> registry_ok (d_world d)"
proof (induction rule: reached.induct)
  case (begins d)
  have "dcore (d_world d) = Map.empty" "ccore (d_world d) = Map.empty"
    using begins(1,2) by (auto simp: dcore_def ccore_def)
  then show ?case unfolding registry_ok_def reg_ok_def ids_ok_def begins(3) by simp
next
  case (starts d port r d')
  show ?case by (rule kept_on [OF reg.entry_points(1) starts.hyps(2) starts.IH])
next
  case (stops d r d')
  show ?case by (rule kept_on [OF reg.entry_points(2) stops.hyps(2) stops.IH])
next
  case (turns d fuel go d')
  show ?case by (rule kept_on [OF reg.main_round turns.hyps(2) turns.IH])
next
  case (adds d name event r d')
  show ?case by (rule kept_on [OF reg.entry_points(3) adds.hyps(2) adds.IH])
next
  case (removes d name event r d')
  show ?case by (rule kept_on [OF reg.entry_points(4) removes.hyps(2) removes.IH])
next
  case (monitors d name m r d')
  show ?case by (rule kept_on [OF reg.entry_points(5) monitors.hyps(2) monitors.IH])
next
  case (others d w)
  then show ?case using thread_step_kept by (simp add: reg_kept_def)
next
  case (environment d s ws ss n)
  then show ?case by (simp add: registry_ok_def)
qed

subsection \<open>What lookups find\<close>

text \<open>The device at \<open>p\<close> is in the list and has the id \<open>i\<close>; the connection \<open>c\<close> of \<open>dev\<close> has these ports.\<close>

definition listed :: "world \<Rightarrow> u32 \<Rightarrow> ptr \<Rightarrow> bool" where
  "listed w i p \<longleftrightarrow> p \<in> set (elems (device_list w)) \<and> (\<exists>v. dev_heap w p = Some v \<and> dev_id v = i)"

definition carries :: "world \<Rightarrow> ptr \<Rightarrow> u16 \<Rightarrow> u16 \<Rightarrow> ptr \<Rightarrow> bool" where
  "carries w dev sport dport c \<longleftrightarrow> (\<exists>v col k. dev_heap w dev = Some v \<and> dev_connections v = Some col \<and> c \<in> set (elems col) \<and>
     conn_heap w c = Some k \<and> conn_sport k = sport \<and> conn_dport k = dport)"

lemma find_exact:
  assumes "\<And>p. p \<in> set (elems col) \<Longrightarrow> hp w p \<noteq> None"
    and "\<And>p q r s. p \<in> set (elems col) \<Longrightarrow> q \<in> set (elems col) \<Longrightarrow> hp w p = Some r \<Longrightarrow> hp w q = Some s \<Longrightarrow> P r \<Longrightarrow> P s \<Longrightarrow> p = q"
  shows "\<exists>r. find_in hp P col w = Inr (r, w) \<and> (\<forall>p. r = Some p \<longleftrightarrow> p \<in> set (elems col) \<and> (\<exists>v. hp w p = Some v \<and> P v))"
proof -
  obtain r where r: "find_slot (hp w) P (elems col) = Inr r"
    using find_slot_alive [of "elems col" "hp w" P] assms(1) by blast
  have "r = Some p \<longleftrightarrow> p \<in> set (elems col) \<and> (\<exists>v. hp w p = Some v \<and> P v)" for p
  proof (cases r)
    case None
    then show ?thesis using r by (auto simp: find_slot_None)
  next
    case (Some q)
    then show ?thesis using find_slot_Some [OF r [unfolded Some]] assms(2) by auto
  qed
  then show ?thesis using r by (simp add: find_in_run)
qed

lemma lookup_device:
  assumes "registry_ok w"
  shows "\<exists>r. get_mux_device_for_id i w = Inr (r, w) \<and> (\<forall>p. r = Some p \<longleftrightarrow> listed w i p)"
proof -
  have ids: "ids_ok (dcore w) (elems (device_list w))" using assms by (simp add: registry_ok_def reg_ok_def)
  have "\<exists>r. find_in dev_heap (\<lambda>d. dev_id d = i) (device_list w) w = Inr (r, w) \<and>
      (\<forall>p. r = Some p \<longleftrightarrow> p \<in> set (elems (device_list w)) \<and> (\<exists>v. dev_heap w p = Some v \<and> dev_id v = i))"
  proof (rule find_exact)
    show "dev_heap w p \<noteq> None" if "p \<in> set (elems (device_list w))" for p
      using ids that by (auto simp: ids_ok_def dcore_def)
    show "p = q" if "p \<in> set (elems (device_list w))" "q \<in> set (elems (device_list w))" "dev_heap w p = Some r"
      "dev_heap w q = Some s" "dev_id r = i" "dev_id s = i" for p q r s
      using ids that by (auto simp: ids_ok_def dcore_def dev_core_def inj_on_def)
  qed
  then show ?thesis by (simp add: get_mux_device_for_id_def listed_def)
qed

lemma lookup_conn:
  assumes "registry_ok w" "dev_heap w dev = Some v" "dev_connections v = Some col"
  shows "\<exists>r. find_tcp_conn dev sport dport w = Inr (r, w) \<and> (\<forall>c. r = Some c \<longleftrightarrow> carries w dev sport dport c)"
proof -
  have conns: "conns_ok (ccore w) dev (elems col)"
    using assms unfolding registry_ok_def reg_ok_def by (auto simp: dcore_def dev_core_def)
  have "\<exists>r. find_in conn_heap (\<lambda>c. conn_sport c = sport \<and> conn_dport c = dport) col w = Inr (r, w) \<and>
      (\<forall>c. r = Some c \<longleftrightarrow> c \<in> set (elems col) \<and> (\<exists>k. conn_heap w c = Some k \<and> conn_sport k = sport \<and> conn_dport k = dport))"
  proof (rule find_exact)
    show "conn_heap w c \<noteq> None" if "c \<in> set (elems col)" for c
      using conns that by (force simp: conns_ok_def ccore_def)
    show "c = c'" if c: "c \<in> set (elems col)" "c' \<in> set (elems col)" "conn_heap w c = Some k" "conn_heap w c' = Some k'"
      and "conn_sport k = sport \<and> conn_dport k = dport" "conn_sport k' = sport \<and> conn_dport k' = dport" for c c' k k'
    proof -
      have "conn_dev k = dev" "conn_dev k' = dev"
        using conns c by (force simp: conns_ok_def ccore_def conn_core_def)+
      then have "ccore w c = ccore w c'" using that by (simp add: ccore_def conn_core_def)
      then show ?thesis using conns c unfolding conns_ok_def inj_on_def by blast
    qed
  qed
  then show ?thesis using assms(2,3) by (simp add: find_tcp_conn_def get_connections_run seq_Inr carries_def)
qed

lemma own_conns:
  assumes "registry_ok w" "dev_heap w dev = Some v" "dev_connections v = Some col" "c \<in> set (elems col)"
  shows "\<exists>k. conn_heap w c = Some k \<and> conn_dev k = dev \<and> conn_sport k \<noteq> 0"
proof -
  have "conns_ok (ccore w) dev (elems col)"
    using assms unfolding registry_ok_def reg_ok_def by (auto simp: dcore_def dev_core_def)
  then show ?thesis using assms(4) by (force simp: conns_ok_def ccore_def conn_core_def)
qed

lemma own_ports:
  assumes "registry_ok w" "dev_heap w dev = Some v" "dev_connections v = Some col"
  shows "inj_on (\<lambda>c. map_option conn_sport (conn_heap w c)) (set (elems col))"
proof (rule inj_onI)
  fix c c'
  assume c: "c \<in> set (elems col)" "c' \<in> set (elems col)"
    and e: "map_option conn_sport (conn_heap w c) = map_option conn_sport (conn_heap w c')"
  obtain k k' where "conn_heap w c = Some k" "conn_dev k = dev" "conn_heap w c' = Some k'" "conn_dev k' = dev"
    using own_conns [OF assms c(1)] own_conns [OF assms c(2)] by blast
  then have "ccore w c = ccore w c'" using e by (simp add: ccore_def conn_core_def)
  moreover have "conns_ok (ccore w) dev (elems col)"
    using assms unfolding registry_ok_def reg_ok_def by (auto simp: dcore_def dev_core_def)
  ultimately show "c = c'" using c unfolding conns_ok_def inj_on_def by blast
qed

text \<open>
  C2: who is who, in every state the daemon reaches. The search for a device id follows no dangling pointer and finds the
  one attached device that has the id; the search of an attached device for the ports of a packet finds the one
  connection that has them; and every connection in the list of a device is alive, belongs to that device and has a
  source port other than 0, which no other connection of the device has.
\<close>

theorem lookups_exact:
  assumes "reached d"
  shows "(\<exists>r. get_mux_device_for_id i (d_world d) = Inr (r, d_world d) \<and> (\<forall>p. r = Some p \<longleftrightarrow> listed (d_world d) i p)) \<and>
    (case dev_heap (d_world d) dev of
       None \<Rightarrow> True
     | Some v \<Rightarrow> (case dev_connections v of
         None \<Rightarrow> True
       | Some col \<Rightarrow>
           (\<exists>r. find_tcp_conn dev sport dport (d_world d) = Inr (r, d_world d) \<and>
              (\<forall>c. r = Some c \<longleftrightarrow> carries (d_world d) dev sport dport c)) \<and>
           (\<forall>c \<in> set (elems col). \<exists>k. conn_heap (d_world d) c = Some k \<and> conn_dev k = dev \<and> conn_sport k \<noteq> 0) \<and>
           inj_on (\<lambda>c. map_option conn_sport (conn_heap (d_world d) c)) (set (elems col))))"
  using lookup_device [OF reached_registry [OF assms]] lookup_conn [OF reached_registry [OF assms]]
    own_conns [OF reached_registry [OF assms]] own_ports [OF reached_registry [OF assms]]
  by (simp split: option.splits)

subsection \<open>A session\<close>

text \<open>
  A run of the main loop for a witness: each round is given its environment. The daemon of the run is listening, and the
  command to add the device at location 7 is pending. In the rounds, the device is added; its read thread connects; its
  version packet arrives; a client connects; the client sends the header of a connect request; and the rest of it.
\<close>

definition plugged :: daemon where
  "plugged = (idle_daemon (idle_world\<lparr>g_pending_devices := [\<lparr>pc_type = PENDING_DEVICE_COMMAND_ADD,
       pc_source = PENDING_DEVICE_COMMAND_SOURCE_MANUAL, pc_location = 7, pc_event = None, pc_monitor = DEVICE_MONITOR_ALWAYS\<rparr>]\<rparr>))
     \<lparr>g_hMainThread := True, hShutdownEvent := Some False, hClientsListenSocket := Some 3, hDevicesListenSocket := Some 4\<rparr>"

fun play :: "(sysenv \<times> select_result list) list \<Rightarrow> unit main" where
  "play [] = ret ()"
| "play ((env, sel) # rounds) =
     seq (modify (\<lambda>d. d\<lparr>d_world := (d_world d)\<lparr>sys := env\<rparr>, waits := [], selects := sel, d_net := idle_net\<rparr>)) (\<lambda>_.
     seq (main_iteration 1) (\<lambda>_. play rounds))"

lemma play_reached: "play rounds d = Inr (x, d') \<Longrightarrow> reached d \<Longrightarrow> reached d'"
proof (induction rounds arbitrary: d)
  case (Cons a rounds)
  obtain env sel where a: "a = (env, sel)" by (cases a)
  let ?d = "d\<lparr>d_world := (d_world d)\<lparr>sys := env\<rparr>, waits := [], selects := sel, d_net := idle_net\<rparr>"
  obtain go d1 where d1: "main_iteration 1 ?d = Inr (go, d1)" "play rounds d1 = Inr (x, d')"
    using Cons.prems(1) by (auto simp: a seq_eq_Inr)
  have "reached d1" by (rule reached.turns [OF reached.environment [OF Cons.prems(2)] d1(1)])
  from Cons.IH [OF d1(2) this] show ?case .
qed simp

definition ready_at :: "fd \<Rightarrow> select_result" where
  "ready_at s = SelectReady (\<lambda>r. r = s) (\<lambda>_. False)"

definition version_answer :: bytes where
  "version_answer = be32 0 @ be32 20 @ version_header_bytes \<lparr>vh_major = 2, vh_minor = 0, vh_padding = 0\<rparr>"

definition session :: "(sysenv \<times> select_result list) list" where
  "session =
     [(idle_env\<lparr>com_opens := [Some \<lparr>port_id = 7, port_wVID = 0x5ac, port_wPID = 0x12a8, port_bTurbo = False\<rparr>],
         com_device_descs := [Some (1, 1)], com_serials := [Some ''s''],
         com_configs := [(41, Some (replicate 9 0 @ [9, 4, 1, 0, 2, 255, 254, 2, 0] @ [7, 5, 4, 2, 0, 2, 0] @
           [7, 5, 0x85, 2, 0, 2, 0]))]\<rparr>, []),
      (idle_env\<lparr>accepts := [Some 9], recvs := [Some [0, 0, 0, 0]]\<rparr>, [ready_at 4]),
      (idle_env\<lparr>recvs := [Some [1]], reads := [RxDone version_answer]\<rparr>, [ready_at 9]),
      (idle_env\<lparr>accepts := [Some 7]\<rparr>, [ready_at 3]),
      (idle_env\<lparr>recvs := [Some [24, 0, 0, 0, 0, 0, 0, 0, 2, 0, 0, 0, 5, 0, 0, 0]]\<rparr>, [ready_at 7]),
      (idle_env\<lparr>recvs := [Some [1, 0, 0, 0, 0xf2, 0x7e, 0, 0]]\<rparr>, [ready_at 7])]"

lemma slots: "replicate (CAPACITY_STEP - Suc 0) None = [None, None, None, None, None, None, None]"
  "collection_init = [None, None, None, None, None, None, None, None]"
  by (simp_all add: CAPACITY_STEP_def collection_init_def numeral_eq_Suc)

text \<open>What the rounds run through, for the simplifier.\<close>

lemmas main_defs = main_iteration_def wait_for_def event_state_def GetCurrentIterationTimeout_def in_world_def
  device_get_timeout_def mstime64_def CreateFdSets_def client_add_fds_def device_add_fds_def FD_SET_def FD_SETSIZE_def
  sys_select_def handle_ready_def handle_idle_def ready_at_def SOCKETS_SELECT_INTERVAL_def idle_daemon_def
  device_check_timeouts_def accept_ready_def device_process_sockets_def client_process_def foreach_def slots

lemmas add_defs = usb_process_def usb_process_command_def usb_add_pending_device_def alloc_usb_device_def new_ptr_def
  enlist_device_def new_usb_device_def com_open_def api_ok_def get_usb_run upd_usb_run set_usb_def
  usb_update_monitored_devices_def find_in_def set_event_def start_device_def apple_port_def VID_APPLE_def
  PID_RANGE_LOW_def PID_RANGE_MAX_def usb_configure_device_def com_device_desc_def com_serial_def com_config_def
  usb_configure_mux_interface_def byte_at_def mux_interface_desc_def endpoint_desc_def no_info_def MUX_INTERFACE_def
  un_le16_def device_add_def get_next_device_id_def get_mux_device_for_id_def usb_get_location_def set_dev_def
  new_device_def logDeviceListStatus_def usb_start_read_thread_def connect_socket_def version_request_def

lemmas send_defs = send_packet_def get_dev_run mux_header_size_def USB_MTU_def packet_header_def reset_seq_def
  alloc_buf_def buf_read_def usb_send_def GetTXQElement_def ReUseTXQElement_def get_buf_def free_buf_run
  com_transfer_out_def sys_send_def mux_header_bytes_def be16_def be32_def version_header_bytes_def

lemmas input_defs = device_accept_socket_def sys_accept_def sys_recv_def un_le32_def usb_get_device_by_id_def
  find_dev_by_usb_def is_valid_device_def COM_MCEUSB_def upd_dev_run process_socket_def usb_get_read_result_def
  com_transfer_in_def rx_store_def DEVICE_RX_BUFFER_SIZE_def buf_put_def version_answer_def device_data_input_def gather_def
  mux_length_def USB_MRU_def DEV_MRU_def be32_at_def field_def dispatch_def read_version_header_def
  device_version_input_def device_info_of_def usb_get_serial_def usb_get_pid_def preflight_worker_device_add_def

lemmas request_defs = client_accept_def set_client_def new_client_def process_client_def get_client_run client_events_def
  process_recv_def recv_more_def recv_body_def run_command_def client_command_def connect_client_def
  device_start_connect_def upd_client_run read_usbmuxd_header_def CMD_BUF_SIZE_def buf_write_def le32_at_def be16_at_def
  find_sport_def get_connections_def set_conn_def send_tcp_def get_conn_run upd_conn_run conn_header_def tcp_header_def
  tcphdr_bytes_def new_connection_def has_bits_def POLLIN_def POLLOUT_def MESSAGE_CONNECT_def MESSAGE_PLIST_def
  MESSAGE_LISTEN_def

lemma session_runs: "\<exists>d. play session plugged = Inr ((), d) \<and> listed (d_world d) 1 101 \<and> carries (d_world d) 101 1 62078 107"
  by (simp add: session_def plugged_def idle_defs main_defs add_defs send_defs input_defs request_defs seq_def Let_def
      listed_def carries_def)

theorem lookups_exact_witness:
  "\<exists>d. play session plugged = Inr ((), d) \<and> get_mux_device_for_id 1 (d_world d) = Inr (Some 101, d_world d) \<and>
     find_tcp_conn 101 1 62078 (d_world d) = Inr (Some 107, d_world d)"
proof -
  obtain d where d: "play session plugged = Inr ((), d)" "listed (d_world d) 1 101" "carries (d_world d) 101 1 62078 107"
    using session_runs by blast
  have "reached plugged" by (rule reached.begins) (simp_all add: plugged_def idle_daemon_def idle_world_def)
  then have "reached d" by (rule play_reached [OF d(1)])
  from lookups_exact [OF this, of 1 101 1 62078] d(3)
  have "(\<exists>r. get_mux_device_for_id 1 (d_world d) = Inr (r, d_world d) \<and> (\<forall>p. r = Some p \<longleftrightarrow> listed (d_world d) 1 p)) \<and>
      (\<exists>r. find_tcp_conn 101 1 62078 (d_world d) = Inr (r, d_world d) \<and>
        (\<forall>c. r = Some c \<longleftrightarrow> carries (d_world d) 101 1 62078 c))"
    by (auto simp only: carries_def option.case)
  then show ?thesis using d by (intro exI [of _ d]) auto
qed

end
