(* ===== verification/Usb_Config.thy ===== *)
theory Usb_Config
  imports Usb_Mce
begin

text \<open>
  The search for the endpoints of the mux interface in a configuration descriptor (\<open>usb_configure_mux_interface\<close>
  of usb-mce.cpp): what it finds in a well-formed descriptor, and how it behaves when there is nothing to find.
\<close>

subsection \<open>The endpoints of the mux interface\<close>

text \<open>A well-formed descriptor: its first byte is its length, and it holds the fields of its type.\<close>

definition descriptor :: "bytes \<Rightarrow> bool" where
  "descriptor d \<longleftrightarrow> 2 \<le> length d \<and> length d < 256 \<and> d ! 0 = of_nat (length d) \<and>
     (d ! 1 = 4 \<longrightarrow> 9 \<le> length d) \<and> (d ! 1 = 5 \<longrightarrow> 7 \<le> length d)"

definition is_mux :: "bytes \<Rightarrow> bool" where
  "is_mux d \<longleftrightarrow> d ! 1 = 4 \<and> take 3 (drop 5 d) = MUX_INTERFACE \<and> d ! 4 = 2"

definition bulk :: "bytes \<Rightarrow> bool" where
  "bulk d \<longleftrightarrow> d ! 1 = 5 \<and> d ! 3 = 2"

definition bulk_in :: "bytes \<Rightarrow> bool" where
  "bulk_in d \<longleftrightarrow> d ! 2 AND 0x80 \<noteq> 0"

definition use_endpoint :: "bytes \<Rightarrow> usb_info \<Rightarrow> usb_info" where
  "use_endpoint d info =
     (if bulk_in d then info\<lparr>ui_ep_in := d ! 2\<rparr>
      else info\<lparr>ui_ep_out := d ! 2, ui_tx_max_packet_size := the (un_le16 (take 2 (drop 4 d)))\<rparr>)"

lemma walk_step:
  assumes "descriptor d"
  shows "walk_descriptors (d @ rest) found info =
    (if d ! 1 = 4 then walk_descriptors rest (found \<or> is_mux d) info
     else if found \<and> bulk d
     then (if ui_ep_in (use_endpoint d info) \<noteq> 0 \<and> ui_ep_out (use_endpoint d info) \<noteq> 0
           then Inr (True, use_endpoint d info) else walk_descriptors rest found (use_endpoint d info))
     else walk_descriptors rest found info)"
proof -
  obtain a b bs where d: "d = a # b # bs" using assms by (cases d rule: list.exhaust; cases "tl d") (auto simp: descriptor_def)
  have n: "unat (of_nat (length d) :: u8) = length d" using assms by (intro unat_of_nat_small) (simp add: descriptor_def)
  then have a: "unat a = length d" "a \<noteq> 0" using assms by (auto simp: descriptor_def d)
  have rest: "drop (unat a) (a # b # bs @ rest) = rest" using a(1) by (simp add: d)
  have m: "mux_interface_desc (d @ rest) = Inr (is_mux d)" if "b = 4"
  proof -
    have "9 \<le> length d" "d ! 1 = 4" using assms that by (auto simp: descriptor_def d)
    moreover from this have "take 3 (drop 5 d) = [d ! 5, d ! 6, d ! 7]"
      by (simp add: take_Suc_conv_app_nth numeral_eq_Suc)
    ultimately show ?thesis by (simp add: mux_interface_desc_def is_mux_def nth_append byte_at_def MUX_INTERFACE_def)
  qed
  have e: "endpoint_desc (d @ rest) info = Inr (if bulk d then Some (use_endpoint d info) else None)" if "b = 5"
  proof -
    have "7 \<le> length d" "d ! 1 = 5" using assms that by (auto simp: descriptor_def d)
    moreover from this have "2 - (length d - 4) = 0" by simp
    ultimately show ?thesis by (simp add: endpoint_desc_def bulk_def bulk_in_def use_endpoint_def nth_append)
  qed
  have "walk_descriptors (d @ rest) found info =
     (if b = 4 then case mux_interface_desc (d @ rest) of Inl h \<Rightarrow> Inl h | Inr m \<Rightarrow> walk_descriptors rest (found \<or> m) info
      else if b = 5 \<and> found
      then case endpoint_desc (d @ rest) info of
             Inl h \<Rightarrow> Inl h
           | Inr None \<Rightarrow> walk_descriptors rest found info
           | Inr (Some info) \<Rightarrow> if ui_ep_in info \<noteq> 0 \<and> ui_ep_out info \<noteq> 0 then Inr (True, info)
                                 else walk_descriptors rest found info
      else walk_descriptors rest found info)"
    unfolding d append_Cons walk_descriptors.simps(2) Let_def rest using a(2) by (simp add: byte_at_def)
  moreover have "d ! 1 = b" by (simp add: d)
  ultimately show ?thesis using m e by (simp add: bulk_def)
qed

lemma walk_before:
  assumes "\<forall>d \<in> set ds. descriptor d \<and> \<not> is_mux d"
  shows "walk_descriptors (concat ds @ rest) False info = walk_descriptors rest False info"
  using assms by (induction ds) (auto simp: walk_step)

text \<open>The first bulk endpoint behind the interface is used.\<close>

lemma walk_bulk:
  assumes "\<forall>d \<in> set es. descriptor d" "filter bulk es = x # zs"
    and "ui_ep_in (use_endpoint x info) = 0 \<or> ui_ep_out (use_endpoint x info) = 0"
  shows "\<exists>fs. (\<forall>d \<in> set fs. descriptor d) \<and> filter bulk fs = zs \<and>
     walk_descriptors (concat es @ rest) True info = walk_descriptors (concat fs @ rest) True (use_endpoint x info)"
  using assms
proof (induction es)
  case (Cons d es)
  show ?case
  proof (cases "bulk d")
    case True
    then show ?thesis using Cons.prems by (intro exI [of _ es]) (auto simp: walk_step bulk_def)
  next
    case False
    then show ?thesis using Cons by (auto simp: walk_step)
  qed
qed simp

lemma walk_last:
  assumes "\<forall>d \<in> set es. descriptor d" "filter bulk es = x # zs"
    and "ui_ep_in (use_endpoint x info) \<noteq> 0" "ui_ep_out (use_endpoint x info) \<noteq> 0"
  shows "walk_descriptors (concat es @ rest) True info = Inr (True, use_endpoint x info)"
  using assms
proof (induction es)
  case (Cons d es)
  then show ?case by (cases "bulk d") (auto simp: walk_step bulk_def)
qed simp

text \<open>
  C18: in a well-formed configuration descriptor the search finds the endpoints of the mux interface: of the
  descriptors behind the first mux interface, the first two bulk endpoints, when one is an input and the other an
  output, become the endpoints of the device, whichever comes first, and the packet size is the output's.
\<close>

theorem endpoints_found:
  assumes "usb_heap w dev = Some u" "ui_ep_in (ud_info u) = 0" "ui_ep_out (ud_info u) = 0"
    and "\<forall>d \<in> set (before @ m # es). descriptor d" "\<forall>d \<in> set before. \<not> is_mux d" "is_mux m" "length hdr = 9"
    and "filter bulk es = x # y # zs" "(i, out) = (x, y) \<or> (i, out) = (y, x)" "bulk_in i" "\<not> bulk_in out" "out ! 2 \<noteq> 0"
  shows "usb_configure_mux_interface dev (hdr @ concat (before @ m # es) @ rest) w =
     Inr (True, w\<lparr>usb_heap := (usb_heap w)(dev := Some (u\<lparr>ud_info := (ud_info u)\<lparr>ui_ep_in := i ! 2, ui_ep_out := out ! 2,
       ui_tx_max_packet_size := the (un_le16 (take 2 (drop 4 out)))\<rparr>\<rparr>))\<rparr>)"
proof -
  have i: "i ! 2 \<noteq> 0" using assms(10) by (auto simp: bulk_in_def)
  let ?info = "use_endpoint y (use_endpoint x (ud_info u))"
  have eq: "?info = (ud_info u)\<lparr>ui_ep_in := i ! 2, ui_ep_out := out ! 2,
       ui_tx_max_packet_size := the (un_le16 (take 2 (drop 4 out)))\<rparr>"
    using assms(9-11) by (auto simp: use_endpoint_def)
  have "walk_descriptors (concat (before @ m # es) @ rest) False (ud_info u) =
      walk_descriptors (concat es @ rest) True (ud_info u)"
    using assms(4-6) walk_before [of before "concat (m # es) @ rest"] by (simp add: walk_step is_mux_def)
  also have "ui_ep_in (use_endpoint x (ud_info u)) = 0 \<or> ui_ep_out (use_endpoint x (ud_info u)) = 0"
    using assms(2,3) by (simp add: use_endpoint_def)
  then obtain fs where fs: "\<forall>d \<in> set fs. descriptor d" "filter bulk fs = y # zs"
    "walk_descriptors (concat es @ rest) True (ud_info u) =
       walk_descriptors (concat fs @ rest) True (use_endpoint x (ud_info u))"
    using walk_bulk [of es x "y # zs" "ud_info u" rest] assms(4,8) by auto
  note fs(3)
  also have "walk_descriptors (concat fs @ rest) True (use_endpoint x (ud_info u)) = Inr (True, ?info)"
    by (rule walk_last [OF fs(1,2)]) (use i assms(12) in \<open>simp_all add: eq\<close>)
  finally show ?thesis using assms(1,7) by (simp add: usb_configure_mux_interface_def seq_Inr get_usb_run set_usb_def eq)
qed

theorem endpoints_found_witness:
  "usb_configure_mux_interface 30
       (replicate 9 0 @ concat ([9, 4, 0, 0, 3, 6, 1, 1, 0] # [9, 4, 1, 0, 2, 255, 254, 2, 0] #
          [[7, 5, 4, 2, 0, 2, 0], [7, 5, 0x85, 2, 0, 2, 0]]) @ [])
       (idle_world\<lparr>usb_heap := [30 \<mapsto> idle_usb\<lparr>ud_info := no_info\<rparr>]\<rparr>) =
     Inr (True, idle_world\<lparr>usb_heap := [30 \<mapsto> idle_usb\<lparr>ud_info := no_info\<lparr>ui_ep_in := 0x85, ui_ep_out := 4,
        ui_tx_max_packet_size := 512\<rparr>\<rparr>]\<rparr>)"
  using endpoints_found [of "idle_world\<lparr>usb_heap := [30 \<mapsto> idle_usb\<lparr>ud_info := no_info\<rparr>]\<rparr>" 30
      "idle_usb\<lparr>ud_info := no_info\<rparr>" "[[9, 4, 0, 0, 3, 6, 1, 1, 0]]" "[9, 4, 1, 0, 2, 255, 254, 2, 0]"
      "[[7, 5, 4, 2, 0, 2, 0], [7, 5, 0x85, 2, 0, 2, 0]]" "replicate 9 0" "[7, 5, 4, 2, 0, 2, 0]"
      "[7, 5, 0x85, 2, 0, 2, 0]" "[]" "[7, 5, 0x85, 2, 0, 2, 0]" "[7, 5, 4, 2, 0, 2, 0]" "[]"]
  by (simp add: no_info_def descriptor_def is_mux_def bulk_def bulk_in_def MUX_INTERFACE_def un_le16_def)

text \<open>
  C33: only a byte 0 ends the search: when no interface of the configuration is the mux interface, the code reads on
  behind the descriptor.
\<close>

theorem search_overruns:
  assumes "usb_heap w dev = Some u" "\<forall>d \<in> set ds. descriptor d \<and> \<not> is_mux d" "length hdr = 9"
  shows "usb_configure_mux_interface dev (hdr @ concat ds) w = Inl OutOfBounds"
  using walk_before [OF assms(2), of "[]"] assms(1,3) by (simp add: usb_configure_mux_interface_def seq_Inr get_usb_run)

theorem search_overruns_witness:
  "usb_configure_mux_interface 30 (replicate 9 0 @ concat [[9, 4, 0, 0, 3, 6, 1, 1, 0], [7, 5, 4, 2, 0, 2, 0]])
     (idle_world\<lparr>usb_heap := [30 \<mapsto> idle_usb]\<rparr>) = Inl OutOfBounds"
  by (rule search_overruns [where u = idle_usb]) (simp_all add: descriptor_def is_mux_def MUX_INTERFACE_def)

end
