(* ===== verification/Usb_Read.thy ===== *)
theory Usb_Read
  imports Usb_Mce
begin

text \<open>
  The read thread of a device (\<open>usb_read_thread_proc\<close> of usb-mce.cpp) and its handshake with the main thread: every
  completed transfer is announced by one byte on the device's socket, and the next transfer is started only when a
  byte has come back.
\<close>

subsection \<open>Starting a read\<close>

text \<open>The device holds \<open>bs\<close>, as much of it as its buffer takes.\<close>

definition received :: "usb_device \<Rightarrow> bytes \<Rightarrow> bool" where
  "received d bs \<longleftrightarrow> take (unat (ud_rx_data_size d)) (ud_rx_buffer d) = take DEVICE_RX_BUFFER_SIZE bs"

lemma rx_store_received: "received (rx_store bs d) bs"
proof -
  have "length (take DEVICE_RX_BUFFER_SIZE bs) < 2 ^ 32" by (simp add: DEVICE_RX_BUFFER_SIZE_def min_def)
  then show ?thesis by (simp add: received_def rx_store_def Let_def unat_of_nat_small buf_put_zero min_def)
qed

text \<open>What the thread leaves of the world when a transfer completes at once.\<close>

definition after_read :: "ptr \<Rightarrow> fd \<Rightarrow> bytes \<Rightarrow> world \<Rightarrow> bool" where
  "after_read dev s bs w \<longleftrightarrow> (\<exists>d. usb_heap w dev = Some d \<and> ud_rx_socket d = Some s \<and> received d bs)"

lemma start_read_run:
  assumes "usb_heap w dev = Some d" "ud_rx_socket d = Some s" "reads (sys w) = RxDone bs # rs"
  shows "\<exists>w'. usb_start_read dev w = Inr (True, w') \<and> after_read dev s bs w' \<and>
     sys w' = (sys w)\<lparr>reads := rs\<rparr>"
  using assms rx_store_received [of bs "d\<lparr>ud_rx_data_size := 0\<rparr>"]
  by (auto simp: usb_start_read_def seq_Inr upd_usb_run com_transfer_in_def after_read_def rx_store_def Let_def)

subsection \<open>The handshake\<close>

lemma data_round:
  assumes "after_read dev s b0 w" "sends (sys w) = []" "recvs (sys w) = Some [a] # as" "reads (sys w) = RxDone bs # rs"
  shows "\<exists>w'. usb_read_thread_iter dev ReadData w = Inr (True, w') \<and> after_read dev s bs w' \<and>
     sys w' = (sys w)\<lparr>sock_out := sock_out (sys w) @ [(s, [1])], recvs := as, reads := rs\<rparr>"
proof -
  obtain d where d: "usb_heap w dev = Some d" "ud_rx_socket d = Some s" using assms(1) by (auto simp: after_read_def)
  let ?w = "w\<lparr>sys := (sys w)\<lparr>sock_out := sock_out (sys w) @ [(s, [1])], recvs := as\<rparr>\<rparr>"
  obtain w' where w': "usb_start_read dev ?w = Inr (True, w')" "after_read dev s bs w'" "sys w' = (sys ?w)\<lparr>reads := rs\<rparr>"
    using start_read_run [of ?w dev d s bs rs] d assms(4) by auto
  have "usb_read_thread_iter dev ReadData w = usb_start_read dev ?w"
    using d assms(2,3) by (simp add: usb_read_thread_iter_def seq_Inr get_usb_run sys_send_def sys_recv_def)
  with w' show ?thesis by auto
qed

text \<open>
  What ends the thread: the stop event, a failed wait, or a transfer whose announcement the main thread does not answer
  with a byte, because the answers \<open>as\<close> from the socket are used up, the next is an error, or the socket was closed.
\<close>

definition ends_thread :: "read_wait \<Rightarrow> bytes option list \<Rightarrow> bool" where
  "ends_thread x as \<longleftrightarrow> x \<noteq> ReadTimeout \<and> (x = ReadData \<longrightarrow> as = [] \<or> hd as = None \<or> hd as = Some [])"

lemma end_round:
  assumes "after_read dev s b0 w" "sends (sys w) = []" "ends_thread x (recvs (sys w))"
  shows "\<exists>w'. usb_read_thread_iter dev x w = Inr (False, w') \<and> after_read dev s b0 w' \<and> reads (sys w') = reads (sys w) \<and>
     recvs (sys w') = (if x = ReadData then tl (recvs (sys w)) else recvs (sys w)) \<and>
     sock_out (sys w') = sock_out (sys w) @ (if x = ReadData then [(s, [1])] else [])"
proof (cases "x = ReadData")
  case True
  obtain d where d: "usb_heap w dev = Some d" "ud_rx_socket d = Some s" using assms(1) by (auto simp: after_read_def)
  let ?w = "w\<lparr>sys := (sys w)\<lparr>sock_out := sock_out (sys w) @ [(s, [1])], recvs := tl (recvs (sys w))\<rparr>\<rparr>"
  obtain r where r: "sys_recv s 1 (w\<lparr>sys := (sys w)\<lparr>sock_out := sock_out (sys w) @ [(s, [1])]\<rparr>\<rparr>) = Inr (r, ?w)"
    "map_option length r \<noteq> Some 1"
    using assms(3) True by (cases "recvs (sys w)") (auto simp: sys_recv_def ends_thread_def)
  have "usb_read_thread_iter dev ReadData w = Inr (False, ?w)"
    using d assms(2) r by (simp add: usb_read_thread_iter_def seq_Inr get_usb_run sys_send_def)
  moreover have "after_read dev s b0 ?w" using assms(1) by (simp add: after_read_def)
  ultimately show ?thesis using True by simp
next
  case False
  then have "usb_read_thread_iter dev x w = Inr (False, w)"
    using assms(3) by (cases x) (simp_all add: usb_read_thread_iter_def ends_thread_def)
  then show ?thesis using False assms(1) by simp
qed

lemma loop_run:
  assumes "filter (\<lambda>x. x \<noteq> ReadTimeout) ws = replicate (length bss) ReadData"
    and "after_read dev s b0 w" "sends (sys w) = []" "length acks = length bss"
    and "recvs (sys w) = map (\<lambda>a. Some [a]) acks @ as" "reads (sys w) = map RxDone bss @ rs" "ends_thread x as"
  shows "\<exists>w'. usb_read_thread_loop (ws @ x # later) dev w = Inr (later, w') \<and>
     after_read dev s (last (b0 # bss)) w' \<and> recvs (sys w') = (if x = ReadData then tl as else as) \<and> reads (sys w') = rs \<and>
     sock_out (sys w') = sock_out (sys w) @ replicate (length bss + of_bool (x = ReadData)) (s, [1])"
  using assms
proof (induction ws arbitrary: w b0 bss acks)
  case Nil
  then have none: "bss = []" "recvs (sys w) = as" "reads (sys w) = rs" by auto
  obtain w' where w': "usb_read_thread_iter dev x w = Inr (False, w')" "after_read dev s b0 w'" "reads (sys w') = rs"
    "recvs (sys w') = (if x = ReadData then tl as else as)"
    "sock_out (sys w') = sock_out (sys w) @ (if x = ReadData then [(s, [1])] else [])"
    using end_round [OF Nil.prems(2,3), of x] Nil.prems(7) none by auto
  have "usb_read_thread_loop ([] @ x # later) dev w = Inr (later, w')" by (simp add: seq_run w'(1))
  then show ?case using none w'(2-) by (intro exI [of _ w']) (simp del: usb_read_thread_loop.simps)
next
  case (Cons y ws)
  show ?case
  proof (cases "y = ReadTimeout")
    case True
    then show ?thesis using Cons.IH [OF _ Cons.prems(2-7)] Cons.prems(1) by (simp add: usb_read_thread_iter_def seq_Inr)
  next
    case False
    then obtain bs bss' where b: "bss = bs # bss'" "y = ReadData" "filter (\<lambda>x. x \<noteq> ReadTimeout) ws = replicate (length bss') ReadData"
      using Cons.prems(1) by (cases bss) auto
    obtain a acks' where a: "acks = a # acks'" "length acks' = length bss'" using Cons.prems(4) b(1) by (cases acks) auto
    obtain w1 where w1: "usb_read_thread_iter dev ReadData w = Inr (True, w1)" "after_read dev s bs w1"
      "sys w1 = (sys w)\<lparr>sock_out := sock_out (sys w) @ [(s, [1])], recvs := map (\<lambda>a. Some [a]) acks' @ as,
         reads := map RxDone bss' @ rs\<rparr>"
      using data_round [OF Cons.prems(2,3), of a "map (\<lambda>a. Some [a]) acks' @ as" bs "map RxDone bss' @ rs"]
        Cons.prems(5,6) a(1) b(1) by auto
    from Cons.IH [OF b(3) w1(2) _ a(2), unfolded w1(3)] Cons.prems(3,7) obtain w' where
      "usb_read_thread_loop (ws @ x # later) dev w1 = Inr (later, w')" "after_read dev s (last (bs # bss')) w'"
      "recvs (sys w') = (if x = ReadData then tl as else as)" "reads (sys w') = rs"
      "sock_out (sys w') = sock_out (sys w) @ (s, [1]) # replicate (length bss' + of_bool (x = ReadData)) (s, [1])" by auto
    then show ?thesis using w1(1) b(1,2) by (simp add: seq_Inr)
  qed
qed



end
