(* ===== verification/Closing.thy ===== *)
theory Closing
  imports Tcp
begin

text \<open>
  What \<open>connection_teardown\<close> does to an established connection: the reset to the device, the flush of
  the bytes that were buffered for the client, and what is left of connection, client and device.
\<close>

subsection \<open>The flush\<close>

text \<open>
  What \<open>send\<close> answers for \<open>n\<close> bytes, given what the socket accepts, and how many of \<open>n\<close> buffered bytes a
  flush gets rid of: it goes on after a partial write and stops at an error or a write of nothing.
\<close>

fun send_answer :: "int list \<Rightarrow> nat \<Rightarrow> int" where
  "send_answer [] n = int n"
| "send_answer (r # rs) n = (if r < 0 then -1 else int (min (nat r) n))"

fun flushed :: "int list \<Rightarrow> nat \<Rightarrow> nat" where
  "flushed [] n = n"
| "flushed (r # rs) n = (if r \<le> 0 then 0 else if n \<le> nat r then n else nat r + flushed rs (n - nat r))"

definition flush_size :: "world \<Rightarrow> mux_connection \<Rightarrow> mux_client \<Rightarrow> nat" where
  "flush_size w c kc =
     (if has_bits POLLOUT (conn_events c) \<and> cl_state kc = CLIENT_CONNECTED
      then flushed (sends (sys w)) (length (ib_pending c)) else 0)"

text \<open>The bytes \<open>bs\<close> were written to \<open>s\<close>, nothing to another socket, and no packet was sent.\<close>

definition wrote :: "fd \<Rightarrow> bytes \<Rightarrow> sysenv \<Rightarrow> sysenv \<Rightarrow> bool" where
  "wrote s bs e e' \<longleftrightarrow> closed_socks e' = closed_socks e \<and> usb_out e' = usb_out e \<and>
     (\<forall>f. concat (map snd (filter (\<lambda>x. fst x = f) (sock_out e'))) =
        concat (map snd (filter (\<lambda>x. fst x = f) (sock_out e))) @ (if f = s then bs else []))"

lemma wrote_nil [simp]: "wrote s [] e e"
  by (simp add: wrote_def)

lemma wrote_trans: "wrote s bs e e' \<Longrightarrow> wrote s cs e' e'' \<Longrightarrow> wrote s (bs @ cs) e e''"
  by (simp add: wrote_def)

lemma client_write_answer:
  assumes "client_heap w k = Some kc" "cl_state kc = CLIENT_CONNECTED"
  shows "\<exists>s. client_write k bs w = Inr (send_answer (sends (sys w)) (length bs), w\<lparr>sys := s\<rparr>) \<and>
     sends s = tl (sends (sys w)) \<and> wrote (cl_fd kc) (take (nat (send_answer (sends (sys w)) (length bs))) bs) (sys w) s"
proof (cases "sends (sys w)")
  case Nil
  then show ?thesis
    using assms by (intro exI [of _ "(sys w)\<lparr>sock_out := sock_out (sys w) @ [(cl_fd kc, bs)]\<rparr>"])
      (simp add: client_write_def seq_Inr get_client_run sys_send_def wrote_def)
next
  case (Cons r rs)
  then show ?thesis
    using assms by (intro exI [of _ "(sys w)\<lparr>sends := rs, sock_out := sock_out (sys w) @
          (if r < 0 then [] else [(cl_fd kc, take (min (nat r) (length bs)) bs)])\<rparr>"])
      (simp add: client_write_def seq_Inr get_client_run sys_send_def wrote_def Let_def)
qed

lemma flush_run:
  assumes "conn_heap w conn = Some c" "ib_ok c" "client_heap w k = Some kc" "cl_state kc = CLIENT_CONNECTED"
    and "unat (conn_ib_size c) < n"
  shows "\<exists>c' s. teardown_flush n conn k w = Inr ((), w\<lparr>conn_heap := (conn_heap w)(conn := Some c'), sys := s\<rparr>) \<and>
     conn_dev c' = conn_dev c \<and>
     wrote (cl_fd kc) (take (flushed (sends (sys w)) (length (ib_pending c))) (ib_pending c)) (sys w) s"
  using assms
proof (induction n arbitrary: w c)
  case 0
  then show ?case by simp
next
  case (Suc n)
  define r where "r = send_answer (sends (sys w)) (length (ib_pending c))"
  obtain s where cw: "client_write k (ib_pending c) w = Inr (r, w\<lparr>sys := s\<rparr>)" "sends s = tl (sends (sys w))"
    "wrote (cl_fd kc) (take (nat r) (ib_pending c)) (sys w) s"
    using client_write_answer [OF Suc.prems(3,4)] unfolding r_def by blast
  note len = length_ib_pending [OF Suc.prems(2)]
  let ?c = "ib_consume (nat r) c"
  let ?w = "w\<lparr>sys := s, conn_heap := (conn_heap w)(conn := Some ?c)\<rparr>"
  have run: "teardown_flush (Suc n) conn k w =
      (if r \<le> 0 then Inr ((), w\<lparr>sys := s\<rparr>)
       else if nat r = unat (conn_ib_size c) then Inr ((), ?w) else teardown_flush n conn k ?w)"
    using Suc.prems cw(1) by (simp add: seq_Inr get_conn_run read_ib_pending set_conn_def)
  have small: "nat r \<le> length (ib_pending c)"
    by (cases "sends (sys w)") (auto simp: r_def)
  have total: "flushed (sends (sys w)) (length (ib_pending c)) =
      (if r \<le> 0 then 0 else if nat r = length (ib_pending c) then nat r
       else nat r + flushed (sends s) (length (ib_pending c) - nat r))"
    using cw(2) by (cases "sends (sys w)") (auto simp: r_def min_def)
  consider "r \<le> 0" | "0 < r" "nat r = unat (conn_ib_size c)" | "0 < r" "nat r < unat (conn_ib_size c)"
    using small len by linarith
  then show ?case
  proof cases
    case 1
    then show ?thesis
      using run cw(3) total
      by (intro exI [of _ c] exI [of _ s]) (simp only: conn_heap_idem [OF Suc.prems(1)], simp)
  next
    case 2
    then show ?thesis
      using run cw(3) total len
      by (intro exI [of _ ?c] exI [of _ s]) (simp add: ib_consume_fields fun_upd_def del: teardown_flush.simps)
  next
    case 3
    then have n: "nat r \<le> unat (conn_ib_size c)" "0 < nat r" by auto
    have "\<exists>c' s'. teardown_flush n conn k ?w = Inr ((), ?w\<lparr>conn_heap := (conn_heap ?w)(conn := Some c'), sys := s'\<rparr>) \<and>
     conn_dev c' = conn_dev ?c \<and>
     wrote (cl_fd kc) (take (flushed (sends (sys ?w)) (length (ib_pending ?c))) (ib_pending ?c)) (sys ?w) s'"
      by (rule Suc.IH)
        (use Suc.prems ib_consume_pending [OF Suc.prems(2) n(1)] ib_consume_size [OF n(1)] n in auto)
    then obtain c' s' where r: "teardown_flush n conn k ?w = Inr ((), ?w\<lparr>conn_heap := (conn_heap ?w)(conn := Some c'), sys := s'\<rparr>)"
      "conn_dev c' = conn_dev c"
      "wrote (cl_fd kc) (take (flushed (sends s) (length (ib_pending c) - nat r)) (drop (nat r) (ib_pending c))) s s'"
      using ib_consume_pending(2) [OF Suc.prems(2) n(1)] by (auto simp: ib_consume_fields)
    have "wrote (cl_fd kc) (take (flushed (sends (sys w)) (length (ib_pending c))) (ib_pending c)) (sys w) s'"
      using wrote_trans [OF cw(3) r(3)] total 3 len by (simp add: take_add)
    moreover have "teardown_flush (Suc n) conn k w = Inr ((), w\<lparr>conn_heap := (conn_heap w)(conn := Some c'), sys := s'\<rparr>)"
      using run 3 r(1) by (simp add: fun_upd_def cong: if_cong)
    ultimately show ?thesis using r(2) by blast
  qed
qed

subsection \<open>The teardown\<close>

text \<open>
  An established connection \<open>conn\<close> of the client \<open>k\<close> on the device \<open>d\<close>. The teardown sends a \<open>RST\<close>, for
  which the link has to be up, unless the device is gone or the device has reset the connection itself.
\<close>

definition resets :: "mux_device \<Rightarrow> mux_connection \<Rightarrow> bool" where
  "resets d c \<longleftrightarrow> dev_state d \<noteq> MUXDEV_DEAD \<and> conn_state c = CONN_CONNECTED"

definition established :: "world \<Rightarrow> ptr \<Rightarrow> ptr \<Rightarrow> mux_connection \<Rightarrow> mux_client \<Rightarrow> mux_device \<Rightarrow> bool" where
  "established w conn k c kc d \<longleftrightarrow>
     conn_heap w conn = Some c \<and> conn_client c = Some k \<and> client_heap w k = Some kc \<and> ib_ok c \<and>
     (conn_state c = CONN_CONNECTED \<or> conn_state c = CONN_DYING) \<and> \<not> connecting (cl_state kc) \<and>
     dev_heap w (conn_dev c) = Some d \<and> dev_connections d \<noteq> None \<and>
     (resets d c \<longrightarrow> (\<exists>u. can_send w (conn_dev c) d u \<and> ud_tx_thread u))"

definition take_off :: "ptr \<Rightarrow> mux_device \<Rightarrow> mux_device" where
  "take_off conn d = d\<lparr>dev_connections := map_option (\<lambda>col. collection_remove col conn) (dev_connections d)\<rparr>"

text \<open>What follows the \<open>RST\<close>.\<close>

definition closing :: "ptr \<Rightarrow> ptr \<Rightarrow> mux_connection \<Rightarrow> mux_client \<Rightarrow> mux_device \<Rightarrow> world \<Rightarrow> world \<Rightarrow> bool" where
  "closing conn k c kc d w w' \<longleftrightarrow>
     conn_heap w' = (conn_heap w)(conn := None) \<and> client_heap w' = (client_heap w)(k := None) \<and>
     client_list w' = collection_remove (client_list w) k \<and> device_list w' = device_list w \<and>
     dev_heap w' = (dev_heap w)(conn_dev c := Some (take_off conn d)) \<and>
     closed_socks (sys w') = closed_socks (sys w) @ [cl_fd kc] \<and> usb_out (sys w') = usb_out (sys w) \<and>
     (\<forall>f. sent_on f w' = sent_on f w @ (if f = cl_fd kc then take (flush_size w c kc) (ib_pending c) else []))"

lemma flush_if_asked:
  assumes "conn_heap w conn = Some c0" "ib_ok c0" "client_heap w k = Some kc" "ib_pending c0 = ib_pending c"
    and "conn_ib_size c0 = conn_ib_size c" "ib_ok c"
  shows "\<exists>c' s. (if has_bits POLLOUT (conn_events c) \<and> conn_ib_size c > 0
       then teardown_flush (Suc (unat (conn_ib_size c))) conn k else ret ()) w =
       Inr ((), w\<lparr>conn_heap := (conn_heap w)(conn := Some c'), sys := s\<rparr>) \<and>
     conn_dev c' = conn_dev c0 \<and> wrote (cl_fd kc) (take (flush_size w c kc) (ib_pending c)) (sys w) s"
proof -
  let ?flush = "teardown_flush (Suc (unat (conn_ib_size c))) conn k w"
  have idle: "w = w\<lparr>conn_heap := (conn_heap w)(conn := Some c0), sys := sys w\<rparr>"
    using conn_heap_idem [OF assms(1), of "sys w"] by simp
  consider (off) "\<not> (has_bits POLLOUT (conn_events c) \<and> conn_ib_size c > 0)"
    | (deaf) "has_bits POLLOUT (conn_events c)" "conn_ib_size c > 0" "cl_state kc \<noteq> CLIENT_CONNECTED"
    | (on) "has_bits POLLOUT (conn_events c)" "conn_ib_size c > 0" "cl_state kc = CLIENT_CONNECTED" by blast
  then show ?thesis
  proof cases
    case off
    then have "take (flush_size w c kc) (ib_pending c) = []"
      by (auto simp: flush_size_def ib_pending_def word_gt_0)
    then show ?thesis using off idle by (intro exI [of _ c0] exI [of _ "sys w"]) auto
  next
    case deaf
    have "client_write k (ib_pending c0) w = Inr (-1, w)"
      using assms(3) deaf(3) by (simp add: client_write_def seq_Inr get_client_run)
    then have "?flush = Inr ((), w)"
      using assms(1,2) by (simp add: seq_Inr get_conn_run read_ib_pending)
    then show ?thesis using deaf idle
      by (intro exI [of _ c0] exI [of _ "sys w"]) (simp add: flush_size_def del: teardown_flush.simps)
  next
    case on
    then show ?thesis
      using flush_run [OF assms(1-3) on(3), of "Suc (unat (conn_ib_size c))"] assms(4,5)
      by (simp add: flush_size_def del: teardown_flush.simps)
  qed
qed

lemma closing_run:
  assumes "conn_heap w conn = Some c1" "client_heap w k = Some kc" "ib_ok c" "\<not> connecting (cl_state kc)"
    and "dev_heap w (conn_dev c) = Some d" "dev_connections d \<noteq> None"
    and "conn_dev c1 = conn_dev c" "conn_ib_size c1 = conn_ib_size c" "conn_ib_buf c1 = conn_ib_buf c"
  obtains w' where "seq (seq (upd_conn conn (\<lambda>c. c\<lparr>conn_state := CONN_DEAD\<rparr>)) (\<lambda>_.
        seq (if has_bits POLLOUT (conn_events c) \<and> conn_ib_size c > 0
             then teardown_flush (Suc (unat (conn_ib_size c))) conn k else ret ()) (\<lambda>_. client_close (Suc n) k)))
        (\<lambda>_. teardown_release conn) w = Inr ((), w')" "closing conn k c kc d w w'"
proof -
  let ?c = "c1\<lparr>conn_state := CONN_DEAD\<rparr>"
  let ?w = "w\<lparr>conn_heap := (conn_heap w)(conn := Some ?c)\<rparr>"
  define flush where "flush = (if has_bits POLLOUT (conn_events c) \<and> conn_ib_size c > 0
       then teardown_flush (Suc (unat (conn_ib_size c))) conn k else ret ())"
  obtain col where col: "dev_connections d = Some col" using assms(6) by auto
  have same: "conn_heap ?w conn = Some ?c" "ib_ok ?c" "client_heap ?w k = Some kc" "ib_pending ?c = ib_pending c"
    "conn_ib_size ?c = conn_ib_size c"
    using assms by (simp_all add: ib_ok_def ib_pending_def)
  obtain c' s where fl: "flush ?w = Inr ((), w\<lparr>conn_heap := (conn_heap w)(conn := Some c'), sys := s\<rparr>)"
    and c': "conn_dev c' = conn_dev c" and wr: "wrote (cl_fd kc) (take (flush_size w c kc) (ib_pending c)) (sys w) s"
    using flush_if_asked [OF same(1-5) assms(3)] assms(7) unfolding flush_def
    by (auto simp: flush_size_def fun_upd_def cong: if_cong)
  let ?w2 = "w\<lparr>conn_heap := (conn_heap w)(conn := Some c'), sys := s\<rparr>"
  let ?w3 = "?w2\<lparr>sys := s\<lparr>closed_socks := closed_socks s @ [cl_fd kc]\<rparr>,
     client_list := collection_remove (client_list w) k, client_heap := (client_heap w)(k := None)\<rparr>"
  have close: "client_close (Suc n) k ?w2 = Inr ((), ?w3)"
    using assms(2,4) by (simp add: seq_Inr get_client_run connecting_def client_release_def closesocket_run
        free_client_run)
  let ?w4 = "?w3\<lparr>dev_heap := (dev_heap w)(conn_dev c := Some (take_off conn d)), conn_heap := (conn_heap w)(conn := None)\<rparr>"
  have rel: "teardown_release conn ?w3 = Inr ((), ?w4)"
    using assms(5) col c' by (simp add: teardown_release_def remove_connection_def seq_Inr get_conn_run upd_dev_run
        get_connections_run free_conn_run take_off_def)
  have "seq (seq (upd_conn conn (\<lambda>c. c\<lparr>conn_state := CONN_DEAD\<rparr>)) (\<lambda>_. seq flush (\<lambda>_. client_close (Suc n) k)))
        (\<lambda>_. teardown_release conn) w = Inr ((), ?w4)"
    using assms(1) fl close rel by (simp add: seq_Inr upd_conn_run del: client_close.simps)
  moreover have "closing conn k c kc d w ?w4"
    using wr by (simp add: closing_def wrote_def sent_on_def)
  ultimately show thesis using that unfolding flush_def by blast
qed

text \<open>The \<open>RST\<close> changes what \<open>segment_sent\<close> says, or the transfer fails and the process ends.\<close>

lemma teardown_rst_run:
  assumes "established w conn k c kc d"
  obtains "resets d c" "teardown_rst conn w = Inl ProcessExit"
  | w1 where "resets d c" "teardown_rst conn w = Inr ((), w1)" "segment_sent conn c d TH_RST [] w w1"
  | "\<not> resets d c" "teardown_rst conn w = Inr ((), w)"
proof (cases "resets d c")
  case False
  then have "teardown_rst conn w = Inr ((), w)"
    using assms by (auto simp: established_def resets_def teardown_rst_def seq_Inr get_conn_run get_dev_run)
  with False show thesis using that(3) by blast
next
  case True
  have h: "conn_heap w conn = Some c" "dev_heap w (conn_dev c) = Some d"
    using assms by (simp_all add: established_def)
  obtain u where u: "can_send w (conn_dev c) d u" "ud_tx_thread u"
    using assms True by (auto simp: established_def)
  have fits: "mux_header_size d + 20 + length ([] :: bytes) \<le> USB_MTU"
    using mux_header_size_bound [of d] by (simp add: USB_MTU_def)
  have run: "teardown_rst conn w = seq (send_tcp conn TH_RST []) (\<lambda>_. ret ()) w"
    using True h by (simp add: teardown_rst_def seq_Inr get_conn_run get_dev_run resets_def)
  from h(1) u fits show thesis
  proof (cases rule: send_tcp_run [where flags = TH_RST])
    case 1
    then show thesis using that(1) True run by (simp add: seq_Inl)
  next
    case (2 w1)
    then show thesis using that(2) True run by (simp add: seq_Inr)
  qed
qed

text \<open>
  C12: Tearing down an established connection, connected or reset by its device, on a device in any
  state. If the connection is connected and the device not gone, the device is sent exactly one packet,
  a \<open>RST\<close> segment with the connection's numbers (the process ends when that transfer fails); otherwise
  the device is sent nothing. Then the client is sent the buffered bytes if the poll mask of the connection
  asks for output, in order, and all of them unless its socket stops taking bytes: an error or a
  write of nothing ends the flush, a partial write does not. The client's socket is closed, the client
  is freed and off the client list, the connection is freed and off its device. No other client is sent
  anything, and other connections, clients and devices are untouched.
\<close>

theorem teardown_closes:
  assumes "established w conn k c kc d"
  shows "case teardown conn w of
       Inl h \<Rightarrow> resets d c \<and> h = ProcessExit
     | Inr (_, w') \<Rightarrow>
         (if resets d c then transmitted (dev_usbdev d) (segment d c TH_RST []) w w'
          else usb_out (sys w') = usb_out (sys w)) \<and>
         conn_heap w' = (conn_heap w)(conn := None) \<and> client_heap w' = (client_heap w)(k := None) \<and>
         client_list w' = collection_remove (client_list w) k \<and> device_list w' = device_list w \<and>
         dev_heap w' = (dev_heap w)(conn_dev c := Some (take_off conn
           (if resets d c then snd (packet_header MUX_PROTO_TCP (mux_header_size d + 20) d) else d))) \<and>
         closed_socks (sys w') = closed_socks (sys w) @ [cl_fd kc] \<and>
         (\<forall>s. sent_on s w' = sent_on s w @ (if s = cl_fd kc then take (flush_size w c kc) (ib_pending c) else []))"
proof -
  note h = assms [unfolded established_def]
  define rest where "rest = seq (seq (upd_conn conn (\<lambda>c. c\<lparr>conn_state := CONN_DEAD\<rparr>)) (\<lambda>_.
        seq (if has_bits POLLOUT (conn_events c) \<and> conn_ib_size c > 0
             then teardown_flush (Suc (unat (conn_ib_size c))) conn k else ret ()) (\<lambda>_. client_close (Suc 6) k)))
        (\<lambda>_. teardown_release conn)"
  have f: "TEARDOWN_FUEL = Suc (Suc 6)" by (simp add: TEARDOWN_FUEL_def)
  have run: "teardown conn w = seq (teardown_rst conn) (\<lambda>_. rest) w"
    unfolding f connection_teardown.simps rest_def using h
    by (auto simp: seq_Inr get_conn_run simp del: client_close.simps teardown_flush.simps)
  from assms show ?thesis
  proof (cases rule: teardown_rst_run)
    case 1
    then show ?thesis by (simp add: run seq_Inl)
  next
    case (2 w1)
    then obtain t where seg: "conn_heap w1 = (conn_heap w)(conn := Some (acked t c))" "client_heap w1 = client_heap w"
      "device_list w1 = device_list w" "client_list w1 = client_list w" "quiet w w1"
      "dev_heap w1 = (dev_heap w)(conn_dev c := Some (snd (packet_header MUX_PROTO_TCP (mux_header_size d + 20) d)))"
      "transmitted (dev_usbdev d) (segment d c TH_RST []) w w1"
      by (auto simp: segment_sent_def)
    obtain w' where w': "rest w1 = Inr ((), w')"
      "closing conn k c kc (snd (packet_header MUX_PROTO_TCP (mux_header_size d + 20) d)) w1 w'"
      using closing_run [of w1 conn "acked t c" k kc c "snd (packet_header MUX_PROTO_TCP (mux_header_size d + 20) d)" 6] seg h
      unfolding rest_def by (auto simp del: client_close.simps teardown_flush.simps)
    have "flush_size w1 c kc = flush_size w c kc" "sent_on s w1 = sent_on s w" for s
      using seg(5) by (simp_all add: flush_size_def quiet_def sent_on_def)
    then show ?thesis
      using run 2(1,2) w' seg by (simp add: seq_Inr closing_def quiet_def transmitted_def)
  next
    case 3
    obtain w' where w': "rest w = Inr ((), w')" "closing conn k c kc d w w'"
      using closing_run [of w conn c k kc c d 6] h
      unfolding rest_def by (auto simp del: client_close.simps teardown_flush.simps)
    then show ?thesis
      using run 3 by (simp add: seq_Inr closing_def)
  qed
qed

text \<open>
  A connected connection with four buffered bytes: its device is reset, and a socket that takes two bytes, then
  one, then none gets three of them. On a dead device nothing is sent to the device, and a socket that
  takes two bytes and then any number gets all four.
\<close>

theorem teardown_closes_witness:
  "let c = (idle_conn CONN_CONNECTED [1, 2, 3, 4])\<lparr>conn_events := POLLOUT\<rparr>;
       w = (\<lambda>d ss. (link_world d c (idle_client CLIENT_CONNECTED))\<lparr>sys := idle_env\<lparr>sends := ss\<rparr>\<rparr>);
       d = idle_device MUXDEV_ACTIVE [40]
   in (case teardown 40 (w d [2, 1, 0]) of
         Inl h \<Rightarrow> h = ProcessExit
       | Inr (_, w') \<Rightarrow> transmitted 30 (segment d c TH_RST []) (w d [2, 1, 0]) w' \<and> conn_heap w' 40 = None \<and>
           client_heap w' 20 = None \<and> closed_socks (sys w') = [7] \<and> sent_on 7 w' = [1, 2, 3]) \<and>
      (\<exists>w'. teardown 40 (w (idle_device MUXDEV_DEAD [40]) [2]) = Inr ((), w') \<and> usb_out (sys w') = [] \<and>
         sent_on 7 w' = [1, 2, 3, 4])"
proof -
  define c where "c = (idle_conn CONN_CONNECTED [1, 2, 3, 4])\<lparr>conn_events := POLLOUT\<rparr>"
  define w where "w = (\<lambda>d ss. (link_world d c (idle_client CLIENT_CONNECTED))\<lparr>sys := idle_env\<lparr>sends := ss\<rparr>\<rparr>)"
  define d where "d = idle_device MUXDEV_ACTIVE [40]"
  have e: "established (w (idle_device st [40]) ss) 40 20 c (idle_client CLIENT_CONNECTED) (idle_device st [40])" for st ss
    by (simp add: established_def resets_def can_send_def w_def c_def ib_ok_def connecting_def idle_defs)
  have r: "resets d c" "\<not> resets (idle_device MUXDEV_DEAD [40]) c" "dev_usbdev d = 30"
    "cl_fd (idle_client CLIENT_CONNECTED) = 7"
    by (simp_all add: resets_def d_def c_def idle_device_def idle_conn_def idle_client_def)
  have s: "closed_socks (sys (w v ss)) = []" "sent_on s (w v ss) = []" "usb_out (sys (w v ss)) = []" for v s ss
    by (simp_all add: w_def sent_on_def idle_env_def)
  have p: "ib_pending c = [1, 2, 3, 4]" by (simp add: c_def ib_pending_def idle_conn_def)
  have l: "length (ib_pending c) = 4" "has_bits POLLOUT (conn_events c)"
    by (simp add: p) (simp add: c_def POLLOUT_def has_bits_def)
  have fs: "flush_size (w v ss) c (idle_client CLIENT_CONNECTED) = flushed ss 4" for v ss
    using l by (simp add: flush_size_def) (simp add: w_def idle_env_def idle_client_def)
  have a: "case teardown 40 (w d [2, 1, 0]) of
         Inl h \<Rightarrow> h = ProcessExit
       | Inr (_, w') \<Rightarrow> transmitted 30 (segment d c TH_RST []) (w d [2, 1, 0]) w' \<and> conn_heap w' 40 = None \<and>
           client_heap w' 20 = None \<and> closed_socks (sys w') = [7] \<and> sent_on 7 w' = [1, 2, 3]"
    using teardown_closes [OF e [of MUXDEV_ACTIVE "[2, 1, 0]", folded d_def]] r s p fs
    by (auto split: sum.splits)
  have b: "\<exists>w'. teardown 40 (w (idle_device MUXDEV_DEAD [40]) [2]) = Inr ((), w') \<and> usb_out (sys w') = [] \<and>
         sent_on 7 w' = [1, 2, 3, 4]"
    using teardown_closes [OF e [of MUXDEV_DEAD "[2]"]] r s p fs
    by (auto split: sum.splits)
  from a b show ?thesis unfolding Let_def d_def w_def c_def by simp
qed

end
