(* ===== verification/Windows_Util.thy ===== *)
theory Windows_Util
  imports Base
begin

text \<open>
  The helpers of WindowsUtil.cpp: an access descriptor that allows everything, kernel objects created with it,
  shared memory, unique names, process privileges, and the conversion between FILETIME and time_t.

  The kernel is a record of what is allocated: blocks of \<open>LocalAlloc\<close> and of the RPC runtime, open handles, mapped
  views. Whether a call succeeds is read from a script (an exhausted script succeeds); addresses and handles are
  given out in increasing order.
\<close>

datatype handle = NULL_HANDLE | INVALID_HANDLE_VALUE | Handle nat

datatype object_kind = Mutex bool | Event bool bool | Mapping u32

text \<open>\<open>SECURITY_ATTRIBUTES\<close>; \<open>sizeof\<close> it is 24 on x64.\<close>

record security_attributes =
  sa_nLength :: u32
  sa_lpSecurityDescriptor :: "ptr option"
  sa_bInheritHandle :: bool

record kernel =
  k_oks :: "bool list"
  k_uuids :: "(u32 \<times> string option) list"
  k_adjusted :: "(bool \<times> u32) list"
  k_next :: nat
  k_mem :: "ptr list"
  k_handles :: "nat list"
  k_views :: "ptr list"
  k_objects :: "(object_kind \<times> string option \<times> ptr option) list"
  k_privileges :: "(handle \<times> string \<times> bool) list"

type_synonym 'a kact = "(kernel, 'a) prog"

definition IS_VALID_HANDLE :: "handle \<Rightarrow> bool" where
  "IS_VALID_HANDLE h \<longleftrightarrow> h \<noteq> NULL_HANDLE \<and> h \<noteq> INVALID_HANDLE_VALUE"

subsection \<open>The kernel\<close>

definition k_ok :: "bool kact" where
  "k_ok k = Inr (next_or True (k_oks k), k\<lparr>k_oks := tl (k_oks k)\<rparr>)"

definition k_fresh :: "nat kact" where
  "k_fresh = seq (gets k_next) (\<lambda>n. seq (modify (\<lambda>k. k\<lparr>k_next := Suc n\<rparr>)) (\<lambda>_. ret n))"

definition LocalAlloc :: "ptr option kact" where
  "LocalAlloc = seq k_ok (\<lambda>yes.
     if \<not> yes then ret None
     else seq k_fresh (\<lambda>p. seq (modify (\<lambda>k. k\<lparr>k_mem := p # k_mem k\<rparr>)) (\<lambda>_. ret (Some p))))"

definition LocalFree :: "ptr \<Rightarrow> unit kact" where
  "LocalFree p = seq (gets k_mem) (\<lambda>ps.
     if p \<notin> set ps then stop DoubleFree else modify (\<lambda>k. k\<lparr>k_mem := remove1 p ps\<rparr>))"

definition create_object :: "object_kind \<Rightarrow> string option \<Rightarrow> ptr option \<Rightarrow> handle kact" where
  "create_object kind name sd = seq k_ok (\<lambda>yes.
     if \<not> yes then ret NULL_HANDLE
     else seq k_fresh (\<lambda>h. seq (modify (\<lambda>k. k\<lparr>k_handles := h # k_handles k,
            k_objects := k_objects k @ [(kind, name, sd)]\<rparr>)) (\<lambda>_. ret (Handle h))))"

definition MapViewOfFile :: "ptr option kact" where
  "MapViewOfFile = seq k_ok (\<lambda>yes.
     if \<not> yes then ret None
     else seq k_fresh (\<lambda>p. seq (modify (\<lambda>k. k\<lparr>k_views := p # k_views k\<rparr>)) (\<lambda>_. ret (Some p))))"

definition UnmapViewOfFile :: "ptr \<Rightarrow> bool kact" where
  "UnmapViewOfFile p = seq k_ok (\<lambda>yes.
     if \<not> yes then ret False
     else seq (modify (\<lambda>k. k\<lparr>k_views := remove1 p (k_views k)\<rparr>)) (\<lambda>_. ret True))"

text \<open>\<open>SAFE_CLOSE_HANDLE\<close>: the handle afterwards.\<close>

definition safe_close :: "handle \<Rightarrow> handle kact" where
  "safe_close h = seq (case h of Handle n \<Rightarrow> modify (\<lambda>k. k\<lparr>k_handles := remove1 n (k_handles k)\<rparr>) | _ \<Rightarrow> ret ())
     (\<lambda>_. ret NULL_HANDLE)"

subsection \<open>Access for everyone\<close>

definition no_attributes :: security_attributes where
  "no_attributes = \<lparr>sa_nLength = 0, sa_lpSecurityDescriptor = None, sa_bInheritHandle = False\<rparr>"

text \<open>\<open>None\<close> is a null pointer to the attributes.\<close>

definition CreateNullSecurityAttributes :: "security_attributes option \<Rightarrow> (bool \<times> security_attributes option) kact" where
  "CreateNullSecurityAttributes attrs =
     (case attrs of
        None \<Rightarrow> ret (False, None)
      | Some a \<Rightarrow> seq LocalAlloc (\<lambda>r.
          case r of
            None \<Rightarrow> ret (False, Some a)
          | Some p \<Rightarrow>
              let cleanup = seq (LocalFree p) (\<lambda>_. ret (False, Some a)) in
              seq k_ok (\<lambda>initialized.
              if \<not> initialized then cleanup
              else seq k_ok (\<lambda>dacl.
              if \<not> dacl then cleanup
              else ret (True, Some \<lparr>sa_nLength = 24, sa_lpSecurityDescriptor = Some p, sa_bInheritHandle = False\<rparr>)))))"

definition FreeNullSecurityAttributes :: "security_attributes option \<Rightarrow> security_attributes option kact" where
  "FreeNullSecurityAttributes attrs =
     (case attrs of
        None \<Rightarrow> ret None
      | Some a \<Rightarrow> (case sa_lpSecurityDescriptor a of
            None \<Rightarrow> ret (Some a)
          | Some p \<Rightarrow> seq (LocalFree p) (\<lambda>_. ret (Some (a\<lparr>sa_lpSecurityDescriptor := None\<rparr>)))))"

text \<open>Creating an object with attributes of this kind, which are released again whatever the call returns.\<close>

definition create_all_access :: "object_kind \<Rightarrow> string \<Rightarrow> handle kact" where
  "create_all_access kind name = seq (CreateNullSecurityAttributes (Some no_attributes)) (\<lambda>(yes, attrs).
     if \<not> yes then ret NULL_HANDLE
     else seq (create_object kind (if name = [] then None else Some name) (Option.bind attrs sa_lpSecurityDescriptor)) (\<lambda>h.
          seq (FreeNullSecurityAttributes attrs) (\<lambda>_. ret h)))"

definition CreateMutexAllAccess :: "string \<Rightarrow> bool \<Rightarrow> handle kact" where
  "CreateMutexAllAccess name initial_owner = create_all_access (Mutex initial_owner) name"

definition CreateEventAllAccess :: "string \<Rightarrow> bool \<Rightarrow> bool \<Rightarrow> handle kact" where
  "CreateEventAllAccess name manual_reset initial_state = create_all_access (Event manual_reset initial_state) name"

subsection \<open>Shared memory\<close>

record shared_memory =
  hFileMapping :: handle
  dwSize :: u32
  pvMappedBuffer :: "ptr option"

definition no_shared_memory :: shared_memory where
  "no_shared_memory = \<lparr>hFileMapping = NULL_HANDLE, dwSize = 0, pvMappedBuffer = None\<rparr>"

text \<open>The attributes are made and released, but the mapping is created without them.\<close>

definition CreateSharedMemory :: "string \<Rightarrow> u32 \<Rightarrow> shared_memory option \<Rightarrow> (bool \<times> shared_memory option) kact" where
  "CreateSharedMemory name sz mem =
     (case mem of
        None \<Rightarrow> ret (False, None)
      | Some m \<Rightarrow> seq (CreateNullSecurityAttributes (Some no_attributes)) (\<lambda>(yes, attrs).
          if \<not> yes then ret (False, Some m)
          else seq (create_object (Mapping sz) (Some name) None) (\<lambda>h.
            seq (FreeNullSecurityAttributes attrs) (\<lambda>_.
            if \<not> IS_VALID_HANDLE h then ret (False, Some m)
            else seq MapViewOfFile (\<lambda>v.
              if v = None then seq (safe_close h) (\<lambda>_. ret (False, Some m))
              else ret (True, Some \<lparr>hFileMapping = h, dwSize = sz, pvMappedBuffer = v\<rparr>))))))"

definition CloseSharedMemory :: "shared_memory option \<Rightarrow> (bool \<times> shared_memory option) kact" where
  "CloseSharedMemory mem =
     (case mem of
        None \<Rightarrow> ret (False, None)
      | Some m \<Rightarrow>
          seq (case pvMappedBuffer m of None \<Rightarrow> ret True | Some p \<Rightarrow> UnmapViewOfFile p) (\<lambda>unmapped.
          if \<not> unmapped then ret (False, Some m)
          else seq (safe_close (hFileMapping m)) (\<lambda>h. ret (True, Some (m\<lparr>hFileMapping := h\<rparr>)))))"

subsection \<open>Unique names\<close>

definition RPC_S_OK :: u32 where "RPC_S_OK = 0"
definition RPC_S_UUID_LOCAL_ONLY :: u32 where "RPC_S_UUID_LOCAL_ONLY = 1824"

text \<open>
  A format is the text before and after its \<open>%s\<close>. The script gives the status of \<open>UuidCreate\<close> and the text of
  \<open>UuidToStringA\<close>, which lives in memory of the RPC runtime.
\<close>

definition CreateUuidStringWithFormat :: "(string \<times> string) option \<Rightarrow> string \<Rightarrow> (bool \<times> string) kact" where
  "CreateUuidStringWithFormat format out =
     seq (gets (\<lambda>k. next_or (RPC_S_OK, Some []) (k_uuids k))) (\<lambda>(status, text).
     seq (modify (\<lambda>k. k\<lparr>k_uuids := tl (k_uuids k)\<rparr>)) (\<lambda>_.
     if status \<noteq> RPC_S_OK \<and> status \<noteq> RPC_S_UUID_LOCAL_ONLY then ret (False, out)
     else case text of
       None \<Rightarrow> ret (False, out)
     | Some s \<Rightarrow>
         seq k_fresh (\<lambda>p. seq (modify (\<lambda>k. k\<lparr>k_mem := p # k_mem k\<rparr>)) (\<lambda>_.
         let out = (case format of Some (before, after) \<Rightarrow> before @ s @ after | None \<Rightarrow> s) in
         seq (LocalFree p) (\<lambda>_. ret (True, out))))))"

definition CreateUuidString :: "string \<Rightarrow> (bool \<times> string) kact" where
  "CreateUuidString out = CreateUuidStringWithFormat None out"

definition GLOBAL_UNIQUE_NAME_FORMAT :: "string \<times> string" where
  "GLOBAL_UNIQUE_NAME_FORMAT = (''Global'' @ [CHR 0x5C] @ ''MCE_OBJECT_{'', ''}'')"

definition LOCAL_UNIQUE_NAME_FORMAT :: "string \<times> string" where
  "LOCAL_UNIQUE_NAME_FORMAT = (''MCE_OBJECT_{'', ''}'')"

text \<open>A failure is not reported: the name stays empty.\<close>

definition CreateUniqueObjectName :: "bool \<Rightarrow> string kact" where
  "CreateUniqueObjectName in_global =
     seq (CreateUuidStringWithFormat (Some (if in_global then GLOBAL_UNIQUE_NAME_FORMAT else LOCAL_UNIQUE_NAME_FORMAT)) [])
       (\<lambda>(_, name). ret name)"

subsection \<open>Privileges\<close>

definition SE_DEBUG_NAME :: string where "SE_DEBUG_NAME = ''SeDebugPrivilege''"

text \<open>
  \<open>AdjustTokenPrivileges\<close> can return success although it did not assign the privilege; the last error tells. The
  script gives what it returns and the last error it leaves.
\<close>

definition SetProcessPrivilege :: "handle \<Rightarrow> string \<Rightarrow> bool \<Rightarrow> bool kact" where
  "SetProcessPrivilege token privilege enable = seq k_ok (\<lambda>known.
     if \<not> known then ret False
     else seq (gets (\<lambda>k. next_or (True, 0) (k_adjusted k))) (\<lambda>(yes, err).
       seq (modify (\<lambda>k. k\<lparr>k_adjusted := tl (k_adjusted k)\<rparr>)) (\<lambda>_.
       if \<not> yes then ret False
       else if err \<noteq> 0 then ret False
       else seq (modify (\<lambda>k. k\<lparr>k_privileges := k_privileges k @ [(token, privilege, enable)]\<rparr>)) (\<lambda>_. ret True))))"

definition EnableDebugPrivilege :: "bool kact" where
  "EnableDebugPrivilege = seq k_ok (\<lambda>opened.
     if \<not> opened then ret False
     else seq k_fresh (\<lambda>h. seq (modify (\<lambda>k. k\<lparr>k_handles := h # k_handles k\<rparr>)) (\<lambda>_.
       seq (SetProcessPrivilege (Handle h) SE_DEBUG_NAME True) (\<lambda>r.
       seq (modify (\<lambda>k. k\<lparr>k_handles := remove1 h (k_handles k)\<rparr>)) (\<lambda>_. ret r)))))"

subsection \<open>The last error\<close>

text \<open>
  \<open>CMceLastErrorProtector\<close>: the object is the saved value; its destructor writes it back. The getter and setter of
  a hooked API can be given, otherwise those of the system are used.
\<close>

record error_protector =
  m_dwPreviousLastError :: u32
  m_pSetLastError :: "(u32 \<Rightarrow> u32) option"

definition protect_last_error :: "(u32 \<Rightarrow> u32) option \<Rightarrow> (u32 \<Rightarrow> u32) option \<Rightarrow> u32 \<Rightarrow> error_protector" where
  "protect_last_error getter setter err =
     \<lparr>m_dwPreviousLastError = (case getter of Some g \<Rightarrow> g err | None \<Rightarrow> err), m_pSetLastError = setter\<rparr>"

definition unprotect_last_error :: "error_protector \<Rightarrow> u32 \<Rightarrow> u32" where
  "unprotect_last_error p err =
     (case m_pSetLastError p of Some f \<Rightarrow> f (m_dwPreviousLastError p) | None \<Rightarrow> m_dwPreviousLastError p)"

definition protector_SetLastError :: "u32 \<Rightarrow> error_protector \<Rightarrow> error_protector" where
  "protector_SetLastError le p = p\<lparr>m_dwPreviousLastError := le\<rparr>"

subsection \<open>Time\<close>

text \<open>
  A FILETIME counts intervals of 100 ns since 1601 in two words, a time_t seconds since 1970 in a signed word; the
  arithmetic is that of unsigned 64-bit integers.
\<close>

record filetime =
  dwLowDateTime :: u32
  dwHighDateTime :: u32

definition quad_part :: "filetime \<Rightarrow> u64" where
  "quad_part ft = push_bit 32 (ucast (dwHighDateTime ft)) OR ucast (dwLowDateTime ft)"

definition FileTimeToTimeT :: "filetime \<Rightarrow> u64" where
  "FileTimeToTimeT ft = quad_part ft div 10000000 - 11644473600"

definition TimeTtoFileTime :: "u64 \<Rightarrow> filetime" where
  "TimeTtoFileTime tt = (let q = (tt + 11644473600) * 10000000 in
     \<lparr>dwLowDateTime = ucast q, dwHighDateTime = ucast (drop_bit 32 q)\<rparr>)"

subsection \<open>Time there and back\<close>

lemma quad_part_split: "quad_part \<lparr>dwLowDateTime = ucast q, dwHighDateTime = ucast (drop_bit 32 q)\<rparr> = q"
  by (rule bit_word_eqI) (auto simp: quad_part_def bit_simps)

lemma TimeTtoFileTime_quad: "quad_part (TimeTtoFileTime tt) = (tt + 11644473600) * 10000000"
  by (simp add: TimeTtoFileTime_def Let_def quad_part_split)

lemma div_mult_small:
  assumes "unat (s :: u64) < 1844674407371"
  shows "s * 10000000 div 10000000 = s"
proof -
  have ten: "unat (10000000 :: u64) = 10000000" by simp
  have "unat (s * 10000000) = unat s * 10000000"
    using unat_mult_lem [of s 10000000] assms unfolding ten by simp
  then have "unat (s * 10000000 div 10000000) = unat s" by (simp add: unat_div)
  then show ?thesis by (simp only: word_unat_eq_iff)
qed

text \<open>
  A time_t converted to a FILETIME and back is the same time, for every time from 1601, which is before 1970 and
  negative, to the last that a FILETIME can express.
\<close>

theorem time_t_round_trip:
  assumes "- 11644473600 \<le> sint t" "sint t < 1833029933771"
  shows "FileTimeToTimeT (TimeTtoFileTime t) = t"
proof -
  let ?s = "t + 11644473600"
  have "word_of_int (sint t + 11644473600) = ?s" by (simp flip: of_int_add add: wi_hom_add [symmetric])
  then have "uint ?s = uint (word_of_int (sint t + 11644473600) :: u64)" by simp
  also have "\<dots> = (sint t + 11644473600) mod 2 ^ LENGTH(64)" by (rule uint_word_of_int)
  also have "\<dots> = sint t + 11644473600"
  proof (rule mod_pos_pos_trivial)
    show "0 \<le> sint t + 11644473600" using assms(1) by linarith
    have "sint t + 11644473600 < 18446744073709551616" using assms(2) by linarith
    then show "sint t + 11644473600 < 2 ^ LENGTH(64)" by simp
  qed
  finally have u: "uint ?s = sint t + 11644473600" .
  have "nat (uint ?s) < 1844674407371" unfolding u using assms(2) by linarith
  then have "unat ?s < 1844674407371" by (simp only: unat_eq_nat_uint)
  from div_mult_small [OF this] show ?thesis by (simp add: FileTimeToTimeT_def TimeTtoFileTime_quad)
qed

text \<open>
  A FILETIME converted to a time_t and back is the same time with the fraction of the second cut off, whatever
  the FILETIME.
\<close>

theorem filetime_truncated:
  "quad_part (TimeTtoFileTime (FileTimeToTimeT ft)) = quad_part ft - quad_part ft mod 10000000"
proof -
  let ?q = "quad_part ft"
  have "?q div 10000000 * 10000000 = ?q - ?q mod 10000000" by (simp add: minus_mod_eq_div_mult)
  then show ?thesis by (simp add: TimeTtoFileTime_quad FileTimeToTimeT_def)
qed

theorem time_t_round_trip_witness: "FileTimeToTimeT (TimeTtoFileTime 1500000000) = 1500000000"
  by (rule time_t_round_trip) simp_all

subsection \<open>What the helpers leave behind\<close>

lemma all_access_run:
  "\<exists>yes attrs k'. CreateNullSecurityAttributes (Some a) k = Inr ((yes, attrs), k') \<and>
     k_handles k' = k_handles k \<and> k_views k' = k_views k \<and> k_objects k' = k_objects k \<and>
     (if yes then \<exists>p b. attrs = Some b \<and> sa_lpSecurityDescriptor b = Some p \<and> k_mem k' = p # k_mem k
      else k_mem k' = k_mem k)"
  by (cases "k_oks k"; cases "tl (k_oks k)"; cases "tl (tl (k_oks k))")
     (auto simp: CreateNullSecurityAttributes_def LocalAlloc_def LocalFree_def k_ok_def k_fresh_def next_or_def seq_def Let_def
       split: bool.splits)

lemma create_object_run:
  "\<exists>h k'. create_object kind name sd k = Inr (h, k') \<and> k_mem k' = k_mem k \<and>
     (if IS_VALID_HANDLE h then \<exists>n. h = Handle n \<and> k_handles k' = n # k_handles k \<and>
         k_objects k' = k_objects k @ [(kind, name, sd)]
       else h = NULL_HANDLE \<and> k_handles k' = k_handles k \<and> k_objects k' = k_objects k)"
  by (cases "next_or True (k_oks k)")
     (simp_all add: create_object_def k_ok_def k_fresh_def IS_VALID_HANDLE_def seq_def)

text \<open>
  An attempt to make shared memory has no lasting effect when it fails; when it succeeds there is exactly one
  more handle and one more view, those in the result, and closing it, when the view can be unmapped, takes both away.
  The access descriptor made on the way is always released.
\<close>

theorem shared_memory_balanced:
  "\<exists>yes mem k'. CreateSharedMemory name sz (Some m) k = Inr ((yes, mem), k') \<and> k_mem k' = k_mem k \<and>
     (if yes
      then \<exists>h v. mem = Some \<lparr>hFileMapping = Handle h, dwSize = sz, pvMappedBuffer = Some v\<rparr> \<and>
        k_handles k' = h # k_handles k \<and> k_views k' = v # k_views k \<and>
        (\<exists>closed k''. CloseSharedMemory mem k' = Inr (closed, k'') \<and> k_mem k'' = k_mem k \<and>
           (fst closed = next_or True (k_oks k')) \<and>
           (if fst closed then k_handles k'' = k_handles k \<and> k_views k'' = k_views k
            else k_handles k'' = k_handles k' \<and> k_views k'' = k_views k'))
      else mem = Some m \<and> k_handles k' = k_handles k \<and> k_views k' = k_views k)"
proof -
  obtain yes attrs k1 where a: "CreateNullSecurityAttributes (Some no_attributes) k = Inr ((yes, attrs), k1)"
    "k_handles k1 = k_handles k" "k_views k1 = k_views k"
    "if yes then \<exists>p b. attrs = Some b \<and> sa_lpSecurityDescriptor b = Some p \<and> k_mem k1 = p # k_mem k
     else k_mem k1 = k_mem k"
    using all_access_run [of no_attributes k] by blast
  show ?thesis
  proof (cases yes)
    case False
    then show ?thesis using a by (intro exI [of _ False]) (simp add: CreateSharedMemory_def seq_Inr)
  next
    case True
    then obtain p b where b: "attrs = Some b" "sa_lpSecurityDescriptor b = Some p" "k_mem k1 = p # k_mem k"
      using a(4) by auto
    show ?thesis
      using a(1-3) b True
      by (cases "k_oks k1"; cases "tl (k_oks k1)")
         (auto simp: CreateSharedMemory_def seq_Inr create_object_def k_ok_def k_fresh_def next_or_def
          FreeNullSecurityAttributes_def LocalFree_def MapViewOfFile_def safe_close_def CloseSharedMemory_def
          UnmapViewOfFile_def IS_VALID_HANDLE_def seq_def split: list.splits)
  qed
qed

text \<open>
  Creating a mutex that everyone may use yields a new open handle of a mutex of that name with an access
  descriptor, or the null handle and no object; either way the descriptor is released.
\<close>

theorem mutex_all_access:
  "\<exists>h k'. CreateMutexAllAccess name own k = Inr (h, k') \<and> k_mem k' = k_mem k \<and>
     (if IS_VALID_HANDLE h
      then \<exists>n p. h = Handle n \<and> k_handles k' = n # k_handles k \<and>
        k_objects k' = k_objects k @ [(Mutex own, if name = [] then None else Some name, Some p)]
      else h = NULL_HANDLE \<and> k_handles k' = k_handles k \<and> k_objects k' = k_objects k)"
proof -
  obtain yes attrs k1 where a: "CreateNullSecurityAttributes (Some no_attributes) k = Inr ((yes, attrs), k1)"
    "k_handles k1 = k_handles k" "k_objects k1 = k_objects k"
    "if yes then \<exists>p b. attrs = Some b \<and> sa_lpSecurityDescriptor b = Some p \<and> k_mem k1 = p # k_mem k
     else k_mem k1 = k_mem k"
    using all_access_run [of no_attributes k] by blast
  show ?thesis
  proof (cases yes)
    case False
    then show ?thesis using a
      by (intro exI [of _ NULL_HANDLE]) (simp add: CreateMutexAllAccess_def create_all_access_def seq_Inr IS_VALID_HANDLE_def)
  next
    case True
    then obtain p b where b: "attrs = Some b" "sa_lpSecurityDescriptor b = Some p" "k_mem k1 = p # k_mem k"
      using a(4) by auto
    let ?name = "if name = [] then None else Some name"
    obtain h k2 where h: "create_object (Mutex own) ?name (Some p) k1 = Inr (h, k2)" "k_mem k2 = k_mem k1"
      "if IS_VALID_HANDLE h then \<exists>n. h = Handle n \<and> k_handles k2 = n # k_handles k1 \<and>
         k_objects k2 = k_objects k1 @ [(Mutex own, ?name, Some p)]
       else h = NULL_HANDLE \<and> k_handles k2 = k_handles k1 \<and> k_objects k2 = k_objects k1"
      using create_object_run by blast
    have "CreateMutexAllAccess name own k = Inr (h, k2\<lparr>k_mem := k_mem k\<rparr>)"
      using a(1) b h(1,2) True by (simp add: CreateMutexAllAccess_def create_all_access_def seq_Inr
          FreeNullSecurityAttributes_def LocalFree_def)
    then show ?thesis using h(3) a(2,3) by (intro exI [of _ h]) (auto split: if_splits)
  qed
qed

end
