(* ===== verification/Plugin_Client.thy ===== *)
theory Plugin_Client
  imports Base
begin

text \<open>
  The client of the transport plugin, usbmuxd_com_plugin_client.h: loading the library, resolving its entry points
  into a table of function pointers, and the wrappers that call through the table. The library is a parameter: what
  it exports under a name, as a function of its arguments and of its own state.
\<close>

definition COM_OK :: int where "COM_OK = 0"
definition COM_ERR_FATAL :: int where "COM_ERR_FATAL = -1"

datatype plugin_arg = Dword u32 | Byte u8 | Bool bool | Pointer ptr

type_synonym 's proc = "plugin_arg list \<Rightarrow> 's \<Rightarrow> int \<times> 's"
type_synonym 's library = "string \<Rightarrow> 's proc option"

text \<open>The global variables of the header; a null pointer is \<open>None\<close>.\<close>

record 's plugin_client =
  g_hPlugin :: "'s library option"
  cp_init :: "'s proc option"
  cp_deinit :: "'s proc option"
  cp_unregister_com_notification :: "'s proc option"
  cp_register_com_notification :: "'s proc option"
  cp_transfer :: "'s proc option"
  cp_get_transfer_result :: "'s proc option"
  cp_close :: "'s proc option"
  cp_open_by_name :: "'s proc option"
  cpg_get_device_descriptor :: "'s proc option"
  cp_get_ascii_string_descriptor :: "'s proc option"
  cp_get_configuration_descriptor :: "'s proc option"
  cp_select_configuration :: "'s proc option"
  cp_log :: "'s proc option"

definition com_plugin_client_init :: "'s library option \<Rightarrow> 's plugin_client \<Rightarrow> int \<times> 's plugin_client" where
  "com_plugin_client_init loaded t =
     (case loaded of
        None \<Rightarrow> (COM_ERR_FATAL, t\<lparr>g_hPlugin := None\<rparr>)
      | Some GetProcAddress \<Rightarrow> (COM_OK, t\<lparr>g_hPlugin := Some GetProcAddress,
          cp_init := GetProcAddress ''com_plugin_init'',
          cp_deinit := GetProcAddress ''com_plugin_deinit'',
          cp_unregister_com_notification := GetProcAddress ''com_plugin_unregister_com_notification'',
          cp_register_com_notification := GetProcAddress ''com_plugin_register_com_notification'',
          cp_transfer := GetProcAddress ''com_plugin_transfer'',
          cp_get_transfer_result := GetProcAddress ''com_plugin_get_transfer_result'',
          cp_close := GetProcAddress ''com_plugin_close'',
          cp_open_by_name := GetProcAddress ''com_plugin_open_by_name'',
          cpg_get_device_descriptor := GetProcAddress ''com_pluging_get_device_descriptor'',
          cp_get_ascii_string_descriptor := GetProcAddress ''com_plugin_get_ascii_string_descriptor'',
          cp_get_configuration_descriptor := GetProcAddress ''com_plugin_get_configuration_descriptor'',
          cp_select_configuration := GetProcAddress ''com_plugin_select_configuration'',
          cp_log := GetProcAddress ''com_plugin_log''\<rparr>))"

definition call_plugin :: "'s proc option \<Rightarrow> plugin_arg list \<Rightarrow> 's \<Rightarrow> int \<times> 's" where
  "call_plugin f args s = (case f of None \<Rightarrow> (COM_ERR_FATAL, s) | Some g \<Rightarrow> g args s)"

subsection \<open>The entry points\<close>

definition com_plugin_init :: "'s plugin_client \<Rightarrow> u32 \<Rightarrow> 's \<Rightarrow> int \<times> 's" where
  "com_plugin_init t hub_address s = call_plugin (cp_init t)
       [Dword hub_address] s"

definition com_plugin_deinit :: "'s plugin_client \<Rightarrow> 's \<Rightarrow> int \<times> 's" where
  "com_plugin_deinit t s = call_plugin (cp_deinit t)
       [] s"

definition com_plugin_unregister_com_notification :: "'s plugin_client \<Rightarrow> ptr \<Rightarrow> 's \<Rightarrow> int \<times> 's" where
  "com_plugin_unregister_com_notification t hCookie s = call_plugin (cp_unregister_com_notification t)
       [Pointer hCookie] s"

definition com_plugin_register_com_notification :: "'s plugin_client \<Rightarrow> ptr \<Rightarrow> ptr \<Rightarrow> ptr \<Rightarrow> 's \<Rightarrow> int \<times> 's" where
  "com_plugin_register_com_notification t pfnPortChange pContext phCookie s = call_plugin (cp_register_com_notification t)
       [Pointer pfnPortChange, Pointer pContext, Pointer phCookie] s"

definition com_plugin_transfer :: "'s plugin_client \<Rightarrow> ptr \<Rightarrow> bool \<Rightarrow> u8 \<Rightarrow> ptr \<Rightarrow> u32 \<Rightarrow> ptr \<Rightarrow> ptr \<Rightarrow> u32 \<Rightarrow> ptr \<Rightarrow> 's \<Rightarrow> int \<times> 's" where
  "com_plugin_transfer t pHandle bRead bEndPoint lpBuffer dwBytesToTransfer lpdwBytesTransferred lpSetupPacket dwTimeout lpOverlapped s = call_plugin (cp_transfer t)
       [Pointer pHandle, Bool bRead, Byte bEndPoint, Pointer lpBuffer, Dword dwBytesToTransfer, Pointer lpdwBytesTransferred,
        Pointer lpSetupPacket, Dword dwTimeout, Pointer lpOverlapped] s"

definition com_plugin_get_transfer_result :: "'s plugin_client \<Rightarrow> ptr \<Rightarrow> ptr \<Rightarrow> ptr \<Rightarrow> bool \<Rightarrow> 's \<Rightarrow> int \<times> 's" where
  "com_plugin_get_transfer_result t pHandle lpOverlapped lpNumberOfBytesTransferred bWait s = call_plugin (cp_get_transfer_result t)
       [Pointer pHandle, Pointer lpOverlapped, Pointer lpNumberOfBytesTransferred, Bool bWait] s"

definition com_plugin_close :: "'s plugin_client \<Rightarrow> ptr \<Rightarrow> 's \<Rightarrow> int \<times> 's" where
  "com_plugin_close t pHandle s = call_plugin (cp_close t)
       [Pointer pHandle] s"

definition com_plugin_open_by_name :: "'s plugin_client \<Rightarrow> ptr \<Rightarrow> ptr \<Rightarrow> 's \<Rightarrow> int \<times> 's" where
  "com_plugin_open_by_name t szPortName pOutHandle s = call_plugin (cp_open_by_name t)
       [Pointer szPortName, Pointer pOutHandle] s"

definition com_pluging_get_device_descriptor :: "'s plugin_client \<Rightarrow> ptr \<Rightarrow> ptr \<Rightarrow> 's \<Rightarrow> int \<times> 's" where
  "com_pluging_get_device_descriptor t pHandle pDeviceDescriptor s = call_plugin (cpg_get_device_descriptor t)
       [Pointer pHandle, Pointer pDeviceDescriptor] s"

definition com_plugin_get_ascii_string_descriptor :: "'s plugin_client \<Rightarrow> ptr \<Rightarrow> u8 \<Rightarrow> ptr \<Rightarrow> u32 \<Rightarrow> 's \<Rightarrow> int \<times> 's" where
  "com_plugin_get_ascii_string_descriptor t pHandle nStrIndex pszBuffer dwBufferSize s = call_plugin (cp_get_ascii_string_descriptor t)
       [Pointer pHandle, Byte nStrIndex, Pointer pszBuffer, Dword dwBufferSize] s"

definition com_plugin_get_configuration_descriptor :: "'s plugin_client \<Rightarrow> ptr \<Rightarrow> u8 \<Rightarrow> ptr \<Rightarrow> ptr \<Rightarrow> 's \<Rightarrow> int \<times> 's" where
  "com_plugin_get_configuration_descriptor t pHandle bConfiguration pConfiguration pdwConfigurationSize s = call_plugin (cp_get_configuration_descriptor t)
       [Pointer pHandle, Byte bConfiguration, Pointer pConfiguration, Pointer pdwConfigurationSize] s"

definition com_plugin_select_configuration :: "'s plugin_client \<Rightarrow> ptr \<Rightarrow> u32 \<Rightarrow> 's \<Rightarrow> int \<times> 's" where
  "com_plugin_select_configuration t pHandle dwConfiguration s = call_plugin (cp_select_configuration t)
       [Pointer pHandle, Dword dwConfiguration] s"

subsection \<open>What the wrappers do\<close>

lemmas wrappers = com_plugin_init_def
  com_plugin_deinit_def
  com_plugin_unregister_com_notification_def
  com_plugin_register_com_notification_def
  com_plugin_transfer_def
  com_plugin_get_transfer_result_def
  com_plugin_close_def
  com_plugin_open_by_name_def
  com_pluging_get_device_descriptor_def
  com_plugin_get_ascii_string_descriptor_def
  com_plugin_get_configuration_descriptor_def
  com_plugin_select_configuration_def

text \<open>
  After a successful load every entry point calls what the library exports under the name of that entry point, with
  the arguments in the order of the interface; a missing export is a fatal error that leaves the plugin alone.
\<close>

theorem wrappers_forward:
  fixes library :: "'s library"
  assumes "com_plugin_client_init (Some library) t0 = (r, t)"
  shows "r = COM_OK \<and>
     com_plugin_init t hub_address s = call_plugin (library ''com_plugin_init'')
       [Dword hub_address] s \<and>
     com_plugin_deinit t s = call_plugin (library ''com_plugin_deinit'')
       [] s \<and>
     com_plugin_unregister_com_notification t hCookie s = call_plugin (library ''com_plugin_unregister_com_notification'')
       [Pointer hCookie] s \<and>
     com_plugin_register_com_notification t pfnPortChange pContext phCookie s = call_plugin (library ''com_plugin_register_com_notification'')
       [Pointer pfnPortChange, Pointer pContext, Pointer phCookie] s \<and>
     com_plugin_transfer t pHandle bRead bEndPoint lpBuffer dwBytesToTransfer lpdwBytesTransferred lpSetupPacket dwTimeout lpOverlapped s = call_plugin (library ''com_plugin_transfer'')
       [Pointer pHandle, Bool bRead, Byte bEndPoint, Pointer lpBuffer, Dword dwBytesToTransfer, Pointer lpdwBytesTransferred,
        Pointer lpSetupPacket, Dword dwTimeout, Pointer lpOverlapped] s \<and>
     com_plugin_get_transfer_result t pHandle lpOverlapped lpNumberOfBytesTransferred bWait s = call_plugin (library ''com_plugin_get_transfer_result'')
       [Pointer pHandle, Pointer lpOverlapped, Pointer lpNumberOfBytesTransferred, Bool bWait] s \<and>
     com_plugin_close t pHandle s = call_plugin (library ''com_plugin_close'')
       [Pointer pHandle] s \<and>
     com_plugin_open_by_name t szPortName pOutHandle s = call_plugin (library ''com_plugin_open_by_name'')
       [Pointer szPortName, Pointer pOutHandle] s \<and>
     com_pluging_get_device_descriptor t pHandle pDeviceDescriptor s = call_plugin (library ''com_pluging_get_device_descriptor'')
       [Pointer pHandle, Pointer pDeviceDescriptor] s \<and>
     com_plugin_get_ascii_string_descriptor t pHandle nStrIndex pszBuffer dwBufferSize s = call_plugin (library ''com_plugin_get_ascii_string_descriptor'')
       [Pointer pHandle, Byte nStrIndex, Pointer pszBuffer, Dword dwBufferSize] s \<and>
     com_plugin_get_configuration_descriptor t pHandle bConfiguration pConfiguration pdwConfigurationSize s = call_plugin (library ''com_plugin_get_configuration_descriptor'')
       [Pointer pHandle, Byte bConfiguration, Pointer pConfiguration, Pointer pdwConfigurationSize] s \<and>
     com_plugin_select_configuration t pHandle dwConfiguration s = call_plugin (library ''com_plugin_select_configuration'')
       [Pointer pHandle, Dword dwConfiguration] s"
  using assms by (auto simp: com_plugin_client_init_def wrappers)

text \<open>Without the library, a table that was never filled answers every call with the fatal error.\<close>

definition empty_table :: "'s plugin_client" where
  "empty_table = \<lparr>g_hPlugin = None, cp_init = None, cp_deinit = None, cp_unregister_com_notification = None, cp_register_com_notification = None, cp_transfer = None, cp_get_transfer_result = None, cp_close = None, cp_open_by_name = None, cpg_get_device_descriptor = None, cp_get_ascii_string_descriptor = None, cp_get_configuration_descriptor = None, cp_select_configuration = None, cp_log = None\<rparr>"

theorem missing_library:
  "com_plugin_client_init None empty_table = (COM_ERR_FATAL, empty_table) \<and>
   com_plugin_init empty_table hub s = (COM_ERR_FATAL, s) \<and>
   com_plugin_open_by_name empty_table nm h s = (COM_ERR_FATAL, s)"
  by (simp add: com_plugin_client_init_def empty_table_def wrappers call_plugin_def)

end
